(* ===== verification/Prelude.thy ===== *)
theory Prelude
  imports Main "HOL-Library.Word"
begin

text \<open>
  Shared vocabulary of the development: the machine-integer types of the Go sources and
  the generic lemmas on lists and words that the component theories rely on. The collections declared here gather the facts that the
  component proofs hand to the simplifier.
\<close>

unbundle bit_operations_syntax

type_synonym u8 = "8 word"
type_synonym u16 = "16 word"
type_synonym u32 = "32 word"
type_synonym u64 = "64 word"
type_synonym u128 = "128 word"

named_theorems prefix_simps \<open>address and prefix arithmetic\<close>
named_theorems kernel_simps \<open>laws of the kernel maps\<close>

subsection \<open>Top bits of a word\<close>

definition top_bits :: "nat \<Rightarrow> 'a::len word \<Rightarrow> 'a word" where
  "top_bits n w = drop_bit (LENGTH('a) - n) w"

definition keep_top :: "nat \<Rightarrow> 'a::len word \<Rightarrow> 'a word" where
  "keep_top n w = push_bit (LENGTH('a) - n) (drop_bit (LENGTH('a) - n) w)"

lemma top_bits_0: "top_bits 0 w = 0"
  by (rule bit_word_eqI) (simp add: top_bits_def bit_drop_bit_eq bit_imp_le_length)

lemma drop_bit_push_drop [simp]:
  "drop_bit k (push_bit k (drop_bit k (w :: 'a::len word))) = drop_bit k w"
  by (rule bit_word_eqI) (auto simp: bit_simps dest: bit_imp_le_length)

lemma top_bits_keep_top [simp]: "top_bits n (keep_top n w) = top_bits n w"
  by (simp add: top_bits_def keep_top_def)

lemma top_bits_mono:
  fixes a b :: "'a::len word"
  assumes "m \<le> n" and "top_bits n a = top_bits n b"
  shows "top_bits m a = top_bits m b"
proof -
  have "top_bits m x = drop_bit (min n LENGTH('a) - min m LENGTH('a)) (top_bits n x)" for x :: "'a word"
    using assms(1) by (auto simp: top_bits_def min_def)
  then show ?thesis using assms(2) by simp
qed

lemma keep_top_eq_iff: "keep_top n a = keep_top n b \<longleftrightarrow> top_bits n a = top_bits n b"
  by (metis keep_top_def top_bits_def top_bits_keep_top)

lemma keep_top_keep_top [simp]: "m \<le> n \<Longrightarrow> keep_top m (keep_top n w) = keep_top m w"
  by (metis keep_top_eq_iff top_bits_keep_top top_bits_mono)

lemma unat_drop_bit_word: "unat (drop_bit k (w :: 'a::len word)) = unat w div 2 ^ k"
  by (metis drop_bit_eq_div unat_drop_bit_eq)

lemma unat_top_bits:
  fixes w :: "'a::len word"
  shows "unat (top_bits n w) = unat w div 2 ^ (LENGTH('a) - n)"
  by (simp only: top_bits_def unat_drop_bit_word)

lemma unat_keep_top:
  fixes w :: "'a::len word"
  shows "unat (keep_top n w) = unat w div 2 ^ (LENGTH('a) - n) * 2 ^ (LENGTH('a) - n)"
proof -
  have "unat w div 2 ^ (LENGTH('a) - n) * 2 ^ (LENGTH('a) - n) \<le> unat w"
    by (simp add: mult.commute)
  also have "unat w < 2 ^ LENGTH('a)" by simp
  finally have lt: "unat w div 2 ^ (LENGTH('a) - n) * 2 ^ (LENGTH('a) - n) < 2 ^ LENGTH('a)" .
  have "unat (keep_top n w) = take_bit LENGTH('a) (push_bit (LENGTH('a) - n) (unat (drop_bit (LENGTH('a) - n) w)))"
    by (simp only: keep_top_def unsigned_push_bit_eq)
  also have "\<dots> = (unat w div 2 ^ (LENGTH('a) - n) * 2 ^ (LENGTH('a) - n)) mod 2 ^ LENGTH('a)"
    by (simp only: unat_drop_bit_word push_bit_eq_mult take_bit_eq_mod)
  finally show ?thesis using lt by simp
qed

lemma keep_top_block:
  fixes w :: "'a::len word"
  assumes "keep_top n w = w"
  obtains q where "unat w = q * 2 ^ (LENGTH('a) - n)"
  using assms unat_keep_top by metis

lemma unat_less_power: "unat (w :: 'a::len word) < 2 ^ LENGTH('a)"
  by (rule unsigned_less)

subsection \<open>Lists and numbers\<close>

lemma replicate_numeral_Cons: "replicate (numeral k) x = x # replicate (pred_numeral k) x"
  by (simp add: numeral_eq_Suc)

lemma div_block_iff:
  fixes v w k :: nat
  assumes "v = q * 2 ^ k"
  shows "w div 2 ^ k = v div 2 ^ k \<longleftrightarrow> v \<le> w \<and> w < v + 2 ^ k"
proof -
  have "w div 2 ^ k = q \<longleftrightarrow> q * 2 ^ k \<le> w \<and> w < q * 2 ^ k + 2 ^ k"
    using div_nat_eqI [of "2 ^ k" q w] by (auto simp: algebra_simps dividend_less_times_div div_times_less_eq_dividend)
  then show ?thesis using assms by simp
qed

lemma block_le_power:
  fixes v :: nat
  assumes "v = q * 2 ^ k" and "v < 2 ^ n" and "k \<le> n"
  shows "v + 2 ^ k \<le> 2 ^ n"
proof -
  have "(2::nat) ^ n = 2 ^ (n - k) * 2 ^ k" using assms(3) by (simp flip: power_add)
  with assms(1,2) have "q * 2 ^ k < 2 ^ (n - k) * 2 ^ k" by simp
  then have "q < 2 ^ (n - k)" by simp
  then have "q + 1 \<le> 2 ^ (n - k)" by simp
  then have "(q + 1) * 2 ^ k \<le> 2 ^ (n - k) * 2 ^ k" by (rule mult_right_mono) simp
  also have "\<dots> = 2 ^ n" using assms(3) by (simp flip: power_add)
  finally show ?thesis using assms(1) by simp
qed

text \<open>Bitmaps of groups.\<close>

lemma and_nonzero_iff:
  fixes v w :: "'a::len word"
  shows "v AND w \<noteq> 0 \<longleftrightarrow> (\<exists>g. bit v g \<and> bit w g)"
  by (auto simp: bit_eq_iff bit_simps) (meson bit_imp_le_length)

definition or_list :: "'a::len word list \<Rightarrow> 'a word" where
  "or_list vs = foldl (OR) 0 vs"

lemma bit_foldl_or: "bit (foldl (OR) a vs) g \<longleftrightarrow> bit a g \<or> (\<exists>v \<in> set vs. bit v g)" for a :: "'a::len word"
  by (induction vs arbitrary: a) (auto simp: bit_simps)

lemma bit_or_list: "bit (or_list vs) g \<longleftrightarrow> (\<exists>v \<in> set vs. bit v g)"
  by (simp add: or_list_def bit_foldl_or)

lemma or_list_eqI: "(\<And>v g. v \<in> set vs \<Longrightarrow> bit v g \<Longrightarrow> \<exists>u \<in> set us. bit u g) \<Longrightarrow>
    (\<And>u g. u \<in> set us \<Longrightarrow> bit u g \<Longrightarrow> \<exists>v \<in> set vs. bit v g) \<Longrightarrow> or_list vs = or_list us"
  by (rule bit_eqI) (auto simp: bit_or_list)

end
