(* ===== verification/GoStd.thy ===== *)
theory GoStd
  imports Prelude "HOL-Library.Char_ord" "HOL-Library.List_Lexorder"
begin

text \<open>
  The parts of the Go standard library the sources call on strings and sorted slices:
  \<^verbatim>\<open>strings.Cut\<close>, \<^verbatim>\<open>strings.CutPrefix\<close>, \<^verbatim>\<open>strings.Split\<close>, \<^verbatim>\<open>strings.TrimSpace\<close>,
  \<^verbatim>\<open>strconv.ParseInt\<close>, \<^verbatim>\<open>strconv.ParseUint\<close>, decimal formatting, \<^verbatim>\<open>slices.SortFunc\<close>
  and \<^verbatim>\<open>slices.BinarySearchFunc\<close>, with their laws. A Go string is a list of bytes,
  here a list of characters; the sources only feed ASCII through these functions.
\<close>

subsection \<open>Cutting and splitting\<close>

fun cut :: "char \<Rightarrow> string \<Rightarrow> (string \<times> string) option" where
  "cut c [] = None"
| "cut c (x # xs) = (if x = c then Some ([], xs)
     else (case cut c xs of None \<Rightarrow> None | Some (a, b) \<Rightarrow> Some (x # a, b)))"

fun split_on :: "char \<Rightarrow> string \<Rightarrow> string list" where
  "split_on c [] = [[]]"
| "split_on c (x # xs) = (if x = c then [] # split_on c xs
     else (case split_on c xs of [] \<Rightarrow> [[x]] | y # ys \<Rightarrow> (x # y) # ys))"

fun join_with :: "char \<Rightarrow> string list \<Rightarrow> string" where
  "join_with c [] = []"
| "join_with c [x] = x"
| "join_with c (x # y # ys) = x @ c # join_with c (y # ys)"

fun cut_prefix :: "string \<Rightarrow> string \<Rightarrow> string option" where
  "cut_prefix [] s = Some s"
| "cut_prefix (p # ps) [] = None"
| "cut_prefix (p # ps) (x # xs) = (if p = x then cut_prefix ps xs else None)"

definition has_prefix :: "string \<Rightarrow> string \<Rightarrow> bool" where
  "has_prefix s p = (cut_prefix p s \<noteq> None)"

definition has_suffix :: "string \<Rightarrow> string \<Rightarrow> bool" where
  "has_suffix s p = (cut_prefix (rev p) (rev s) \<noteq> None)"

definition is_space :: "char \<Rightarrow> bool" where
  "is_space c = (c \<in> set [CHR 0x09, CHR 0x0A, CHR 0x0B, CHR 0x0C, CHR 0x0D, CHR '' ''])"

definition trim_space :: "string \<Rightarrow> string" where
  "trim_space s = rev (dropWhile is_space (rev (dropWhile is_space s)))"

lemma cut_append [simp]: "c \<notin> set a \<Longrightarrow> cut c (a @ c # b) = Some (a, b)"
  by (induction a) auto

lemma cut_SomeD: "cut c s = Some (a, b) \<Longrightarrow> s = a @ c # b \<and> c \<notin> set a"
  by (induction s arbitrary: a) (auto split: option.splits if_splits)

lemma cut_Some_iff: "cut c s = Some (a, b) \<longleftrightarrow> s = a @ c # b \<and> c \<notin> set a"
  by (auto dest: cut_SomeD)

lemma cut_None_iff: "cut c s = None \<longleftrightarrow> c \<notin> set s"
  by (induction s) (auto split: option.splits)

lemma cut_prefix_Some_iff [simp]: "cut_prefix p s = Some t \<longleftrightarrow> s = p @ t"
  by (induction p s rule: cut_prefix.induct) auto

lemma cut_prefix_append [simp]: "cut_prefix p (p @ t) = Some t"
  by simp

lemma has_prefix_iff: "has_prefix s p \<longleftrightarrow> (\<exists>t. s = p @ t)"
  by (auto simp: has_prefix_def)

lemma split_on_not_Nil [simp]: "split_on c s \<noteq> []"
  by (induction s) (auto split: list.splits)

lemma split_on_no_sep: "c \<notin> set s \<Longrightarrow> split_on c s = [s]"
  by (induction s) auto

lemma split_on_append: "c \<notin> set a \<Longrightarrow> split_on c (a @ c # b) = a # split_on c b"
  by (induction a) auto

lemma split_on_join:
  "xs \<noteq> [] \<Longrightarrow> (\<forall>x \<in> set xs. c \<notin> set x) \<Longrightarrow> split_on c (join_with c xs) = xs"
  by (induction c xs rule: join_with.induct) (auto simp: split_on_append split_on_no_sep)

lemma set_join_with: "set (join_with c xs) \<subseteq> insert c (\<Union>x \<in> set xs. set x)"
  by (induction c xs rule: join_with.induct) auto

subsection \<open>Decimal numbers\<close>

definition is_digit :: "char \<Rightarrow> bool" where
  "is_digit c = (48 \<le> (of_char c :: nat) \<and> (of_char c :: nat) \<le> 57)"

definition digit_val :: "char \<Rightarrow> nat" where
  "digit_val c = of_char c - 48"

definition digit_char :: "nat \<Rightarrow> char" where
  "digit_char d = char_of (48 + d)"

definition hex_char :: "nat \<Rightarrow> char" where
  "hex_char d = char_of (if d < 10 then 48 + d else 87 + d)"

fun itoa :: "nat \<Rightarrow> string" where
  "itoa n = (if n < 10 then [digit_char n] else itoa (n div 10) @ [digit_char (n mod 10)])"

declare itoa.simps [simp del]

definition parse_uint :: "nat \<Rightarrow> string \<Rightarrow> nat option" where
  "parse_uint bits s = (if s = [] \<or> \<not> list_all is_digit s then None
     else let n = foldl (\<lambda>a c. a * 10 + digit_val c) 0 s
          in if n < 2 ^ bits then Some n else None)"

definition parse_int :: "nat \<Rightarrow> string \<Rightarrow> int option" where
  "parse_int bits s =
     (case s of [] \<Rightarrow> None
      | c # cs \<Rightarrow>
        let (neg, ds) = (if c = CHR ''+'' then (False, cs)
                         else if c = CHR ''-'' then (True, cs) else (False, s))
        in (case parse_uint bits ds of None \<Rightarrow> None
            | Some un \<Rightarrow>
               if \<not> neg \<and> 2 ^ (bits - 1) \<le> un then None
               else if neg \<and> 2 ^ (bits - 1) < un then None
               else Some (if neg then - int un else int un)))"

lemma is_digit_digit_char [simp]: "d < 10 \<Longrightarrow> is_digit (digit_char d)"
  by (simp add: is_digit_def digit_char_def)

lemma digit_val_digit_char [simp]: "d < 10 \<Longrightarrow> digit_val (digit_char d) = d"
  by (simp add: digit_val_def digit_char_def)

lemma itoa_not_Nil [simp]: "itoa n \<noteq> []"
  by (subst itoa.simps) simp

lemma itoa_digits: "c \<in> set (itoa n) \<Longrightarrow> is_digit c"
proof (induction n rule: itoa.induct)
  case (1 n)
  show ?case
  proof (cases "n < 10")
    case True
    with "1.prems" show ?thesis by (simp add: itoa.simps)
  next
    case False
    with "1.prems" have "c \<in> set (itoa (n div 10)) \<or> c = digit_char (n mod 10)"
      by (subst (asm) itoa.simps) auto
    then show ?thesis using "1.IH" [OF False] by auto
  qed
qed

lemma itoa_value: "foldl (\<lambda>a c. a * 10 + digit_val c) 0 (itoa n) = n"
proof (induction n rule: itoa.induct)
  case (1 n)
  show ?case
  proof (cases "n < 10")
    case True
    then show ?thesis by (simp add: itoa.simps)
  next
    case False
    from "1.IH" [OF False] False show ?thesis by (simp add: itoa.simps [of n])
  qed
qed

lemma itoa_inject [simp]: "itoa m = itoa n \<longleftrightarrow> m = n"
  by (metis itoa_value)

lemma parse_uint_itoa: "n < 2 ^ bits \<Longrightarrow> parse_uint bits (itoa n) = Some n"
  by (auto simp: parse_uint_def itoa_value list_all_iff dest: itoa_digits)

lemma not_digit_special [simp]:
  "\<not> is_digit CHR ''+''" "\<not> is_digit CHR ''-''" "\<not> is_digit CHR ''.''" "\<not> is_digit CHR '';''"
  "\<not> is_digit CHR '',''" "\<not> is_digit CHR '':''" "\<not> is_digit CHR ''=''" "\<not> is_digit CHR ''v''"
  "\<not> is_digit CHR ''s''" "\<not> is_digit CHR ''/''"
  by (simp_all add: is_digit_def)

lemma itoa_no_special:
  "\<not> is_digit c \<Longrightarrow> c \<notin> set (itoa n)"
  using itoa_digits by blast

lemma parse_int_digits:
  assumes "list_all is_digit s" and "parse_uint bits s = Some n" and "n < 2 ^ (bits - 1)"
  shows "parse_int bits s = Some (int n)"
proof (cases s)
  case Nil
  with assms(2) show ?thesis by (simp add: parse_uint_def)
next
  case (Cons c cs)
  with assms(1) have "c \<noteq> CHR ''+''" "c \<noteq> CHR ''-''" by auto
  with Cons assms(2,3) show ?thesis by (simp add: parse_int_def not_le)
qed

lemma parse_int_itoa:
  assumes "n < 2 ^ (bits - 1)"
  shows "parse_int bits (itoa n) = Some (int n)"
proof (rule parse_int_digits)
  show "list_all is_digit (itoa n)" by (auto simp: list_all_iff dest: itoa_digits)
  have "(2::nat) ^ (bits - 1) \<le> 2 ^ bits" by (rule power_increasing) auto
  with assms have "n < 2 ^ bits" by (rule less_le_trans)
  then show "parse_uint bits (itoa n) = Some n" by (rule parse_uint_itoa)
qed (rule assms)

subsection \<open>Sorting and searching slices\<close>

text \<open>
  \<^verbatim>\<open>slices.SortFunc\<close> returns the elements in ascending order of the comparison; the
  comparisons of the sources are zero on equal elements only, so the order is determined.
\<close>

fun insert_cmp :: "('a \<Rightarrow> 'a \<Rightarrow> int) \<Rightarrow> 'a \<Rightarrow> 'a list \<Rightarrow> 'a list" where
  "insert_cmp cmp x [] = [x]"
| "insert_cmp cmp x (y # ys) = (if cmp x y \<le> 0 then x # y # ys else y # insert_cmp cmp x ys)"

definition sort_cmp :: "('a \<Rightarrow> 'a \<Rightarrow> int) \<Rightarrow> 'a list \<Rightarrow> 'a list" where
  "sort_cmp cmp xs = foldr (insert_cmp cmp) xs []"

lemma set_insert_cmp [simp]: "set (insert_cmp cmp x ys) = insert x (set ys)"
  by (induction ys) auto

lemma set_sort_cmp [simp]: "set (sort_cmp cmp xs) = set xs"
  unfolding sort_cmp_def by (induction xs) auto

lemma length_insert_cmp [simp]: "length (insert_cmp cmp x ys) = Suc (length ys)"
  by (induction ys) auto

lemma length_sort_cmp [simp]: "length (sort_cmp cmp xs) = length xs"
  unfolding sort_cmp_def by (induction xs) auto

lemma sorted_insert_cmp:
  assumes "\<And>a b. \<not> cmp a b \<le> 0 \<Longrightarrow> cmp b a \<le> (0::int)"
    and "\<And>a b c. cmp a b \<le> 0 \<Longrightarrow> cmp b c \<le> 0 \<Longrightarrow> cmp a c \<le> 0"
    and "sorted_wrt (\<lambda>a b. cmp a b \<le> 0) ys"
  shows "sorted_wrt (\<lambda>a b. cmp a b \<le> 0) (insert_cmp cmp x ys)"
  using assms(3)
proof (induction ys)
  case Nil
  then show ?case by simp
next
  case (Cons y ys)
  show ?case
  proof (cases "cmp x y \<le> 0")
    case True
    then have "\<forall>z \<in> set ys. cmp x z \<le> 0" using Cons.prems assms(2) [of x y] by simp
    with True Cons.prems show ?thesis by simp
  next
    case False
    then have "cmp y x \<le> 0" by (rule assms(1))
    with False Cons show ?thesis by simp
  qed
qed

lemma sorted_sort_cmp:
  assumes "\<And>a b. \<not> cmp a b \<le> 0 \<Longrightarrow> cmp b a \<le> (0::int)"
    and "\<And>a b c. cmp a b \<le> 0 \<Longrightarrow> cmp b c \<le> 0 \<Longrightarrow> cmp a c \<le> 0"
  shows "sorted_wrt (\<lambda>a b. cmp a b \<le> 0) (sort_cmp cmp xs)"
  unfolding sort_cmp_def
proof (induction xs)
  case (Cons x xs)
  show ?case using sorted_insert_cmp [of cmp, OF assms Cons.IH] by simp
qed simp

function bsearch :: "('e \<Rightarrow> int) \<Rightarrow> 'e list \<Rightarrow> nat \<Rightarrow> nat \<Rightarrow> nat" where
  "bsearch cmp xs i j = (if i < j then
     let h = (i + j) div 2 in
     if cmp (xs ! h) < 0 then bsearch cmp xs (h + 1) j else bsearch cmp xs i h
   else i)"
  by pat_completeness auto
termination
  by (relation "measure (\<lambda>(cmp, xs, i, j). j - i)") auto

declare bsearch.simps [simp del]

lemma bsearch_spec:
  assumes mono: "\<And>a b. a \<le> b \<Longrightarrow> b < length xs \<Longrightarrow> cmp (xs ! b) < 0 \<Longrightarrow> cmp (xs ! a) < 0"
    and "i \<le> j" "j \<le> length xs"
    and "\<And>k. k < i \<Longrightarrow> cmp (xs ! k) < 0"
    and "\<And>k. j \<le> k \<Longrightarrow> k < length xs \<Longrightarrow> \<not> cmp (xs ! k) < 0"
  shows "bsearch cmp xs i j \<le> length xs \<and> (\<forall>k < bsearch cmp xs i j. cmp (xs ! k) < 0) \<and>
    (\<forall>k. bsearch cmp xs i j \<le> k \<longrightarrow> k < length xs \<longrightarrow> \<not> cmp (xs ! k) < 0)"
  using assms
proof (induction cmp xs i j rule: bsearch.induct)
  case (1 cmp xs i j)
  define h where "h = (i + j) div 2"
  show ?case
  proof (cases "i < j")
    case False
    then have "bsearch cmp xs i j = i" by (simp add: bsearch.simps [of cmp xs i j])
    with "1.prems" False show ?thesis by auto
  next
    case lt: True
    then have h: "i \<le> h" "h < j" by (auto simp: h_def)
    show ?thesis
    proof (cases "cmp (xs ! h) < 0")
      case True
      have "\<And>k. k < h + 1 \<Longrightarrow> cmp (xs ! k) < 0"
        using "1.prems"(1) [of _ h] True h "1.prems"(3) by (simp add: less_Suc_eq_le)
      with "1.IH"(1) [OF lt h_def True] "1.prems" h
      show ?thesis by (simp add: bsearch.simps [of cmp xs i j] lt True flip: h_def)
    next
      case False
      have "\<And>k. h \<le> k \<Longrightarrow> k < length xs \<Longrightarrow> \<not> cmp (xs ! k) < 0"
        using "1.prems"(1) [of h] False by blast
      with "1.IH"(2) [OF lt h_def False] "1.prems" h
      show ?thesis by (simp add: bsearch.simps [of cmp xs i j] lt False flip: h_def)
    qed
  qed
qed

end
