(* ===== verification/Netip.thy ===== *)
theory Netip
  imports GoStd
begin

text \<open>
  A model of the Go packages \<^verbatim>\<open>net/netip\<close> and \<^verbatim>\<open>net\<close> as the sources use them: addresses
  with their family and zone, prefixes, parsing of addresses and CIDRs, byte-slice
  addresses (\<^verbatim>\<open>net.IP\<close>) and masks (\<^verbatim>\<open>net.IPMask\<close>). A byte array in network order of
  sixteen bytes is the 128-bit word it spells.
\<close>

subsection \<open>Addresses\<close>

datatype addr = AddrZero | Addr4 u32 | Addr6 u128 string

fun bit_len :: "addr \<Rightarrow> nat" where
  "bit_len AddrZero = 0"
| "bit_len (Addr4 w) = 32"
| "bit_len (Addr6 w z) = 128"

fun addr_val :: "addr \<Rightarrow> nat" where
  "addr_val AddrZero = 0"
| "addr_val (Addr4 w) = unat w"
| "addr_val (Addr6 w z) = unat w"

fun addr_zone :: "addr \<Rightarrow> string" where
  "addr_zone (Addr6 w z) = z"
| "addr_zone a = []"

definition is4 :: "addr \<Rightarrow> bool" where "is4 a = (bit_len a = 32)"
definition is6 :: "addr \<Rightarrow> bool" where "is6 a = (bit_len a = 128)"

fun is4in6 :: "addr \<Rightarrow> bool" where
  "is4in6 (Addr6 w z) = (drop_bit 32 w = 0xffff)"
| "is4in6 a = False"

definition unmap :: "addr \<Rightarrow> addr" where
  "unmap a = (case a of Addr6 w z \<Rightarrow> if is4in6 a then Addr4 (ucast w) else a | _ \<Rightarrow> a)"

fun without_zone :: "addr \<Rightarrow> addr" where
  "without_zone (Addr6 w z) = Addr6 w []"
| "without_zone a = a"

fun addr_next :: "addr \<Rightarrow> addr" where
  "addr_next AddrZero = AddrZero"
| "addr_next (Addr4 w) = (if w + 1 = 0 then AddrZero else Addr4 (w + 1))"
| "addr_next (Addr6 w z) = (if w + 1 = 0 then AddrZero else Addr6 (w + 1) z)"

definition addr_compare :: "addr \<Rightarrow> addr \<Rightarrow> int" where
  "addr_compare a b =
     (if bit_len a < bit_len b then -1 else if bit_len b < bit_len a then 1
      else if addr_val a < addr_val b then -1 else if addr_val b < addr_val a then 1
      else if addr_zone a < addr_zone b then -1 else if addr_zone b < addr_zone a then 1
      else 0)"

lemma addr_compare_zero_iff [simp]: "addr_compare a b = 0 \<longleftrightarrow> a = b"
  by (cases a; cases b) (auto simp: addr_compare_def word_unat_eq_iff)

subsection \<open>Prefixes\<close>

text \<open>The length is \<open>-1\<close> for an invalid prefix, as \<^verbatim>\<open>Prefix.Bits\<close> reports it.\<close>

datatype prefix = Prefix (paddr: addr) (pbits: int)

definition prefix_from :: "addr \<Rightarrow> int \<Rightarrow> prefix" where
  "prefix_from a n = Prefix (without_zone a)
     (if a \<noteq> AddrZero \<and> 0 \<le> n \<and> n \<le> int (bit_len a) then n else -1)"

definition prefix_valid :: "prefix \<Rightarrow> bool" where
  "prefix_valid p = (0 \<le> pbits p)"

fun mask_addr :: "nat \<Rightarrow> addr \<Rightarrow> addr" where
  "mask_addr n AddrZero = AddrZero"
| "mask_addr n (Addr4 w) = Addr4 (keep_top n w)"
| "mask_addr n (Addr6 w z) = Addr6 (keep_top n w) z"

definition masked :: "prefix \<Rightarrow> prefix" where
  "masked p = (if prefix_valid p
     then prefix_from (mask_addr (nat (pbits p)) (paddr p)) (pbits p)
     else Prefix AddrZero (-1))"

definition prefix_contains :: "prefix \<Rightarrow> addr \<Rightarrow> bool" where
  "prefix_contains p a = (prefix_valid p \<and> addr_zone a = [] \<and>
     (case (paddr p, a) of
        (Addr4 v, Addr4 w) \<Rightarrow> top_bits (nat (pbits p)) w = top_bits (nat (pbits p)) v
      | (Addr6 v z, Addr6 w z') \<Rightarrow> top_bits (nat (pbits p)) w = top_bits (nat (pbits p)) v
      | _ \<Rightarrow> False))"

subsection \<open>Parsing addresses\<close>

definition parse_octet :: "string \<Rightarrow> u8 option" where
  "parse_octet f = (if f = [] \<or> \<not> list_all is_digit f \<or> 1 < length f \<and> hd f = CHR ''0'' then None
     else let n = foldl (\<lambda>a c. a * 10 + digit_val c) 0 f in if 255 < n then None else Some (of_nat n))"

definition parse_ipv4_fields :: "string \<Rightarrow> u8 list option" where
  "parse_ipv4_fields s = (case map parse_octet (split_on CHR ''.'' s) of
       [Some a, Some b, Some c, Some d] \<Rightarrow> Some [a, b, c, d]
     | _ \<Rightarrow> None)"

definition hex_val :: "char \<Rightarrow> nat option" where
  "hex_val c = (let n = of_char c in
     if 48 \<le> n \<and> n \<le> 57 then Some (n - 48)
     else if 97 \<le> n \<and> n \<le> 102 then Some (n - 87)
     else if 65 \<le> n \<and> n \<le> 70 then Some (n - 55) else None)"

definition is_hex :: "char \<Rightarrow> bool" where "is_hex c = (hex_val c \<noteq> None)"

definition hex_num :: "string \<Rightarrow> nat" where
  "hex_num s = foldl (\<lambda>a c. a * 16 + (case hex_val c of Some d \<Rightarrow> d | None \<Rightarrow> 0)) 0 s"

definition be_nat :: "u8 list \<Rightarrow> nat" where
  "be_nat bs = foldl (\<lambda>a b. a * 256 + unat b) 0 bs"

definition be_bytes :: "nat \<Rightarrow> nat \<Rightarrow> u8 list" where
  "be_bytes n v = map (\<lambda>i. of_nat (v div 256 ^ (n - 1 - i) mod 256)) [0..<n]"

function parse6_loop :: "u8 list \<Rightarrow> nat option \<Rightarrow> string \<Rightarrow> (u8 list \<times> nat option \<times> string) option" where
  "parse6_loop ip ell s = (if 16 \<le> length ip then Some (ip, ell, s) else
     let ds = takeWhile is_hex s; rest = dropWhile is_hex s in
     if 4 < length ds \<or> ds = [] then None
     else if rest \<noteq> [] \<and> hd rest = CHR ''.'' then
       (if ell = None \<and> length ip \<noteq> 12 then None
        else if 16 < length ip + 4 then None
        else (case parse_ipv4_fields s of None \<Rightarrow> None | Some fs \<Rightarrow> Some (ip @ fs, ell, [])))
     else
       let ip' = ip @ be_bytes 2 (hex_num ds) in
       if rest = [] then Some (ip', ell, [])
       else if hd rest \<noteq> CHR '':'' \<or> tl rest = [] then None
       else let s1 = tl rest in
         if hd s1 = CHR '':'' then
           (if ell \<noteq> None then None
            else if tl s1 = [] then Some (ip', Some (length ip'), [])
            else parse6_loop ip' (Some (length ip')) (tl s1))
         else parse6_loop ip' ell s1)"
  by pat_completeness auto
termination
  by (relation "measure (\<lambda>(ip, ell, s). 16 - length ip)") (auto simp: be_bytes_def)

declare parse6_loop.simps [simp del]

definition parse_ipv6 :: "string \<Rightarrow> addr option" where
  "parse_ipv6 full =
     (let (s, zone, bad) = (case cut CHR ''%'' full of None \<Rightarrow> (full, [], False)
                            | Some (a, z) \<Rightarrow> (a, z, z = [])) in
      if bad then None
      else let lead = (take 2 s = [CHR '':'', CHR '':'']); s1 = (if lead then drop 2 s else s) in
      if lead \<and> s1 = [] then Some (Addr6 0 zone)
      else (case parse6_loop [] (if lead then Some 0 else None) s1 of
         None \<Rightarrow> None
       | Some (ip, ell, rest) \<Rightarrow>
           if rest \<noteq> [] then None
           else if length ip < 16 then
             (case ell of None \<Rightarrow> None
              | Some e \<Rightarrow> Some (Addr6 (of_nat (be_nat (take e ip @ replicate (16 - length ip) 0 @ drop e ip))) zone))
           else if ell \<noteq> None then None
           else Some (Addr6 (of_nat (be_nat ip)) zone)))"

definition parse_addr :: "string \<Rightarrow> addr option" where
  "parse_addr s = (case filter (\<lambda>c. c \<in> set [CHR ''.'', CHR '':'', CHR ''%'']) s of
       [] \<Rightarrow> None
     | c # _ \<Rightarrow> if c = CHR ''.''
         then map_option (\<lambda>bs. Addr4 (of_nat (be_nat bs))) (parse_ipv4_fields s)
         else if c = CHR '':'' then parse_ipv6 s else None)"

definition atoi_bits :: "string \<Rightarrow> nat option" where
  "atoi_bits s = (if 1 < length s \<and> (hd s = CHR ''0'' \<or> \<not> is_digit (hd s)) then None
     else parse_uint 63 s)"

definition parse_prefix :: "string \<Rightarrow> prefix option" where
  "parse_prefix s = (case cut CHR ''/'' (rev s) of
       None \<Rightarrow> None
     | Some (rbits, raddr) \<Rightarrow>
        (case parse_addr (rev raddr) of
           None \<Rightarrow> None
         | Some a \<Rightarrow> if is6 a \<and> addr_zone a \<noteq> [] then None
             else (case atoi_bits (rev rbits) of
                 None \<Rightarrow> None
               | Some n \<Rightarrow> if bit_len a < n then None else Some (prefix_from a (int n)))))"

subsection \<open>Byte-slice addresses and masks\<close>

type_synonym ip = "u8 list"

definition v4_in_v6_prefix :: "u8 list" where
  "v4_in_v6_prefix = replicate 10 0 @ [255, 255]"

definition ip_to4 :: "ip \<Rightarrow> ip option" where
  "ip_to4 p = (if length p = 4 then Some p
     else if length p = 16 \<and> take 12 p = v4_in_v6_prefix then Some (drop 12 p) else None)"

definition ip_to16 :: "ip \<Rightarrow> ip option" where
  "ip_to16 p = (if length p = 4 then Some (v4_in_v6_prefix @ p)
     else if length p = 16 then Some p else None)"

definition ip_equal :: "ip \<Rightarrow> ip \<Rightarrow> bool" where
  "ip_equal p q = (if length p = length q then p = q
     else if length p = 4 \<and> length q = 16 then take 12 q = v4_in_v6_prefix \<and> p = drop 12 q
     else if length p = 16 \<and> length q = 4 then take 12 p = v4_in_v6_prefix \<and> drop 12 p = q
     else False)"

definition addr_from_slice :: "ip \<Rightarrow> addr option" where
  "addr_from_slice p = (if length p = 4 then Some (Addr4 (of_nat (be_nat p)))
     else if length p = 16 then Some (Addr6 (of_nat (be_nat p)) []) else None)"

fun as_slice :: "addr \<Rightarrow> ip" where
  "as_slice AddrZero = []"
| "as_slice (Addr4 w) = be_bytes 4 (unat w)"
| "as_slice (Addr6 w z) = be_bytes 16 (unat w)"

fun as16 :: "addr \<Rightarrow> ip" where
  "as16 AddrZero = replicate 16 0"
| "as16 (Addr4 w) = v4_in_v6_prefix @ be_bytes 4 (unat w)"
| "as16 (Addr6 w z) = be_bytes 16 (unat w)"

definition parse_ip :: "string \<Rightarrow> ip option" where
  "parse_ip s = (case parse_addr s of None \<Rightarrow> None
     | Some a \<Rightarrow> if addr_zone a \<noteq> [] then None else Some (as16 a))"

definition cidr_mask :: "nat \<Rightarrow> nat \<Rightarrow> u8 list" where
  "cidr_mask ones n = map (\<lambda>i. if 8 * (i + 1) \<le> ones then 255
     else if ones \<le> 8 * i then 0 else push_bit (8 - (ones - 8 * i)) 255) [0..<n]"

definition mask_size :: "u8 list \<Rightarrow> nat \<times> nat" where
  "mask_size m = (case filter (\<lambda>n. cidr_mask n (length m) = m) [0..<8 * length m + 1] of
     [] \<Rightarrow> (0, 0) | n # _ \<Rightarrow> (n, 8 * length m))"

definition ip_mask :: "ip \<Rightarrow> u8 list \<Rightarrow> ip option" where
  "ip_mask p m =
     (let m' = (if length m = 16 \<and> length p = 4 \<and> take 12 m = replicate 12 255 then drop 12 m else m);
          p' = (if length m' = 4 \<and> length p = 16 \<and> take 12 p = v4_in_v6_prefix then drop 12 p else p)
      in if length p' \<noteq> length m' then None else Some (map2 (AND) p' m'))"

record ipnet =
  net_ip :: ip
  net_mask :: "u8 list"

definition parse_cidr :: "string \<Rightarrow> (ip \<times> ipnet) option" where
  "parse_cidr s = (case cut CHR ''/'' s of
       None \<Rightarrow> None
     | Some (astr, mstr) \<Rightarrow>
        (case parse_addr astr of
           None \<Rightarrow> None
         | Some a \<Rightarrow> if addr_zone a \<noteq> [] then None
             else if mstr = [] \<or> \<not> list_all is_digit mstr then None
             else let n = foldl (\<lambda>v c. v * 10 + digit_val c) 0 mstr in
               if bit_len a < n then None
               else let m = cidr_mask n (bit_len a div 8) in
                 (case ip_mask (as16 a) m of
                    None \<Rightarrow> None
                  | Some b \<Rightarrow> Some (as16 a, \<lparr>net_ip = b, net_mask = m\<rparr>))))"

subsection \<open>Byte strings as numbers\<close>

lemma length_be_bytes [simp]: "length (be_bytes n v) = n"
  by (simp add: be_bytes_def)

lemma be_nat_Nil [simp]: "be_nat [] = 0"
  by (simp add: be_nat_def)

lemma be_nat_snoc [simp]: "be_nat (bs @ [b]) = be_nat bs * 256 + unat b"
  by (simp add: be_nat_def)

lemma be_bytes_Suc: "be_bytes (Suc n) v = be_bytes n (v div 256) @ [of_nat (v mod 256)]"
proof -
  have "v div 256 ^ (n - i) = v div 256 div 256 ^ (n - 1 - i)" if "i < n" for i
    using that by (metis Suc_diff_Suc Suc_eq_plus1 add_diff_cancel_left' diff_Suc_eq_diff_pred div_mult2_eq
        mult.commute plus_1_eq_Suc power_Suc2)
  then show ?thesis by (simp add: be_bytes_def)
qed

lemma be_nat_append: "be_nat (as @ bs) = be_nat as * 256 ^ length bs + be_nat bs"
proof (induction bs rule: rev_induct)
  case (snoc b bs)
  then have "be_nat ((as @ bs) @ [b]) = (be_nat as * 256 ^ length bs + be_nat bs) * 256 + unat b"
    by (simp only: be_nat_snoc)
  then show ?case by (simp add: algebra_simps)
qed simp

lemma be_nat_less: "be_nat bs < 256 ^ length bs"
proof (induction bs rule: rev_induct)
  case (snoc b bs)
  have "unat b < 256" using unat_less_power [of b] by simp
  with snoc have "be_nat bs * 256 + unat b < (be_nat bs + 1) * 256" by simp
  also have "\<dots> \<le> 256 ^ length bs * 256" using snoc by (intro mult_right_mono) auto
  finally show ?case by (simp add: mult.commute)
qed simp

lemma be_nat_be_bytes: "be_nat (be_bytes n v) = v mod 256 ^ n"
proof (induction n arbitrary: v)
  case 0
  then show ?case by (simp add: be_bytes_def)
next
  case (Suc n)
  have "unat (of_nat (v mod 256) :: u8) = v mod 256" by (simp add: unat_of_nat)
  moreover have "v div 256 mod 256 ^ n * 256 + v mod 256 = v mod 256 ^ Suc n"
    by (simp add: mod_mult2_eq mult.commute)
  ultimately show ?case by (simp add: be_bytes_Suc Suc.IH)
qed

lemma be_bytes_be_nat: "be_bytes (length bs) (be_nat bs) = bs"
proof (induction bs rule: rev_induct)
  case (snoc b bs)
  have "unat b < 256" using unat_less_power [of b] by simp
  then have "(be_nat bs * 256 + unat b) div 256 = be_nat bs" "(be_nat bs * 256 + unat b) mod 256 = unat b"
    by auto
  with snoc show ?case by (simp add: be_bytes_Suc)
qed (simp add: be_bytes_def)

lemma be_bytes_add: "be_bytes (m + n) v = be_bytes m (v div 256 ^ n) @ be_bytes n v"
proof (induction n arbitrary: v)
  case 0
  then show ?case by (simp add: be_bytes_def)
next
  case (Suc n)
  then show ?case by (simp add: be_bytes_Suc div_mult2_eq)
qed

lemma be_bytes_eq_iff: "be_bytes n u = be_bytes n v \<longleftrightarrow> u mod 256 ^ n = v mod 256 ^ n"
proof
  assume "u mod 256 ^ n = v mod 256 ^ n"
  then have "be_bytes n (be_nat (be_bytes n u)) = be_bytes n (be_nat (be_bytes n v))"
    by (simp add: be_nat_be_bytes)
  then show "be_bytes n u = be_bytes n v"
    using be_bytes_be_nat [of "be_bytes n u"] be_bytes_be_nat [of "be_bytes n v"] by simp
qed (metis be_nat_be_bytes)

lemma v4_in_v6_prefix_bytes: "v4_in_v6_prefix = be_bytes 12 0xffff"
  by (simp add: v4_in_v6_prefix_def be_bytes_def upt_rec replicate_numeral_Cons)

lemma length_v4_in_v6_prefix [simp]: "length v4_in_v6_prefix = 12"
  by (simp add: v4_in_v6_prefix_def)

lemma take_as16_mapped:
  fixes w :: u128
  shows "take 12 (be_bytes 16 (unat w)) = v4_in_v6_prefix \<longleftrightarrow> drop_bit 32 w = 0xffff"
proof -
  have "be_bytes 16 (unat w) = be_bytes 12 (unat w div 2 ^ 32) @ be_bytes 4 (unat w)"
    using be_bytes_add [of 12 4 "unat w"] by simp
  then have "take 12 (be_bytes 16 (unat w)) = v4_in_v6_prefix \<longleftrightarrow> unat w div 2 ^ 32 mod 256 ^ 12 = 65535"
    by (simp add: v4_in_v6_prefix_bytes be_bytes_eq_iff)
  moreover have "unat w div 2 ^ 32 < 256 ^ 12"
    using unat_less_power [of w] by (simp add: less_mult_imp_div_less)
  ultimately show ?thesis by (simp add: word_unat_eq_iff unat_drop_bit_word)
qed

lemma addr_from_slice_as_slice: "a \<noteq> AddrZero \<Longrightarrow> addr_from_slice (as_slice a) = Some (without_zone a)"
proof (cases a)
  case (Addr4 w)
  then show ?thesis using unat_less_power [of w] by (simp add: addr_from_slice_def be_nat_be_bytes)
next
  case (Addr6 w z)
  then show ?thesis using unat_less_power [of w] by (simp add: addr_from_slice_def be_nat_be_bytes)
qed simp

subsection \<open>Shape of parsed addresses\<close>

lemma parse_ipv6_shape: "parse_ipv6 s = Some a \<Longrightarrow> \<exists>w z. a = Addr6 w z"
  unfolding parse_ipv6_def Let_def
  by (simp only: split: option.split_asm prod.split_asm if_split_asm) auto

lemma parse_addr_shape: "parse_addr s = Some a \<Longrightarrow> a \<noteq> AddrZero"
  unfolding parse_addr_def
  by (auto split: list.split_asm if_split_asm dest: parse_ipv6_shape)

subsection \<open>Prefixes as intervals\<close>

text \<open>
  A masked prefix is an interval of address keys; the key orders the addresses as
  \<^verbatim>\<open>Addr.Compare\<close> does, the family first.
\<close>

definition wf_prefix :: "prefix \<Rightarrow> bool" where
  "wf_prefix p = (paddr p \<noteq> AddrZero \<and> addr_zone (paddr p) = [] \<and> 0 \<le> pbits p \<and>
     pbits p \<le> int (bit_len (paddr p)) \<and> mask_addr (nat (pbits p)) (paddr p) = paddr p)"

definition addr_key :: "addr \<Rightarrow> nat" where
  "addr_key a = bit_len a * 2 ^ 128 + addr_val a"

definition prefix_span :: "prefix \<Rightarrow> nat" where
  "prefix_span p = 2 ^ (bit_len (paddr p) - nat (pbits p))"

lemma addr_val_less: "addr_val a < 2 ^ bit_len a"
proof (cases a)
  case (Addr4 w)
  then show ?thesis using unat_less_power [of w] by simp
next
  case (Addr6 w z)
  then show ?thesis using unat_less_power [of w] by simp
qed simp

lemma wf_prefix_block:
  assumes "wf_prefix p"
  obtains q where "addr_val (paddr p) = q * 2 ^ (bit_len (paddr p) - nat (pbits p))"
proof (cases "paddr p")
  case AddrZero
  with assms show ?thesis by (simp add: wf_prefix_def)
next
  case (Addr4 w)
  with assms have "keep_top (nat (pbits p)) w = w" by (simp add: wf_prefix_def)
  then obtain q where "unat w = q * 2 ^ (LENGTH(32) - nat (pbits p))" by (rule keep_top_block)
  with Addr4 that [of q] show ?thesis by simp
next
  case (Addr6 w z)
  with assms have "keep_top (nat (pbits p)) w = w" by (simp add: wf_prefix_def)
  then obtain q where "unat w = q * 2 ^ (LENGTH(128) - nat (pbits p))" by (rule keep_top_block)
  with Addr6 that [of q] show ?thesis by simp
qed

lemma wf_prefix_span_le:
  assumes "wf_prefix p"
  shows "addr_val (paddr p) + prefix_span p \<le> 2 ^ bit_len (paddr p)"
proof -
  obtain q where "addr_val (paddr p) = q * 2 ^ (bit_len (paddr p) - nat (pbits p))"
    using wf_prefix_block [OF assms] .
  then show ?thesis unfolding prefix_span_def
    by (rule block_le_power) (simp_all add: addr_val_less)
qed

lemma top_bits_eq_iff:
  fixes v w :: "'a::len word"
  shows "top_bits n w = top_bits n v \<longleftrightarrow> unat w div 2 ^ (LENGTH('a) - n) = unat v div 2 ^ (LENGTH('a) - n)"
  by (metis unat_top_bits word_unat_eq_iff)

lemma contains_val:
  assumes "wf_prefix p"
  shows "prefix_contains p a \<longleftrightarrow> addr_zone a = [] \<and> bit_len a = bit_len (paddr p) \<and>
    addr_val (paddr p) \<le> addr_val a \<and> addr_val a < addr_val (paddr p) + prefix_span p"
proof -
  obtain q where q: "addr_val (paddr p) = q * 2 ^ (bit_len (paddr p) - nat (pbits p))"
    using wf_prefix_block [OF assms] .
  show ?thesis using assms div_block_iff [OF q, of "addr_val a"]
    by (cases "paddr p"; cases a)
      (auto simp: prefix_contains_def wf_prefix_def prefix_valid_def top_bits_eq_iff prefix_span_def)
qed

lemma addr_key_less_family:
  assumes "bit_len a < bit_len b"
  shows "addr_key a < bit_len b * 2 ^ 128"
proof -
  have "addr_val a < 2 ^ 128"
    by (rule less_le_trans [OF addr_val_less]) (cases a; simp)
  with assms show ?thesis by (cases a; cases b) (auto simp: addr_key_def)
qed

lemma contains_key:
  assumes "wf_prefix p"
  shows "prefix_contains p a \<longleftrightarrow> addr_zone a = [] \<and>
    addr_key (paddr p) \<le> addr_key a \<and> addr_key a < addr_key (paddr p) + prefix_span p"
proof -
  have top: "addr_val (paddr p) + prefix_span p \<le> 2 ^ 128"
    by (rule order_trans [OF wf_prefix_span_le [OF assms]]) (cases "paddr p"; simp)
  consider "bit_len a = bit_len (paddr p)" | "bit_len a < bit_len (paddr p)" | "bit_len (paddr p) < bit_len a"
    by linarith
  then show ?thesis
  proof cases
    case 1
    then show ?thesis by (simp add: contains_val [OF assms] addr_key_def)
  next
    case 2
    then have "addr_key a < addr_key (paddr p)"
      using addr_key_less_family [OF 2] by (simp add: addr_key_def)
    with 2 show ?thesis by (simp add: contains_val [OF assms])
  next
    case 3
    then have "bit_len (paddr p) + 1 \<le> bit_len a" by simp
    then have "(bit_len (paddr p) + 1) * 2 ^ 128 \<le> bit_len a * 2 ^ 128" by (rule mult_right_mono) simp
    with top have "addr_key (paddr p) + prefix_span p \<le> addr_key a" by (simp add: addr_key_def)
    with 3 show ?thesis by (simp add: contains_val [OF assms])
  qed
qed

text \<open>The equations that evaluate parsing and masking on concrete strings.\<close>

lemmas net_eval = parse_addr_def parse_ipv4_fields_def parse_octet_def is_digit_def digit_val_def
  be_nat_def parse_ipv6_def parse6_loop.simps is_hex_def hex_val_def hex_num_def be_bytes_def
  parse_prefix_def atoi_bits_def parse_uint_def prefix_from_def is6_def is4_def parse_ip_def
  parse_cidr_def cidr_mask_def ip_mask_def v4_in_v6_prefix_def upt_rec Let_def replicate_numeral_Cons

end
