(* ===== verification/Prefix_Space.thy ===== *)
theory Prefix_Space
  imports Netip
begin

text \<open>
  The interface between the prefix representations of the program and the code that
  relies on them: prefixes cover addresses, two prefixes that share an address are
  nested by length. Its provider are the masked prefixes of \<^verbatim>\<open>net/netip\<close> (here); the overlap
  test of \<^verbatim>\<open>CIDRsOverlap\<close> and the precomputed unions of \<^verbatim>\<open>unionContaining\<close> are its clients.
\<close>

locale prefix_space =
  fixes wf :: "'p \<Rightarrow> bool"
    and covers :: "'p \<Rightarrow> 'a \<Rightarrow> bool"
    and plen :: "'p \<Rightarrow> nat"
    and base :: "'p \<Rightarrow> 'a"
  assumes base_covered: "wf p \<Longrightarrow> covers p (base p)"
    and nested: "wf p \<Longrightarrow> wf q \<Longrightarrow> plen p \<le> plen q \<Longrightarrow> covers p a \<Longrightarrow> covers q a \<Longrightarrow>
      covers q b \<Longrightarrow> covers p b"
begin

lemma overlap_iff:
  assumes "wf p" and "wf q"
  shows "(\<exists>a. covers p a \<and> covers q a) \<longleftrightarrow> covers p (base q) \<or> covers q (base p)"
proof
  assume "\<exists>a. covers p a \<and> covers q a"
  then obtain a where "covers p a" "covers q a" by blast
  then show "covers p (base q) \<or> covers q (base p)"
    using assms nested base_covered by (meson le_cases)
next
  assume "covers p (base q) \<or> covers q (base p)"
  then show "\<exists>a. covers p a \<and> covers q a"
    using assms base_covered by blast
qed

text \<open>
  The longest match determines every match: a prefix no longer than the longest one
  covers the address exactly when it covers the base of the longest one.
\<close>

lemma covers_via_longest:
  assumes "wf b" and "wf q" and "covers b a" and "plen q \<le> plen b"
  shows "covers q a \<longleftrightarrow> covers q (base b)"
  using assms nested [of q b] base_covered [of b] by blast

lemma covering_set_eq:
  assumes "\<And>p. p \<in> P \<Longrightarrow> wf p" and "b \<in> P" and "covers b a"
    and longest: "\<And>q. q \<in> P \<Longrightarrow> covers q a \<Longrightarrow> plen q \<le> plen b"
  shows "{q \<in> P. covers q a} = {q \<in> P. plen q \<le> plen b \<and> covers q (base b)}"
  using assms(1,2,3) longest covers_via_longest by blast

end

lemma netip_nested:
  assumes "wf_prefix p" "wf_prefix q" "nat (pbits p) \<le> nat (pbits q)"
    and "prefix_contains p a" "prefix_contains q a" "prefix_contains q b"
  shows "prefix_contains p b"
proof -
  have le: "nat (pbits p) \<le> nat (pbits q)" by (rule assms(3))
  show ?thesis using assms(1,2,4,5,6)
    by (cases "paddr p"; cases "paddr q"; cases a; cases b)
      (auto simp: prefix_contains_def prefix_valid_def wf_prefix_def dest!: top_bits_mono [OF le])
qed

interpretation netip: prefix_space wf_prefix prefix_contains "\<lambda>p. nat (pbits p)" paddr
proof unfold_locales
  fix p assume "wf_prefix p"
  then show "prefix_contains p (paddr p)" by (simp add: contains_key prefix_span_def wf_prefix_def)
qed (rule netip_nested)

end
