(* ===== verification/Cidr.thy ===== *)
theory Cidr
  imports Prefix_Space
begin

text \<open>
  The overlap test of the control plane on lists of CIDR texts (\<^verbatim>\<open>api/sdn/v1alpha1/cidr.go\<close>) and that it is exact.
\<close>

section \<open>Overlap of CIDR lists\<close>

definition overlapPrefix :: "string \<Rightarrow> prefix option" where
  "overlapPrefix value = (case parse_prefix value of
       None \<Rightarrow> None
     | Some p0 \<Rightarrow> let p = masked p0 in
         Some (if is4in6 (paddr p) \<and> 96 \<le> pbits p
               then prefix_from (unmap (paddr p)) (pbits p - 96) else p))"

definition prefix_order :: "prefix \<Rightarrow> prefix \<Rightarrow> int" where
  "prefix_order a b = (let order = addr_compare (paddr a) (paddr b) in
     if order \<noteq> 0 then order
     else if pbits a < pbits b then -1 else if pbits b < pbits a then 1 else 0)"

text \<open>The loop that keeps only disjoint intervals of the sorted prefixes.\<close>

fun disjoint_prefixes :: "prefix list \<Rightarrow> prefix list \<Rightarrow> prefix list" where
  "disjoint_prefixes disjoint [] = disjoint"
| "disjoint_prefixes disjoint (prefix # rest) =
     disjoint_prefixes
       (if disjoint = [] \<or> \<not> prefix_contains (last disjoint) (paddr prefix)
        then disjoint @ [prefix] else disjoint) rest"

definition CIDRsOverlap :: "string list \<Rightarrow> string list \<Rightarrow> bool" where
  "CIDRsOverlap a b = (if a = [] \<or> b = [] then False else
     let prefixes = sort_cmp prefix_order (List.map_filter overlapPrefix b);
         disjoint = disjoint_prefixes [] prefixes
     in list_ex (\<lambda>as. case overlapPrefix as of
          None \<Rightarrow> False
        | Some an \<Rightarrow>
            let i = bsearch (\<lambda>prefix. addr_compare (paddr prefix) (paddr an)) disjoint 0 (length disjoint)
            in i < length disjoint \<and> prefix_contains an (paddr (disjoint ! i))
             \<or> 0 < i \<and> prefix_contains (disjoint ! (i - 1)) (paddr an)) a)"

subsection \<open>The overlap test is exact\<close>

lemma masked_wf: "prefix_valid p \<Longrightarrow> addr_zone (paddr p) = [] \<Longrightarrow> paddr p \<noteq> AddrZero \<Longrightarrow>
    pbits p \<le> int (bit_len (paddr p)) \<Longrightarrow> wf_prefix (masked p)"
  by (cases "paddr p") (auto simp: masked_def prefix_from_def wf_prefix_def prefix_valid_def)

lemma parse_prefix_shape:
  assumes "parse_prefix s = Some p"
  shows "wf_prefix (masked p)"
proof -
  from assms obtain a n where a: "\<not> (is6 a \<and> addr_zone a \<noteq> [])" "n \<le> bit_len a" "p = prefix_from a (int n)"
    and pa: "\<exists>t. parse_addr t = Some a"
    by (fastforce simp: parse_prefix_def not_less split: option.splits prod.splits if_splits)
  from pa have "a \<noteq> AddrZero" using parse_addr_shape by blast
  with a show ?thesis
    by (intro masked_wf) (cases a; simp add: prefix_from_def prefix_valid_def is6_def)+
qed

lemma keep_top_mapped_drop:
  fixes w :: u128
  assumes "keep_top n w = w" and "96 \<le> n" and "n \<le> 128"
  shows "keep_top (n - 96) (ucast w :: u32) = ucast w"
proof (rule bit_word_eqI)
  fix m assume m: "m < LENGTH(32)"
  have "bit w m = bit (keep_top n w) m" using assms(1) by simp
  then show "bit (keep_top (n - 96) (ucast w :: u32)) m = bit (ucast w :: u32) m"
    using assms(2,3) m by (auto simp: keep_top_def bit_simps)
qed

lemma overlapPrefix_wf:
  assumes "overlapPrefix s = Some p"
  shows "wf_prefix p"
proof -
  from assms obtain p0 where p0: "parse_prefix s = Some p0"
    and p: "p = (if is4in6 (paddr (masked p0)) \<and> 96 \<le> pbits (masked p0)
      then prefix_from (unmap (paddr (masked p0))) (pbits (masked p0) - 96) else masked p0)"
    by (auto simp: overlapPrefix_def Let_def split: option.splits)
  define m where "m = masked p0"
  have wf: "wf_prefix m" unfolding m_def by (rule parse_prefix_shape [OF p0])
  show ?thesis
  proof (cases "is4in6 (paddr m) \<and> 96 \<le> pbits m")
    case False
    with p wf show ?thesis by (auto simp: m_def)
  next
    case True
    then obtain w z where w: "paddr m = Addr6 w z" by (cases "paddr m") auto
    with wf have k: "keep_top (nat (pbits m)) w = w" "0 \<le> pbits m" "pbits m \<le> 128"
      by (auto simp: wf_prefix_def)
    from True k have "nat (pbits m - 96) = nat (pbits m) - 96" "96 \<le> nat (pbits m)" by auto
    with k have "keep_top (nat (pbits m - 96)) (ucast w :: u32) = ucast w"
      using keep_top_mapped_drop [of "nat (pbits m)" w] by simp
    with True w k have "wf_prefix (prefix_from (unmap (paddr m)) (pbits m - 96))"
      by (auto simp: unmap_def prefix_from_def wf_prefix_def)
    with True p show ?thesis by (simp add: m_def)
  qed
qed

lemma addr_compare_key:
  assumes "addr_zone a = []" "addr_zone b = []"
  shows "addr_compare a b < 0 \<longleftrightarrow> addr_key a < addr_key b"
proof -
  consider "bit_len a = bit_len b" | "bit_len a < bit_len b" | "bit_len b < bit_len a" by linarith
  then show ?thesis
  proof cases
    case 1
    with assms show ?thesis by (auto simp: addr_compare_def addr_key_def)
  next
    case 2
    with addr_key_less_family [OF 2] show ?thesis by (auto simp: addr_compare_def addr_key_def)
  next
    case 3
    with addr_key_less_family [OF 3] show ?thesis by (auto simp: addr_compare_def addr_key_def)
  qed
qed

lemma prefix_order_total: "\<not> prefix_order a b \<le> 0 \<Longrightarrow> prefix_order b a \<le> 0"
  by (auto simp: prefix_order_def addr_compare_def Let_def split: if_splits)

lemma prefix_order_trans:
  "prefix_order a b \<le> 0 \<Longrightarrow> prefix_order b c \<le> 0 \<Longrightarrow> prefix_order a c \<le> 0"
  by (auto simp: prefix_order_def addr_compare_def Let_def split: if_splits)

lemma prefix_order_key:
  assumes "wf_prefix a" "wf_prefix b" "prefix_order a b \<le> 0"
  shows "addr_key (paddr a) \<le> addr_key (paddr b) \<and>
    (addr_key (paddr a) = addr_key (paddr b) \<longrightarrow> pbits a \<le> pbits b)"
proof -
  have z: "addr_zone (paddr a) = []" "addr_zone (paddr b) = []" using assms(1,2) by (auto simp: wf_prefix_def)
  have lt: "addr_compare (paddr a) (paddr b) < 0 \<longleftrightarrow> addr_key (paddr a) < addr_key (paddr b)"
    by (rule addr_compare_key [OF z])
  show ?thesis
  proof (cases "addr_compare (paddr a) (paddr b) = 0")
    case True
    with assms(3) show ?thesis by (auto simp: prefix_order_def split: if_splits)
  next
    case False
    with assms(3) have "addr_compare (paddr a) (paddr b) \<le> 0" by (simp add: prefix_order_def Let_def)
    with False have "addr_compare (paddr a) (paddr b) < 0" by linarith
    with lt show ?thesis by simp
  qed
qed

text \<open>Intervals that follow each other without a common address.\<close>

definition apart :: "prefix \<Rightarrow> prefix \<Rightarrow> bool" where
  "apart d e = (addr_key (paddr d) + prefix_span d \<le> addr_key (paddr e))"

lemma not_contains_apart:
  assumes "wf_prefix d" "wf_prefix e" "addr_key (paddr d) \<le> addr_key (paddr e)"
    and "\<not> prefix_contains d (paddr e)"
  shows "apart d e"
  using assms by (auto simp: contains_key apart_def wf_prefix_def)

lemma apart_trans: "apart c d \<Longrightarrow> addr_key (paddr d) \<le> addr_key (paddr e) \<Longrightarrow> apart c e"
  by (simp add: apart_def)

lemma contained_longer:
  assumes "wf_prefix d" "wf_prefix e" "prefix_order d e \<le> 0" "prefix_contains d (paddr e)"
  shows "pbits d \<le> pbits e"
proof (rule ccontr)
  assume "\<not> pbits d \<le> pbits e"
  then have "nat (pbits e) \<le> nat (pbits d)" by simp
  then have "prefix_contains e (paddr d)"
    using netip.nested [OF assms(2,1)] netip.base_covered assms(1,2,4) by blast
  then have "addr_key (paddr e) \<le> addr_key (paddr d)" using assms(2) by (simp add: contains_key)
  with prefix_order_key [OF assms(1,2,3)] \<open>\<not> pbits d \<le> pbits e\<close> show False by simp
qed

lemma disjoint_prefixes_spec:
  assumes "\<And>e. e \<in> set D \<union> set rest \<Longrightarrow> wf_prefix e"
    and "sorted_wrt (\<lambda>a b. prefix_order a b \<le> 0) rest"
    and "\<And>d e. d \<in> set D \<Longrightarrow> e \<in> set rest \<Longrightarrow> prefix_order d e \<le> 0"
    and "sorted_wrt apart D"
  shows "sorted_wrt apart (disjoint_prefixes D rest) \<and>
    set D \<subseteq> set (disjoint_prefixes D rest) \<and>
    set (disjoint_prefixes D rest) \<subseteq> set D \<union> set rest \<and>
    (\<forall>e \<in> set rest. \<exists>d \<in> set (disjoint_prefixes D rest). prefix_contains d (paddr e) \<and> pbits d \<le> pbits e)"
  using assms
proof (induction rest arbitrary: D)
  case Nil
  then show ?case by simp
next
  case (Cons e rest)
  have wfe: "wf_prefix e" using Cons.prems(1) by simp
  show ?case
  proof (cases "D = [] \<or> \<not> prefix_contains (last D) (paddr e)")
    case True
    have "apart d e" if d: "d \<in> set D" for d
    proof -
      have keys: "addr_key (paddr c) \<le> addr_key (paddr e)" if "c \<in> set D" for c
        using prefix_order_key [of c e] Cons.prems(1,3) that by simp
      have ne: "D \<noteq> []" using d by auto
      then have l: "last D \<in> set D" "D = butlast D @ [last D]" by simp_all
      have last: "apart (last D) e"
        using not_contains_apart [of "last D" e] Cons.prems(1) l(1) wfe keys True d by auto
      show ?thesis
      proof (cases "d \<in> set (butlast D)")
        case True
        moreover have "sorted_wrt apart (butlast D @ [last D])" using Cons.prems(4) l(2) by simp
        ultimately have "apart d (last D)" by (simp add: sorted_wrt_append)
        then show ?thesis using keys [OF l(1)] by (rule apart_trans)
      next
        case False
        moreover have "d \<in> set (butlast D @ [last D])" using d l(2) by simp
        ultimately have "d = last D" by simp
        with last show ?thesis by simp
      qed
    qed
    then have "sorted_wrt apart (D @ [e])" using Cons.prems(4) by (simp add: sorted_wrt_append)
    moreover have "prefix_order d x \<le> 0" if "d \<in> set (D @ [e])" "x \<in> set rest" for d x
      using that Cons.prems(2,3) by auto
    moreover have "wf_prefix x" if "x \<in> set (D @ [e]) \<union> set rest" for x
      using that Cons.prems(1) by auto
    ultimately have "sorted_wrt apart (disjoint_prefixes (D @ [e]) rest) \<and>
        set (D @ [e]) \<subseteq> set (disjoint_prefixes (D @ [e]) rest) \<and>
        set (disjoint_prefixes (D @ [e]) rest) \<subseteq> set (D @ [e]) \<union> set rest \<and>
        (\<forall>x \<in> set rest. \<exists>d \<in> set (disjoint_prefixes (D @ [e]) rest).
           prefix_contains d (paddr x) \<and> pbits d \<le> pbits x)"
      using Cons.IH [of "D @ [e]"] Cons.prems(2) by simp
    then show ?thesis using True netip.base_covered [OF wfe] by (auto intro!: bexI [of _ e])
  next
    case False
    then have l: "last D \<in> set D" by simp
    then have "pbits (last D) \<le> pbits e"
      using contained_longer [of "last D" e] Cons.prems(1,3) wfe False by simp
    moreover have "sorted_wrt apart (disjoint_prefixes D rest) \<and>
        set D \<subseteq> set (disjoint_prefixes D rest) \<and>
        set (disjoint_prefixes D rest) \<subseteq> set D \<union> set rest \<and>
        (\<forall>x \<in> set rest. \<exists>d \<in> set (disjoint_prefixes D rest).
           prefix_contains d (paddr x) \<and> pbits d \<le> pbits x)"
      using Cons.IH [of D] Cons.prems by simp
    ultimately show ?thesis using False l by (auto intro!: bexI [of _ "last D"])
  qed
qed

lemma prefix_span_pos [simp]: "0 < prefix_span p"
  by (simp add: prefix_span_def)

lemma bsearch_overlap:
  assumes wfan: "wf_prefix an" and wfD: "\<And>d. d \<in> set D \<Longrightarrow> wf_prefix d" and D: "sorted_wrt apart D"
    and i: "i = bsearch (\<lambda>p. addr_compare (paddr p) (paddr an)) D 0 (length D)"
  shows "(i < length D \<and> prefix_contains an (paddr (D ! i)) \<or> 0 < i \<and> prefix_contains (D ! (i - 1)) (paddr an))
    \<longleftrightarrow> (\<exists>d \<in> set D. \<exists>w. prefix_contains an w \<and> prefix_contains d w)"
proof -
  have apart: "apart (D ! a) (D ! b)" if "a < b" "b < length D" for a b
    using D that by (simp add: sorted_wrt_iff_nth_less)
  have less: "addr_compare (paddr (D ! a)) (paddr an) < 0 \<longleftrightarrow> addr_key (paddr (D ! a)) < addr_key (paddr an)"
    if "a < length D" for a
    using that wfD [of "D ! a"] wfan by (intro addr_compare_key) (auto simp: wf_prefix_def)
  have mono: "addr_key (paddr (D ! a)) \<le> addr_key (paddr (D ! b))" if "a \<le> b" "b < length D" for a b
    using apart [of a b] that by (cases "a = b") (auto simp: apart_def)
  have "bsearch (\<lambda>p. addr_compare (paddr p) (paddr an)) D 0 (length D) \<le> length D \<and>
      (\<forall>k < bsearch (\<lambda>p. addr_compare (paddr p) (paddr an)) D 0 (length D).
         addr_compare (paddr (D ! k)) (paddr an) < 0) \<and>
      (\<forall>k. bsearch (\<lambda>p. addr_compare (paddr p) (paddr an)) D 0 (length D) \<le> k \<longrightarrow> k < length D \<longrightarrow>
         \<not> addr_compare (paddr (D ! k)) (paddr an) < 0)"
    by (rule bsearch_spec) (use less mono in \<open>auto intro: le_less_trans\<close>)
  then have le: "i \<le> length D"
    and below: "\<And>k. k < i \<Longrightarrow> addr_key (paddr (D ! k)) < addr_key (paddr an)"
    and above: "\<And>k. i \<le> k \<Longrightarrow> k < length D \<Longrightarrow> addr_key (paddr an) \<le> addr_key (paddr (D ! k))"
    using less by (auto simp: i not_less)
  show ?thesis
  proof
    assume "i < length D \<and> prefix_contains an (paddr (D ! i)) \<or> 0 < i \<and> prefix_contains (D ! (i - 1)) (paddr an)"
    then show "\<exists>d \<in> set D. \<exists>w. prefix_contains an w \<and> prefix_contains d w"
      using netip.base_covered wfD wfan le by (metis Suc_pred' nth_mem order_less_le_trans lessI)
  next
    assume "\<exists>d \<in> set D. \<exists>w. prefix_contains an w \<and> prefix_contains d w"
    then obtain k where k: "k < length D" and "\<exists>w. prefix_contains an w \<and> prefix_contains (D ! k) w"
      by (metis in_set_conv_nth)
    then consider "prefix_contains an (paddr (D ! k))" | "prefix_contains (D ! k) (paddr an)"
      using netip.overlap_iff [OF wfan wfD [OF nth_mem [OF k]]] by blast
    then show "i < length D \<and> prefix_contains an (paddr (D ! i)) \<or>
        0 < i \<and> prefix_contains (D ! (i - 1)) (paddr an)"
    proof cases
      case 1
      then have "addr_key (paddr an) \<le> addr_key (paddr (D ! k))" using wfan by (simp add: contains_key)
      then have "i \<le> k" using below [of k] by (meson not_less)
      with k have lt: "i < length D" by simp
      with 1 mono [OF \<open>i \<le> k\<close> k] above [of i] wfan wfD [of "D ! i"]
      have "prefix_contains an (paddr (D ! i))" by (auto simp: contains_key wf_prefix_def)
      with lt show ?thesis by simp
    next
      case 2
      then have K: "addr_key (paddr (D ! k)) \<le> addr_key (paddr an)"
        "addr_key (paddr an) < addr_key (paddr (D ! k)) + prefix_span (D ! k)"
        using wfD [OF nth_mem [OF k]] by (auto simp: contains_key)
      show ?thesis
      proof (cases "i \<le> k")
        case True
        with K above [of k] k have "addr_key (paddr (D ! k)) = addr_key (paddr an)" by simp
        with apart [of i k] True k above [of i] K have "i = k"
          using prefix_span_pos [of "D ! i"] by (cases "i = k") (auto simp: apart_def)
        with \<open>addr_key (paddr (D ! k)) = addr_key (paddr an)\<close> k wfan wfD [OF nth_mem [OF k]]
        show ?thesis by (auto simp: contains_key wf_prefix_def)
      next
        case False
        then have "k \<le> i - 1" "0 < i" "i - 1 < length D" using le by auto
        with apart [of k "i - 1"] below [of "i - 1"] K have "k = i - 1"
          by (cases "k = i - 1") (auto simp: apart_def)
        with 2 \<open>0 < i\<close> show ?thesis by simp
      qed
    qed
  qed
qed

lemma set_map_filter: "set (List.map_filter f xs) = {y. \<exists>x \<in> set xs. f x = Some y}"
  by (induction xs) (auto simp: List.map_filter_def)


end
