(* ===== verification/DpAddr.thy ===== *)
theory DpAddr
  imports Prefix_Space
begin

text \<open>
  Addresses and prefixes as the kernel maps key them (\<^verbatim>\<open>datapath/cidr.go\<close>, \<^verbatim>\<open>addr128\<close>,
  \<^verbatim>\<open>addr128ToIP\<close> and \<^verbatim>\<open>lpmKey\<close> of \<^verbatim>\<open>datapath/datapath.go\<close>, \<^verbatim>\<open>fwdCIDRKey\<close> of
  \<^verbatim>\<open>datapath/routes.go\<close>). An \<^verbatim>\<open>overlayAddr128\<close>, sixteen bytes in network order, is the
  128-bit word it spells. The errors of the datapath package are one datatype.
\<close>

datatype errno = ENOENT | EEXIST | E2BIG | EIO

datatype dp_error =
    MissingCIDR | InvalidCIDR | V4MaskOnV6 | V6MaskOnV4 | InvalidIP | BadCIDR
  | ScopeRange | TooManyNextHops | NodeNotIPv4 | OverCapacity | Kernel errno
  | ScopeGuardMissing | InputBudget | OtherPartition | TextBudget | Conflict | Collision
  | DefaultNetwork | NatFamily | NatConflict | BoundaryIdentity | BoundaryDuplicate | BoundaryPeer
  | InvalidMode | InvalidWitness | NoHostAddresses | Incomplete | Joined "dp_error list"

section \<open>Source definitions\<close>

definition normalizedCIDR :: "ipnet option \<Rightarrow> dp_error + prefix" where
  "normalizedCIDR cidr = (case cidr of
       None \<Rightarrow> Inl MissingCIDR
     | Some c \<Rightarrow>
        let (ones, bits) = mask_size (net_mask c) in
        (case addr_from_slice (net_ip c) of
           None \<Rightarrow> Inl InvalidCIDR
         | Some a \<Rightarrow>
            if bits \<noteq> 32 \<and> bits \<noteq> 128 then Inl InvalidCIDR
            else if bits = 32 then
              (if \<not> is4 (unmap a) then Inl V4MaskOnV6
               else Inr (masked (prefix_from (unmap a) (int ones))))
            else if is4 a \<or> is4in6 a then
              (if 96 \<le> ones then Inr (masked (prefix_from (unmap a) (int ones - 96)))
               else if is4 a then Inl V6MaskOnV4
               else Inr (masked (prefix_from a (int ones))))
            else Inr (masked (prefix_from a (int ones)))))"

definition nat64_prefix :: u128 where
  "nat64_prefix = push_bit 96 0x0064ff9b"

definition addr128 :: "ip \<Rightarrow> dp_error + u128" where
  "addr128 p = (case ip_to4 p of
       Some v4 \<Rightarrow> Inr (nat64_prefix + of_nat (be_nat v4))
     | None \<Rightarrow> (case ip_to16 p of
          Some v6 \<Rightarrow> Inr (of_nat (be_nat v6))
        | None \<Rightarrow> Inl InvalidIP))"

definition addr128Str :: "string \<Rightarrow> dp_error + u128" where
  "addr128Str s = (case parse_ip s of None \<Rightarrow> Inl InvalidIP | Some p \<Rightarrow> addr128 p)"

definition addr128ToIP :: "u128 \<Rightarrow> ip" where
  "addr128ToIP a = (if top_bits 96 a = top_bits 96 nat64_prefix
     then be_bytes 4 (unat a mod 2 ^ 32) else be_bytes 16 (unat a))"

definition cidrPolicyPrefix :: "ipnet option \<Rightarrow> dp_error + (u128 \<times> u32 \<times> u8)" where
  "cidrPolicyPrefix cidr = (case normalizedCIDR cidr of
       Inl e \<Rightarrow> Inl e
     | Inr p \<Rightarrow>
        let bits = of_int (pbits p) :: u32 in
        (case addr128 (as16 (paddr p)) of
           Inl e \<Rightarrow> Inl e
         | Inr a \<Rightarrow> if is4 (paddr p) then Inr (a, bits + 96, 4) else Inr (a, bits, 6)))"

definition cidrAddressPrefix :: "ipnet option \<Rightarrow> dp_error + (u128 \<times> u32)" where
  "cidrAddressPrefix cidr = (case cidrPolicyPrefix cidr of
     Inl e \<Rightarrow> Inl e | Inr (a, bits, _) \<Rightarrow> Inr (a, bits))"

definition npCIDRDirection :: "u8 \<Rightarrow> u8 \<Rightarrow> u8" where
  "npCIDRDirection dir family = (if family = 4 then dir OR 0x40 else dir OR 0x80)"

record lpm_key =
  lk_prefixlen :: u32
  lk_scope :: u32
  lk_addr :: u128

definition lpmKey :: "u32 \<Rightarrow> string \<Rightarrow> dp_error + lpm_key" where
  "lpmKey scope cidr = (case parse_cidr cidr of
       None \<Rightarrow> Inl BadCIDR
     | Some (_, n) \<Rightarrow> (case cidrAddressPrefix (Some n) of
          Inl e \<Rightarrow> Inl e
        | Inr (a, bits) \<Rightarrow> Inr \<lparr>lk_prefixlen = 32 + bits, lk_scope = scope, lk_addr = a\<rparr>))"

record fwd_cidr_key =
  fk_prefixlen :: u32
  fk_scope :: u32
  fk_family :: u32
  fk_addr :: u128

definition fwdCIDRKey :: "u32 \<Rightarrow> string \<Rightarrow> dp_error + fwd_cidr_key" where
  "fwdCIDRKey ifindex cidr = (case parse_cidr cidr of
       None \<Rightarrow> Inl BadCIDR
     | Some (_, n) \<Rightarrow> (case cidrPolicyPrefix (Some n) of
          Inl e \<Rightarrow> Inl e
        | Inr (a, bits, family) \<Rightarrow>
            Inr \<lparr>fk_prefixlen = 64 + bits, fk_scope = ifindex, fk_family = ucast family, fk_addr = a\<rparr>))"

definition htons :: "u16 \<Rightarrow> u16" where
  "htons p = push_bit 8 p OR drop_bit 8 p"

section \<open>Masks\<close>

lemma cidr_mask_nth: "i < k \<Longrightarrow> cidr_mask n k ! i = push_bit (8 - min 8 (n - 8 * i)) 255"
  by (auto simp: cidr_mask_def min_def)

lemma length_cidr_mask [simp]: "length (cidr_mask n k) = k"
  by (simp add: cidr_mask_def)

lemma mask_byte_inj:
  assumes "t \<le> 8" "t' \<le> 8" "push_bit (8 - t) (255 :: u8) = push_bit (8 - t') 255"
  shows "t = t'"
proof -
  have "t \<in> {0, 1, 2, 3, 4, 5, 6, 7, 8}" "t' \<in> {0, 1, 2, 3, 4, 5, 6, 7, 8}" using assms(1,2) by auto
  with assms(3) show ?thesis by (auto simp: push_bit_eq_mult)
qed

lemma cidr_mask_inj:
  assumes "cidr_mask m k = cidr_mask n k" "m \<le> 8 * k" "n \<le> 8 * k"
  shows "m = n"
proof (rule ccontr)
  assume "m \<noteq> n"
  define i where "i = min m n div 8"
  have i: "i < k" using assms(2,3) \<open>m \<noteq> n\<close> by (auto simp: i_def min_def)
  have "min 8 (m - 8 * i) = min 8 (n - 8 * i)"
    by (rule mask_byte_inj) (use arg_cong [OF assms(1), of "\<lambda>x. x ! i"] i in \<open>simp_all add: cidr_mask_nth\<close>)
  then show False using \<open>m \<noteq> n\<close> by (auto simp: i_def min_def split: if_splits)
qed

lemma filter_unique_hd:
  assumes "x \<in> set xs" "distinct xs" "\<And>y. y \<in> set xs \<Longrightarrow> P y \<longleftrightarrow> y = x"
  shows "filter P xs = [x]"
  using assms
proof (induction xs)
  case (Cons a xs)
  show ?case
  proof (cases "a = x")
    case True
    with Cons.prems have "filter P xs = []" by (auto simp: filter_empty_conv)
    with True Cons.prems show ?thesis by simp
  next
    case False
    with Cons show ?thesis by simp
  qed
qed simp

lemma mask_size_cidr_mask [simp]:
  assumes "n \<le> 8 * k"
  shows "mask_size (cidr_mask n k) = (n, 8 * k)"
proof -
  have "filter (\<lambda>m. cidr_mask m k = cidr_mask n k) [0..<8 * k + 1] = [n]"
    by (rule filter_unique_hd) (use assms in \<open>auto dest: cidr_mask_inj\<close>)
  then show ?thesis by (simp add: mask_size_def)
qed

section \<open>Normalised prefixes\<close>

lemma mask_size_le: "mask_size m = (n, b) \<Longrightarrow> n \<le> b"
proof -
  assume m: "mask_size m = (n, b)"
  let ?ns = "filter (\<lambda>n. cidr_mask n (length m) = m) [0..<8 * length m + 1]"
  show ?thesis
  proof (cases ?ns)
    case Nil
    with m show ?thesis by (simp add: mask_size_def)
  next
    case (Cons x xs)
    have "set ?ns \<subseteq> {..8 * length m}" by auto
    with m Cons show ?thesis by (simp add: mask_size_def del: filter.simps upt_Suc)
  qed
qed

lemma keep_top_not_mapped:
  fixes w :: u128
  assumes "n \<le> 95 \<or> drop_bit 32 w \<noteq> 0xffff" "n \<le> 128"
  shows "drop_bit 32 (keep_top n w) \<noteq> 0xffff"
proof (cases "n \<le> 95")
  case True
  then have "\<not> bit (drop_bit 32 (keep_top n w)) 0" by (auto simp: keep_top_def bit_push_bit_iff bit_drop_bit_eq)
  moreover have "bit (0xffff :: u128) 0" by simp
  ultimately show ?thesis by metis
next
  case False
  then have "drop_bit 32 (keep_top n w) = drop_bit 32 w"
    by (intro bit_word_eqI) (auto simp: keep_top_def bit_simps dest: bit_imp_le_length)
  with False assms show ?thesis by simp
qed

lemma masked_prefix_from:
  assumes "a \<noteq> AddrZero" "0 \<le> n" "n \<le> int (bit_len a)"
  shows "masked (prefix_from a n) = Prefix (mask_addr (nat n) (without_zone a)) n"
  using assms by (cases a) (auto simp: masked_def prefix_from_def prefix_valid_def)

lemma addr_from_slice_shape:
  "addr_from_slice p = Some a \<Longrightarrow> a \<noteq> AddrZero \<and> addr_zone a = []"
  by (auto simp: addr_from_slice_def split: if_splits)

lemma normalizedCIDR_wf:
  assumes "normalizedCIDR c = Inr p"
  shows "wf_prefix p \<and> \<not> is4in6 (paddr p)"
proof -
  from assms obtain n ones bits a where c: "c = Some n" "mask_size (net_mask n) = (ones, bits)"
    "addr_from_slice (net_ip n) = Some a"
    by (auto simp: normalizedCIDR_def split: option.splits prod.splits)
  have le: "ones \<le> bits" by (rule mask_size_le [OF c(2)])
  have a: "a \<noteq> AddrZero" "addr_zone a = []" using addr_from_slice_shape [OF c(3)] by auto
  consider (four) w where "p = masked (prefix_from (Addr4 w) (int ones))" "ones \<le> 32"
    | (mapped) w where "p = masked (prefix_from (Addr4 w) (int ones - 96))" "96 \<le> ones" "ones \<le> 128"
    | (six) w where "p = masked (prefix_from (Addr6 w []) (int ones))" "ones \<le> 128"
        "ones \<le> 95 \<or> drop_bit 32 w \<noteq> 0xffff"
    using assms c a le by (cases a) (auto simp: normalizedCIDR_def unmap_def is4_def split: if_splits)
  then show ?thesis
  proof cases
    case four
    then show ?thesis by (simp add: masked_prefix_from wf_prefix_def)
  next
    case mapped
    then show ?thesis by (simp add: masked_prefix_from wf_prefix_def)
  next
    case six
    then show ?thesis using keep_top_not_mapped [of ones w] by (simp add: masked_prefix_from wf_prefix_def)
  qed
qed

section \<open>Encoding of addresses\<close>

text \<open>The family byte of the policy keys and the encoded form of an address.\<close>

definition addr_family :: "addr \<Rightarrow> u8" where
  "addr_family a = (if is4 a then 4 else 6)"

lemma addr128_as16_v4: "addr128 (as16 (Addr4 w)) = Inr (nat64_prefix + ucast w)"
proof -
  have "ip_to4 (as16 (Addr4 w)) = Some (be_bytes 4 (unat w))" by (simp add: ip_to4_def)
  moreover have "(of_nat (unat w mod 4294967296) :: u128) = ucast w"
    using unat_less_power [of w] by simp
  ultimately show ?thesis by (simp add: addr128_def be_nat_be_bytes)
qed

lemma addr128_as16_v6:
  assumes "drop_bit 32 w \<noteq> 0xffff"
  shows "addr128 (as16 (Addr6 w z)) = Inr w"
proof -
  have "ip_to4 (as16 (Addr6 w z)) = None" using assms by (simp add: ip_to4_def take_as16_mapped)
  moreover have "ip_to16 (as16 (Addr6 w z)) = Some (be_bytes 16 (unat w))" by (simp add: ip_to16_def)
  ultimately show ?thesis
    using unat_less_power [of w] by (simp add: addr128_def be_nat_be_bytes)
qed

lemma addr128_defined:
  assumes "a \<noteq> AddrZero"
  shows "\<exists>x. addr128 (as16 a) = Inr x"
  using assms by (cases a) (auto simp: addr128_def ip_to16_def split: option.splits)

lemma unat_nat64: "unat (nat64_prefix + ucast (x :: u32) :: u128) = 0x0064ff9b * 2 ^ 96 + unat x"
proof -
  have "unat (nat64_prefix :: u128) = 0x0064ff9b * 2 ^ 96" by (simp add: nat64_prefix_def push_bit_eq_mult)
  moreover have "unat (ucast x :: u128) = unat x" by transfer (simp add: min_def)
  ultimately show ?thesis using unat_less_power [of x] by (simp add: unat_word_ariths)
qed

lemma nat64_top:
  "top_bits (n + 96) (nat64_prefix + ucast (v :: u32)) = top_bits (n + 96) (nat64_prefix + ucast (w :: u32))
     \<longleftrightarrow> top_bits n v = top_bits n w"
proof -
  have "(0x0064ff9b * 2 ^ 96 + unat x) div 2 ^ (32 - n) = 0x0064ff9b * 2 ^ (64 + n) + unat x div 2 ^ (32 - n)"
    if "n \<le> 32" for x :: u32
  proof -
    have "(2::nat) ^ 96 = 2 ^ (64 + n) * 2 ^ (32 - n)" using that by (simp flip: power_add)
    then show ?thesis by (simp only: mult.assoc [symmetric] div_mult_self3 [OF power_not_zero [OF zero_neq_numeral [symmetric]]])
  qed
  then show ?thesis by (cases "n \<le> 32") (simp_all add: top_bits_eq_iff unat_nat64)
qed

lemma nat64_top_all: "top_bits 96 (nat64_prefix + ucast (v :: u32)) = top_bits 96 nat64_prefix"
  using nat64_top [of 0 v 0] unat_less_power [of v] by (simp add: top_bits_eq_iff)

text \<open>A policy key covers exactly the addresses of the prefix it was computed from.\<close>

lemma policy_prefix_v4:
  assumes "normalizedCIDR c = Inr p" "paddr p = Addr4 v"
  obtains n where "pbits p = int n" "n \<le> 32"
    "cidrPolicyPrefix c = Inr (nat64_prefix + ucast v, of_nat (n + 96), 4)"
proof -
  have "0 \<le> pbits p" "pbits p \<le> 32" using normalizedCIDR_wf [OF assms(1)] assms(2) by (auto simp: wf_prefix_def)
  with assms that [of "nat (pbits p)"] show ?thesis
    by (simp add: cidrPolicyPrefix_def addr128_as16_v4 is4_def del: as16.simps)
qed

lemma policy_prefix_v6:
  assumes "normalizedCIDR c = Inr p" "paddr p = Addr6 v z"
  obtains n where "pbits p = int n" "n \<le> 128" "cidrPolicyPrefix c = Inr (v, of_nat n, 6)"
proof -
  have "0 \<le> pbits p" "pbits p \<le> 128" "drop_bit 32 v \<noteq> 0xffff"
    using normalizedCIDR_wf [OF assms(1)] assms(2) by (auto simp: wf_prefix_def)
  with assms that [of "nat (pbits p)"] show ?thesis
    by (simp add: cidrPolicyPrefix_def addr128_as16_v6 is4_def del: as16.simps)
qed

lemma unat_of_nat_small: "n \<le> 160 \<Longrightarrow> unat (of_nat n :: u32) = n"
  by (simp add: unsigned_of_nat take_bit_nat_eq_self_iff)

lemma policy_prefix_form:
  assumes "cidrPolicyPrefix c = Inr (a, bits, family)"
  obtains (four) v n where "n \<le> 32" "keep_top n v = v" "a = nat64_prefix + ucast (v :: u32)" "unat bits = n + 96" "family = 4"
  | (six) "unat bits \<le> 128" "keep_top (unat bits) a = a" "family = 6"
proof -
  obtain p where p: "normalizedCIDR c = Inr p" using assms by (auto simp: cidrPolicyPrefix_def split: sum.splits)
  have wf: "wf_prefix p" using normalizedCIDR_wf [OF p] by simp
  show ?thesis
  proof (cases "paddr p")
    case AddrZero
    with wf show ?thesis by (simp add: wf_prefix_def)
  next
    case (Addr4 v)
    from policy_prefix_v4 [OF p this] obtain n where n: "pbits p = int n" "n \<le> 32"
      "cidrPolicyPrefix c = Inr (nat64_prefix + ucast v, of_nat (n + 96), 4)" .
    moreover have "unat (of_nat (n + 96) :: u32) = n + 96" using n by (intro unat_of_nat_small) simp
    ultimately show ?thesis using four [of n v] assms wf Addr4
      by (simp add: wf_prefix_def del: of_nat_add)
  next
    case (Addr6 v z)
    from policy_prefix_v6 [OF p this] obtain n where n: "pbits p = int n" "n \<le> 128"
      "cidrPolicyPrefix c = Inr (v, of_nat n, 6)" .
    moreover have "unat (of_nat n :: u32) = n" using n by (intro unat_of_nat_small) simp
    ultimately show ?thesis using six assms wf Addr6 by (auto simp: wf_prefix_def)
  qed
qed

lemma policy_prefix_bits:
  assumes "cidrPolicyPrefix c = Inr (a, bits, family)"
  shows "unat bits \<le> 128 \<and> (family = 4 \<or> family = 6)"
  using assms by (rule policy_prefix_form) auto

text \<open>Keys of the same family and length with the same leading bits are the same key.\<close>

lemma policy_prefix_inj:
  assumes c: "cidrPolicyPrefix c = Inr (a, bits, family)" "cidrPolicyPrefix c' = Inr (a', bits, family)"
    and top: "top_bits (unat bits) a = top_bits (unat bits) a'"
  shows "a = a'"
  using c(1)
proof (cases rule: policy_prefix_form)
  case (four v n)
  note v = four
  show ?thesis using c(2)
  proof (cases rule: policy_prefix_form)
    case (four v' n')
    then have "top_bits n v = top_bits n v'" using v top nat64_top [of n v v'] by simp
    then have "keep_top n v = keep_top n v'" by (simp add: keep_top_eq_iff)
    then show ?thesis using v four by simp
  qed (use v in simp)
next
  case six
  note v = six
  show ?thesis using c(2)
  proof (cases rule: policy_prefix_form)
    case six
    then show ?thesis using v top by (metis keep_top_eq_iff)
  qed (use v in simp)
qed

lemma policy_prefix_length:
  assumes "normalizedCIDR c = Inr p" "prefix_contains p w" "cidrPolicyPrefix c = Inr (a, bits, f)"
  shows "int (unat bits) = (if is4 w then 96 else 0) + pbits p"
proof (cases "paddr p")
  case AddrZero
  then show ?thesis using assms(2) by (simp add: prefix_contains_def)
next
  case (Addr4 v)
  from policy_prefix_v4 [OF assms(1) this] obtain n where
    "pbits p = int n" "n \<le> 32" "cidrPolicyPrefix c = Inr (nat64_prefix + ucast v, of_nat (n + 96), 4)" .
  then show ?thesis using unat_of_nat_small [of "n + 96"] assms(2,3) Addr4
    by (cases w) (auto simp: prefix_contains_def is4_def simp del: of_nat_add)
next
  case (Addr6 v z)
  from policy_prefix_v6 [OF assms(1) this] obtain n where
    "pbits p = int n" "n \<le> 128" "cidrPolicyPrefix c = Inr (v, of_nat n, 6)" .
  then show ?thesis using unat_of_nat_small [of n] assms(2,3) Addr6
    by (cases w) (auto simp: prefix_contains_def is4_def)
qed

text \<open>
  A CIDR policy key is exact for every address that is not an IPv4-mapped IPv6 address (the datapath
  never sees one in that form).
\<close>

lemma policy_prefix_covers:
  assumes "normalizedCIDR c = Inr p" and "w \<noteq> AddrZero" and "addr_zone w = []" and "\<not> is4in6 w"
  shows "\<exists>a bits family x. cidrPolicyPrefix c = Inr (a, bits, family) \<and> addr128 (as16 w) = Inr x \<and>
    (prefix_contains p w \<longleftrightarrow> addr_family w = family \<and> top_bits (unat bits) x = top_bits (unat bits) a)"
proof -
  have wf: "wf_prefix p" "\<not> is4in6 (paddr p)" using normalizedCIDR_wf [OF assms(1)] by auto
  show ?thesis
  proof (cases "paddr p")
    case AddrZero
    with wf show ?thesis by (simp add: wf_prefix_def)
  next
    case (Addr4 v)
    obtain n where "pbits p = int n" "n \<le> 32"
      "cidrPolicyPrefix c = Inr (nat64_prefix + ucast v, of_nat (n + 96), 4)"
      using policy_prefix_v4 [OF assms(1) Addr4] .
    then show ?thesis using wf Addr4 assms(2-)
      by (cases w) (auto simp: addr128_as16_v4 addr128_as16_v6 unat_of_nat_small addr_family_def is4_def
        prefix_contains_def prefix_valid_def nat64_top simp del: as16.simps of_nat_add)
  next
    case (Addr6 v z)
    obtain n where "pbits p = int n" "n \<le> 128" "cidrPolicyPrefix c = Inr (v, of_nat n, 6)"
      using policy_prefix_v6 [OF assms(1) Addr6] .
    then show ?thesis using wf Addr6 assms(2-)
      by (cases w) (auto simp: addr128_as16_v4 addr128_as16_v6 unat_of_nat_small addr_family_def is4_def
        prefix_contains_def prefix_valid_def simp del: as16.simps)
  qed
qed

lemma parse_cidr_shape:
  assumes "parse_cidr s = Some (q, n)"
  shows "\<exists>a k. a \<noteq> AddrZero \<and> k \<le> bit_len a \<and> net_mask n = cidr_mask k (bit_len a div 8) \<and>
    length (net_ip n) = bit_len a div 8"
proof -
  obtain astr mstr where cut: "cut CHR ''/'' s = Some (astr, mstr)"
    using assms by (auto simp: parse_cidr_def split: option.splits)
  obtain a where a: "parse_addr astr = Some a"
    using assms cut by (auto simp: parse_cidr_def split: option.splits)
  let ?k = "foldl (\<lambda>v c. v * 10 + digit_val c) 0 mstr"
  have m: "?k \<le> bit_len a" "net_mask n = cidr_mask ?k (bit_len a div 8)"
    "ip_mask (as16 a) (cidr_mask ?k (bit_len a div 8)) = Some (net_ip n)"
    using assms cut a by (auto simp: parse_cidr_def Let_def split: option.splits if_splits)
  have "a \<noteq> AddrZero" using parse_addr_shape [OF a] .
  moreover have "length (net_ip n) = bit_len a div 8" using m(3) \<open>a \<noteq> AddrZero\<close>
    by (cases a) (auto simp: ip_mask_def Let_def dest!: arg_cong [of _ _ length] split: if_splits)
  ultimately show ?thesis using m by blast
qed

lemma parsed_cidr_normal:
  assumes "parse_cidr s = Some (q, n)"
  shows "\<exists>p. normalizedCIDR (Some n) = Inr p"
proof -
  obtain a k where a: "a \<noteq> AddrZero" "k \<le> bit_len a" "net_mask n = cidr_mask k (bit_len a div 8)"
    "length (net_ip n) = bit_len a div 8"
    using parse_cidr_shape [OF assms] by blast
  have "mask_size (net_mask n) = (k, bit_len a)" using a by (cases a) (simp_all add: mask_size_cidr_mask)
  then show ?thesis using a
    by (cases a) (auto simp: normalizedCIDR_def addr_from_slice_def unmap_def is4_def)
qed

lemma htons_htons [simp]: "htons (htons p) = p"
  by (intro bit_word_eqI) (auto simp: htons_def bit_simps)

lemma htons_eq_iff [simp]: "htons p = htons q \<longleftrightarrow> p = q"
  by (metis htons_htons)

lemma htons_0 [simp]: "htons 0 = 0"
  by (simp add: htons_def)

lemma htons_swap: "htons p = q \<longleftrightarrow> p = htons q"
  by auto

lemma htons_eq_0 [simp]: "htons p = 0 \<longleftrightarrow> p = 0"
  by (metis htons_0 htons_htons)

text \<open>An address as a packet carries it: its encoding and its family byte.\<close>

definition packet_addr :: "addr \<Rightarrow> u8 \<Rightarrow> u128 \<Rightarrow> bool" where
  "packet_addr w family a = (w \<noteq> AddrZero \<and> addr_zone w = [] \<and> \<not> is4in6 w \<and> addr128 (as16 w) = Inr a \<and>
     family = addr_family w)"

text \<open>
  Every CIDR text that \<^verbatim>\<open>net.ParseCIDR\<close> accepts has a key, in the scope it was asked for and
  with a prefix length between the 32 scope bits and the full 160 bits: \<^verbatim>\<open>lpmKey\<close> rejects nothing
  but texts that are not CIDRs.
\<close>

theorem lpmKey_total:
  "(\<exists>k. lpmKey scope s = Inr k \<and> lk_scope k = scope \<and> 32 \<le> lk_prefixlen k \<and> lk_prefixlen k \<le> 160)
     \<longleftrightarrow> parse_cidr s \<noteq> None"
proof (cases "parse_cidr s")
  case None
  then show ?thesis by (simp add: lpmKey_def)
next
  case (Some r)
  obtain q n where r: "r = (q, n)" by (cases r)
  obtain p where p: "normalizedCIDR (Some n) = Inr p" using parsed_cidr_normal Some r by blast
  have wf: "wf_prefix p" "\<not> is4in6 (paddr p)" using normalizedCIDR_wf [OF p] by auto
  obtain a bits where ab: "cidrAddressPrefix (Some n) = Inr (a, of_nat bits)" "bits \<le> 128"
  proof (cases "paddr p")
    case (Addr4 v)
    obtain b where "b \<le> 32" "cidrPolicyPrefix (Some n) = Inr (nat64_prefix + ucast v, of_nat (b + 96), 4)"
      using policy_prefix_v4 [OF p Addr4] .
    then show ?thesis using that [of _ "b + 96"] by (simp add: cidrAddressPrefix_def)
  next
    case (Addr6 v z)
    obtain b where "b \<le> 128" "cidrPolicyPrefix (Some n) = Inr (v, of_nat b, 6)"
      using policy_prefix_v6 [OF p Addr6] .
    then show ?thesis using that [of _ b] by (simp add: cidrAddressPrefix_def)
  qed (use wf in \<open>simp add: wf_prefix_def\<close>)
  have "(32 + of_nat bits :: u32) = of_nat (32 + bits)" by simp
  moreover have "32 \<le> (of_nat (32 + bits) :: u32)" "(of_nat (32 + bits) :: u32) \<le> 160"
    using ab(2) by (simp_all add: word_le_nat_alt unat_of_nat_small del: of_nat_add)
  ultimately show ?thesis using Some r ab by (simp add: lpmKey_def)
qed

text \<open>
  A forwarding key is exact: for every address that is not an IPv4-mapped IPv6 address, the CIDR
  text contains the address exactly when the family word of the key agrees and the first bits of the
  encoded address, as many as the key's prefix length says, are those of the key.
\<close>

lemma fwdCIDRKey_exact:
  assumes "parse_cidr s = Some (q, n)" and "normalizedCIDR (Some n) = Inr p"
    and "w \<noteq> AddrZero" and "addr_zone w = []" and "\<not> is4in6 w"
  shows "\<exists>k x. fwdCIDRKey ifindex s = Inr k \<and> fk_scope k = ifindex \<and> addr128 (as16 w) = Inr x \<and>
    (prefix_contains p w \<longleftrightarrow> fk_family k = ucast (addr_family w) \<and>
       top_bits (unat (fk_prefixlen k) - 64) x = top_bits (unat (fk_prefixlen k) - 64) (fk_addr k))"
proof -
  obtain a bits family x where k: "cidrPolicyPrefix (Some n) = Inr (a, bits, family)" "addr128 (as16 w) = Inr x"
    "prefix_contains p w \<longleftrightarrow> addr_family w = family \<and> top_bits (unat bits) x = top_bits (unat bits) a"
    using policy_prefix_covers [OF assms(2-)] by blast
  have "unat bits \<le> 128" "family = 4 \<or> family = 6" using policy_prefix_bits [OF k(1)] by auto
  then have "unat (64 + bits) - 64 = unat bits" by (simp add: unat_word_ariths)
  moreover have "ucast family = (ucast (addr_family w) :: u32) \<longleftrightarrow> family = addr_family w"
    using \<open>family = 4 \<or> family = 6\<close> by (auto simp: addr_family_def)
  ultimately show ?thesis using assms(1) k by (auto simp: fwdCIDRKey_def)
qed

text \<open>
  Encoding an address and decoding it gives an equal address, for IPv4 (in either of Go's
  two byte forms) and for every IPv6 address outside the NAT64 prefix \<^verbatim>\<open>64:ff9b::/96\<close>, which is
  the image of the IPv4 addresses.
\<close>

lemma addr128_roundtrip:
  assumes "addr128 q = Inr a" and "length q = 4 \<or> length q = 16"
    and "ip_to4 q = None \<longrightarrow> top_bits 96 a \<noteq> top_bits 96 nat64_prefix"
  shows "ip_equal (addr128ToIP a) q"
proof (cases "ip_to4 q")
  case None
  with assms(2) have q: "length q = 16" "ip_to16 q = Some q"
    by (auto simp: ip_to4_def ip_to16_def split: if_splits)
  have "unat a = be_nat q"
    using assms(1) None q be_nat_less [of q] by (auto simp: addr128_def unsigned_of_nat take_bit_nat_eq_self_iff)
  then show ?thesis using assms(3) None q be_bytes_be_nat [of q] by (simp add: addr128ToIP_def ip_equal_def)
next
  case (Some v4)
  then have v4: "length v4 = 4" by (auto simp: ip_to4_def split: if_splits)
  define x :: u32 where "x = of_nat (be_nat v4)"
  have x: "unat x = be_nat v4"
    using be_nat_less [of v4] v4 by (simp add: x_def unsigned_of_nat take_bit_nat_eq_self_iff)
  have "a = nat64_prefix + ucast x" using assms(1) Some by (simp add: addr128_def flip: x)
  moreover have "(0x0064ff9b * 2 ^ 96 + unat x) mod 2 ^ 32 = unat x"
    using unat_less_power [of x] mod_mult_self3 [of "0x0064ff9b * 2 ^ 64" "2 ^ 32" "unat x"] by simp
  ultimately have "addr128ToIP a = v4"
    using x be_bytes_be_nat [of v4] v4 by (simp only: addr128ToIP_def nat64_top_all unat_nat64 simp_thms if_True)
  then show ?thesis using Some v4 by (auto simp: ip_equal_def ip_to4_def split: if_splits)
qed

end
