(* ===== verification/KernelMap.thy ===== *)
theory KernelMap
  imports DpAddr "HOL-Library.AList" "HOL-Library.Multiset"
begin

text \<open>
  The kernel maps of the datapath and the full-state synchronisation that all policy tables
  share (\<^verbatim>\<open>putDesired\<close>, \<^verbatim>\<open>syncMap\<close> of \<^verbatim>\<open>datapath/securitygroup.go\<close>). The eBPF library and
  the kernel are not part of the repository: a map is a record of operations on an abstract
  kernel state \<open>'w\<close>, and the locale \<open>ebpf_map\<close> states what the library documents about them.
  Any call may fail, at any point, with the error of the kernel.
\<close>

section \<open>Maps as operations on the kernel state\<close>

record ('w, 'k, 'v) map_ops =
  mo_max :: nat
  mo_put :: "'k \<Rightarrow> 'v \<Rightarrow> 'w \<Rightarrow> errno option \<times> 'w"
  mo_delete :: "'k \<Rightarrow> 'w \<Rightarrow> errno option \<times> 'w"
  mo_iterate :: "'w \<Rightarrow> ('k \<times> 'v) list \<times> errno option \<times> 'w"
  mo_lookup :: "'k \<Rightarrow> 'w \<Rightarrow> (errno + 'v) \<times> 'w"

text \<open>A call that may fail returns the error, or nothing, and the new kernel state.\<close>

type_synonym 'w call = "'w \<Rightarrow> dp_error option \<times> 'w"

definition put :: "('w, 'k, 'v) map_ops \<Rightarrow> 'k \<Rightarrow> 'v \<Rightarrow> 'w call" where
  "put m k v w = (case mo_put m k v w of (e, w') \<Rightarrow> (map_option Kernel e, w'))"

definition delete_existing :: "('w, 'k, 'v) map_ops \<Rightarrow> 'k \<Rightarrow> 'w call" where
  "delete_existing m k w = (case mo_delete m k w of
     (e, w') \<Rightarrow> (if e = Some ENOENT then None else map_option Kernel e, w'))"

fun do_seq :: "'w call list \<Rightarrow> 'w call" where
  "do_seq [] w = (None, w)"
| "do_seq (c # cs) w = (case c w of (None, w') \<Rightarrow> do_seq cs w' | (Some e, w') \<Rightarrow> (Some e, w'))"

text \<open>
  The order in which Go ranges over a map is unspecified. It is a parameter: \<open>ord n\<close> is the
  permutation of \<open>0, \<dots>, n - 1\<close> that a range over \<open>n\<close> entries follows.
\<close>

type_synonym range_order = "nat \<Rightarrow> nat list"

definition valid_order :: "range_order \<Rightarrow> bool" where
  "valid_order ord = (\<forall>n. distinct (ord n) \<and> set (ord n) = {..<n})"

definition go_range :: "range_order \<Rightarrow> 'a list \<Rightarrow> 'a list" where
  "go_range ord xs = map (\<lambda>i. xs ! i) (ord (length xs))"

definition putDesired :: "('w, 'k, 'v) map_ops \<Rightarrow> ('k \<times> 'v) list \<Rightarrow> 'k \<Rightarrow> 'v \<Rightarrow> dp_error + ('k \<times> 'v) list" where
  "putDesired m want k v =
     (if map_of want k = None \<and> mo_max m \<le> length want then Inl OverCapacity
      else Inr (AList.update k v want))"

definition stale_keys :: "('k \<times> 'v) list \<Rightarrow> ('k \<times> 'v) list \<Rightarrow> 'k list" where
  "stale_keys want es = [k. (k, v) \<leftarrow> es, map_of want k = None]"

definition unchanged_keys :: "('k \<times> 'v) list \<Rightarrow> ('k \<times> 'v) list \<Rightarrow> 'k list" where
  "unchanged_keys want es = [k. (k, v) \<leftarrow> es, map_of want k = Some v]"

definition syncMap :: "range_order \<Rightarrow> ('w, 'k, 'v) map_ops \<Rightarrow> ('k \<times> 'v) list \<Rightarrow> 'w call" where
  "syncMap ord m want w =
     (if mo_max m < length want then (Some OverCapacity, w)
      else (case mo_iterate m w of
         (es, Some e, w1) \<Rightarrow> (Some (Kernel e), w1)
       | (es, None, w1) \<Rightarrow>
           do_seq (map (delete_existing m) (stale_keys want es) @
             map (\<lambda>(k, v). put m k v)
               (filter (\<lambda>(k, v). k \<notin> set (unchanged_keys want es)) (go_range ord want))) w1))"

declare do_seq.simps [simp del]

section \<open>Ranges and sequences\<close>

lemma map_of_filter_key: "map_of (filter (\<lambda>(k, v). P k) xs) k = (if P k then map_of xs k else None)"
  by (induction xs) auto

lemma set_go_range: "valid_order ord \<Longrightarrow> set (go_range ord xs) = set xs"
  by (auto simp: go_range_def valid_order_def in_set_conv_nth image_iff)

lemma go_range_nth: "valid_order ord \<Longrightarrow> mset (go_range ord xs) = mset xs"
proof -
  assume "valid_order ord"
  then have "mset (ord (length xs)) = mset [0..<length xs]"
    by (intro set_eq_iff_mset_eq_distinct [THEN iffD1]) (auto simp: valid_order_def)
  then have "mset (go_range ord xs) = mset (map ((!) xs) [0..<length xs])"
    unfolding go_range_def by (simp flip: mset_map add: mset_map)
  then show ?thesis by (simp add: map_nth)
qed

lemma go_range_map_of:
  assumes "valid_order ord" "distinct (map fst xs)"
  shows "distinct (map fst (go_range ord xs))" "map_of (go_range ord xs) = map_of xs"
proof -
  show d: "distinct (map fst (go_range ord xs))"
    using assms go_range_nth by (metis mset_eq_imp_distinct_iff mset_map)
  show "map_of (go_range ord xs) = map_of xs"
    using d assms set_go_range by (metis map_of_inject_set)
qed

definition plain_order :: "nat \<Rightarrow> range_order" where
  "plain_order i n = [0..<n]"

lemma valid_plain_order [simp]: "valid_order (plain_order i)"
  by (auto simp: valid_order_def plain_order_def)

lemma do_seq_append:
  "do_seq (cs @ ds) w = (case do_seq cs w of (None, w') \<Rightarrow> do_seq ds w' | (Some e, w') \<Rightarrow> (Some e, w'))"
  by (induction cs arbitrary: w) (auto simp: do_seq.simps split: prod.splits option.splits)

text \<open>
  Partial-correctness triples: from a state in \<open>P\<close>, the call ends in \<open>Q\<close> when it returns no error and
  in \<open>E\<close> when it returns one.
\<close>

definition triple :: "('w \<Rightarrow> bool) \<Rightarrow> 'w call \<Rightarrow> ('w \<Rightarrow> bool) \<Rightarrow> ('w \<Rightarrow> bool) \<Rightarrow> bool" where
  "triple P c Q E = (\<forall>w. P w \<longrightarrow> (case c w of (None, w') \<Rightarrow> Q w' | (Some e, w') \<Rightarrow> E w'))"

lemma triple_Nil: "(\<And>w. P w \<Longrightarrow> Q w) \<Longrightarrow> triple P (do_seq []) Q E"
  by (simp add: triple_def do_seq.simps)

lemma triple_Cons: "triple P c R E \<Longrightarrow> triple R (do_seq cs) Q E \<Longrightarrow> triple P (do_seq (c # cs)) Q E"
  by (fastforce simp: triple_def do_seq.simps split: prod.splits option.splits)

lemma triple_conseq:
  "triple P' c Q' E' \<Longrightarrow> (\<And>w. P w \<Longrightarrow> P' w) \<Longrightarrow> (\<And>w. Q' w \<Longrightarrow> Q w) \<Longrightarrow> (\<And>w. E' w \<Longrightarrow> E w) \<Longrightarrow> triple P c Q E"
  by (fastforce simp: triple_def split: prod.splits option.splits)

lemma triple_conj:
  "triple P c Q E \<Longrightarrow> triple P' c Q' E' \<Longrightarrow>
    triple (\<lambda>w. P w \<and> P' w) c (\<lambda>w. Q w \<and> Q' w) (\<lambda>w. E w \<and> E' w)"
  by (fastforce simp: triple_def split: prod.splits option.splits)

lemma triple_ok: "triple P c Q E \<Longrightarrow> P w \<Longrightarrow> c w = (None, w') \<Longrightarrow> Q w'"
  by (fastforce simp: triple_def)

lemma triple_error: "triple P c Q E \<Longrightarrow> P w \<Longrightarrow> c w = (Some e, w') \<Longrightarrow> E w'"
  by (fastforce simp: triple_def)

lemma tripleI:
  assumes "\<And>w w'. P w \<Longrightarrow> c w = (None, w') \<Longrightarrow> Q w'" "\<And>w e w'. P w \<Longrightarrow> c w = (Some e, w') \<Longrightarrow> E w'"
  shows "triple P c Q E"
  using assms by (auto simp: triple_def split: prod.split option.split)

lemma triple_append:
  assumes "triple P (do_seq cs) R E" "triple R (do_seq ds) Q E"
  shows "triple P (do_seq (cs @ ds)) Q E"
proof (rule tripleI)
  fix w w' assume "P w" and run: "do_seq (cs @ ds) w = (None, w')"
  then obtain u where "do_seq cs w = (None, u)" "do_seq ds u = (None, w')"
    by (auto simp: do_seq_append split: prod.splits option.splits)
  then show "Q w'" using triple_ok [OF assms(1) \<open>P w\<close>] triple_ok [OF assms(2)] by blast
next
  fix w e w' assume "P w" and run: "do_seq (cs @ ds) w = (Some e, w')"
  then consider "do_seq cs w = (Some e, w')" | u where "do_seq cs w = (None, u)" "do_seq ds u = (Some e, w')"
    by (auto simp: do_seq_append split: prod.splits option.splits)
  then show "E w'"
    using triple_error [OF assms(1) \<open>P w\<close>] triple_ok [OF assms(1) \<open>P w\<close>] triple_error [OF assms(2)] by cases blast+
qed

lemma triple_Ball:
  assumes "\<And>x. x \<in> S \<Longrightarrow> triple (Q x) c (Q x) (Q x)"
  shows "triple (\<lambda>w. \<forall>x \<in> S. Q x w) c (\<lambda>w. \<forall>x \<in> S. Q x w) (\<lambda>_. True)"
  by (rule tripleI) (use triple_ok [OF assms] in blast)+

lemma triple_by_view: "(\<And>w. P w \<Longrightarrow> triple (\<lambda>u. f u = f w) c Q E) \<Longrightarrow> triple P c Q E"
  by (simp add: triple_def)

lemma triple_totalI: "(\<And>w. P w \<Longrightarrow> \<exists>w'. c w = (None, w')) \<Longrightarrow> triple P c (\<lambda>_. True) (\<lambda>_. False)"
  unfolding triple_def by (metis (mono_tags, lifting) old.prod.case option.simps(4))

lemma triple_seq_inv: "(\<And>c. c \<in> set cs \<Longrightarrow> triple P c P P) \<Longrightarrow> triple P (do_seq cs) P P"
  by (induction cs) (auto intro!: triple_Nil triple_Cons)

text \<open>A property of the kernel state that no operation of a map changes.\<close>

definition map_keeps :: "('w, 'k, 'v) map_ops \<Rightarrow> ('w \<Rightarrow> bool) \<Rightarrow> bool" where
  "map_keeps m P = (\<forall>w. P w \<longrightarrow> (\<forall>k v. P (snd (mo_put m k v w))) \<and> (\<forall>k. P (snd (mo_delete m k w))) \<and>
     P (snd (snd (mo_iterate m w))) \<and> (\<forall>k. P (snd (mo_lookup m k w))))"

definition map_frame :: "('w, 'k, 'v) map_ops \<Rightarrow> ('w \<Rightarrow> 'o) \<Rightarrow> bool" where
  "map_frame m f = (\<forall>w. (\<forall>k v. f (snd (mo_put m k v w)) = f w) \<and> (\<forall>k. f (snd (mo_delete m k w)) = f w) \<and>
     f (snd (snd (mo_iterate m w))) = f w \<and> (\<forall>k. f (snd (mo_lookup m k w)) = f w))"

lemma frame_keeps: "map_frame m f \<Longrightarrow> map_keeps m (\<lambda>w. P (f w))"
  by (simp add: map_frame_def map_keeps_def)

lemma put_keeps: "map_keeps m P \<Longrightarrow> triple P (put m k v) P P"
  by (auto simp: triple_def put_def map_keeps_def split: prod.splits option.splits) (metis snd_conv)+

lemma delete_keeps: "map_keeps m P \<Longrightarrow> triple P (delete_existing m k) P P"
  by (auto simp: triple_def delete_existing_def map_keeps_def split: prod.splits option.splits) (metis snd_conv)+

lemma syncMap_triple:
  assumes "\<And>w. P w \<Longrightarrow> E w" and "\<And>w es e w1. P w \<Longrightarrow> mo_iterate m w = (es, Some e, w1) \<Longrightarrow> E w1"
    and "\<And>w es w1. P w \<Longrightarrow> mo_iterate m w = (es, None, w1) \<Longrightarrow>
      triple (\<lambda>w. w = w1) (do_seq (map (delete_existing m) (stale_keys want es) @
        map (\<lambda>(k, v). put m k v)
          (filter (\<lambda>(k, v). k \<notin> set (unchanged_keys want es)) (go_range ord want)))) Q E"
  shows "triple P (syncMap ord m want) Q E"
  unfolding triple_def
proof (intro allI impI)
  fix w assume "P w"
  obtain es e w1 where it: "mo_iterate m w = (es, e, w1)" by (metis prod_cases3)
  show "case syncMap ord m want w of (None, w') \<Rightarrow> Q w' | (Some e, w') \<Rightarrow> E w'"
  proof (cases e)
    case None
    then show ?thesis using assms(1) [OF \<open>P w\<close>] assms(3) [OF \<open>P w\<close> it [unfolded None]] it
      by (simp add: syncMap_def triple_def)
  next
    case (Some e')
    then show ?thesis using assms(1,2) \<open>P w\<close> it by (simp add: syncMap_def)
  qed
qed

lemma syncMap_keeps:
  assumes "map_keeps m P"
  shows "triple P (syncMap ord m want) P P"
proof (rule syncMap_triple)
  have it: "P w \<Longrightarrow> P (snd (snd (mo_iterate m w)))" for w using assms by (simp add: map_keeps_def)
  show "P w1" if "P w" "mo_iterate m w = (es, Some e, w1)" for w es e w1 using it [OF that(1)] that(2) by simp
  show "triple (\<lambda>w. w = w1) (do_seq (map (delete_existing m) (stale_keys want es) @ map (\<lambda>(k, v). put m k v)
          (filter (\<lambda>(k, v). k \<notin> set (unchanged_keys want es)) (go_range ord want)))) P P"
    if "P w" "mo_iterate m w = (es, None, w1)" for w es w1
  proof (rule triple_conseq)
    show "triple P (do_seq (map (delete_existing m) (stale_keys want es) @ map (\<lambda>(k, v). put m k v)
          (filter (\<lambda>(k, v). k \<notin> set (unchanged_keys want es)) (go_range ord want)))) P P"
      by (rule triple_seq_inv) (auto intro: put_keeps delete_keeps assms)
  qed (use it [OF that(1)] that(2) in auto)
qed

section \<open>The contract of a kernel map\<close>

text \<open>
  \<open>view w\<close> is the content of the map in the kernel state \<open>w\<close>. A call that fails leaves the content
  as it was, \<^verbatim>\<open>ENOENT\<close> from a delete means that the key was absent, and an iteration that ends
  without an error has seen every entry (the agent is the only writer of these maps).
\<close>

locale ebpf_map =
  fixes m :: "('w, 'k, 'v) map_ops"
    and view :: "'w \<Rightarrow> 'k \<rightharpoonup> 'v"
  assumes put_view: "mo_put m k v w = (e, w') \<Longrightarrow> view w' = (if e = None then (view w)(k \<mapsto> v) else view w)"
    and delete_view: "mo_delete m k w = (e, w') \<Longrightarrow> view w' = (if e = None then (view w)(k := None) else view w)"
    and delete_noent: "mo_delete m k w = (Some ENOENT, w') \<Longrightarrow> view w k = None"
    and iterate_view: "mo_iterate m w = (es, e, w') \<Longrightarrow> view w' = view w"
    and iterate_all: "mo_iterate m w = (es, None, w') \<Longrightarrow> set es = {(k, v). view w k = Some v}"
    and lookup_view: "mo_lookup m k w = (r, w') \<Longrightarrow> view w' = view w"
    and lookup_hit: "mo_lookup m k w = (Inr v, w') \<Longrightarrow> view w k = Some v"
    and lookup_noent: "mo_lookup m k w = (Inl ENOENT, w') \<Longrightarrow> view w k = None"
begin

lemma put_triple: "triple (\<lambda>w. view w = V) (put m k v) (\<lambda>w. view w = V(k \<mapsto> v)) (\<lambda>w. view w = V)"
  using put_view by (fastforce simp: triple_def put_def split: prod.splits option.splits)

lemma delete_triple:
  "triple (\<lambda>w. view w = V) (delete_existing m k) (\<lambda>w. view w = V(k := None)) (\<lambda>w. view w = V)"
proof -
  have "view w' = (view w)(k := None)" if "mo_delete m k w = (Some ENOENT, w')" for w w'
    using delete_view [OF that] delete_noent [OF that] by (simp add: fun_upd_idem)
  then show ?thesis
    using delete_view by (fastforce simp: triple_def delete_existing_def split: prod.splits option.splits if_splits)
qed

lemma delete_all:
  "triple (\<lambda>w. view w = V) (do_seq (map (delete_existing m) ks)) (\<lambda>w. view w = V |` (- set ks)) (\<lambda>_. True)"
proof (induction ks arbitrary: V)
  case Nil
  show ?case unfolding list.map by (rule triple_Nil) simp
next
  case (Cons k ks)
  have "triple (\<lambda>w. view w = V) (do_seq (map (delete_existing m) (k # ks)))
      (\<lambda>w. view w = V(k := None) |` (- set ks)) (\<lambda>_. True)"
    unfolding list.map
    by (rule triple_Cons [OF triple_conseq [OF delete_triple] Cons.IH]) auto
  moreover have "V(k := None) |` (- set ks) = V |` (- set (k # ks))"
    by (auto simp: restrict_map_def fun_eq_iff)
  ultimately show ?case by simp
qed

lemma put_all:
  assumes "distinct (map fst kvs)"
  shows "triple (\<lambda>w. view w = V) (do_seq (map (\<lambda>(k, v). put m k v) kvs)) (\<lambda>w. view w = V ++ map_of kvs) (\<lambda>_. True)"
  using assms
proof (induction kvs arbitrary: V)
  case Nil
  show ?case unfolding list.map by (rule triple_Nil) simp
next
  case (Cons kv kvs)
  obtain k v where kv: "kv = (k, v)" by (cases kv)
  have "triple (\<lambda>w. view w = V) (do_seq (map (\<lambda>(k, v). put m k v) (kv # kvs)))
      (\<lambda>w. view w = V(k \<mapsto> v) ++ map_of kvs) (\<lambda>_. True)"
    unfolding list.map kv prod.case
    by (rule triple_Cons [OF triple_conseq [OF put_triple] Cons.IH]) (use Cons.prems in auto)
  moreover have "V(k \<mapsto> v) ++ map_of kvs = V ++ map_of (kv # kvs)"
    using Cons.prems kv by (auto simp: map_add_def fun_eq_iff dest: map_of_SomeD split: option.splits)
      (metis fst_conv image_eqI map_of_SomeD)
  ultimately show ?case by (simp only:)
qed

lemma stale_view: "mo_iterate m w = (es, None, w1) \<Longrightarrow> set (stale_keys want es) = dom (view w) - dom (map_of want)"
  using iterate_all [of w es w1] by (auto simp: stale_keys_def split: if_splits)

lemma unchanged_view:
  "mo_iterate m w = (es, None, w1) \<Longrightarrow> k \<in> set (unchanged_keys want es) \<longleftrightarrow> view w k \<noteq> None \<and> view w k = map_of want k"
  using iterate_all [of w es w1] by (auto simp: unchanged_keys_def split: if_splits)

lemma synced_content:
  assumes "valid_order ord" "distinct (map fst want)" "mo_iterate m w = (es, None, w1)"
  shows "view w |` (- set (stale_keys want es)) ++
    map_of (filter (\<lambda>(k, v). k \<notin> set (unchanged_keys want es)) (go_range ord want)) = map_of want"
proof
  fix k
  let ?f = "filter (\<lambda>(k, v). k \<notin> set (unchanged_keys want es)) (go_range ord want)"
  have "map_of ?f k = (if k \<in> set (unchanged_keys want es) then None else map_of want k)"
    using go_range_map_of(2) [OF assms(1,2)] by (simp add: map_of_filter_key)
  then show "(view w |` (- set (stale_keys want es)) ++ map_of ?f) k = map_of want k"
    using stale_view [OF assms(3)] unchanged_view [OF assms(3), of k want]
    by (auto simp: map_add_def restrict_map_def split: option.splits)
qed

lemma syncMap_exact:
  assumes "valid_order ord" "distinct (map fst want)"
  shows "triple (\<lambda>_. True) (syncMap ord m want) (\<lambda>w. view w = map_of want) (\<lambda>_. True)"
proof (rule syncMap_triple)
  fix w es w1 assume it: "mo_iterate m w = (es, None, w1)"
  let ?f = "filter (\<lambda>(k, v). k \<notin> set (unchanged_keys want es)) (go_range ord want)"
  have d: "distinct (map fst ?f)"
    using go_range_map_of(1) [OF assms] by (simp add: distinct_map_filter)
  have "view w' = map_of want"
    if run: "do_seq (map (delete_existing m) (stale_keys want es) @ map (\<lambda>(k, v). put m k v) ?f) w1 = (None, w')"
    for w'
  proof -
    obtain w2 where w2: "do_seq (map (delete_existing m) (stale_keys want es)) w1 = (None, w2)"
      "do_seq (map (\<lambda>(k, v). put m k v) ?f) w2 = (None, w')"
      using run by (auto simp: do_seq_append split: prod.splits option.splits)
    have "view w' = view w |` (- set (stale_keys want es)) ++ map_of ?f"
      using triple_ok [OF delete_all _ w2(1)] triple_ok [OF put_all [OF d] _ w2(2)] iterate_view [OF it] by simp
    then show ?thesis using synced_content [OF assms it] by simp
  qed
  then show "triple (\<lambda>w. w = w1) (do_seq (map (delete_existing m) (stale_keys want es) @ map (\<lambda>(k, v). put m k v) ?f))
      (\<lambda>w. view w = map_of want) (\<lambda>_. True)"
    by (auto simp: triple_def split: prod.splits option.splits)
qed simp_all

text \<open>Even when it fails half way, every entry is the old one or the desired one.\<close>

lemma syncMap_partial:
  assumes "valid_order ord" "distinct (map fst want)"
  shows "triple (\<lambda>w. view w = V) (syncMap ord m want)
    (\<lambda>w. \<forall>k. view w k = V k \<or> view w k = map_of want k) (\<lambda>w. \<forall>k. view w k = V k \<or> view w k = map_of want k)"
    (is "triple _ _ ?I ?I")
proof (rule syncMap_triple)
  have del: "triple ?I (delete_existing m k) ?I ?I" if "map_of want k = None" for k
    by (rule triple_by_view [where f = view], rule triple_conseq [OF delete_triple])
      (use that in \<open>auto, metis\<close>)
  have put: "triple ?I (put m k v) ?I ?I" if "map_of want k = Some v" for k v
    by (rule triple_by_view [where f = view], rule triple_conseq [OF put_triple])
      (use that in \<open>auto, metis\<close>)
  show "triple (\<lambda>w. w = w1) (do_seq (map (delete_existing m) (stale_keys want es) @ map (\<lambda>(k, v). put m k v)
        (filter (\<lambda>(k, v). k \<notin> set (unchanged_keys want es)) (go_range ord want)))) ?I ?I"
    if "view w = V" "mo_iterate m w = (es, None, w1)" for w es w1
  proof (rule triple_conseq)
    show "triple ?I (do_seq (map (delete_existing m) (stale_keys want es) @ map (\<lambda>(k, v). put m k v)
        (filter (\<lambda>(k, v). k \<notin> set (unchanged_keys want es)) (go_range ord want)))) ?I ?I"
      by (rule triple_seq_inv)
        (auto simp: stale_keys_def set_go_range [OF assms(1)] assms(2) intro!: del put split: if_splits)
  qed (use iterate_view [OF that(2)] that(1) in auto)
  show "?I w1" if "view w = V" "mo_iterate m w = (es, Some e, w1)" for w es e w1
    using iterate_view [OF that(2)] that(1) by simp
qed simp

end

text \<open>
  A kernel that has memory: iterations and deletes succeed, and a put is refused only for a new key
  in a full map. Then the synchronisation always succeeds, because it deletes before it puts.
\<close>

locale ebpf_map_reliable = ebpf_map +
  assumes lookup_succeeds: "view w k = Some v \<Longrightarrow> fst (mo_lookup m k w) = Inr v"
    and iterate_succeeds: "fst (snd (mo_iterate m w)) = None"
    and delete_succeeds: "fst (mo_delete m k w) \<in> {None, Some ENOENT}"
    and put_succeeds: "k \<in> dom (view w) \<or> card (dom (view w)) < mo_max m \<Longrightarrow> fst (mo_put m k v w) = None"
begin

lemma finite_view: "finite (dom (view w))"
proof -
  obtain es w' where "mo_iterate m w = (es, None, w')" using iterate_succeeds [of w] by (metis prod.collapse)
  then have "dom (view w) = fst ` set es" by (force simp: iterate_all)
  then show ?thesis by simp
qed

lemma delete_total: "triple P (do_seq (map (delete_existing m) ks)) (\<lambda>_. True) (\<lambda>_. False)"
proof (induction ks arbitrary: P)
  case Nil
  show ?case unfolding list.map by (rule triple_Nil) simp
next
  case (Cons k ks)
  have "triple P (delete_existing m k) (\<lambda>_. True) (\<lambda>_. False)"
    unfolding triple_def
  proof (intro allI impI)
    fix w
    obtain e w' where "mo_delete m k w = (e, w')" by (cases "mo_delete m k w")
    then show "case delete_existing m k w of (None, w') \<Rightarrow> True | (Some e, w') \<Rightarrow> False"
      using delete_succeeds [of k w] by (auto simp: delete_existing_def)
  qed
  then show ?case unfolding list.map by (rule triple_Cons) (rule Cons.IH)
qed

lemma put_total:
  assumes "set (map fst kvs) \<subseteq> D" "finite D" "card D \<le> mo_max m"
  shows "triple (\<lambda>w. dom (view w) \<subseteq> D) (do_seq (map (\<lambda>(k, v). put m k v) kvs)) (\<lambda>_. True) (\<lambda>_. False)"
  using assms(1)
proof (induction kvs)
  case Nil
  show ?case unfolding list.map by (rule triple_Nil) simp
next
  case (Cons kv kvs)
  obtain k v where kv: "kv = (k, v)" by (cases kv)
  have "k \<in> D" using Cons.prems kv by simp
  have ok: "fst (mo_put m k v w) = None" if "dom (view w) \<subseteq> D" for w
  proof (rule put_succeeds, rule disjCI)
    assume "\<not> card (dom (view w)) < mo_max m"
    then have "card D \<le> card (dom (view w))" using assms(3) by simp
    then have "dom (view w) = D" using that assms(2) by (simp add: card_subset_eq card_mono le_antisym)
    then show "k \<in> dom (view w)" using \<open>k \<in> D\<close> by simp
  qed
  have "triple (\<lambda>w. dom (view w) \<subseteq> D) (put m k v) (\<lambda>w. dom (view w) \<subseteq> D) (\<lambda>_. False)"
    unfolding triple_def
  proof (intro allI impI)
    fix w assume "dom (view w) \<subseteq> D"
    moreover obtain w' where "mo_put m k v w = (None, w')" using ok [OF calculation] by (metis prod.collapse)
    ultimately show "case put m k v w of (None, w') \<Rightarrow> dom (view w') \<subseteq> D | (Some e, w') \<Rightarrow> False"
      using put_view \<open>k \<in> D\<close> by (auto simp: put_def)
  qed
  then show ?case unfolding list.map kv prod.case by (rule triple_Cons) (use Cons in auto)
qed

lemma syncMap_succeeds:
  assumes "valid_order ord" "distinct (map fst want)" "length want \<le> mo_max m"
  shows "\<exists>w'. syncMap ord m want w = (None, w') \<and> view w' = map_of want"
proof -
  obtain es w1 where it: "mo_iterate m w = (es, None, w1)" using iterate_succeeds [of w] by (metis prod.collapse)
  let ?f = "filter (\<lambda>(k, v). k \<notin> set (unchanged_keys want es)) (go_range ord want)"
  obtain w2 where w2: "do_seq (map (delete_existing m) (stale_keys want es)) w1 = (None, w2)"
    using delete_total [of "\<lambda>w. w = w1" "stale_keys want es"]
    by (cases "do_seq (map (delete_existing m) (stale_keys want es)) w1") (auto simp: triple_def split: option.splits)
  have "dom (view w2) \<subseteq> dom (map_of want)"
    using triple_ok [OF delete_all _ w2] stale_view [OF it] iterate_view [OF it] by (auto simp: restrict_map_def split: if_splits)
  moreover have "set (map fst ?f) \<subseteq> dom (map_of want)"
    using set_go_range [OF assms(1), of want] by (auto simp: dom_map_of_conv_image_fst)
  moreover have "card (dom (map_of want)) \<le> mo_max m"
    using distinct_card [OF assms(2)] assms(3) by (simp add: dom_map_of_conv_image_fst)
  ultimately have "case do_seq (map (\<lambda>(k, v). put m k v) ?f) w2 of (None, w') \<Rightarrow> True | (Some e, w') \<Rightarrow> False"
    using put_total [of ?f "dom (map_of want)"] by (simp only: triple_def finite_dom_map_of)
  then obtain w3 where "do_seq (map (\<lambda>(k, v). put m k v) ?f) w2 = (None, w3)"
    by (cases "do_seq (map (\<lambda>(k, v). put m k v) ?f) w2") (auto split: option.splits)
  then have "syncMap ord m want w = (None, w3)"
    using it w2 assms(3) by (simp add: syncMap_def do_seq_append)
  then show ?thesis using triple_ok [OF syncMap_exact [OF assms(1,2)]] by blast
qed

end

section \<open>Building the desired state\<close>

fun fold_err :: "('x \<Rightarrow> 'a \<Rightarrow> 'e + 'a) \<Rightarrow> 'x list \<Rightarrow> 'a \<Rightarrow> 'e + 'a" where
  "fold_err f [] a = Inr a"
| "fold_err f (x # xs) a = (case f x a of Inl e \<Rightarrow> Inl e | Inr a' \<Rightarrow> fold_err f xs a')"

lemma fold_err_append:
  "fold_err f (xs @ ys) a = (case fold_err f xs a of Inl e \<Rightarrow> Inl e | Inr b \<Rightarrow> fold_err f ys b)"
  by (induction xs arbitrary: a) (auto split: sum.splits)

lemma fold_err_induct:
  assumes "fold_err f xs a = Inr b" "P [] a"
    and "\<And>ys x zs c d. xs = ys @ x # zs \<Longrightarrow> P ys c \<Longrightarrow> f x c = Inr d \<Longrightarrow> P (ys @ [x]) d"
  shows "P xs b"
proof -
  have "P ys c" if "fold_err f ys a = Inr c" "xs = ys @ zs" for ys zs c
    using that
  proof (induction ys arbitrary: c zs rule: rev_induct)
    case Nil
    then show ?case using assms(2) by simp
  next
    case (snoc y ys)
    then obtain d where "fold_err f ys a = Inr d" "f y d = Inr c"
      by (auto simp: fold_err_append split: sum.splits)
    then show ?case using snoc.IH [of d "y # zs"] snoc.prems(2) assms(3) [of ys y zs d c] by simp
  qed
  then show ?thesis using assms(1) by simp
qed

text \<open>What the loops that fill \<^verbatim>\<open>want\<close> keep: no key twice, never more entries than the map takes.\<close>

definition desired_ok :: "('w, 'k, 'v) map_ops \<Rightarrow> ('k \<times> 'v) list \<Rightarrow> bool" where
  "desired_ok m want = (distinct (map fst want) \<and> length want \<le> mo_max m)"

lemma desired_ok_Nil [simp]: "desired_ok m []"
  by (simp add: desired_ok_def)

lemma length_update: "length (AList.update k v xs) = (if map_of xs k = None then Suc (length xs) else length xs)"
  by (induction xs) auto

lemma putDesired_ok:
  assumes "putDesired m want k v = Inr want'"
  shows "map_of want' = (map_of want)(k \<mapsto> v)" "desired_ok m want \<Longrightarrow> desired_ok m want'"
    "dom (map_of want') = insert k (dom (map_of want))"
  using assms by (auto simp: putDesired_def desired_ok_def update_conv' distinct_update length_update split: if_splits)

text \<open>The last two steps of every synchronisation: the desired state, or its error, then the diff.\<close>

definition sync_desired :: "range_order \<Rightarrow> ('w, 'k, 'v) map_ops \<Rightarrow> dp_error + ('k \<times> 'v) list \<Rightarrow> 'w call" where
  "sync_desired ord m r w = (case r of Inl e \<Rightarrow> (Some e, w) | Inr want \<Rightarrow> syncMap ord m want w)"

lemma sync_desired_keeps:
  assumes "map_keeps m P"
  shows "triple P (sync_desired ord m r) P P"
  using syncMap_keeps [OF assms] by (cases r) (auto simp: triple_def sync_desired_def)

context ebpf_map
begin

lemma sync_desired_exact:
  assumes "valid_order ord" "\<And>want. r = Inr want \<Longrightarrow> distinct (map fst want)"
  shows "triple (\<lambda>_. True) (sync_desired ord m r) (\<lambda>w. \<exists>want. r = Inr want \<and> view w = map_of want) (\<lambda>_. True)"
proof (cases r)
  case (Inl e)
  then show ?thesis by (simp add: triple_def sync_desired_def)
next
  case (Inr want)
  then have "sync_desired ord m r = syncMap ord m want" by (simp add: sync_desired_def fun_eq_iff)
  then show ?thesis using Inr by (auto intro: triple_conseq [OF syncMap_exact] assms)
qed

end

lemma frame_sync:
  assumes "map_frame m f" "\<And>w. Q w \<longleftrightarrow> R (f w)"
  shows "triple Q (sync_desired ord m r) Q Q"
  unfolding assms(2) by (rule sync_desired_keeps [OF frame_keeps [OF assms(1)]])

context ebpf_map
begin

lemma sync_desired_post:
  assumes "valid_order ord" "\<And>want. r = Inr want \<Longrightarrow> desired_ok m want \<and> Q (map_of want)"
  shows "triple (\<lambda>_. True) (sync_desired ord m r) (\<lambda>w. Q (view w)) (\<lambda>_. True)"
  by (rule triple_conseq [OF sync_desired_exact [OF assms(1)]]) (use assms(2) in \<open>auto simp: desired_ok_def\<close>)

end

context ebpf_map_reliable
begin

lemma sync_desired_total:
  assumes "valid_order ord" "r = Inr want" "desired_ok m want"
  shows "triple P (sync_desired ord m r) (\<lambda>_. True) (\<lambda>_. False)"
proof -
  have "\<exists>w'. sync_desired ord m r w = (None, w')" for w
    using syncMap_succeeds [of ord want w] assms by (auto simp: sync_desired_def desired_ok_def)
  then show ?thesis by (rule triple_totalI)
qed

lemma put_total1: "triple (\<lambda>w. k \<in> dom (view w)) (put m k v) (\<lambda>_. True) (\<lambda>_. False)"
proof -
  have "\<exists>w'. put m k v w = (None, w')" if "k \<in> dom (view w)" for w
    using put_succeeds [of k w v] that by (cases "mo_put m k v w") (auto simp: put_def)
  then show ?thesis by (rule triple_totalI)
qed

end

lemma total_stage:
  assumes "triple P c (\<lambda>_. True) (\<lambda>_. False)" "triple P c P P"
  shows "triple P c P (\<lambda>_. False)"
  by (rule triple_conseq [OF triple_conj [OF assms]]) auto

lemma triple_total: "triple P c Q (\<lambda>_. False) \<Longrightarrow> P w \<Longrightarrow> \<exists>w'. c w = (None, w')"
  unfolding triple_def by (cases "c w"; cases "fst (c w)") auto

text \<open>A stage of a guarded update establishes its own table and keeps the guard and the earlier tables.\<close>

lemma guarded_stage:
  assumes "triple (\<lambda>_. True) c Q (\<lambda>_. True)" "triple (\<lambda>w. A w \<and> R w) c (\<lambda>w. A w \<and> R w) (\<lambda>w. A w \<and> R w)"
  shows "triple (\<lambda>w. A w \<and> R w) c (\<lambda>w. A w \<and> R w \<and> Q w) A"
  by (rule triple_conseq [OF triple_conj [OF assms]]) auto

text \<open>
  A guarded update in general: the stages run while the guard \<open>A\<close> is armed, each establishes its own
  postcondition and keeps those of the stages before it.
\<close>

lemma guarded_stages:
  assumes "\<And>ys c Q zs. st = ys @ (c, Q) # zs \<Longrightarrow> triple (\<lambda>_. True) c Q (\<lambda>_. True)"
    and "\<And>ys c Q zs. st = ys @ (c, Q) # zs \<Longrightarrow> triple A c A A"
    and "\<And>ys c Q zs c' Q'. st = ys @ (c, Q) # zs \<Longrightarrow> (c', Q') \<in> set ys \<Longrightarrow> triple Q' c Q' Q'"
  shows "triple A (do_seq (map fst st)) (\<lambda>w. A w \<and> (\<forall>(c, Q) \<in> set st. Q w)) A"
  using assms
proof (induction st rule: rev_induct)
  case Nil
  show ?case by (simp add: triple_Nil)
next
  case (snoc cQ st)
  obtain c Q where cQ: "cQ = (c, Q)" by (cases cQ)
  have IH: "triple A (do_seq (map fst st)) (\<lambda>w. A w \<and> (\<forall>(c, Q) \<in> set st. Q w)) A"
    by (rule snoc.IH) (use snoc.prems in fastforce)+
  have keep: "triple (\<lambda>w. \<forall>x \<in> set st. snd x w) c (\<lambda>w. \<forall>x \<in> set st. snd x w) (\<lambda>_. True)"
    by (rule triple_Ball) (use snoc.prems(3) [of st c Q "[]"] cQ in auto)
  have "triple (\<lambda>w. A w \<and> (\<forall>(c, Q) \<in> set st. Q w)) c (\<lambda>w. A w \<and> (\<forall>(c, Q) \<in> set (st @ [cQ]). Q w)) A"
    by (rule triple_conseq [OF triple_conj [OF triple_conj [OF snoc.prems(2) [of st c Q "[]"] keep] snoc.prems(1) [of st c Q "[]"]]])
      (auto simp: cQ)
  then have "triple (\<lambda>w. A w \<and> (\<forall>(c, Q) \<in> set st. Q w)) (do_seq [c]) (\<lambda>w. A w \<and> (\<forall>(c, Q) \<in> set (st @ [cQ]). Q w)) A"
    by (rule triple_Cons) (rule triple_Nil)
  from triple_append [OF IH this] show ?case by (simp add: cQ)
qed

section \<open>A reference kernel\<close>

text \<open>
  Bounded association lists inside a kernel state, with a hook \<open>tick\<close> that may make any call fail.
  Every contract of the development is met by such maps.
\<close>

definition alist_ops :: "nat \<Rightarrow> ('w \<Rightarrow> ('k \<times> 'v) list) \<Rightarrow> (('k \<times> 'v) list \<Rightarrow> 'w \<Rightarrow> 'w) \<Rightarrow>
    ('w \<Rightarrow> errno option \<times> 'w) \<Rightarrow> ('w, 'k, 'v) map_ops" where
  "alist_ops cap get upd tick = \<lparr>mo_max = cap,
     mo_put = (\<lambda>k v w. case tick w of
        (Some e, w1) \<Rightarrow> (Some e, w1)
      | (None, w1) \<Rightarrow> if map_of (get w1) k = None \<and> cap \<le> length (remdups (map fst (get w1))) then (Some E2BIG, w1)
          else (None, upd (AList.update k v (get w1)) w1)),
     mo_delete = (\<lambda>k w. case tick w of
        (Some e, w1) \<Rightarrow> (Some e, w1)
      | (None, w1) \<Rightarrow> if map_of (get w1) k = None then (Some ENOENT, w1)
          else (None, upd (AList.delete k (get w1)) w1)),
     mo_iterate = (\<lambda>w. case tick w of (e, w1) \<Rightarrow> (AList.clearjunk (get w1), e, w1)),
     mo_lookup = (\<lambda>k w. case tick w of
        (Some e, w1) \<Rightarrow> (Inl e, w1)
      | (None, w1) \<Rightarrow> (case map_of (get w1) k of None \<Rightarrow> (Inl ENOENT, w1) | Some v \<Rightarrow> (Inr v, w1)))\<rparr>"

lemma set_clearjunk: "set (AList.clearjunk xs) = {(k, v). map_of xs k = Some v}"
  using map_of_eq_Some_iff [of "AList.clearjunk xs"] distinct_clearjunk [of xs] by (auto simp: map_of_clearjunk)

lemma alist_ops_ebpf_map:
  assumes "\<And>xs w. get (upd xs w) = xs" "\<And>w. get (snd (tick w)) = get w" "\<And>w. fst (tick w) \<noteq> Some ENOENT"
  shows "ebpf_map (alist_ops cap get upd tick) (\<lambda>w. map_of (get w))"
proof
  have t: "tick w = (e, w1) \<Longrightarrow> get w1 = get w" for w e w1 using assms(2) [of w] by simp
  have n: "tick w = (Some ENOENT, w1) \<Longrightarrow> False" for w w1 using assms(3) [of w] by simp
  show "map_of (get w') = (if e = None then (map_of (get w))(k \<mapsto> v) else map_of (get w))"
    if "mo_put (alist_ops cap get upd tick) k v w = (e, w')" for k v w e w'
    using that by (auto simp: alist_ops_def assms(1) update_conv' t split: prod.splits option.splits if_splits dest: t)
  show "map_of (get w') = (if e = None then (map_of (get w))(k := None) else map_of (get w))"
    if "mo_delete (alist_ops cap get upd tick) k w = (e, w')" for k w e w'
    using that by (auto simp: alist_ops_def assms(1) delete_conv' split: prod.splits option.splits if_splits dest: t)
  show "map_of (get w) k = None" if "mo_delete (alist_ops cap get upd tick) k w = (Some ENOENT, w')" for k w w'
    using that by (auto simp: alist_ops_def split: prod.splits option.splits if_splits dest: t n)
  show "map_of (get w') = map_of (get w)" if "mo_iterate (alist_ops cap get upd tick) w = (es, e, w')" for w es e w'
    using that by (auto simp: alist_ops_def split: prod.splits dest: t)
  show "set es = {(k, v). map_of (get w) k = Some v}"
    if "mo_iterate (alist_ops cap get upd tick) w = (es, None, w')" for w es w'
  proof -
    have "es = AList.clearjunk (get w)" using that by (auto simp: alist_ops_def split: prod.splits dest: t)
    then show ?thesis by (simp add: set_clearjunk)
  qed
  show "map_of (get w') = map_of (get w)" if "mo_lookup (alist_ops cap get upd tick) k w = (r, w')" for k w r w'
    using that by (auto simp: alist_ops_def split: prod.splits option.splits dest: t)
  show "map_of (get w) k = Some v" if "mo_lookup (alist_ops cap get upd tick) k w = (Inr v, w')" for k w v w'
    using that by (auto simp: alist_ops_def split: prod.splits option.splits dest: t)
  show "map_of (get w) k = None" if "mo_lookup (alist_ops cap get upd tick) k w = (Inl ENOENT, w')" for k w w'
    using that by (auto simp: alist_ops_def split: prod.splits option.splits dest: t n)
qed

lemma alist_ops_reliable:
  assumes "\<And>xs w. get (upd xs w) = xs"
  shows "ebpf_map_reliable (alist_ops cap get upd (Pair None)) (\<lambda>w. map_of (get w))"
proof (intro ebpf_map_reliable.intro ebpf_map_reliable_axioms.intro)
  show "ebpf_map (alist_ops cap get upd (Pair None)) (\<lambda>w. map_of (get w))"
    by (rule alist_ops_ebpf_map) (simp_all add: assms)
  show "fst (mo_put (alist_ops cap get upd (Pair None)) k v w) = None"
    if "k \<in> dom (map_of (get w)) \<or> card (dom (map_of (get w))) < mo_max (alist_ops cap get upd (Pair None))" for k v w
  proof -
    have "length (remdups (map fst (get w))) = card (dom (map_of (get w)))"
      by (simp add: dom_map_of_conv_image_fst length_remdups_card_conv)
    then show ?thesis using that by (auto simp: alist_ops_def)
  qed
qed (auto simp: alist_ops_def)

lemma alist_ops_keeps:
  assumes "\<And>xs w. P w \<Longrightarrow> P (upd xs w)" "\<And>w. P w \<Longrightarrow> P (snd (tick w))"
  shows "map_keeps (alist_ops cap get upd tick) P"
proof -
  have t: "tick w = (e, w1) \<Longrightarrow> P w \<Longrightarrow> P w1" for w e w1 using assms(2) [of w] by simp
  show ?thesis using assms(1)
    by (auto simp: map_keeps_def alist_ops_def split: prod.splits option.splits dest: t)
qed

lemma alist_ops_frame:
  assumes "\<And>xs w. f (upd xs w) = f w" "\<And>w. f (snd (tick w)) = f w"
  shows "map_frame (alist_ops cap get upd tick) f"
proof -
  have t: "tick w = (e, w1) \<Longrightarrow> f w1 = f w" for w e w1 using assms(2) [of w] by simp
  show ?thesis using assms(1)
    by (auto simp: map_frame_def alist_ops_def split: prod.splits option.splits dest: t)
qed

end
