(* ===== verification/Lpm.thy ===== *)
theory Lpm
  imports Prelude
begin

text \<open>
  Longest-prefix-match tries. The trie is the kernel's: what a lookup returns is stated as a
  contract over the content of the map, and \<open>lpm_find\<close> is a reference implementation over an
  association list.
\<close>

locale lpm_trie =
  fixes lookup :: "'q \<Rightarrow> 'v option"
    and content :: "'k \<rightharpoonup> 'v"
    and matches :: "'k \<Rightarrow> 'q \<Rightarrow> bool"
    and plen :: "'k \<Rightarrow> nat"
  assumes hit: "lookup q = Some v \<Longrightarrow> \<exists>k. content k = Some v \<and> matches k q \<and>
      (\<forall>k'. content k' \<noteq> None \<longrightarrow> matches k' q \<longrightarrow> plen k' \<le> plen k)"
    and miss: "lookup q = None \<Longrightarrow> content k \<noteq> None \<Longrightarrow> \<not> matches k q"
begin

lemma lookup_None_iff: "lookup q = None \<longleftrightarrow> (\<forall>k. content k \<noteq> None \<longrightarrow> \<not> matches k q)"
proof
  assume "\<forall>k. content k \<noteq> None \<longrightarrow> \<not> matches k q"
  then show "lookup q = None" using hit [of q] by (cases "lookup q") auto
qed (use miss in blast)

text \<open>Two keys that match the same query at the same length are the same key, when they are canonical.\<close>

lemma lookup_Some_iff:
  assumes "\<And>k k'. content k \<noteq> None \<Longrightarrow> content k' \<noteq> None \<Longrightarrow> matches k q \<Longrightarrow> matches k' q \<Longrightarrow>
    plen k = plen k' \<Longrightarrow> k = k'"
  shows "lookup q = Some v \<longleftrightarrow> (\<exists>k. content k = Some v \<and> matches k q \<and>
      (\<forall>k'. content k' \<noteq> None \<longrightarrow> matches k' q \<longrightarrow> plen k' \<le> plen k))"
proof
  assume "\<exists>k. content k = Some v \<and> matches k q \<and> (\<forall>k'. content k' \<noteq> None \<longrightarrow> matches k' q \<longrightarrow> plen k' \<le> plen k)"
  then obtain k where k: "content k = Some v" "matches k q"
    "\<forall>k'. content k' \<noteq> None \<longrightarrow> matches k' q \<longrightarrow> plen k' \<le> plen k" by blast
  then obtain u where u: "lookup q = Some u" using miss [of q k] by (cases "lookup q") auto
  from hit [OF this] obtain k' where k': "content k' = Some u" "matches k' q" "plen k \<le> plen k'"
    using k by force
  have "k = k'" using assms [of k k'] k k' by (simp add: le_antisym)
  then show "lookup q = Some v" using k k' u by simp
qed (rule hit)

text \<open>
  A table built from entries: every key of the trie comes from an entry, \<open>hits e\<close> says that entry \<open>e\<close>
  is about the query, and \<open>len\<close> orders the entries as the trie orders their keys.
\<close>

lemma entries_None_iff:
  assumes "\<And>k. content k \<noteq> None \<longleftrightarrow> (\<exists>e \<in> E. key e = Some k)"
    and "\<And>e. e \<in> E \<Longrightarrow> (\<exists>k. key e = Some k \<and> matches k q) \<longleftrightarrow> hits e"
  shows "lookup q = None \<longleftrightarrow> (\<forall>e \<in> E. \<not> hits e)"
  unfolding lookup_None_iff assms(1) using assms(2) by blast

lemma entries_Some:
  assumes content: "\<And>k. content k \<noteq> None \<longleftrightarrow> (\<exists>e \<in> E. key e = Some k)"
    and hits: "\<And>e. e \<in> E \<Longrightarrow> (\<exists>k. key e = Some k \<and> matches k q) \<longleftrightarrow> hits e"
    and len: "\<And>e k. e \<in> E \<Longrightarrow> hits e \<Longrightarrow> key e = Some k \<Longrightarrow> int (plen k) = c + len e"
    and v: "lookup q = Some v"
  shows "\<exists>e \<in> E. \<exists>k. hits e \<and> key e = Some k \<and> content k = Some v \<and> matches k q \<and>
    (\<forall>e' \<in> E. hits e' \<longrightarrow> len e' \<le> len e)"
proof -
  obtain k where k: "content k = Some v" "matches k q"
    "\<And>k'. content k' \<noteq> None \<Longrightarrow> matches k' q \<Longrightarrow> plen k' \<le> plen k"
    using hit [OF v] by blast
  obtain e where e: "e \<in> E" "key e = Some k" using content [of k] k(1) by auto
  have he: "hits e" using hits [OF e(1)] e(2) k(2) by blast
  have "len e' \<le> len e" if e': "e' \<in> E" "hits e'" for e'
  proof -
    obtain k' where k': "key e' = Some k'" "matches k' q" using hits [OF e'(1)] e'(2) by blast
    have "plen k' \<le> plen k" using k(3) [of k'] k' e'(1) content by blast
    then show ?thesis using len [OF e' k'(1)] len [OF e(1) he e(2)] by linarith
  qed
  then show ?thesis using e he k by blast
qed

lemma entries_verdict:
  assumes content: "\<And>k. content k \<noteq> None \<longleftrightarrow> (\<exists>e \<in> E. key e = Some k)"
    and hits: "\<And>e. e \<in> E \<Longrightarrow> (\<exists>k. key e = Some k \<and> matches k q) \<longleftrightarrow> hits e"
    and len: "\<And>e k. e \<in> E \<Longrightarrow> hits e \<Longrightarrow> key e = Some k \<Longrightarrow> int (plen k) = c + len e"
    and uniq: "\<And>e e' k k'. e \<in> E \<Longrightarrow> e' \<in> E \<Longrightarrow> key e = Some k \<Longrightarrow> key e' = Some k' \<Longrightarrow> matches k q \<Longrightarrow>
      matches k' q \<Longrightarrow> plen k = plen k' \<Longrightarrow> k = k'"
    and allow: "\<And>k v. content k = Some v \<Longrightarrow> good v \<longleftrightarrow> (\<exists>e \<in> E. key e = Some k \<and> allow e)"
    and v: "lookup q = Some v"
  shows "good v \<longleftrightarrow> (\<exists>e \<in> E. hits e \<and> allow e \<and> (\<forall>e' \<in> E. hits e' \<longrightarrow> len e' \<le> len e))"
proof -
  have "\<exists>e \<in> E. \<exists>k. hits e \<and> key e = Some k \<and> content k = Some v \<and> matches k q \<and>
      (\<forall>e' \<in> E. hits e' \<longrightarrow> len e' \<le> len e)"
    by (rule entries_Some [where c = c]) (fact content hits len v)+
  then obtain e k where e: "e \<in> E" "hits e" "key e = Some k" "content k = Some v" "matches k q"
    "\<And>e'. e' \<in> E \<Longrightarrow> hits e' \<Longrightarrow> len e' \<le> len e" by blast
  have "key e' = Some k" if e': "e' \<in> E" "hits e'" "len e \<le> len e'" for e'
  proof -
    obtain k' where k': "key e' = Some k'" "matches k' q" using hits [OF e'(1)] e'(2) by blast
    have "plen k = plen k'" using len [OF e(1-3)] len [OF e'(1,2) k'(1)] e(6) [OF e'(1,2)] e'(3) by linarith
    then show ?thesis using uniq [OF e(1) e'(1) e(3) k'(1) e(5) k'(2)] k'(1) by simp
  qed
  moreover have "hits e'" "len e \<le> len e'" if "e' \<in> E" "key e' = Some k" for e'
    using that hits [OF that(1)] e(5) len [OF e(1-3)] len [OF that(1) _ that(2)] by auto
  ultimately show ?thesis using allow [OF e(4)] e by (meson order.trans)
qed

end

fun lpm_best :: "('k \<Rightarrow> bool) \<Rightarrow> ('k \<Rightarrow> nat) \<Rightarrow> ('k \<times> 'v) list \<Rightarrow> ('k \<times> 'v) option" where
  "lpm_best P plen [] = None"
| "lpm_best P plen ((k, v) # t) = (case lpm_best P plen t of
     None \<Rightarrow> if P k then Some (k, v) else None
   | Some (k', v') \<Rightarrow> if P k \<and> plen k' \<le> plen k then Some (k, v) else Some (k', v'))"

definition lpm_find :: "('k \<Rightarrow> 'q \<Rightarrow> bool) \<Rightarrow> ('k \<Rightarrow> nat) \<Rightarrow> ('k \<times> 'v) list \<Rightarrow> 'q \<Rightarrow> 'v option" where
  "lpm_find matches plen t q = map_option snd (lpm_best (\<lambda>k. matches k q) plen t)"

fun remdups_keys :: "('k \<times> 'v) list \<Rightarrow> ('k \<times> 'v) list" where
  "remdups_keys [] = []"
| "remdups_keys ((k, v) # t) = (k, v) # filter (\<lambda>(k', _). k' \<noteq> k) (remdups_keys t)"

lemma distinct_remdups_keys: "distinct (map fst (remdups_keys t))"
  by (induction t) (auto intro: distinct_map_filter)

lemma lpm_best_None: "lpm_best P plen t = None \<longleftrightarrow> (\<forall>k \<in> fst ` set t. \<not> P k)"
  by (induction t) (auto split: option.splits if_splits)

lemma lpm_best_Some:
  "lpm_best P plen t = Some (k, v) \<Longrightarrow> (k, v) \<in> set t \<and> P k \<and> (\<forall>k' \<in> fst ` set t. P k' \<longrightarrow> plen k' \<le> plen k)"
proof (induction t arbitrary: k v)
  case (Cons x t)
  obtain a b where x: "x = (a, b)" by (cases x)
  show ?case
  proof (cases "lpm_best P plen t")
    case None
    moreover have "\<forall>k \<in> fst ` set t. \<not> P k" using None by (simp only: lpm_best_None)
    ultimately show ?thesis using Cons.prems x by (auto split: if_splits)
  next
    case (Some y)
    obtain c d where y: "y = (c, d)" by (cases y)
    then show ?thesis using Cons Some x by (force split: if_splits)
  qed
qed simp

lemma lpm_find_trie:
  assumes "distinct (map fst t)"
  shows "lpm_trie (lpm_find matches plen t) (map_of t) matches plen"
proof
  fix q v assume "lpm_find matches plen t q = Some v"
  then obtain k where "lpm_best (\<lambda>k. matches k q) plen t = Some (k, v)" by (auto simp: lpm_find_def)
  from lpm_best_Some [OF this] show "\<exists>k. map_of t k = Some v \<and> matches k q \<and>
      (\<forall>k'. map_of t k' \<noteq> None \<longrightarrow> matches k' q \<longrightarrow> plen k' \<le> plen k)"
    using assms by (metis map_of_eq_None_iff map_of_is_SomeI)
next
  fix q k assume "lpm_find matches plen t q = None" "map_of t k \<noteq> None"
  then show "\<not> matches k q" by (auto simp: lpm_find_def lpm_best_None map_of_eq_None_iff)
qed

interpretation lpm_ref: lpm_trie "lpm_find matches plen (remdups_keys t)" "map_of (remdups_keys t)" matches plen
  for matches :: "'k \<Rightarrow> 'q \<Rightarrow> bool" and plen :: "'k \<Rightarrow> nat" and t :: "('k \<times> 'v) list"
  by (rule lpm_find_trie) (rule distinct_remdups_keys)

end
