(* ===== verification/CidrTable.thy ===== *)
theory CidrTable
  imports KernelMap Lpm
begin

text \<open>
  Tries keyed by fixed fields and a CIDR. NetworkPolicy ipBlocks, security-group ranges and host
  firewall ranges are all compiled to such entries; this is the interface they share: an entry with a
  CIDR gives a key, and a query matches the key exactly when the fixed fields agree and the CIDR
  contains the address.
\<close>

definition cidr_covers :: "ipnet option \<Rightarrow> addr \<Rightarrow> bool" where
  "cidr_covers c w = (case normalizedCIDR c of Inl _ \<Rightarrow> False | Inr p \<Rightarrow> prefix_contains p w)"

definition cidr_bits :: "ipnet option \<Rightarrow> int" where
  "cidr_bits c = (case normalizedCIDR c of Inl _ \<Rightarrow> 0 | Inr p \<Rightarrow> pbits p)"

definition entry_key :: "('e \<Rightarrow> ipnet option) \<Rightarrow> ('e \<Rightarrow> u128 \<times> u32 \<times> u8 \<Rightarrow> 'k) \<Rightarrow> 'e \<Rightarrow> 'k option" where
  "entry_key cidr_of key_of e = (if cidr_of e = None then None
     else case cidrPolicyPrefix (cidr_of e) of Inl _ \<Rightarrow> None | Inr p \<Rightarrow> Some (key_of e p))"

text \<open>The verdict of allow and deny entries that are about a query: the longest prefix decides, and at
  equal length an allow wins.\<close>

definition longest_allows :: "('e \<Rightarrow> ipnet option) \<Rightarrow> ('e \<Rightarrow> bool) \<Rightarrow> 'e list \<Rightarrow> bool" where
  "longest_allows cidr_of allow hits =
     (\<exists>e \<in> set hits. allow e \<and> (\<forall>e' \<in> set hits. cidr_bits (cidr_of e') \<le> cidr_bits (cidr_of e)))"

lemma entry_key_SomeD:
  assumes "entry_key cidr_of key_of e = Some k"
  obtains a bits f where "cidrPolicyPrefix (cidr_of e) = Inr (a, bits, f)" "k = key_of e (a, bits, f)"
  using assms by (auto simp: entry_key_def split: if_splits sum.splits)

lemma cidr_covers_Some: "cidr_covers c w \<longleftrightarrow> (\<exists>p. normalizedCIDR c = Inr p \<and> prefix_contains p w)"
  by (auto simp: cidr_covers_def split: sum.splits)

text \<open>An IPv4 range written out, and what it gives.\<close>

definition v4_net :: "u8 list \<Rightarrow> nat \<Rightarrow> ipnet option" where
  "v4_net ip n = Some \<lparr>net_ip = ip, net_mask = cidr_mask n 4\<rparr>"

lemma v4_net_prefix:
  assumes "length ip = 4" "n \<le> 32"
  shows "normalizedCIDR (v4_net ip n) = Inr (Prefix (Addr4 (keep_top n (of_nat (be_nat ip)))) (int n))"
  using assms by (simp add: v4_net_def normalizedCIDR_def addr_from_slice_def unmap_def is4_def masked_prefix_from)

lemma v4_net_cidr:
  assumes "length ip = 4" "n \<le> 32"
  shows "cidr_covers (v4_net ip n) (Addr4 w) \<longleftrightarrow> top_bits n w = top_bits n (of_nat (be_nat ip))" "cidr_bits (v4_net ip n) = int n"
    "cidrPolicyPrefix (v4_net ip n) = Inr (nat64_prefix + ucast (keep_top n (of_nat (be_nat ip) :: u32)), of_nat (n + 96), 4)"
    "v4_net ip n \<noteq> None"
  using assms by (auto simp: cidr_covers_def cidr_bits_def v4_net_prefix prefix_contains_def prefix_valid_def
      cidrPolicyPrefix_def is4_def addr128_as16_v4 simp del: as16.simps) (simp add: v4_net_def)

text \<open>
  Tables of allow and deny rows: the entries are taken in order, an entry without a CIDR is skipped, and
  an allow row is never overwritten.
\<close>

definition flag_row :: "('w, 'k, u8) map_ops \<Rightarrow> ('e \<Rightarrow> ipnet option) \<Rightarrow> ('e \<Rightarrow> u128 \<times> u32 \<times> u8 \<Rightarrow> 'k) \<Rightarrow> ('e \<Rightarrow> bool) \<Rightarrow>
    'e \<Rightarrow> ('k \<times> u8) list \<Rightarrow> dp_error + ('k \<times> u8) list" where
  "flag_row m cidr_of key_of allow e want = (if cidr_of e = None then Inr want
     else case cidrPolicyPrefix (cidr_of e) of
       Inl err \<Rightarrow> Inl err
     | Inr p \<Rightarrow> let key = key_of e p; v = (if allow e then 1 else 0) in
         if map_of want key = Some 1 then Inr want else putDesired m want key v)"

definition flag_value :: "('e \<Rightarrow> ipnet option) \<Rightarrow> ('e \<Rightarrow> u128 \<times> u32 \<times> u8 \<Rightarrow> 'k) \<Rightarrow> ('e \<Rightarrow> bool) \<Rightarrow> 'e list \<Rightarrow> 'k \<rightharpoonup> u8" where
  "flag_value cidr_of key_of allow entries k =
     (if \<exists>e \<in> set entries. entry_key cidr_of key_of e = Some k \<and> allow e then Some 1
      else if \<exists>e \<in> set entries. entry_key cidr_of key_of e = Some k then Some 0 else None)"

lemma flag_row_step:
  assumes "flag_row m cidr_of key_of allow e c = Inr d" "desired_ok m c" "map_of c = flag_value cidr_of key_of allow ys"
  shows "desired_ok m d \<and> map_of d = flag_value cidr_of key_of allow (ys @ [e])"
proof (cases "cidr_of e")
  case None
  then show ?thesis using assms by (auto simp: flag_row_def flag_value_def entry_key_def fun_eq_iff)
next
  case (Some n)
  obtain p where p: "cidrPolicyPrefix (cidr_of e) = Inr p"
    using assms(1) Some by (auto simp: flag_row_def split: sum.splits)
  let ?k = "key_of e p"
  have k: "entry_key cidr_of key_of e = Some ?k" using Some p by (simp add: entry_key_def)
  show ?thesis
  proof (cases "map_of c ?k = Some 1")
    case True
    then have "d = c" using assms(1) Some p by (simp add: flag_row_def)
    moreover have "\<exists>e \<in> set ys. entry_key cidr_of key_of e = Some ?k \<and> allow e"
      using True assms(3) by (auto simp: flag_value_def split: if_splits)
    ultimately show ?thesis using assms k by (auto simp: flag_value_def fun_eq_iff)
  next
    case False
    then have d: "putDesired m c ?k (if allow e then 1 else 0) = Inr d"
      using assms(1) Some p by (simp add: flag_row_def)
    have "\<not> (\<exists>e \<in> set ys. entry_key cidr_of key_of e = Some ?k \<and> allow e)"
      using False assms(3) by (auto simp: flag_value_def split: if_splits)
    then show ?thesis using putDesired_ok [OF d] assms k by (auto simp: flag_value_def fun_eq_iff)
  qed
qed

lemma flag_rows_table:
  assumes "fold_err (flag_row m cidr_of key_of allow) entries [] = Inr want"
  shows "desired_ok m want \<and> map_of want = flag_value cidr_of key_of allow entries"
  using assms
proof (rule fold_err_induct)
  show "desired_ok m [] \<and> map_of [] = flag_value cidr_of key_of allow []"
    by (simp add: flag_value_def fun_eq_iff)
qed (simp add: flag_row_step)

lemma flag_value_None: "flag_value cidr_of key_of allow entries k \<noteq> None \<longleftrightarrow> (\<exists>e \<in> set entries. entry_key cidr_of key_of e = Some k)"
  by (auto simp: flag_value_def)

lemma flag_value_good: "flag_value cidr_of key_of allow entries k = Some v \<Longrightarrow>
    v \<noteq> 0 \<longleftrightarrow> (\<exists>e \<in> set entries. entry_key cidr_of key_of e = Some k \<and> allow e)"
  by (auto simp: flag_value_def split: if_splits)

locale cidr_table =
  fixes cidr_of :: "'e \<Rightarrow> ipnet option"
    and key_of :: "'e \<Rightarrow> u128 \<times> u32 \<times> u8 \<Rightarrow> 'k"
    and matches :: "'k \<Rightarrow> 'k \<Rightarrow> bool"
    and plen :: "'k \<Rightarrow> nat"
    and base :: nat
    and query :: "'q \<Rightarrow> 'k"
    and about :: "'e \<Rightarrow> 'q \<Rightarrow> bool"
    and qfam :: "'q \<Rightarrow> u8"
    and qaddr :: "'q \<Rightarrow> u128"
    and entry_ok :: "'e \<Rightarrow> bool"
    and query_ok :: "'q \<Rightarrow> bool"
  assumes key_plen: "unat bits \<le> 128 \<Longrightarrow> plen (key_of e (a, bits, f)) = base + unat bits"
    and key_matches: "entry_ok e \<Longrightarrow> query_ok q \<Longrightarrow> f = 4 \<or> f = 6 \<Longrightarrow> qfam q = 4 \<or> qfam q = 6 \<Longrightarrow> unat bits \<le> 128 \<Longrightarrow>
      matches (key_of e (a, bits, f)) (query q) \<longleftrightarrow>
      about e q \<and> f = qfam q \<and> top_bits (unat bits) (qaddr q) = top_bits (unat bits) a"
    and key_fixed: "about e q \<Longrightarrow> about e' q \<Longrightarrow> key_of e p = key_of e' p"
begin

abbreviation key :: "'e \<Rightarrow> 'k option" where
  "key \<equiv> entry_key cidr_of key_of"

lemma entry_matches:
  assumes "packet_addr w (qfam q) (qaddr q)" "entry_ok e" "query_ok q"
  shows "(\<exists>k. key e = Some k \<and> matches k (query q)) \<longleftrightarrow> about e q \<and> cidr_covers (cidr_of e) w"
proof (cases "normalizedCIDR (cidr_of e)")
  case (Inl err)
  then show ?thesis by (simp add: entry_key_def cidrPolicyPrefix_def cidr_covers_def)
next
  case (Inr p)
  then have some: "cidr_of e \<noteq> None" by (cases "cidr_of e") (simp_all add: normalizedCIDR_def)
  from assms(1) have w: "w \<noteq> AddrZero" "addr_zone w = []" "\<not> is4in6 w" "addr128 (as16 w) = Inr (qaddr q)" "qfam q = addr_family w"
    by (simp_all add: packet_addr_def)
  obtain b bits f where k: "cidrPolicyPrefix (cidr_of e) = Inr (b, bits, f)"
    "prefix_contains p w \<longleftrightarrow> addr_family w = f \<and> top_bits (unat bits) (qaddr q) = top_bits (unat bits) b"
    using policy_prefix_covers [OF Inr w(1-3)] w(4) by auto
  have f: "unat bits \<le> 128" "f = 4 \<or> f = 6" "qfam q = 4 \<or> qfam q = 6"
    using policy_prefix_bits [OF k(1)] w(5) by (auto simp: addr_family_def)
  show ?thesis using k some Inr w(5) key_matches [OF assms(2,3) f(2,3,1), of b]
    by (auto simp: entry_key_def cidr_covers_def)
qed

lemma entry_length:
  assumes "key e = Some k" "cidr_covers (cidr_of e) w"
  shows "int (plen k) = int base + (if is4 w then 96 else 0) + cidr_bits (cidr_of e)"
proof -
  obtain a bits f where c: "cidrPolicyPrefix (cidr_of e) = Inr (a, bits, f)" "k = key_of e (a, bits, f)"
    using entry_key_SomeD [OF assms(1)] .
  obtain p where p: "normalizedCIDR (cidr_of e) = Inr p" "prefix_contains p w" "cidr_bits (cidr_of e) = pbits p"
    using assms(2) by (auto simp: cidr_covers_def cidr_bits_def split: sum.splits)
  have "int (unat bits) = (if is4 w then 96 else 0) + pbits p" by (rule policy_prefix_length [OF p(1,2) c(1)])
  then show ?thesis using c(2) p(3) key_plen [of bits e a f] policy_prefix_bits [OF c(1)] by simp
qed

lemma entry_unique:
  assumes "key e = Some k" "key e' = Some k'" "matches k (query q)" "matches k' (query q)" "plen k = plen k'"
    and "entry_ok e" "entry_ok e'" "query_ok q" "qfam q = 4 \<or> qfam q = 6"
  shows "k = k'"
proof -
  obtain a bits f where c: "cidrPolicyPrefix (cidr_of e) = Inr (a, bits, f)" "k = key_of e (a, bits, f)"
    using entry_key_SomeD [OF assms(1)] .
  obtain a' bits' f' where c': "cidrPolicyPrefix (cidr_of e') = Inr (a', bits', f')" "k' = key_of e' (a', bits', f')"
    using entry_key_SomeD [OF assms(2)] .
  note b = policy_prefix_bits [OF c(1)] policy_prefix_bits [OF c'(1)]
  have m: "about e q" "f = qfam q" "top_bits (unat bits) (qaddr q) = top_bits (unat bits) a"
    using key_matches [OF assms(6,8) _ assms(9), of f bits a] b(1) assms(3) c(2) by auto
  have m': "about e' q" "f' = qfam q" "top_bits (unat bits') (qaddr q) = top_bits (unat bits') a'"
    using key_matches [OF assms(7,8) _ assms(9), of f' bits' a'] b(2) assms(4) c'(2) by auto
  have "unat bits = unat bits'" using assms(5) c(2) c'(2) b key_plen by simp
  then have eq: "bits = bits'" "f = f'" using m(2) m'(2) by (simp_all add: word_unat_eq_iff)
  then have "a = a'" using policy_prefix_inj [OF c(1)] c'(1) m(3) m'(3) by metis
  then show ?thesis using c(2) c'(2) eq key_fixed [OF m(1) m'(1)] by simp
qed

text \<open>Lookups in tables of allow and deny rows.\<close>

lemma lookup_verdict:
  assumes trie: "lpm_trie lookup (flag_value cidr_of key_of allow entries) matches plen" and w: "packet_addr w (qfam q) (qaddr q)"
    and ok: "\<And>e. e \<in> set entries \<Longrightarrow> entry_ok e" "query_ok q"
  defines "hits \<equiv> filter (\<lambda>e. about e q \<and> cidr_covers (cidr_of e) w) entries"
  shows "(lookup (query q) = None \<longleftrightarrow> hits = []) \<and> (\<forall>v. lookup (query q) = Some v \<longrightarrow> (v \<noteq> 0 \<longleftrightarrow> longest_allows cidr_of allow hits))"
proof -
  let ?E = "set entries" and ?H = "\<lambda>e. about e q \<and> cidr_covers (cidr_of e) w" and ?len = "\<lambda>e. cidr_bits (cidr_of e)"
  have fam: "qfam q = 4 \<or> qfam q = 6" using w by (simp add: packet_addr_def addr_family_def)
  have entry: "(\<exists>k. key e = Some k \<and> matches k (query q)) \<longleftrightarrow> ?H e" if "e \<in> ?E" for e
    by (rule entry_matches [OF w ok(1) [OF that] ok(2)])
  have len: "int (plen k) = (int base + (if is4 w then 96 else 0)) + ?len e" if "e \<in> ?E" "?H e" "key e = Some k" for e k
    using entry_length [OF that(3)] that(2) by simp
  have uniq: "k = k'" if "e \<in> ?E" "e' \<in> ?E" "key e = Some k" "key e' = Some k'" "matches k (query q)" "matches k' (query q)" "plen k = plen k'"
    for e e' k k'
    using entry_unique [OF that(3-7) ok(1) [OF that(1)] ok(1) [OF that(2)] ok(2) fam] .
  have "lookup (query q) = None \<longleftrightarrow> (\<forall>e \<in> ?E. \<not> ?H e)"
    by (rule lpm_trie.entries_None_iff [OF trie]) (fact flag_value_None entry)+
  moreover have "v \<noteq> 0 \<longleftrightarrow> (\<exists>e \<in> ?E. ?H e \<and> allow e \<and> (\<forall>e' \<in> ?E. ?H e' \<longrightarrow> ?len e' \<le> ?len e))"
    if "lookup (query q) = Some v" for v
    by (rule lpm_trie.entries_verdict [OF trie, where key = key and c = "int base + (if is4 w then 96 else 0)"])
      (fact flag_value_None flag_value_good entry len uniq that)+
  ultimately show ?thesis
    unfolding hits_def longest_allows_def by (auto simp: filter_empty_conv)
qed

text \<open>Tables of bitmaps: the entry found is one of the longest entries about the query, as is every entry
  with the same key.\<close>

lemma lookup_longest:
  assumes trie: "lpm_trie lookup content matches plen" and w: "packet_addr w (qfam q) (qaddr q)"
    and ok: "\<And>e. e \<in> set entries \<Longrightarrow> entry_ok e" "query_ok q"
    and content: "\<And>k. content k \<noteq> None \<longleftrightarrow> (\<exists>e \<in> set entries. key e = Some k)"
  shows "(lookup (query q) = None \<longleftrightarrow> (\<forall>e \<in> set entries. \<not> (about e q \<and> cidr_covers (cidr_of e) w))) \<and>
    (\<forall>v. lookup (query q) = Some v \<longrightarrow> (\<exists>e \<in> set entries. \<exists>k. key e = Some k \<and> content k = Some v \<and>
      (\<forall>e' \<in> set entries. key e' = Some k \<longrightarrow> about e' q \<and> cidr_covers (cidr_of e') w \<and>
        (\<forall>j \<in> set entries. about j q \<and> cidr_covers (cidr_of j) w \<longrightarrow> cidr_bits (cidr_of j) \<le> cidr_bits (cidr_of e')))))"
proof -
  let ?E = "set entries" and ?H = "\<lambda>e. about e q \<and> cidr_covers (cidr_of e) w" and ?len = "\<lambda>e. cidr_bits (cidr_of e)"
  have entry: "(\<exists>k. key e = Some k \<and> matches k (query q)) \<longleftrightarrow> ?H e" if "e \<in> ?E" for e
    by (rule entry_matches [OF w ok(1) [OF that] ok(2)])
  have len: "int (plen k) = (int base + (if is4 w then 96 else 0)) + ?len e" if "e \<in> ?E" "?H e" "key e = Some k" for e k
    using entry_length [OF that(3)] that(2) by simp
  have "lookup (query q) = None \<longleftrightarrow> (\<forall>e \<in> ?E. \<not> ?H e)"
    by (rule lpm_trie.entries_None_iff [OF trie]) (fact content entry)+
  moreover have "\<exists>e \<in> ?E. \<exists>k. key e = Some k \<and> content k = Some v \<and> (\<forall>e' \<in> ?E. key e' = Some k \<longrightarrow> about e' q \<and> cidr_covers (cidr_of e') w \<and>
      (\<forall>j \<in> ?E. ?H j \<longrightarrow> ?len j \<le> ?len e'))" if v: "lookup (query q) = Some v" for v
  proof -
    have "\<exists>e \<in> ?E. \<exists>k. ?H e \<and> key e = Some k \<and> content k = Some v \<and> matches k (query q) \<and> (\<forall>e' \<in> ?E. ?H e' \<longrightarrow> ?len e' \<le> ?len e)"
      by (rule lpm_trie.entries_Some [OF trie, where c = "int base + (if is4 w then 96 else 0)"]) (fact content entry len v)+
    then obtain e k where e: "e \<in> ?E" "?H e" "key e = Some k" "content k = Some v" "matches k (query q)"
      "\<forall>e' \<in> ?E. ?H e' \<longrightarrow> ?len e' \<le> ?len e" by blast
    have "?H e' \<and> ?len e' = ?len e" if "e' \<in> ?E" "key e' = Some k" for e'
      using entry [OF that(1)] len [OF that(1) _ that(2)] len [OF e(1-3)] that(2) e(5) by auto
    then show ?thesis using e by metis
  qed
  ultimately show ?thesis by blast
qed

end

end
