(* ===== verification/Packet.thy ===== *)
theory Packet
  imports DpAddr
begin

text \<open>
  What the packet programs of \<^verbatim>\<open>bpf/overlay.c\<close> read from a frame. An skb has a linear area
  (\<^verbatim>\<open>data\<close> to \<^verbatim>\<open>data_end\<close>, as \<^verbatim>\<open>pull_headers\<close> left it) and the bytes that
  \<^verbatim>\<open>bpf_skb_load_bytes\<close> returns for an offset and a length, or its failure. Ports are kept as they lie in
  memory: the first byte of the frame is the low byte of the value.
\<close>

record skb =
  sk_linear :: "u8 list"
  sk_load :: "nat \<Rightarrow> nat \<Rightarrow> u8 list option"

text \<open>What a packet program returns; \<open>Encap n\<close> is the tail \<^verbatim>\<open>return encap(skb, 0, n, 0)\<close>.\<close>

datatype tc_act = TC_ACT_OK | TC_ACT_SHOT | Encap u32

definition IPPROTO_TCP :: u8 where "IPPROTO_TCP = 6"
definition IPPROTO_UDP :: u8 where "IPPROTO_UDP = 17"
definition IPPROTO_SCTP :: u8 where "IPPROTO_SCTP = 132"

lemmas ipproto_consts = IPPROTO_TCP_def IPPROTO_UDP_def IPPROTO_SCTP_def

record pkt =
  p_is_v6 :: bool
  p_proto :: u8
  p_src :: u128
  p_dst :: u128

record np_ct_key =
  ct_pod :: u128
  ct_peer :: u128
  ct_pport :: u16
  ct_rport :: u16
  ct_proto :: u8

text \<open>\<open>sk_at off n\<close>: n bytes of the linear area.\<close>

definition sk_at :: "skb \<Rightarrow> nat \<Rightarrow> nat \<Rightarrow> u8 list" where
  "sk_at skb off n = take n (drop off (sk_linear skb))"

definition be_word :: "u8 list \<Rightarrow> u128" where
  "be_word bs = of_nat (be_nat bs)"

definition le_u16 :: "u8 list \<Rightarrow> u16" where
  "le_u16 bs = (case bs of [b0, b1] \<Rightarrow> ucast b0 OR push_bit 8 (ucast b1) | _ \<Rightarrow> 0)"

definition v4_to_128 :: "u8 list \<Rightarrow> u128" where
  "v4_to_128 v4 = be_word ([0x00, 0x64, 0xff, 0x9b, 0, 0, 0, 0, 0, 0, 0, 0] @ v4)"

definition parse_ip :: "skb \<Rightarrow> pkt option" where
  "parse_ip skb =
     (if length (sk_linear skb) < 14 then None
      else let h_proto = sk_at skb 12 2 in
        if h_proto = [0x08, 0x00] then
          if length (sk_linear skb) < 14 + 20 then None
          else Some \<lparr>p_is_v6 = False, p_proto = sk_linear skb ! (14 + 9),
            p_src = v4_to_128 (sk_at skb (14 + 12) 4), p_dst = v4_to_128 (sk_at skb (14 + 16) 4)\<rparr>
        else if h_proto = [0x86, 0xdd] then
          if length (sk_linear skb) < 14 + 40 then None
          else Some \<lparr>p_is_v6 = True, p_proto = sk_linear skb ! (14 + 6),
            p_src = be_word (sk_at skb (14 + 8) 16), p_dst = be_word (sk_at skb (14 + 24) 16)\<rparr>
        else None)"

definition unsupported_ip_header :: "skb \<Rightarrow> bool" where
  "unsupported_ip_header skb =
     (if length (sk_linear skb) < 14 then True
      else let h_proto = sk_at skb 12 2 in
        if h_proto = [0x08, 0x00] then
          if length (sk_linear skb) < 14 + 20 then True
          else drop_bit 4 (sk_linear skb ! 14) \<noteq> 4 \<or> sk_linear skb ! 14 AND 0x0f \<noteq> 5 \<or>
            sk_linear skb ! (14 + 6) AND 0x3f \<noteq> 0 \<or> sk_linear skb ! (14 + 7) \<noteq> 0
        else if h_proto = [0x86, 0xdd] then
          if length (sk_linear skb) < 14 + 40 \<or> drop_bit 4 (sk_linear skb ! 14) \<noteq> 6 then True
          else sk_linear skb ! (14 + 6) \<in> {0, 43, 44, 51, 60, 135}
        else False)"

definition l4_ports :: "skb \<Rightarrow> (u16 \<times> u16) option" where
  "l4_ports skb = (if length (sk_linear skb) < 34 + 4 then None
     else Some (le_u16 (sk_at skb 34 2), le_u16 (sk_at skb 36 2)))"

definition l4_ports6 :: "skb \<Rightarrow> (u16 \<times> u16) option" where
  "l4_ports6 skb = (if length (sk_linear skb) < 54 + 4 then None
     else Some (le_u16 (sk_at skb 54 2), le_u16 (sk_at skb 56 2)))"

definition load_u16 :: "skb \<Rightarrow> nat \<Rightarrow> u16 option" where
  "load_u16 skb off = (case sk_load skb off 2 of Some [b0, b1] \<Rightarrow> Some (le_u16 [b0, b1]) | _ \<Rightarrow> None)"

text \<open>The TCP flags byte; a load that fails leaves the zero it was initialised with.\<close>

definition tcp_flags :: "skb \<Rightarrow> bool \<Rightarrow> u8" where
  "tcp_flags skb is_v6 = (case sk_load skb ((if is_v6 then 14 + 40 else 14 + 20) + 13) 1 of Some [f] \<Rightarrow> f | _ \<Rightarrow> 0)"

definition bare_syn :: "u8 \<Rightarrow> bool" where
  "bare_syn flags = (flags AND 0x02 \<noteq> 0 \<and> flags AND 0x10 = 0)"

section \<open>Addresses of a parsed frame\<close>

text \<open>
  A source or destination of a parsed frame is the map form of an address of the frame's family; an
  IPv6 frame is excepted when it carries an IPv4-mapped address, which no family-6 prefix covers.
\<close>

definition frame_addr :: "pkt \<Rightarrow> u128 \<Rightarrow> addr" where
  "frame_addr p a = (if p_is_v6 p then Addr6 a [] else Addr4 (ucast a))"

abbreviation pkt_family :: "pkt \<Rightarrow> u8" where
  "pkt_family p \<equiv> (if p_is_v6 p then 6 else 4)"

lemma v4_to_128_eq: "length bs = 4 \<Longrightarrow> v4_to_128 bs = nat64_prefix + ucast (of_nat (be_nat bs) :: u32)"
proof -
  assume l: "length bs = 4"
  have b: "be_nat bs < 2 ^ 32" using be_nat_less [of bs] l by simp
  have "be_nat [0x00, 0x64, 0xff, 0x9b, 0, 0, 0, 0, 0, 0, 0, 0] = 0x0064ff9b * 2 ^ 64" by (simp add: be_nat_def)
  then have "v4_to_128 bs = of_nat (0x0064ff9b * 2 ^ 96 + be_nat bs)"
    using l unfolding v4_to_128_def be_word_def be_nat_append by simp
  also have "\<dots> = nat64_prefix + of_nat (be_nat bs)" by (simp add: nat64_prefix_def push_bit_eq_mult)
  also have "(of_nat (be_nat bs) :: u128) = ucast (of_nat (be_nat bs) :: u32)"
  proof -
    have "unat (of_nat (be_nat bs) :: u32) = be_nat bs" using b by (simp add: unsigned_of_nat take_bit_nat_eq_self)
    then show ?thesis by (metis of_nat_unat)
  qed
  finally show ?thesis .
qed

lemma packet_addr_v4: "packet_addr (Addr4 v) 4 (nat64_prefix + ucast v)"
  using addr128_as16_v4 [of v] by (simp add: packet_addr_def addr_family_def is4_def)

lemma packet_addr_v6: "drop_bit 32 a \<noteq> 0xffff \<Longrightarrow> packet_addr (Addr6 a []) 6 a"
  using addr128_as16_v6 [of a "[]"] by (simp add: packet_addr_def addr_family_def is4_def)

lemma parse_ip_addrs:
  assumes "parse_ip skb = Some p" "a = p_src p \<or> a = p_dst p" "p_is_v6 p \<Longrightarrow> drop_bit 32 a \<noteq> 0xffff"
  shows "packet_addr (frame_addr p a) (pkt_family p) a"
proof (cases "p_is_v6 p")
  case True
  then show ?thesis using assms(3) by (simp add: frame_addr_def packet_addr_v6)
next
  case False
  then have len: "\<not> length (sk_linear skb) < 34" and
    a: "a = v4_to_128 (sk_at skb 26 4) \<or> a = v4_to_128 (sk_at skb 30 4)"
    using assms(1,2) by (auto simp: parse_ip_def Let_def split: if_splits)
  then obtain v :: u32 where v: "a = nat64_prefix + ucast v"
    using v4_to_128_eq [of "sk_at skb 26 4"] v4_to_128_eq [of "sk_at skb 30 4"] by (auto simp: sk_at_def)
  have "ucast a = v"
  proof -
    have "(ucast a :: u32) = of_nat (unat a)" by (simp only: of_nat_unat)
    also have "\<dots> = of_nat (0x0064ff9b * 2 ^ 96 + unat v)" by (simp only: v unat_nat64)
    also have "\<dots> = v" by simp
    finally show ?thesis .
  qed
  then show ?thesis using v False packet_addr_v4 [of v] by (simp add: frame_addr_def)
qed

section \<open>Frames written out\<close>

text \<open>A frame that lies in the linear area as a whole, and an IPv4 frame without options.\<close>

definition linear_skb :: "u8 list \<Rightarrow> skb" where
  "linear_skb bs = \<lparr>sk_linear = bs, sk_load = (\<lambda>off n. if off + n \<le> length bs then Some (take n (drop off bs)) else None)\<rparr>"

definition v4_frame :: "u8 \<Rightarrow> u8 list \<Rightarrow> u8 list \<Rightarrow> u8 list \<Rightarrow> u8 list \<Rightarrow> u8 \<Rightarrow> u8 list" where
  "v4_frame proto src dst sport dport flags = [0, 0, 0, 0, 0, 0, 0, 0, 0, 0, 0, 0, 0x08, 0x00,
     0x45, 0, 0, 40, 0, 0, 0, 0, 64, proto, 0, 0] @ src @ dst @ sport @ dport @ [0, 0, 0, 0, 0, 0, 0, 0, 0x50, flags]"

lemma v4_frame_parse:
  fixes s0 s1 s2 s3 d0 d1 d2 d3 a0 a1 b0 b1 proto flags :: u8
  defines "skb \<equiv> linear_skb (v4_frame proto [s0, s1, s2, s3] [d0, d1, d2, d3] [a0, a1] [b0, b1] flags)"
  shows "parse_ip skb = Some \<lparr>p_is_v6 = False, p_proto = proto, p_src = v4_to_128 [s0, s1, s2, s3], p_dst = v4_to_128 [d0, d1, d2, d3]\<rparr>"
    and "l4_ports skb = Some (le_u16 [a0, a1], le_u16 [b0, b1])" and "tcp_flags skb False = flags"
  unfolding skb_def
  by (simp_all add: linear_skb_def v4_frame_def parse_ip_def sk_at_def l4_ports_def tcp_flags_def numeral_eq_Suc)

end
