(* ===== verification/NpPorts.thy ===== *)
theory NpPorts
  imports Prelude
begin

text \<open>
  The decomposition of a port range into aligned power-of-two blocks (\<^verbatim>\<open>npPortPrefixes\<close> of
  \<^verbatim>\<open>datapath/networkpolicy.go\<close>), which lets a longest-prefix-match trie hold port ranges. The loop
  variables are \<^verbatim>\<open>uint32\<close> in the source; they stay below \<open>2 ^ 18\<close>, so they are natural numbers here.
\<close>

record np_port_prefix =
  pp_port :: u16
  pp_bits :: u32

text \<open>The inner loop: the largest block aligned at \<open>l\<close> that ends by \<open>h\<close>, doubling from \<open>sz\<close>.\<close>

function block_size :: "nat \<Rightarrow> nat \<Rightarrow> nat \<Rightarrow> nat" where
  "block_size l h sz = (let next = 2 * sz in
     if sz = 0 \<or> l AND (next - 1) \<noteq> 0 \<or> h < l + next - 1 then sz else block_size l h next)"
  by auto
termination by (relation "measure (\<lambda>(l, h, sz). h + 1 - sz)") auto

text \<open>The loop \<^verbatim>\<open>for s := size; s > 1; s >>= 1 { bits-- }\<close>.\<close>

fun halvings :: "nat \<Rightarrow> nat" where
  "halvings s = (if s \<le> 1 then 0 else Suc (halvings (s div 2)))"

declare block_size.simps [simp del] halvings.simps [simp del]

lemma block_size_pos: "0 < sz \<Longrightarrow> 0 < block_size l h sz"
proof (induction l h sz rule: block_size.induct)
  case (1 l h sz)
  then show ?case by (subst block_size.simps) (auto simp: Let_def)
qed

function port_blocks :: "nat \<Rightarrow> nat \<Rightarrow> np_port_prefix list" where
  "port_blocks l h = (if h < l then []
     else let sz = block_size l h 1 in
       \<lparr>pp_port = of_nat l, pp_bits = of_nat (16 - halvings sz)\<rparr> # port_blocks (l + sz) h)"
  by auto
termination
proof (relation "measure (\<lambda>(l, h). h + 1 - l)")
  fix l h x :: nat
  assume "\<not> h < l" "x = block_size l h 1"
  then show "((l + x, h), l, h) \<in> measure (\<lambda>(l, h). h + 1 - l)"
    using block_size_pos [of 1 l h] by simp
qed simp

declare port_blocks.simps [simp del]

definition npPortPrefixes :: "u16 \<Rightarrow> u16 \<Rightarrow> np_port_prefix list" where
  "npPortPrefixes lo hi = (if lo = 0 \<and> hi = 0 then [\<lparr>pp_port = 0, pp_bits = 0\<rparr>]
     else port_blocks (unat lo) (unat hi))"

section \<open>What one block is\<close>

lemma block_size_spec:
  assumes "2 ^ j dvd l" "l + 2 ^ j \<le> Suc h"
  shows "\<exists>k\<ge>j. block_size l h (2 ^ j) = 2 ^ k \<and> 2 ^ k dvd l \<and> l + 2 ^ k \<le> Suc h \<and>
    (\<not> 2 ^ Suc k dvd l \<or> Suc h < l + 2 ^ Suc k)"
  using assms
proof (induction "h + 1 - 2 ^ j" arbitrary: j rule: less_induct)
  case less
  have m: "l AND (2 ^ Suc j - 1) = l mod 2 ^ Suc j"
    by (metis mask_eq_exp_minus_1 take_bit_eq_mask take_bit_eq_mod)
  show ?case
  proof (cases "2 ^ Suc j dvd l \<and> l + 2 ^ Suc j \<le> Suc h")
    case True
    then have "(0::nat) < 2 ^ j" "2 ^ j + 2 ^ j \<le> h + 1" by simp_all
    then have "h + 1 - 2 ^ Suc j < h + 1 - 2 ^ j" by (simp only: power_Suc)
    from less.hyps [OF this] True obtain k where
      "k \<ge> Suc j" "block_size l h (2 ^ Suc j) = 2 ^ k" "2 ^ k dvd l" "l + 2 ^ k \<le> Suc h"
      "\<not> 2 ^ Suc k dvd l \<or> Suc h < l + 2 ^ Suc k" by blast
    moreover have "block_size l h (2 ^ j) = block_size l h (2 ^ Suc j)"
      using True m by (subst block_size.simps) (auto simp: Let_def dvd_eq_mod_eq_0)
    ultimately show ?thesis by (metis Suc_leD)
  next
    case False
    then have "block_size l h (2 ^ j) = 2 ^ j"
      using m by (subst block_size.simps) (auto simp: Let_def dvd_eq_mod_eq_0)
    with less.prems False show ?thesis by (intro exI [of _ j]) auto
  qed
qed

lemma block_size_1:
  assumes "l \<le> h"
  obtains k where "block_size l h 1 = 2 ^ k" "2 ^ k dvd l" "l + 2 ^ k \<le> Suc h"
    "\<not> 2 ^ Suc k dvd l \<or> Suc h < l + 2 ^ Suc k"
  using block_size_spec [of 0 l h] assms by auto

lemma halvings_power [simp]: "halvings (2 ^ k) = k"
proof (induction k)
  case (Suc k)
  have "\<not> (2::nat) ^ Suc k \<le> 1" using one_less_power [of "2::nat" "Suc k"] by (simp add: not_le)
  then show ?case using Suc by (subst halvings.simps) simp
qed (simp add: halvings.simps)

lemma block_exponent: "l + 2 ^ k \<le> Suc h \<Longrightarrow> h < 2 ^ 16 \<Longrightarrow> k \<le> 16"
proof (rule ccontr)
  assume a: "l + 2 ^ k \<le> Suc h" "h < 2 ^ 16" "\<not> k \<le> 16"
  then have "(2::nat) ^ 17 \<le> 2 ^ k" by (intro power_increasing) auto
  with a show False by simp
qed

lemma port_blocks_step:
  assumes "l \<le> h" "h < 2 ^ 16"
  obtains k where "k \<le> 16" "2 ^ k dvd l" "l + 2 ^ k \<le> Suc h" "\<not> 2 ^ Suc k dvd l \<or> Suc h < l + 2 ^ Suc k"
    "port_blocks l h = \<lparr>pp_port = of_nat l, pp_bits = of_nat (16 - k)\<rparr> # port_blocks (l + 2 ^ k) h"
proof -
  obtain k where k: "block_size l h 1 = 2 ^ k" "2 ^ k dvd l" "l + 2 ^ k \<le> Suc h"
    "\<not> 2 ^ Suc k dvd l \<or> Suc h < l + 2 ^ Suc k"
    using block_size_1 [OF assms(1)] .
  have "k \<le> 16" by (rule block_exponent [OF k(3) assms(2)])
  moreover have "port_blocks l h = \<lparr>pp_port = of_nat l, pp_bits = of_nat (16 - k)\<rparr> # port_blocks (l + 2 ^ k) h"
    using assms(1) k(1) by (subst port_blocks.simps) (simp add: Let_def)
  ultimately show ?thesis using k that by blast
qed

lemma port_blocks_empty: "h < l \<Longrightarrow> port_blocks l h = []"
  by (simp add: port_blocks.simps)

section \<open>Exact cover\<close>

text \<open>A port is in a block when it has the block's leading bits.\<close>

definition port_matches :: "np_port_prefix \<Rightarrow> u16 \<Rightarrow> bool" where
  "port_matches pp p = (top_bits (unat (pp_bits pp)) p = top_bits (unat (pp_bits pp)) (pp_port pp))"

lemma block_matches:
  assumes "2 ^ k dvd l" "l < 2 ^ 16" "k \<le> 16"
  shows "port_matches \<lparr>pp_port = of_nat l, pp_bits = of_nat (16 - k)\<rparr> p \<longleftrightarrow> l \<le> unat p \<and> unat p < l + 2 ^ k"
proof -
  have "unat (of_nat (16 - k) :: u32) = 16 - k" by (simp add: unsigned_of_nat take_bit_nat_eq_self_iff)
  moreover have "unat (of_nat l :: u16) = l" using assms(2) by (simp add: unsigned_of_nat take_bit_nat_eq_self_iff)
  moreover obtain q where q: "l = q * 2 ^ k" using assms(1) by (metis dvd_def mult.commute)
  ultimately have "port_matches \<lparr>pp_port = of_nat l, pp_bits = of_nat (16 - k)\<rparr> p \<longleftrightarrow>
      unat p div 2 ^ k = q"
    using assms(3) by (simp add: port_matches_def word_unat_eq_iff unat_top_bits)
  then show ?thesis using div_block_iff [OF q, of "unat p"] q by simp
qed

lemma port_blocks_cover:
  assumes "h < 2 ^ 16"
  shows "(\<exists>pp \<in> set (port_blocks l h). port_matches pp p) \<longleftrightarrow> l \<le> unat p \<and> unat p \<le> h"
proof (induction "h + 1 - l" arbitrary: l rule: less_induct)
  case less
  show ?case
  proof (cases "h < l")
    case True
    then show ?thesis by (simp add: port_blocks_empty)
  next
    case False
    then obtain k where k: "k \<le> 16" "2 ^ k dvd l" "l + 2 ^ k \<le> Suc h"
      "port_blocks l h = \<lparr>pp_port = of_nat l, pp_bits = of_nat (16 - k)\<rparr> # port_blocks (l + 2 ^ k) h"
      using port_blocks_step [of l h] assms by auto
    have "h + 1 - (l + 2 ^ k) < h + 1 - l" using k(3) zero_less_power [of "2::nat" k] by linarith
    from less [OF this] show ?thesis
      using k block_matches [of k l p] False assms by (auto simp del: One_nat_def)
  qed
qed

section \<open>Few blocks\<close>

text \<open>Once a block is cut short by the end of the range, every later block is smaller.\<close>

lemma port_blocks_fitting:
  assumes "2 ^ k dvd l" "Suc h < l + 2 ^ k" "h < 2 ^ 16"
  shows "length (port_blocks l h) \<le> k"
  using assms
proof (induction k arbitrary: l rule: less_induct)
  case (less k)
  show ?case
  proof (cases "h < l")
    case True
    then show ?thesis by (simp add: port_blocks_empty)
  next
    case False
    then obtain j where j: "2 ^ j dvd l" "l + 2 ^ j \<le> Suc h" "\<not> 2 ^ Suc j dvd l \<or> Suc h < l + 2 ^ Suc j"
      "port_blocks l h = \<lparr>pp_port = of_nat l, pp_bits = of_nat (16 - j)\<rparr> # port_blocks (l + 2 ^ j) h"
      using port_blocks_step [of l h] less.prems(3) by (metis not_less)
    have "(2::nat) ^ j < 2 ^ k" using j(2) less.prems(2) by linarith
    then have "j < k" by (rule power_less_imp_less_exp [rotated]) simp
    then have "2 ^ Suc j dvd l" using less.prems(1) by (meson Suc_leI dvd_trans le_imp_power_dvd)
    then have "Suc h < l + 2 ^ j + 2 ^ j" using j(3) by simp
    with less.IH [OF \<open>j < k\<close>, of "l + 2 ^ j"] j \<open>j < k\<close> less.prems(3) show ?thesis by simp
  qed
qed

lemma port_blocks_rising:
  assumes "2 ^ k dvd l" "0 < l" "k \<le> 16" "h < 2 ^ 16"
  shows "length (port_blocks l h) \<le> (16 - k) + 15"
  using assms(1-3)
proof (induction "16 - k" arbitrary: k l rule: less_induct)
  case less
  show ?case
  proof (cases "h < l")
    case True
    then show ?thesis by (simp add: port_blocks_empty)
  next
    case False
    then obtain j where j: "j \<le> 16" "2 ^ j dvd l" "l + 2 ^ j \<le> Suc h" "\<not> 2 ^ Suc j dvd l \<or> Suc h < l + 2 ^ Suc j"
      "port_blocks l h = \<lparr>pp_port = of_nat l, pp_bits = of_nat (16 - j)\<rparr> # port_blocks (l + 2 ^ j) h"
      using port_blocks_step [of l h] assms(4) by (metis not_less)
    have small: "i < 16" if "2 ^ i dvd l" for i
    proof (rule ccontr)
      assume "\<not> i < 16"
      then have "(2::nat) ^ 16 \<le> 2 ^ i" by (intro power_increasing) auto
      moreover have "2 ^ i \<le> l" using that less.prems(2) by (simp add: dvd_imp_le)
      ultimately show False using False assms(4) by simp
    qed
    show ?thesis
    proof (cases "Suc h < l + 2 ^ Suc j")
      case True
      then have "length (port_blocks (l + 2 ^ j) h) \<le> j"
        using port_blocks_fitting [of j "l + 2 ^ j" h] j assms(4) by simp
      then show ?thesis using j(5) small [OF j(2)] small [OF less.prems(1)] by simp
    next
      case False
      with j have odd: "\<not> 2 ^ Suc j dvd l" by simp
      then have "k \<le> j" using less.prems(1) by (meson dvd_trans le_imp_power_dvd not_less_eq_eq)
      have "2 ^ Suc j dvd l + 2 ^ j"
      proof -
        obtain q where q: "l = 2 ^ j * q" using j(2) by (elim dvdE)
        then have "odd q" using odd by (auto elim!: evenE simp: mult.assoc)
        then show ?thesis using q by (auto elim!: oddE simp: algebra_simps)
      qed
      moreover have "Suc j \<le> 16" using small [OF j(2)] by simp
      ultimately have "length (port_blocks (l + 2 ^ j) h) \<le> (16 - Suc j) + 15"
        using less.hyps [of "Suc j" "l + 2 ^ j"] \<open>k \<le> j\<close> by simp
      then show ?thesis using j(5) \<open>k \<le> j\<close> small [OF j(2)] by simp
    qed
  qed
qed

lemma npPortPrefixes_cover:
  "(\<exists>pp \<in> set (npPortPrefixes lo hi). port_matches pp p) \<longleftrightarrow> lo = 0 \<and> hi = 0 \<or> lo \<le> p \<and> p \<le> hi"
  using port_blocks_cover [of "unat hi" "unat lo" p] unat_less_power [of hi]
  by (auto simp: npPortPrefixes_def port_matches_def top_bits_def word_le_nat_alt)

lemma pp_bits_le: "pp \<in> set (npPortPrefixes lo hi) \<Longrightarrow> unat (pp_bits pp) \<le> 16"
proof -
  have "unat (pp_bits pp) \<le> 16" if "pp \<in> set (port_blocks l h)" for l h
    using that
  proof (induction l h rule: port_blocks.induct)
    case (1 l h)
    have "unat (of_nat (16 - halvings (block_size l h 1)) :: u32) \<le> 16"
      by (simp add: unsigned_of_nat) (meson diff_le_self order_trans take_bit_nat_less_eq_self)
    then show ?case using 1 by (auto simp: port_blocks.simps [of l h] Let_def split: if_splits)
  qed
  then show "pp \<in> set (npPortPrefixes lo hi) \<Longrightarrow> unat (pp_bits pp) \<le> 16"
    by (auto simp: npPortPrefixes_def split: if_splits)
qed

text \<open>
  (C24) \<^verbatim>\<open>npPortPrefixes\<close> terminates and covers exactly the ports of the range: a port has the
  leading bits of some returned prefix exactly when it lies between \<^verbatim>\<open>lo\<close> and \<^verbatim>\<open>hi\<close> (both 0: any port),
  and there are never more than \<open>2 * 16 - 1\<close> prefixes.
\<close>

theorem npPortPrefixes_exact:
  "((\<exists>pp \<in> set (npPortPrefixes lo hi). port_matches pp p) \<longleftrightarrow> lo = 0 \<and> hi = 0 \<or> lo \<le> p \<and> p \<le> hi) \<and>
     length (npPortPrefixes lo hi) \<le> 31"
proof -
  have h: "unat hi < 2 ^ 16" using unat_less_power [of hi] by simp
  have "length (port_blocks (unat lo) (unat hi)) \<le> 31"
  proof (cases "lo = 0")
    case True
    show ?thesis
    proof (cases "unat hi < 0")
      case False
      obtain k where k: "k \<le> 16" "(0::nat) + 2 ^ k \<le> Suc (unat hi)"
        "\<not> 2 ^ Suc k dvd (0::nat) \<or> Suc (unat hi) < 0 + 2 ^ Suc k"
        "port_blocks 0 (unat hi) = \<lparr>pp_port = of_nat 0, pp_bits = of_nat (16 - k)\<rparr> # port_blocks (0 + 2 ^ k) (unat hi)"
        using port_blocks_step [of 0 "unat hi"] h by (metis zero_le)
      then have "length (port_blocks (2 ^ k) (unat hi)) \<le> k"
        using port_blocks_fitting [of k "2 ^ k" "unat hi"] h by simp
      then show ?thesis using k True by simp
    qed simp
  next
    case False
    then show ?thesis using port_blocks_rising [of 0 "unat lo" "unat hi"] h by (simp add: unat_gt_0)
  qed
  then have "length (npPortPrefixes lo hi) \<le> 31" by (simp add: npPortPrefixes_def)
  with npPortPrefixes_cover show ?thesis by blast
qed

end
