(* ===== verification/NpDatapath.thy ===== *)
theory NpDatapath
  imports CidrTable Packet NpPorts
begin

text \<open>
  NetworkPolicy in the datapath: the tables that \<^verbatim>\<open>ApplyNetworkPolicy\<close> writes
  (\<^verbatim>\<open>datapath/networkpolicy.go\<close>) and the decision that \<^verbatim>\<open>np_ingress\<close> and \<^verbatim>\<open>np_egress\<close>
  (\<^verbatim>\<open>bpf/overlay.c\<close>) take from them. Records stand for the Go and C structs; padding that both
  sides leave zero is omitted. The maps are operations on the kernel state, the lookups of the packet
  program are functions.
\<close>

section \<open>Data\<close>

definition cfgNPUpdating :: u32 where "cfgNPUpdating = 12"
definition cfgNPInitialized :: u32 where "cfgNPInitialized = 14"

definition NPDirIn :: u8 where "NPDirIn = 0"
definition NPDirEg :: u8 where "NPDirEg = 1"
definition NPIngIsolated :: u32 where "NPIngIsolated = 1"
definition NPEgIsolated :: u32 where "NPEgIsolated = 2"
definition NPSrcAny :: u64 where "NPSrcAny = 0"
definition NPSrcAnyPod :: u64 where "NPSrcAnyPod = 1"
definition NPSrcNodes :: u64 where "NPSrcNodes = 2"
definition NPSrcLocalPods :: u64 where "NPSrcLocalPods = 3"
definition NPNodeLocal :: u8 where "NPNodeLocal = 1"

lemmas np_consts = cfgNPUpdating_def cfgNPInitialized_def NPDirIn_def NPDirEg_def NPIngIsolated_def
  NPEgIsolated_def NPSrcAny_def NPSrcAnyPod_def NPSrcNodes_def NPSrcLocalPods_def NPNodeLocal_def

record NPIdent =
  ni_IP :: ip
  ni_ID :: u64
  ni_Flags :: u32

record NPAllow =
  na_DstID :: u64
  na_SrcID :: u64
  na_Dir :: u8
  na_Proto :: u8
  na_Port :: u16
  na_EndPort :: u16

record NPCidr =
  nc_ID :: u64
  nc_Dir :: u8
  nc_Proto :: u8
  nc_Port :: u16
  nc_CIDR :: "ipnet option"
  nc_Allow :: bool

record np_ident_val =
  iv_Id :: u64
  iv_Flags :: u32

record np_allow_key =
  ak_Prefixlen :: u32
  ak_Dir :: u8
  ak_Proto :: u8
  ak_DstId :: u64
  ak_SrcId :: u64
  ak_Port :: u16

record np_cidr_key =
  ck_Prefixlen :: u32
  ck_Dir :: u8
  ck_Proto :: u8
  ck_Port :: u16
  ck_Id :: u64
  ck_Addr :: u128

record 'w np_objs =
  Params :: "('w, u32, u32) map_ops"
  NpIdent :: "('w, u128, np_ident_val) map_ops"
  NpAllow :: "('w, np_allow_key, u8) map_ops"
  NpCidr :: "('w, np_cidr_key, u8) map_ops"

section \<open>Synchronisation\<close>

definition np_ident_row :: "'w np_objs \<Rightarrow> NPIdent \<Rightarrow> (u128 \<times> np_ident_val) list \<Rightarrow> dp_error + (u128 \<times> np_ident_val) list" where
  "np_ident_row m i want = (case addr128 (ni_IP i) of
       Inl e \<Rightarrow> Inl e
     | Inr a \<Rightarrow> putDesired (NpIdent m) want a \<lparr>iv_Id = ni_ID i, iv_Flags = ni_Flags i\<rparr>)"

definition SyncNPIdents :: "range_order \<Rightarrow> 'w np_objs \<Rightarrow> NPIdent list \<Rightarrow> 'w call" where
  "SyncNPIdents ord m idents = sync_desired ord (NpIdent m) (fold_err (np_ident_row m) idents [])"

definition np_allow_range :: "NPAllow \<Rightarrow> u16 \<times> u16" where
  "np_allow_range r =
     (let lo = na_Port r;
          hi = (if na_EndPort r \<noteq> 0 then na_EndPort r else na_Port r)
      in (lo, if lo = 0 then 0 else hi))"

definition np_allow_keyof :: "NPAllow \<Rightarrow> np_port_prefix \<Rightarrow> np_allow_key" where
  "np_allow_keyof r pp = \<lparr>ak_Prefixlen = 160 + pp_bits pp, ak_Dir = na_Dir r, ak_Proto = na_Proto r,
     ak_DstId = na_DstID r, ak_SrcId = na_SrcID r, ak_Port = htons (pp_port pp)\<rparr>"

definition np_allow_rows :: "'w np_objs \<Rightarrow> NPAllow \<Rightarrow> (np_allow_key \<times> u8) list \<Rightarrow> dp_error + (np_allow_key \<times> u8) list" where
  "np_allow_rows m r want = (case np_allow_range r of (lo, hi) \<Rightarrow>
     fold_err (\<lambda>pp want. putDesired (NpAllow m) want (np_allow_keyof r pp) 1) (npPortPrefixes lo hi) want)"

definition SyncNPAllows :: "range_order \<Rightarrow> 'w np_objs \<Rightarrow> NPAllow list \<Rightarrow> 'w call" where
  "SyncNPAllows ord m allows = sync_desired ord (NpAllow m) (fold_err (np_allow_rows m) allows [])"

definition np_cidr_keyof :: "NPCidr \<Rightarrow> u128 \<times> u32 \<times> u8 \<Rightarrow> np_cidr_key" where
  "np_cidr_keyof e = (\<lambda>(a, bits, family). \<lparr>ck_Prefixlen = 96 + bits, ck_Dir = npCIDRDirection (nc_Dir e) family,
     ck_Proto = nc_Proto e, ck_Port = htons (nc_Port e), ck_Id = nc_ID e, ck_Addr = a\<rparr>)"

definition np_cidr_row :: "'w np_objs \<Rightarrow> NPCidr \<Rightarrow> (np_cidr_key \<times> u8) list \<Rightarrow> dp_error + (np_cidr_key \<times> u8) list" where
  "np_cidr_row m e want =
     (if nc_CIDR e = None then Inr want
      else case cidrPolicyPrefix (nc_CIDR e) of
        Inl err \<Rightarrow> Inl err
      | Inr p \<Rightarrow>
          let key = np_cidr_keyof e p in
          if map_of want key = Some 1 then Inr want
          else putDesired (NpCidr m) want key (if nc_Allow e then 1 else 0))"

definition SyncNPCidrs :: "range_order \<Rightarrow> 'w np_objs \<Rightarrow> NPCidr list \<Rightarrow> 'w call" where
  "SyncNPCidrs ord m entries = sync_desired ord (NpCidr m) (fold_err (np_cidr_row m) entries [])"

definition BlockNetworkPolicy :: "'w np_objs \<Rightarrow> 'w call" where
  "BlockNetworkPolicy m = put (Params m) cfgNPUpdating 1"

definition ApplyNetworkPolicy ::
    "(nat \<Rightarrow> range_order) \<Rightarrow> 'w np_objs \<Rightarrow> NPIdent list \<Rightarrow> NPAllow list \<Rightarrow> NPCidr list \<Rightarrow> 'w call" where
  "ApplyNetworkPolicy ords m idents allows cidrs = do_seq
     [put (Params m) cfgNPUpdating 1,
      SyncNPIdents (ords 0) m idents,
      SyncNPAllows (ords 1) m allows,
      SyncNPCidrs (ords 2) m cidrs,
      put (Params m) cfgNPInitialized 1,
      put (Params m) cfgNPUpdating 0]"

section \<open>The packet decision\<close>

text \<open>
  What the program reads: \<^verbatim>\<open>params\<close>, \<^verbatim>\<open>np_nodes\<close>, \<^verbatim>\<open>np_ident\<close>, \<^verbatim>\<open>locals\<close> at network 0 and
  \<^verbatim>\<open>np_ct\<close> are hash maps, \<^verbatim>\<open>np_allow\<close> and \<^verbatim>\<open>np_cidr\<close> tries, looked up with fully specified keys.
\<close>

record np_env =
  e_params :: "u32 \<rightharpoonup> u32"
  e_nodes :: "u128 \<rightharpoonup> u8"
  e_ident :: "u128 \<rightharpoonup> np_ident_val"
  e_local0 :: "u128 \<Rightarrow> bool"
  e_allow :: "np_allow_key \<Rightarrow> u8 option"
  e_cidr :: "np_cidr_key \<Rightarrow> u8 option"
  e_ct :: "np_ct_key \<Rightarrow> bool"

record np_query =
  q_src :: u128
  q_dst :: u128
  q_dport :: u16
  q_sport :: u16
  q_proto :: u8
  q_family :: u8

definition np_updating :: "np_env \<Rightarrow> bool" where
  "np_updating s = (case e_params s cfgNPUpdating of Some v \<Rightarrow> v \<noteq> 0 | None \<Rightarrow> False)"

definition np_local_node :: "np_env \<Rightarrow> u128 \<Rightarrow> bool" where
  "np_local_node s a = (case e_nodes s a of Some v \<Rightarrow> v AND NPNodeLocal \<noteq> 0 | None \<Rightarrow> False)"

definition np_pin_check :: "np_env \<Rightarrow> np_query \<Rightarrow> bool" where
  "np_pin_check s q = (if q_proto q \<noteq> IPPROTO_UDP then False
     else e_ct s \<lparr>ct_pod = q_dst q, ct_peer = q_src q, ct_pport = q_dport q, ct_rport = q_sport q,
       ct_proto = IPPROTO_UDP\<rparr>)"

definition np_cidr_check :: "np_env \<Rightarrow> np_query \<Rightarrow> u128 \<Rightarrow> u8 \<Rightarrow> u64 \<Rightarrow> bool" where
  "np_cidr_check s q addr dir self =
     (let key = \<lparr>ck_Prefixlen = 96 + 128, ck_Dir = dir OR (if q_family q = 4 then 0x40 else 0x80),
        ck_Proto = q_proto q, ck_Port = q_dport q, ck_Id = self, ck_Addr = addr\<rparr>
      in case e_cidr s key of
           Some v \<Rightarrow> v \<noteq> 0
         | None \<Rightarrow> (case e_cidr s (key\<lparr>ck_Port := 0\<rparr>) of Some v \<Rightarrow> v \<noteq> 0 | None \<Rightarrow> False))"

definition np_probe :: "np_env \<Rightarrow> np_query \<Rightarrow> u8 \<Rightarrow> u64 \<Rightarrow> u64 \<Rightarrow> bool" where
  "np_probe s q dir dst src = (e_allow s \<lparr>ak_Prefixlen = 160 + 16, ak_Dir = dir, ak_Proto = q_proto q,
     ak_DstId = dst, ak_SrcId = src, ak_Port = q_dport q\<rparr> \<noteq> None)"

definition np_ingress :: "np_env \<Rightarrow> np_query \<Rightarrow> bool" where
  "np_ingress s q =
     (if np_updating s then np_local_node s (q_src q) \<or> np_pin_check s q
      else case e_ident s (q_dst q) of
        None \<Rightarrow> True
      | Some di \<Rightarrow>
          if iv_Flags di AND NPIngIsolated = 0 then True
          else if np_local_node s (q_src q) then True
          else if (case e_ident s (q_src q) of None \<Rightarrow> False | Some si \<Rightarrow>
               np_probe s q NPDirIn (iv_Id di) (iv_Id si) \<or>
               np_probe s q NPDirIn (iv_Id di) NPSrcAnyPod \<or>
               e_local0 s (q_src q) \<and> np_probe s q NPDirIn (iv_Id di) NPSrcLocalPods) then True
          else if e_nodes s (q_src q) \<noteq> None \<and> np_probe s q NPDirIn (iv_Id di) NPSrcNodes then True
          else if np_probe s q NPDirIn (iv_Id di) NPSrcAny then True
          else if np_cidr_check s q (q_src q) NPDirIn (iv_Id di) then True
          else np_pin_check s q)"

definition np_egress :: "np_env \<Rightarrow> np_query \<Rightarrow> bool" where
  "np_egress s q =
     (if np_updating s then np_local_node s (q_src q) \<or> np_pin_check s q
      else case e_ident s (q_src q) of
        None \<Rightarrow> True
      | Some si \<Rightarrow>
          if iv_Flags si AND NPEgIsolated = 0 then True
          else if (case e_ident s (q_dst q) of None \<Rightarrow> False | Some di \<Rightarrow>
               np_probe s q NPDirEg (iv_Id di) (iv_Id si) \<or>
               np_probe s q NPDirEg NPSrcAnyPod (iv_Id si) \<or>
               e_local0 s (q_dst q) \<and> np_probe s q NPDirEg NPSrcLocalPods (iv_Id si)) then True
          else if np_probe s q NPDirEg NPSrcAny (iv_Id si) then True
          else if np_cidr_check s q (q_dst q) NPDirEg (iv_Id si) then True
          else np_pin_check s q)"

section \<open>What the tables hold\<close>

text \<open>The identity of an address is the last one listed for it.\<close>

definition np_ident_of :: "NPIdent list \<Rightarrow> u128 \<Rightarrow> np_ident_val option" where
  "np_ident_of idents a =
     foldl (\<lambda>r i. if addr128 (ni_IP i) = Inr a then Some \<lparr>iv_Id = ni_ID i, iv_Flags = ni_Flags i\<rparr> else r) None idents"

lemma np_ident_table:
  assumes "fold_err (np_ident_row m) idents [] = Inr want"
  shows "desired_ok (NpIdent m) want \<and> map_of want = np_ident_of idents"
  using assms
proof (rule fold_err_induct)
  show "desired_ok (NpIdent m) [] \<and> map_of [] = np_ident_of []" by (simp add: np_ident_of_def fun_eq_iff)
next
  fix ys x zs c d
  assume c: "desired_ok (NpIdent m) c \<and> map_of c = np_ident_of ys" and d: "np_ident_row m x c = Inr d"
  from d obtain a where a: "addr128 (ni_IP x) = Inr a"
    "putDesired (NpIdent m) c a \<lparr>iv_Id = ni_ID x, iv_Flags = ni_Flags x\<rparr> = Inr d"
    by (auto simp: np_ident_row_def split: sum.splits)
  show "desired_ok (NpIdent m) d \<and> map_of d = np_ident_of (ys @ [x])"
    using putDesired_ok [OF a(2)] a(1) c by (auto simp: np_ident_of_def fun_eq_iff)
qed

definition np_rule_keys :: "NPAllow \<Rightarrow> np_allow_key set" where
  "np_rule_keys r = (case np_allow_range r of (lo, hi) \<Rightarrow> np_allow_keyof r ` set (npPortPrefixes lo hi))"

lemma np_allow_rows_table:
  assumes "np_allow_rows m r c = Inr d"
  shows "(desired_ok (NpAllow m) c \<longrightarrow> desired_ok (NpAllow m) d) \<and> dom (map_of d) = dom (map_of c) \<union> np_rule_keys r"
proof -
  obtain lo hi where r: "np_allow_range r = (lo, hi)" by (cases "np_allow_range r")
  let ?P = "\<lambda>pps d. (desired_ok (NpAllow m) c \<longrightarrow> desired_ok (NpAllow m) d) \<and>
    dom (map_of d) = dom (map_of c) \<union> np_allow_keyof r ` set pps"
  have "fold_err (\<lambda>pp want. putDesired (NpAllow m) want (np_allow_keyof r pp) 1) (npPortPrefixes lo hi) c = Inr d"
    using assms by (simp add: np_allow_rows_def r)
  then have "?P (npPortPrefixes lo hi) d"
  proof (rule fold_err_induct)
    fix ys x zs c' d'
    assume "?P ys c'" and d: "putDesired (NpAllow m) c' (np_allow_keyof r x) 1 = Inr d'"
    then show "?P (ys @ [x]) d'" using putDesired_ok(2,3) [OF d] by simp
  qed simp
  then show ?thesis by (simp add: np_rule_keys_def r)
qed

lemma np_allow_table:
  assumes "fold_err (np_allow_rows m) allows [] = Inr want"
  shows "desired_ok (NpAllow m) want \<and> dom (map_of want) = (\<Union>r \<in> set allows. np_rule_keys r)"
  using assms
proof (rule fold_err_induct)
  fix ys x zs c d
  assume "desired_ok (NpAllow m) c \<and> dom (map_of c) = (\<Union>r \<in> set ys. np_rule_keys r)" and d: "np_allow_rows m x c = Inr d"
  then show "desired_ok (NpAllow m) d \<and> dom (map_of d) = (\<Union>r \<in> set (ys @ [x]). np_rule_keys r)"
    using np_allow_rows_table [OF d] by (simp add: Un_commute)
qed simp

abbreviation np_key_value :: "NPCidr list \<Rightarrow> np_cidr_key \<rightharpoonup> u8" where
  "np_key_value \<equiv> flag_value nc_CIDR np_cidr_keyof nc_Allow"

lemma np_cidr_table:
  assumes "fold_err (np_cidr_row m) entries [] = Inr want"
  shows "desired_ok (NpCidr m) want \<and> map_of want = np_key_value entries"
proof -
  have "np_cidr_row m = flag_row (NpCidr m) nc_CIDR np_cidr_keyof nc_Allow"
    by (intro ext) (simp add: np_cidr_row_def flag_row_def Let_def split: sum.splits)
  then show ?thesis using assms flag_rows_table by simp
qed

section \<open>What a lookup finds\<close>

text \<open>The bits of a trie key that a query is compared on; ports are compared in network order.\<close>

definition np_allow_matches :: "np_allow_key \<Rightarrow> np_allow_key \<Rightarrow> bool" where
  "np_allow_matches k q = (ak_Dir k = ak_Dir q \<and> ak_Proto k = ak_Proto q \<and> ak_DstId k = ak_DstId q \<and>
     ak_SrcId k = ak_SrcId q \<and>
     top_bits (unat (ak_Prefixlen k) - 160) (htons (ak_Port q)) = top_bits (unat (ak_Prefixlen k) - 160) (htons (ak_Port k)))"

definition np_cidr_matches :: "np_cidr_key \<Rightarrow> np_cidr_key \<Rightarrow> bool" where
  "np_cidr_matches k q = (ck_Dir k = ck_Dir q \<and> ck_Proto k = ck_Proto q \<and> ck_Port k = ck_Port q \<and>
     ck_Id k = ck_Id q \<and>
     top_bits (unat (ck_Prefixlen k) - 96) (ck_Addr q) = top_bits (unat (ck_Prefixlen k) - 96) (ck_Addr k))"

text \<open>A rule admits a port: any port, one port, or a range.\<close>

definition np_rule_admits :: "NPAllow \<Rightarrow> u8 \<Rightarrow> u8 \<Rightarrow> u64 \<Rightarrow> u64 \<Rightarrow> u16 \<Rightarrow> bool" where
  "np_rule_admits r dir proto dst src port = (na_Dir r = dir \<and> na_Proto r = proto \<and> na_DstID r = dst \<and>
     na_SrcID r = src \<and> (na_Port r = 0 \<or>
       na_Port r \<le> port \<and> port \<le> (if na_EndPort r = 0 then na_Port r else na_EndPort r)))"

lemma np_rule_keys_match:
  "(\<exists>k \<in> np_rule_keys r. np_allow_matches k \<lparr>ak_Prefixlen = l, ak_Dir = dir, ak_Proto = proto, ak_DstId = dst,
      ak_SrcId = src, ak_Port = port\<rparr>) \<longleftrightarrow> np_rule_admits r dir proto dst src (htons port)"
proof -
  obtain lo hi where r: "np_allow_range r = (lo, hi)" by (cases "np_allow_range r")
  have bits: "unat (160 + pp_bits pp) - 160 = unat (pp_bits pp)" if "pp \<in> set (npPortPrefixes lo hi)" for pp
    using pp_bits_le [OF that] by (simp add: unat_word_ariths)
  have "(\<exists>pp \<in> set (npPortPrefixes lo hi). port_matches pp (htons port)) \<longleftrightarrow> na_Port r = 0 \<or>
      na_Port r \<le> htons port \<and> htons port \<le> (if na_EndPort r = 0 then na_Port r else na_EndPort r)"
    using r by (auto simp: npPortPrefixes_cover np_allow_range_def Let_def split: if_splits)
  then show ?thesis
    using bits r by (auto simp: np_rule_keys_def np_allow_matches_def np_allow_keyof_def np_rule_admits_def
      port_matches_def)
qed

lemma np_probe_iff:
  assumes "lpm_trie (e_allow s) content np_allow_matches plen" "dom content = (\<Union>r \<in> set allows. np_rule_keys r)"
  shows "np_probe s q dir dst src \<longleftrightarrow> (\<exists>r \<in> set allows. np_rule_admits r dir (q_proto q) dst src (htons (q_dport q)))"
proof -
  let ?q = "\<lparr>ak_Prefixlen = 160 + 16, ak_Dir = dir, ak_Proto = q_proto q, ak_DstId = dst, ak_SrcId = src, ak_Port = q_dport q\<rparr>"
  have "np_probe s q dir dst src \<longleftrightarrow> (\<exists>k \<in> dom content. np_allow_matches k ?q)"
    unfolding np_probe_def lpm_trie.lookup_None_iff [OF assms(1)] by auto
  then show ?thesis unfolding assms(2) by (simp only: UN_iff bex_UN np_rule_keys_match)
qed

text \<open>
  The ipBlock entries of an identity, direction, protocol and port that contain an address, and their
  verdict: the longest prefix decides, and at equal length an allow wins.
\<close>

definition np_cidr_hits :: "NPCidr list \<Rightarrow> u64 \<Rightarrow> u8 \<Rightarrow> u8 \<Rightarrow> u16 \<Rightarrow> addr \<Rightarrow> NPCidr list" where
  "np_cidr_hits entries self dir proto port w = filter (\<lambda>e. nc_ID e = self \<and> nc_Dir e = dir \<and>
     nc_Proto e = proto \<and> nc_Port e = port \<and> cidr_covers (nc_CIDR e) w) entries"

abbreviation np_cidr_verdict :: "NPCidr list \<Rightarrow> bool" where
  "np_cidr_verdict \<equiv> longest_allows nc_CIDR nc_Allow"

definition np_cidr_admits :: "NPCidr list \<Rightarrow> u64 \<Rightarrow> u8 \<Rightarrow> u8 \<Rightarrow> u16 \<Rightarrow> addr \<Rightarrow> bool" where
  "np_cidr_admits entries self dir proto port w =
     (if np_cidr_hits entries self dir proto port w \<noteq> []
      then np_cidr_verdict (np_cidr_hits entries self dir proto port w)
      else np_cidr_verdict (np_cidr_hits entries self dir proto 0 w))"

lemma npCIDRDirection_eq:
  assumes "dir = 0 \<or> dir = 1" "dir' = 0 \<or> dir' = 1" "family = 4 \<or> family = 6" "family' = 4 \<or> family' = 6"
  shows "npCIDRDirection dir family = npCIDRDirection dir' family' \<longleftrightarrow> dir = dir' \<and> family = family'"
  using assms by (auto simp: npCIDRDirection_def)

definition np_cidr_query :: "u8 \<Rightarrow> u8 \<Rightarrow> u8 \<Rightarrow> u16 \<Rightarrow> u64 \<Rightarrow> u128 \<Rightarrow> np_cidr_key" where
  "np_cidr_query dir family proto port self a = \<lparr>ck_Prefixlen = 96 + 128, ck_Dir = npCIDRDirection dir family,
     ck_Proto = proto, ck_Port = port, ck_Id = self, ck_Addr = a\<rparr>"

definition np_cidrs_ok :: "NPCidr list \<Rightarrow> bool" where
  "np_cidrs_ok entries = (\<forall>e \<in> set entries. nc_Dir e = 0 \<or> nc_Dir e = 1)"

interpretation np_block: cidr_table nc_CIDR np_cidr_keyof np_cidr_matches "\<lambda>k. unat (ck_Prefixlen k)" 96
  "\<lambda>(dir, family, proto, port, self, a). np_cidr_query dir family proto port self a"
  "\<lambda>e (dir, family, proto, port, self, a). nc_ID e = self \<and> nc_Dir e = dir \<and> nc_Proto e = proto \<and> nc_Port e = htons port"
  "\<lambda>(dir, family, proto, port, self, a). family" "\<lambda>(dir, family, proto, port, self, a). a"
  "\<lambda>e. nc_Dir e = 0 \<or> nc_Dir e = 1" "\<lambda>(dir, family, proto, port, self, a). dir = 0 \<or> dir = 1"
proof (unfold_locales, goal_cases)
  case (1 bits e a f)
  then show ?case by (simp add: np_cidr_keyof_def unat_word_ariths)
next
  case (2 e q f bits a)
  obtain dir family proto port self b where q: "q = (dir, family, proto, port, self, b)" by (cases q)
  have "unat (96 + bits) - 96 = unat bits" using 2 by (simp add: unat_word_ariths)
  then show ?case using 2 npCIDRDirection_eq [of "nc_Dir e" dir f family] htons_eq_iff [of "nc_Port e" "htons port"]
    by (auto simp: q np_cidr_keyof_def np_cidr_query_def np_cidr_matches_def)
next
  case (3 e q e' p)
  then show ?case by (cases p) (auto simp: np_cidr_keyof_def)
qed

lemma np_cidr_lookup:
  fixes self :: u64 and proto :: u8 and port :: u16
  assumes trie: "lpm_trie lookup (np_key_value entries) np_cidr_matches (\<lambda>k. unat (ck_Prefixlen k))"
    and ok: "np_cidrs_ok entries" and w: "packet_addr w family a" and dir: "dir = 0 \<or> dir = 1"
  defines "q \<equiv> np_cidr_query dir family proto port self a"
    and "hits \<equiv> np_cidr_hits entries self dir proto (htons port) w"
  shows "(lookup q = None \<longleftrightarrow> hits = []) \<and> (\<forall>v. lookup q = Some v \<longrightarrow> (v \<noteq> 0 \<longleftrightarrow> np_cidr_verdict hits))"
  using np_block.lookup_verdict [OF trie, of w "(dir, family, proto, port, self, a)"] w dir ok
  by (simp add: q_def hits_def np_cidr_hits_def np_cidrs_ok_def conj_assoc)

lemma np_cidr_check_iff:
  assumes "lpm_trie (e_cidr s) (np_key_value entries) np_cidr_matches (\<lambda>k. unat (ck_Prefixlen k))"
    and "np_cidrs_ok entries" and "packet_addr w (q_family q) a" and "dir = 0 \<or> dir = 1"
  shows "np_cidr_check s q a dir self \<longleftrightarrow>
    np_cidr_admits entries self dir (q_proto q) (htons (q_dport q)) w"
proof -
  have f: "q_family q = 4 \<or> q_family q = 6" using assms(3) by (simp add: packet_addr_def addr_family_def)
  have "np_cidr_check s q a dir self = (case e_cidr s (np_cidr_query dir (q_family q) (q_proto q) (q_dport q) self a) of
      Some v \<Rightarrow> v \<noteq> 0 | None \<Rightarrow> (case e_cidr s (np_cidr_query dir (q_family q) (q_proto q) 0 self a) of
        Some v \<Rightarrow> v \<noteq> 0 | None \<Rightarrow> False))"
    using f unfolding np_cidr_check_def np_cidr_query_def npCIDRDirection_def Let_def
    by (auto cong: option.case_cong)
  then show ?thesis
    using np_cidr_lookup [OF assms, of "q_proto q" "q_dport q" self] np_cidr_lookup [OF assms, of "q_proto q" 0 self]
    by (auto simp: np_cidr_admits_def longest_allows_def split: option.splits)
qed

section \<open>The decision in terms of the rules\<close>

text \<open>The peer identities under which a rule can admit the other end of a packet.\<close>

definition np_src_peers :: "np_env \<Rightarrow> NPIdent list \<Rightarrow> u128 \<Rightarrow> u64 set" where
  "np_src_peers s idents a = {NPSrcAny} \<union> (if e_nodes s a = None then {} else {NPSrcNodes}) \<union>
     (case np_ident_of idents a of None \<Rightarrow> {} | Some i \<Rightarrow> {iv_Id i, NPSrcAnyPod} \<union> (if e_local0 s a then {NPSrcLocalPods} else {}))"

definition np_dst_peers :: "np_env \<Rightarrow> NPIdent list \<Rightarrow> u128 \<Rightarrow> u64 set" where
  "np_dst_peers s idents a = {NPSrcAny} \<union>
     (case np_ident_of idents a of None \<Rightarrow> {} | Some i \<Rightarrow> {iv_Id i, NPSrcAnyPod} \<union> (if e_local0 s a then {NPSrcLocalPods} else {}))"

definition np_ingress_policy :: "np_env \<Rightarrow> NPIdent list \<Rightarrow> NPAllow list \<Rightarrow> NPCidr list \<Rightarrow> addr \<Rightarrow> np_query \<Rightarrow> bool" where
  "np_ingress_policy s idents allows cidrs w q = (case np_ident_of idents (q_dst q) of
       None \<Rightarrow> True
     | Some di \<Rightarrow> iv_Flags di AND NPIngIsolated = 0 \<or> np_local_node s (q_src q) \<or>
         (\<exists>r \<in> set allows. \<exists>src \<in> np_src_peers s idents (q_src q).
            np_rule_admits r NPDirIn (q_proto q) (iv_Id di) src (htons (q_dport q))) \<or>
         np_cidr_admits cidrs (iv_Id di) NPDirIn (q_proto q) (htons (q_dport q)) w \<or> np_pin_check s q)"

definition np_egress_policy :: "np_env \<Rightarrow> NPIdent list \<Rightarrow> NPAllow list \<Rightarrow> NPCidr list \<Rightarrow> addr \<Rightarrow> np_query \<Rightarrow> bool" where
  "np_egress_policy s idents allows cidrs w q = (case np_ident_of idents (q_src q) of
       None \<Rightarrow> True
     | Some si \<Rightarrow> iv_Flags si AND NPEgIsolated = 0 \<or>
         (\<exists>r \<in> set allows. \<exists>dst \<in> np_dst_peers s idents (q_dst q).
            np_rule_admits r NPDirEg (q_proto q) dst (iv_Id si) (htons (q_dport q))) \<or>
         np_cidr_admits cidrs (iv_Id si) NPDirEg (q_proto q) (htons (q_dport q)) w \<or> np_pin_check s q)"

text \<open>The packet program reads the tables of a kernel state.\<close>

definition np_reads :: "np_env \<Rightarrow> (u32 \<rightharpoonup> u32) \<Rightarrow> (u128 \<rightharpoonup> np_ident_val) \<Rightarrow> (np_allow_key \<rightharpoonup> u8) \<Rightarrow>
    (np_cidr_key \<rightharpoonup> u8) \<Rightarrow> bool" where
  "np_reads s params ident allow cidr = (e_params s = params \<and> e_ident s = ident \<and>
     lpm_trie (e_allow s) allow np_allow_matches (\<lambda>k. unat (ak_Prefixlen k)) \<and>
     lpm_trie (e_cidr s) cidr np_cidr_matches (\<lambda>k. unat (ck_Prefixlen k)))"

lemma np_ingress_tables:
  assumes "np_reads s params (np_ident_of idents) allow (np_key_value cidrs)" "params cfgNPUpdating = Some 0"
    and "dom allow = (\<Union>r \<in> set allows. np_rule_keys r)" "np_cidrs_ok cidrs" "packet_addr w (q_family q) (q_src q)"
  shows "np_ingress s q = np_ingress_policy s idents allows cidrs w q"
proof -
  have u: "\<not> np_updating s" "e_ident s = np_ident_of idents" using assms(1,2) by (auto simp: np_reads_def np_updating_def)
  have c: "np_cidr_check s q (q_src q) NPDirIn self = np_cidr_admits cidrs self NPDirIn (q_proto q) (htons (q_dport q)) w" for self
    using assms by (intro np_cidr_check_iff) (auto simp: np_reads_def NPDirIn_def)
  have p: "np_probe s q dir dst src = (\<exists>r \<in> set allows. np_rule_admits r dir (q_proto q) dst src (htons (q_dport q)))" for dir dst src
    using assms by (intro np_probe_iff) (auto simp: np_reads_def)
  show ?thesis unfolding np_ingress_def np_ingress_policy_def np_src_peers_def u(2) c p
    using u(1) by (auto split: option.splits)
qed

lemma np_egress_tables:
  assumes "np_reads s params (np_ident_of idents) allow (np_key_value cidrs)" "params cfgNPUpdating = Some 0"
    and "dom allow = (\<Union>r \<in> set allows. np_rule_keys r)" "np_cidrs_ok cidrs" "packet_addr w (q_family q) (q_dst q)"
  shows "np_egress s q = np_egress_policy s idents allows cidrs w q"
proof -
  have u: "\<not> np_updating s" "e_ident s = np_ident_of idents" using assms(1,2) by (auto simp: np_reads_def np_updating_def)
  have c: "np_cidr_check s q (q_dst q) NPDirEg self = np_cidr_admits cidrs self NPDirEg (q_proto q) (htons (q_dport q)) w" for self
    using assms by (intro np_cidr_check_iff) (auto simp: np_reads_def NPDirEg_def)
  have p: "np_probe s q dir dst src = (\<exists>r \<in> set allows. np_rule_admits r dir (q_proto q) dst src (htons (q_dport q)))" for dir dst src
    using assms by (intro np_probe_iff) (auto simp: np_reads_def)
  show ?thesis unfolding np_egress_def np_egress_policy_def np_dst_peers_def u(2) c p
    using u(1) by (auto split: option.splits)
qed

section \<open>Guarded updates\<close>

text \<open>
  The kernel as NetworkPolicy uses it: four maps, no two of which share an entry. \<open>vp\<close>, \<open>vi\<close>, \<open>va\<close> and \<open>vc\<close>
  are the contents of \<^verbatim>\<open>params\<close>, \<^verbatim>\<open>np_ident\<close>, \<^verbatim>\<open>np_allow\<close> and \<^verbatim>\<open>np_cidr\<close>.
\<close>

locale np_kernel =
  params: ebpf_map "Params m" vp + ident: ebpf_map "NpIdent m" vi +
  allow: ebpf_map "NpAllow m" va + cidr: ebpf_map "NpCidr m" vc
  for m :: "'w np_objs" and vp vi va vc +
  assumes params_frame: "map_frame (Params m) (\<lambda>w. (vi w, va w, vc w))"
    and ident_frame: "map_frame (NpIdent m) (\<lambda>w. (vp w, va w, vc w))"
    and allow_frame: "map_frame (NpAllow m) (\<lambda>w. (vp w, vi w, vc w))"
    and cidr_frame: "map_frame (NpCidr m) (\<lambda>w. (vp w, vi w, va w))"
begin

abbreviation armed :: "'w \<Rightarrow> bool" where
  "armed w \<equiv> vp w cfgNPUpdating = Some 1"

lemma put_params:
  "triple (\<lambda>w. P ((vp w)(k \<mapsto> v)) (vi w) (va w) (vc w) \<and> E (vp w) (vi w) (va w) (vc w)) (put (Params m) k v)
     (\<lambda>w. P (vp w) (vi w) (va w) (vc w)) (\<lambda>w. E (vp w) (vi w) (va w) (vc w))"
proof (rule triple_by_view [where f = "\<lambda>w. (vp w, vi w, va w, vc w)"])
  fix w assume pre: "P ((vp w)(k \<mapsto> v)) (vi w) (va w) (vc w) \<and> E (vp w) (vi w) (va w) (vc w)"
  have keep: "map_keeps (Params m) (\<lambda>u. (vi u, va u, vc u) = (vi w, va w, vc w))"
    by (rule frame_keeps [OF params_frame])
  show "triple (\<lambda>u. (vp u, vi u, va u, vc u) = (vp w, vi w, va w, vc w)) (put (Params m) k v)
      (\<lambda>w. P (vp w) (vi w) (va w) (vc w)) (\<lambda>w. E (vp w) (vi w) (va w) (vc w))"
    by (rule triple_conseq [OF triple_conj [OF params.put_triple [of "vp w" k v] put_keeps [OF keep, of k v]]])
      (use pre in auto)
qed

lemma idents_stage:
  assumes "valid_order ord"
  shows "triple armed (SyncNPIdents ord m idents) (\<lambda>w. armed w \<and> vi w = np_ident_of idents) armed"
proof -
  have "triple (\<lambda>_. True) (SyncNPIdents ord m idents) (\<lambda>w. vi w = np_ident_of idents) (\<lambda>_. True)"
    unfolding SyncNPIdents_def by (rule triple_conseq [OF ident.sync_desired_exact [OF assms]])
      (auto dest: np_ident_table simp: desired_ok_def)
  moreover have "triple (\<lambda>w. armed w \<and> True) (SyncNPIdents ord m idents) (\<lambda>w. armed w \<and> True) (\<lambda>w. armed w \<and> True)"
    unfolding SyncNPIdents_def
    using frame_keeps [OF ident_frame, of "\<lambda>(p, _). p cfgNPUpdating = Some 1 \<and> True"] by (intro sync_desired_keeps) simp
  ultimately show ?thesis using guarded_stage [of _ "\<lambda>w. vi w = np_ident_of idents" armed "\<lambda>_. True"] by simp
qed

lemma allows_stage:
  assumes "valid_order ord"
  shows "triple (\<lambda>w. armed w \<and> vi w = I) (SyncNPAllows ord m allows)
    (\<lambda>w. armed w \<and> vi w = I \<and> dom (va w) = (\<Union>r \<in> set allows. np_rule_keys r)) armed"
proof (rule guarded_stage)
  show "triple (\<lambda>_. True) (SyncNPAllows ord m allows) (\<lambda>w. dom (va w) = (\<Union>r \<in> set allows. np_rule_keys r)) (\<lambda>_. True)"
    unfolding SyncNPAllows_def
    by (rule triple_conseq [OF allow.sync_desired_exact [OF assms]]) (metis np_allow_table desired_ok_def)+
  show "triple (\<lambda>w. armed w \<and> vi w = I) (SyncNPAllows ord m allows) (\<lambda>w. armed w \<and> vi w = I) (\<lambda>w. armed w \<and> vi w = I)"
    unfolding SyncNPAllows_def
    using frame_keeps [OF allow_frame, of "\<lambda>(p, i, _). p cfgNPUpdating = Some 1 \<and> i = I"] by (intro sync_desired_keeps) simp
qed

lemma cidrs_stage:
  assumes "valid_order ord"
  shows "triple (\<lambda>w. armed w \<and> vi w = I \<and> dom (va w) = D) (SyncNPCidrs ord m cidrs)
    (\<lambda>w. armed w \<and> (vi w = I \<and> dom (va w) = D) \<and> vc w = np_key_value cidrs) armed"
proof (rule guarded_stage)
  show "triple (\<lambda>_. True) (SyncNPCidrs ord m cidrs) (\<lambda>w. vc w = np_key_value cidrs) (\<lambda>_. True)"
    unfolding SyncNPCidrs_def by (rule triple_conseq [OF cidr.sync_desired_exact [OF assms]])
      (auto dest: np_cidr_table simp: desired_ok_def)
  show "triple (\<lambda>w. armed w \<and> vi w = I \<and> dom (va w) = D) (SyncNPCidrs ord m cidrs)
      (\<lambda>w. armed w \<and> vi w = I \<and> dom (va w) = D) (\<lambda>w. armed w \<and> vi w = I \<and> dom (va w) = D)"
    unfolding SyncNPCidrs_def
    using frame_keeps [OF cidr_frame, of "\<lambda>(p, i, a). p cfgNPUpdating = Some 1 \<and> i = I \<and> dom a = D"]
    by (intro sync_desired_keeps) simp
qed

lemma apply_triple:
  assumes "\<And>i. valid_order (ords i)"
  shows "triple (\<lambda>w. (vp w, vi w, va w, vc w) = V) (ApplyNetworkPolicy ords m idents allows cidrs)
    (\<lambda>w. vi w = np_ident_of idents \<and> dom (va w) = (\<Union>r \<in> set allows. np_rule_keys r) \<and> vc w = np_key_value cidrs \<and>
       vp w cfgNPUpdating = Some 0 \<and> vp w cfgNPInitialized = Some 1)
    (\<lambda>w. (vp w, vi w, va w, vc w) = V \<or> armed w)"
proof -
  let ?E = "\<lambda>w. (vp w, vi w, va w, vc w) = V \<or> armed w"
  let ?T = "\<lambda>w. vi w = np_ident_of idents \<and> dom (va w) = (\<Union>r \<in> set allows. np_rule_keys r) \<and> vc w = np_key_value cidrs"
  have arm: "triple (\<lambda>w. (vp w, vi w, va w, vc w) = V) (put (Params m) cfgNPUpdating 1) armed ?E"
    by (rule triple_conseq [OF put_params [where P = "\<lambda>p i a c. p cfgNPUpdating = Some 1" and E = "\<lambda>p i a c. (p, i, a, c) = V"]]) auto
  have init: "triple (\<lambda>w. armed w \<and> ?T w) (put (Params m) cfgNPInitialized 1)
      (\<lambda>w. armed w \<and> ?T w \<and> vp w cfgNPInitialized = Some 1) ?E"
    by (rule triple_conseq [OF put_params [where P = "\<lambda>p i a c. p cfgNPUpdating = Some 1 \<and> (i = np_ident_of idents \<and>
        dom a = (\<Union>r \<in> set allows. np_rule_keys r) \<and> c = np_key_value cidrs) \<and> p cfgNPInitialized = Some 1" and
        E = "\<lambda>p i a c. p cfgNPUpdating = Some 1"]]) (auto simp: np_consts)
  have disarm: "triple (\<lambda>w. armed w \<and> ?T w \<and> vp w cfgNPInitialized = Some 1) (put (Params m) cfgNPUpdating 0)
      (\<lambda>w. ?T w \<and> vp w cfgNPUpdating = Some 0 \<and> vp w cfgNPInitialized = Some 1) ?E"
    by (rule triple_conseq [OF put_params [where P = "\<lambda>p i a c. (i = np_ident_of idents \<and>
        dom a = (\<Union>r \<in> set allows. np_rule_keys r) \<and> c = np_key_value cidrs) \<and> p cfgNPUpdating = Some 0 \<and>
        p cfgNPInitialized = Some 1" and E = "\<lambda>p i a c. p cfgNPUpdating = Some 1"]]) (auto simp: np_consts)
  note stages = idents_stage [OF assms] allows_stage [OF assms] cidrs_stage [OF assms]
  show ?thesis unfolding ApplyNetworkPolicy_def
    by (rule triple_Cons [OF arm], rule triple_Cons [OF triple_conseq [OF stages(1)]],
        assumption, assumption, simp, rule triple_Cons [OF triple_conseq [OF stages(2)]],
        assumption, assumption, simp, rule triple_Cons [OF triple_conseq [OF stages(3)]], assumption)
       (blast | rule triple_Cons [OF init] triple_Cons [OF disarm] triple_Nil | simp)+
qed

text \<open>Every write to a policy map happens while the guard is armed.\<close>

lemma apply_guarded:
  assumes "map_keeps (NpIdent m) (\<lambda>w. armed w \<and> P w)" "map_keeps (NpAllow m) (\<lambda>w. armed w \<and> P w)"
    and "map_keeps (NpCidr m) (\<lambda>w. armed w \<and> P w)" "map_keeps (Params m) P"
  shows "triple P (ApplyNetworkPolicy ords m idents allows cidrs) P P"
proof -
  note put = triple_conj [OF params.put_triple put_keeps [OF assms(4)]]
  have arm: "triple P (put (Params m) cfgNPUpdating 1) (\<lambda>w. armed w \<and> P w) P"
    by (rule triple_by_view [where f = "\<lambda>w. (vp w, P w)"], rule triple_conseq [OF put]) auto
  have init: "triple (\<lambda>w. armed w \<and> P w) (put (Params m) cfgNPInitialized 1) (\<lambda>w. armed w \<and> P w) P"
    by (rule triple_by_view [where f = "\<lambda>w. (vp w, P w)"], rule triple_conseq [OF put]) (auto simp: np_consts)
  have disarm: "triple (\<lambda>w. armed w \<and> P w) (put (Params m) cfgNPUpdating 0) P P"
    by (rule triple_conseq [OF put_keeps [OF assms(4)]]) auto
  have stage: "triple (\<lambda>w. armed w \<and> P w) c (\<lambda>w. armed w \<and> P w) P"
    if "triple (\<lambda>w. armed w \<and> P w) c (\<lambda>w. armed w \<and> P w) (\<lambda>w. armed w \<and> P w)" for c
    by (rule triple_conseq [OF that]) auto
  show ?thesis unfolding ApplyNetworkPolicy_def SyncNPIdents_def SyncNPAllows_def SyncNPCidrs_def
    by (intro triple_Cons [OF arm] triple_Cons [OF stage] triple_Cons [OF init] triple_Cons [OF disarm] triple_Nil
        sync_desired_keeps assms(1-3))
qed

end

text \<open>A kernel with memory, whose \<^verbatim>\<open>params\<close> array has the two slots of the guard.\<close>

locale np_kernel_reliable = np_kernel +
  assumes params_reliable: "ebpf_map_reliable (Params m) vp" and ident_reliable: "ebpf_map_reliable (NpIdent m) vi"
    and allow_reliable: "ebpf_map_reliable (NpAllow m) va" and cidr_reliable: "ebpf_map_reliable (NpCidr m) vc"
begin

lemma apply_total:
  assumes "\<And>i. valid_order (ords i)" "fold_err (np_ident_row m) idents [] = Inr wi"
    "fold_err (np_allow_rows m) allows [] = Inr wa" "fold_err (np_cidr_row m) cidrs [] = Inr wc"
  shows "triple (\<lambda>w. {cfgNPUpdating, cfgNPInitialized} \<subseteq> dom (vp w)) (ApplyNetworkPolicy ords m idents allows cidrs)
    (\<lambda>_. True) (\<lambda>_. False)"
proof -
  let ?P = "\<lambda>w. {cfgNPUpdating, cfgNPInitialized} \<subseteq> dom (vp w)"
  have put: "triple ?P (put (Params m) k v) ?P (\<lambda>_. False)" if "k = cfgNPUpdating \<or> k = cfgNPInitialized" for k v
  proof (rule total_stage)
    show "triple ?P (put (Params m) k v) (\<lambda>_. True) (\<lambda>_. False)"
      by (rule triple_conseq [OF ebpf_map_reliable.put_total1 [OF params_reliable]]) (use that in auto)
    show "triple ?P (put (Params m) k v) ?P ?P"
      by (rule triple_by_view [where f = vp], rule triple_conseq [OF params.put_triple]) auto
  qed
  have ident: "triple ?P (SyncNPIdents (ords 0) m idents) ?P (\<lambda>_. False)" unfolding SyncNPIdents_def
    using frame_keeps [OF ident_frame, of "\<lambda>(p, _). {cfgNPUpdating, cfgNPInitialized} \<subseteq> dom p"] np_ident_table [OF assms(2)]
    by (intro total_stage sync_desired_keeps ebpf_map_reliable.sync_desired_total [OF ident_reliable assms(1,2)]) auto
  have allow: "triple ?P (SyncNPAllows (ords 1) m allows) ?P (\<lambda>_. False)" unfolding SyncNPAllows_def
    using frame_keeps [OF allow_frame, of "\<lambda>(p, _). {cfgNPUpdating, cfgNPInitialized} \<subseteq> dom p"] np_allow_table [OF assms(3)]
    by (intro total_stage sync_desired_keeps ebpf_map_reliable.sync_desired_total [OF allow_reliable assms(1,3)]) auto
  have cidr: "triple ?P (SyncNPCidrs (ords 2) m cidrs) ?P (\<lambda>_. False)" unfolding SyncNPCidrs_def
    using frame_keeps [OF cidr_frame, of "\<lambda>(p, _). {cfgNPUpdating, cfgNPInitialized} \<subseteq> dom p"] np_cidr_table [OF assms(4)]
    by (intro total_stage sync_desired_keeps ebpf_map_reliable.sync_desired_total [OF cidr_reliable assms(1,4)]) auto
  show ?thesis unfolding ApplyNetworkPolicy_def
    by (intro triple_Cons [OF put] triple_Cons [OF ident] triple_Cons [OF allow] triple_Cons [OF cidr] triple_Nil) auto
qed

end

section \<open>A kernel for NetworkPolicy\<close>

text \<open>
  The four maps as bounded association lists. The first list of the state is the schedule of failures;
  \<open>nw_unguarded\<close> records whether a policy map was ever written without the guard.
\<close>

record np_world =
  nw_faults :: "errno option list"
  nw_params :: "(u32 \<times> u32) list"
  nw_ident :: "(u128 \<times> np_ident_val) list"
  nw_allow :: "(np_allow_key \<times> u8) list"
  nw_cidr :: "(np_cidr_key \<times> u8) list"
  nw_unguarded :: bool

definition np_tick :: "np_world \<Rightarrow> errno option \<times> np_world" where
  "np_tick w = (case nw_faults w of [] \<Rightarrow> (None, w)
     | f # fs \<Rightarrow> (if f = Some ENOENT then Some EIO else f, w\<lparr>nw_faults := fs\<rparr>))"

definition np_touch :: "np_world \<Rightarrow> np_world" where
  "np_touch w = w\<lparr>nw_unguarded := nw_unguarded w \<or> map_of (nw_params w) cfgNPUpdating \<noteq> Some 1\<rparr>"

definition np_maps :: "(np_world \<Rightarrow> errno option \<times> np_world) \<Rightarrow> np_world np_objs" where
  "np_maps tick = \<lparr>Params = alist_ops 16 nw_params (\<lambda>xs w. w\<lparr>nw_params := xs\<rparr>) tick,
     NpIdent = alist_ops 65536 nw_ident (\<lambda>xs w. np_touch (w\<lparr>nw_ident := xs\<rparr>)) tick,
     NpAllow = alist_ops 524288 nw_allow (\<lambda>xs w. np_touch (w\<lparr>nw_allow := xs\<rparr>)) tick,
     NpCidr = alist_ops 65536 nw_cidr (\<lambda>xs w. np_touch (w\<lparr>nw_cidr := xs\<rparr>)) tick\<rparr>"

lemma np_tick_frame [simp]: "nw_params (snd (np_tick w)) = nw_params w" "nw_ident (snd (np_tick w)) = nw_ident w"
  "nw_allow (snd (np_tick w)) = nw_allow w" "nw_cidr (snd (np_tick w)) = nw_cidr w"
  "nw_unguarded (snd (np_tick w)) = nw_unguarded w" "fst (np_tick w) \<noteq> Some ENOENT"
  by (auto simp: np_tick_def split: list.splits)

interpretation np_ref: np_kernel "np_maps np_tick" "\<lambda>w. map_of (nw_params w)" "\<lambda>w. map_of (nw_ident w)"
  "\<lambda>w. map_of (nw_allow w)" "\<lambda>w. map_of (nw_cidr w)"
  by (intro np_kernel.intro np_kernel_axioms.intro)
    (auto simp: np_maps_def np_touch_def intro!: alist_ops_ebpf_map alist_ops_frame)

interpretation np_sure: np_kernel_reliable "np_maps (Pair None)" "\<lambda>w. map_of (nw_params w)" "\<lambda>w. map_of (nw_ident w)"
  "\<lambda>w. map_of (nw_allow w)" "\<lambda>w. map_of (nw_cidr w)"
  by (intro np_kernel_reliable.intro np_kernel_reliable_axioms.intro np_kernel.intro np_kernel_axioms.intro)
    (auto simp: np_maps_def np_touch_def intro!: alist_ops_ebpf_map alist_ops_reliable alist_ops_frame)

section \<open>A concrete update\<close>

definition np_demo_world :: "errno option list \<Rightarrow> np_world" where
  "np_demo_world faults = \<lparr>nw_faults = faults, nw_params = [(cfgNPUpdating, 0), (cfgNPInitialized, 0)], nw_ident = [], nw_allow = [], nw_cidr = [], nw_unguarded = False\<rparr>"

definition np_demo_idents :: "NPIdent list" where
  "np_demo_idents = [\<lparr>ni_IP = [10, 0, 0, 1], ni_ID = 8, ni_Flags = 1\<rparr>]"

definition np_demo_allows :: "NPAllow list" where
  "np_demo_allows = [\<lparr>na_DstID = 8, na_SrcID = 0, na_Dir = 0, na_Proto = 6, na_Port = 80, na_EndPort = 81\<rparr>]"

definition np_demo_cidrs :: "NPCidr list" where
  "np_demo_cidrs = [\<lparr>nc_ID = 8, nc_Dir = 0, nc_Proto = 17, nc_Port = 53,
     nc_CIDR = Some \<lparr>net_ip = [192, 168, 0, 0], net_mask = [255, 255, 0, 0]\<rparr>, nc_Allow = True\<rparr>]"

lemma np_demo_cidr: "\<exists>a. cidrPolicyPrefix (Some \<lparr>net_ip = [192, 168, 0, 0], net_mask = [255, 255, 0, 0]\<rparr>) = Inr (a, 112, 4)"
proof -
  have "cidr_mask 16 4 = [255, 255, 0, 0]" by (simp add: cidr_mask_def upt_rec)
  then have "mask_size [255, 255, 0, 0] = (16, 32)" using mask_size_cidr_mask [of 16 4] by simp
  then show ?thesis
    by (simp add: cidrPolicyPrefix_def normalizedCIDR_def addr_from_slice_def unmap_def is4_def masked_prefix_from
        addr128_as16_v4 del: as16.simps)
qed

lemma np_demo_ports: "npPortPrefixes 80 81 = [\<lparr>pp_port = 80, pp_bits = 15\<rparr>]"
proof -
  have "block_size 80 81 1 = 2" by (simp add: block_size.simps Let_def)
  moreover have "halvings 2 = 1" by (simp add: halvings.simps)
  ultimately have "port_blocks 80 81 = \<lparr>pp_port = 80, pp_bits = 15\<rparr> # port_blocks 82 81"
    by (subst port_blocks.simps) (simp add: Let_def)
  then show ?thesis by (simp add: npPortPrefixes_def port_blocks_empty)
qed

lemma np_demo_wants:
  "\<exists>w. fold_err (np_ident_row (np_maps tick)) np_demo_idents [] = Inr w"
  "\<exists>w. fold_err (np_allow_rows (np_maps tick)) np_demo_allows [] = Inr w"
  "\<exists>w. fold_err (np_cidr_row (np_maps tick)) np_demo_cidrs [] = Inr w"
proof -
  show "\<exists>w. fold_err (np_ident_row (np_maps tick)) np_demo_idents [] = Inr w"
    by (simp add: np_demo_idents_def np_ident_row_def addr128_def ip_to4_def putDesired_def np_maps_def alist_ops_def)
  show "\<exists>w. fold_err (np_allow_rows (np_maps tick)) np_demo_allows [] = Inr w"
    by (simp add: np_demo_allows_def np_allow_rows_def np_allow_range_def np_demo_ports putDesired_def np_maps_def alist_ops_def)
  obtain a where "cidrPolicyPrefix (Some \<lparr>net_ip = [192, 168, 0, 0], net_mask = [255, 255, 0, 0]\<rparr>) = Inr (a, 112, 4)"
    using np_demo_cidr ..
  then show "\<exists>w. fold_err (np_cidr_row (np_maps tick)) np_demo_cidrs [] = Inr w"
    by (simp add: np_demo_cidrs_def np_cidr_row_def putDesired_def np_maps_def alist_ops_def Let_def)
qed

text \<open>The packet program on the tables of a state: the reference tries.\<close>

definition np_demo_env :: "np_world \<Rightarrow> np_env" where
  "np_demo_env w = \<lparr>e_params = map_of (nw_params w), e_nodes = Map.empty, e_ident = map_of (nw_ident w),
     e_local0 = (\<lambda>_. False),
     e_allow = lpm_find np_allow_matches (\<lambda>k. unat (ak_Prefixlen k)) (AList.clearjunk (nw_allow w)),
     e_cidr = lpm_find np_cidr_matches (\<lambda>k. unat (ck_Prefixlen k)) (AList.clearjunk (nw_cidr w)), e_ct = (\<lambda>_. False)\<rparr>"

lemma np_demo_reads: "np_reads (np_demo_env w) (map_of (nw_params w)) (map_of (nw_ident w)) (map_of (nw_allow w)) (map_of (nw_cidr w))"
  using lpm_find_trie [of "AList.clearjunk (nw_allow w)" np_allow_matches "\<lambda>k. unat (ak_Prefixlen k)"]
    lpm_find_trie [of "AList.clearjunk (nw_cidr w)" np_cidr_matches "\<lambda>k. unat (ck_Prefixlen k)"]
  by (simp add: np_reads_def np_demo_env_def map_of_clearjunk distinct_clearjunk)

definition np_demo_query :: np_query where
  "np_demo_query = \<lparr>q_src = nat64_prefix + 0x0a000002, q_dst = nat64_prefix + 0x0a000001, q_dport = htons 80, q_sport = 0,
     q_proto = 6, q_family = 4\<rparr>"

lemma np_demo_env: "e_params (np_demo_env w) = map_of (nw_params w)" "\<not> np_local_node (np_demo_env w) a"
  "\<not> np_pin_check (np_demo_env w) q"
  by (simp_all add: np_demo_env_def np_local_node_def np_pin_check_def)

lemma np_demo_cidrs_ok: "np_cidrs_ok np_demo_cidrs"
  by (simp add: np_cidrs_ok_def np_demo_cidrs_def)

lemma np_demo_runs:
  "\<exists>w'. ApplyNetworkPolicy plain_order (np_maps (Pair None)) np_demo_idents np_demo_allows np_demo_cidrs (np_demo_world []) = (None, w')"
proof -
  let ?m = "np_maps (Pair None)"
  obtain wi wa wc where "fold_err (np_ident_row ?m) np_demo_idents [] = Inr wi"
    "fold_err (np_allow_rows ?m) np_demo_allows [] = Inr wa" "fold_err (np_cidr_row ?m) np_demo_cidrs [] = Inr wc"
    using np_demo_wants by blast
  from triple_total [OF np_sure.apply_total [OF _ this, of plain_order], of "np_demo_world []"] show ?thesis
    by (simp add: np_demo_world_def np_consts)
qed

lemma np_demo_packet: "packet_addr (Addr4 0x0a000002) (q_family np_demo_query) (q_src np_demo_query)"
  by (simp add: packet_addr_def np_demo_query_def addr128_as16_v4 addr_family_def is4_def del: as16.simps)

section \<open>Properties\<close>

text \<open>
  (C21) End to end, NetworkPolicy is enforced as compiled: when \<^verbatim>\<open>ApplyNetworkPolicy\<close> returns no error, the
  packet program that reads the maps it left decides every packet exactly as the compiled identities,
  rules and ipBlocks say, in both directions. The kernel is any kernel that meets the contract of its
  maps and tries.
\<close>

theorem ApplyNetworkPolicy_enforced:
  assumes "np_kernel m vp vi va vc" and "\<forall>i. valid_order (ords i)"
    and "ApplyNetworkPolicy ords m idents allows cidrs w = (None, w')"
    and "np_reads s (vp w') (vi w') (va w') (vc w')" and "np_cidrs_ok cidrs"
  shows "(packet_addr a (q_family q) (q_src q) \<longrightarrow> np_ingress s q = np_ingress_policy s idents allows cidrs a q) \<and>
    (packet_addr a (q_family q) (q_dst q) \<longrightarrow> np_egress s q = np_egress_policy s idents allows cidrs a q)"
proof -
  have "vi w' = np_ident_of idents \<and> dom (va w') = (\<Union>r \<in> set allows. np_rule_keys r) \<and> vc w' = np_key_value cidrs \<and>
       vp w' cfgNPUpdating = Some 0"
    using triple_ok [OF np_kernel.apply_triple [OF assms(1)] refl assms(3)] assms(2) by blast
  then show ?thesis
    using assms(4,5) np_ingress_tables [of s "vp w'" idents "va w'" cidrs allows a q]
      np_egress_tables [of s "vp w'" idents "va w'" cidrs allows a q] by auto
qed

theorem ApplyNetworkPolicy_enforced_witness:
  "\<exists>w'. ApplyNetworkPolicy plain_order (np_maps (Pair None)) np_demo_idents np_demo_allows np_demo_cidrs (np_demo_world []) = (None, w') \<and>
    np_ingress (np_demo_env w') np_demo_query =
      np_ingress_policy (np_demo_env w') np_demo_idents np_demo_allows np_demo_cidrs (Addr4 0x0a000002) np_demo_query"
proof -
  obtain w' where w': "ApplyNetworkPolicy plain_order (np_maps (Pair None)) np_demo_idents np_demo_allows np_demo_cidrs (np_demo_world []) = (None, w')"
    using np_demo_runs by blast
  then show ?thesis
    using ApplyNetworkPolicy_enforced [OF np_sure.np_kernel_axioms _ w' np_demo_reads, of "Addr4 0x0a000002" np_demo_query]
      np_demo_packet by (simp add: np_demo_cidrs_ok)
qed

text \<open>
  (C12) A failed update fails closed: if \<^verbatim>\<open>ApplyNetworkPolicy\<close> returns an error, then either it changed nothing
  (the guard could not be armed) or the packet program admits nothing but packets from this node and
  pinned replies, in both directions.
\<close>

theorem ApplyNetworkPolicy_fail_closed:
  assumes "np_kernel m vp vi va vc" and "\<forall>i. valid_order (ords i)"
    and "ApplyNetworkPolicy ords m idents allows cidrs w = (Some e, w')" and "e_params s = vp w'"
  shows "(vp w', vi w', va w', vc w') = (vp w, vi w, va w, vc w) \<or>
    (np_ingress s q \<or> np_egress s q \<longrightarrow> np_local_node s (q_src q) \<or> np_pin_check s q)"
proof -
  have "(vp w', vi w', va w', vc w') = (vp w, vi w, va w, vc w) \<or> vp w' cfgNPUpdating = Some 1"
    using triple_error [OF np_kernel.apply_triple [OF assms(1)] refl assms(3)] assms(2) by blast
  then show ?thesis
  proof
    assume "vp w' cfgNPUpdating = Some 1"
    then have "np_updating s" using assms(4) by (simp add: np_updating_def)
    then show ?thesis by (simp add: np_ingress_def np_egress_def)
  qed simp
qed

theorem ApplyNetworkPolicy_fail_closed_witness:
  "\<exists>e w'. ApplyNetworkPolicy plain_order (np_maps np_tick) np_demo_idents np_demo_allows np_demo_cidrs
      (np_demo_world [None, Some EIO]) = (Some e, w') \<and> nw_params w' \<noteq> nw_params (np_demo_world []) \<and>
    \<not> np_ingress (np_demo_env w') np_demo_query"
proof -
  let ?m = "np_maps np_tick"
  let ?w = "np_demo_world [None, Some EIO]"
  let ?w' = "?w\<lparr>nw_faults := [], nw_params := [(cfgNPUpdating, 1), (cfgNPInitialized, 0)]\<rparr>"
  obtain wi where "fold_err (np_ident_row ?m) np_demo_idents [] = Inr wi" "desired_ok (NpIdent ?m) wi"
    using np_demo_wants(1) np_ident_table by blast
  then have run: "ApplyNetworkPolicy plain_order ?m np_demo_idents np_demo_allows np_demo_cidrs ?w = (Some (Kernel EIO), ?w')"
    by (simp add: ApplyNetworkPolicy_def do_seq.simps put_def SyncNPIdents_def sync_desired_def syncMap_def np_maps_def
      alist_ops_def np_tick_def np_demo_world_def desired_ok_def np_consts)
  have "map_of (nw_params ?w') cfgNPUpdating \<noteq> map_of (nw_params ?w) cfgNPUpdating"
    by (simp add: np_demo_world_def)
  then have "map_of (nw_params ?w') \<noteq> map_of (nw_params ?w)" by metis
  then have "\<not> (np_ingress (np_demo_env ?w') np_demo_query \<or> np_egress (np_demo_env ?w') np_demo_query)"
    using ApplyNetworkPolicy_fail_closed [OF np_ref.np_kernel_axioms _ run np_demo_env(1), of np_demo_query] np_demo_env(2,3)
    by (simp only: prod.inject valid_plain_order simp_thms)
  moreover have "nw_params ?w' \<noteq> nw_params (np_demo_world [])" by (simp add: np_demo_world_def)
  ultimately show ?thesis using run by blast
qed

text \<open>
  (C22) No packet ever sees a half-written policy: every property of the kernel state that the writes of the
  policy maps keep while the guard is armed, and that the writes of the guard itself keep, is kept by the
  whole update, whether it succeeds or fails.
\<close>

theorem ApplyNetworkPolicy_writes_guarded:
  assumes "np_kernel m vp vi va vc"
    and "map_keeps (NpIdent m) (\<lambda>w. vp w cfgNPUpdating = Some 1 \<and> P w)"
    and "map_keeps (NpAllow m) (\<lambda>w. vp w cfgNPUpdating = Some 1 \<and> P w)"
    and "map_keeps (NpCidr m) (\<lambda>w. vp w cfgNPUpdating = Some 1 \<and> P w)"
    and "map_keeps (Params m) P" and "P w"
  shows "P (snd (ApplyNetworkPolicy ords m idents allows cidrs w))"
  using np_kernel.apply_guarded [OF assms(1-5), of ords idents allows cidrs] assms(6)
  by (cases "ApplyNetworkPolicy ords m idents allows cidrs w"; cases "fst (ApplyNetworkPolicy ords m idents allows cidrs w)")
    (auto simp: triple_def split: prod.splits option.splits)


theorem ApplyNetworkPolicy_writes_guarded_witness:
  "\<not> nw_unguarded (snd (ApplyNetworkPolicy plain_order (np_maps np_tick) np_demo_idents np_demo_allows np_demo_cidrs (np_demo_world [])))"
  by (rule ApplyNetworkPolicy_writes_guarded [OF np_ref.np_kernel_axioms, where P = "\<lambda>w. \<not> nw_unguarded w"])
    (auto simp: np_maps_def np_touch_def np_demo_world_def intro!: alist_ops_keeps)

text \<open>
  (C23) An update that fits succeeds: on a kernel that has memory, \<^verbatim>\<open>ApplyNetworkPolicy\<close> returns no error
  whenever the desired tables can be built, whatever the maps held before.
\<close>

theorem ApplyNetworkPolicy_succeeds:
  assumes "np_kernel_reliable m vp vi va vc" and "\<forall>i. valid_order (ords i)"
    and "{cfgNPUpdating, cfgNPInitialized} \<subseteq> dom (vp w)"
    and "fold_err (np_ident_row m) idents [] = Inr wi" and "fold_err (np_allow_rows m) allows [] = Inr wa"
    and "fold_err (np_cidr_row m) cidrs [] = Inr wc"
  shows "\<exists>w'. ApplyNetworkPolicy ords m idents allows cidrs w = (None, w')"
  by (rule triple_total [OF np_kernel_reliable.apply_total [OF assms(1) _ assms(4-6)] assms(3)]) (use assms(2) in blast)

theorem ApplyNetworkPolicy_succeeds_witness:
  "\<exists>w'. ApplyNetworkPolicy plain_order (np_maps (Pair None)) np_demo_idents np_demo_allows np_demo_cidrs (np_demo_world []) = (None, w')"
proof -
  let ?m = "np_maps (Pair None)"
  obtain wi wa wc where "fold_err (np_ident_row ?m) np_demo_idents [] = Inr wi"
    "fold_err (np_allow_rows ?m) np_demo_allows [] = Inr wa" "fold_err (np_cidr_row ?m) np_demo_cidrs [] = Inr wc"
    using np_demo_wants by blast
  from ApplyNetworkPolicy_succeeds [OF np_sure.np_kernel_reliable_axioms _ _ this, of plain_order "np_demo_world []"]
  show ?thesis by (simp add: np_demo_world_def np_consts)
qed

text \<open>The packet program on the ipBlock table of a list of entries.\<close>

definition np_cidr_env :: "NPCidr list \<Rightarrow> np_env" where
  "np_cidr_env entries = (np_demo_env (np_demo_world []))\<lparr>e_cidr := (case fold_err (np_cidr_row (np_maps (Pair None))) entries [] of
     Inl _ \<Rightarrow> (\<lambda>_. None) | Inr want \<Rightarrow> lpm_find np_cidr_matches (\<lambda>k. unat (ck_Prefixlen k)) want)\<rparr>"

lemma np_cidr_env_check:
  assumes "fold_err (np_cidr_row (np_maps (Pair None))) entries [] = Inr want" "np_cidrs_ok entries" "packet_addr w (q_family q) a" "dir = 0 \<or> dir = 1"
  shows "np_cidr_check (np_cidr_env entries) q a dir self \<longleftrightarrow> np_cidr_admits entries self dir (q_proto q) (htons (q_dport q)) w"
proof (rule np_cidr_check_iff [OF _ assms(2-4)])
  have "distinct (map fst want)" "map_of want = np_key_value entries"
    using np_cidr_table [OF assms(1)] by (simp_all add: desired_ok_def)
  then show "lpm_trie (e_cidr (np_cidr_env entries)) (np_key_value entries) np_cidr_matches (\<lambda>k. unat (ck_Prefixlen k))"
    using lpm_find_trie [of want np_cidr_matches "\<lambda>k. unat (ck_Prefixlen k)"] assms(1) by (simp add: np_cidr_env_def)
qed

definition np_block_allow :: NPCidr where
  "np_block_allow = \<lparr>nc_ID = 8, nc_Dir = 0, nc_Proto = 6, nc_Port = 0, nc_CIDR = v4_net [10, 0, 0, 0] 8, nc_Allow = True\<rparr>"

definition np_block_except :: NPCidr where
  "np_block_except = \<lparr>nc_ID = 8, nc_Dir = 0, nc_Proto = 6, nc_Port = 0, nc_CIDR = v4_net [10, 1, 0, 0] 16, nc_Allow = False\<rparr>"

text \<open>
  An exception reaches beyond the policy it belongs to. One policy admits 10.0.0.0/8; a second one
  admits 10.0.0.0/8 except 10.1.0.0/16. Policies are additive, so the first alone admits 10.1.0.1, but
  with both policies compiled into the ipBlock table the packet program refuses it.
\<close>

lemma np_except_masks_other_policy:
  defines "q \<equiv> \<lparr>q_src = nat64_prefix + 0x0a010001, q_dst = 0, q_dport = htons 80, q_sport = 0, q_proto = 6, q_family = 4\<rparr>"
  shows "np_cidr_check (np_cidr_env [np_block_allow]) q (q_src q) 0 8 \<and>
    \<not> np_cidr_check (np_cidr_env ([np_block_allow] @ [np_block_allow, np_block_except])) q (q_src q) 0 8"
proof -
  have w: "packet_addr (Addr4 0x0a010001) (q_family q) (q_src q)" using packet_addr_v4 [of "0x0a010001"] by (simp add: q_def)
  have want: "\<exists>want. fold_err (np_cidr_row (np_maps (Pair None))) [np_block_allow] [] = Inr want"
    "\<exists>want. fold_err (np_cidr_row (np_maps (Pair None))) [np_block_allow, np_block_allow, np_block_except] [] = Inr want"
    by (simp_all add: np_cidr_row_def np_block_allow_def np_block_except_def v4_net_cidr putDesired_def np_maps_def alist_ops_def Let_def)
  have ok: "np_cidrs_ok [np_block_allow]" "np_cidrs_ok [np_block_allow, np_block_allow, np_block_except]"
    by (simp_all add: np_cidrs_ok_def np_block_allow_def np_block_except_def)
  have port: "htons (htons 80) = 80" by simp
  have "np_cidr_admits [np_block_allow] 8 0 6 80 (Addr4 0x0a010001)"
    "\<not> np_cidr_admits [np_block_allow, np_block_allow, np_block_except] 8 0 6 80 (Addr4 0x0a010001)"
    by (simp_all add: np_cidr_admits_def np_cidr_hits_def np_block_allow_def np_block_except_def v4_net_cidr be_nat_def top_bits_def
        longest_allows_def)
  then show ?thesis using want np_cidr_env_check [OF _ ok(1) w, of _ 0 8] np_cidr_env_check [OF _ ok(2) w, of _ 0 8] port
    by (auto simp: q_def)
qed

end
