(* ===== verification/ApiTypes.thy ===== *)
theory ApiTypes
  imports Netip
begin

text \<open>
  The objects of the API group (\<^verbatim>\<open>api/sdn/types.go\<close>): one record per Go struct, grouped by kind, the
  fields in the order of the source. Pointers are options, \<^verbatim>\<open>int32\<close> and \<^verbatim>\<open>int64\<close> fields are integers (the code compares them and
  never wraps them), string enumerations are strings. The types of the Kubernetes API machinery that the
  structs embed are records of the fields the code reads.
\<close>

section \<open>Metadata\<close>

record ObjectMeta =
  om_Name :: string
  om_Namespace :: string
  om_UID :: string
  om_Labels :: "string \<rightharpoonup> string"
  om_Annotations :: "string \<rightharpoonup> string"
  om_Finalizers :: "string list"
  om_Generation :: int
  om_Deleting :: bool
  om_Created :: int

record LabelSelector =
  ls_MatchLabels :: "(string \<times> string) list"
  ls_MatchExpressions :: "(string \<times> string \<times> string list) list"

record Condition =
  cond_Type :: string
  cond_Status :: string
  cond_ObservedGeneration :: int
  cond_Reason :: string
  cond_Message :: string

section \<open>VPCs\<close>

record VPCRef =
  vr_Namespace :: string
  vr_Name :: string

record LocalVPCRef =
  lvr_Name :: string

record VPCBoundaryRule =
  br_PeerRef :: VPCRef
  br_Direction :: string
  br_Protocol :: string
  br_Ports :: "int list"
  br_ICMPType :: "int option"
  br_ICMPCode :: "int option"

record VPCBoundary =
  b_Revision :: int
  b_Internet :: bool
  b_Peers :: "VPCBoundaryRule list"

record VPCBoundaryNode =
  bn_Node :: string
  bn_AgentUID :: string
  bn_Revision :: int
  bn_ObservedGeneration :: int
  bn_PrimaryPortsDigest :: string
  bn_TransportReady :: bool

record VPCSpec =
  vs_CIDRs :: "string list"
  vs_MTU :: int
  vs_Boundary :: "VPCBoundary option"

record VPCStatus =
  vst_VNI :: int
  vst_Phase :: string
  vst_Conditions :: "Condition list"
  vst_BoundaryNodes :: "VPCBoundaryNode list"

record VPC =
  vpc_meta :: ObjectMeta
  vpc_Spec :: VPCSpec
  vpc_Status :: VPCStatus

section \<open>VPC gateways\<close>

record VPCGatewayNAT =
  nat_Enabled :: bool
  nat_AddressClaimName :: string
  nat_AddressClaimName6 :: string

record VPCGatewayIngress =
  gi_LoadBalancer :: bool

record VPCGatewayAppliance =
  ga_PodSelector :: LabelSelector
  ga_Namespace :: string

record VPCGatewayVia =
  via_PodSelector :: LabelSelector
  via_Namespace :: string

record VPCGatewayRoute =
  gr_CIDRs :: "string list"
  gr_Via :: VPCGatewayVia

record VPCGatewaySpec =
  gs_VPCRef :: LocalVPCRef
  gs_LoadBalancerClass :: string
  gs_NAT :: VPCGatewayNAT
  gs_Ingress :: VPCGatewayIngress
  gs_Appliance :: "VPCGatewayAppliance option"
  gs_Routes :: "VPCGatewayRoute list"

record VPCGatewayRouteStatus =
  grs_VPCRef :: LocalVPCRef
  grs_CIDRs :: "string list"
  grs_Port :: string
  grs_Ports :: "string list"

record VPCGatewayStatus =
  gst_NATAddress :: string
  gst_NATAddress6 :: string
  gst_Phase :: string
  gst_Conditions :: "Condition list"
  gst_AppliancePort :: string
  gst_Routes :: "VPCGatewayRouteStatus list"

record VPCGateway =
  gw_meta :: ObjectMeta
  gw_Spec :: VPCGatewaySpec
  gw_Status :: VPCGatewayStatus

section \<open>VPN gateways and connections\<close>

record VPNGatewayActiveActive =
  aa_LocalASN :: int
  aa_PeerASN :: int
  aa_PeerAddresses :: "string list"
  aa_BFD :: bool

record VPNGatewayVirtualMachine =
  vm_Image :: string
  vm_StateClaimName :: string
  vm_CloudInitSecretRef :: string

record VPNGatewayHA =
  ha_Mode :: string
  ha_ActiveActive :: "VPNGatewayActiveActive option"
  ha_VirtualMachine :: "VPNGatewayVirtualMachine option"

record VPNWireGuardAddressPool =
  wap_Name :: string
  wap_CIDR :: string
  wap_DNS :: "string list"

record VPNGatewayWireGuard =
  vgw_ListenPort :: int
  vgw_AddressPools :: "VPNWireGuardAddressPool list"

record VPNIPsecAddressPool =
  iap_Name :: string
  iap_CIDR :: string
  iap_DNS :: "string list"

record VPNGatewayIPsec =
  vgi_Proposals :: "string list"
  vgi_CredentialSecretRef :: string
  vgi_TrustedCASecretRef :: string
  vgi_LocalIdentity :: string
  vgi_AddressPools :: "VPNIPsecAddressPool list"

record VPNExternalAddress =
  vea_LoadBalancerClass :: string
  vea_AddressClaimName :: string
  vea_AddressClaimNames :: "string list"

record VPNGatewaySpec =
  vgs_VPCRef :: LocalVPCRef
  vgs_AdditionalVPCRefs :: "LocalVPCRef list"
  vgs_WireGuard :: "VPNGatewayWireGuard option"
  vgs_IPsec :: "VPNGatewayIPsec option"
  vgs_ExternalAddress :: VPNExternalAddress
  vgs_HighAvailability :: bool
  vgs_HA :: "VPNGatewayHA option"

record VPNGatewayStatus =
  vgst_Address :: string
  vgst_Addresses :: "string list"
  vgst_PublicKey :: string
  vgst_PublicKeys :: "string list"
  vgst_AppliancePort :: string
  vgst_AppliancePorts :: "string list"
  vgst_Routes :: "VPCGatewayRouteStatus list"
  vgst_Phase :: string
  vgst_Conditions :: "Condition list"

record VPNGateway =
  vg_meta :: ObjectMeta
  vg_Spec :: VPNGatewaySpec
  vg_Status :: VPNGatewayStatus

record LocalVPNGatewayRef =
  lgr_Name :: string

record VPNWireGuardClient =
  wc_AddressPools :: "string list"
  wc_VPCRefs :: "LocalVPCRef list"

record VPNConnectionWireGuard =
  cwg_Client :: "VPNWireGuardClient option"
  cwg_PeerPublicKey :: string
  cwg_PeerPublicKeys :: "string list"
  cwg_PeerEndpoint :: string
  cwg_PeerEndpoints :: "string list"
  cwg_PresharedKeySecretRef :: string
  cwg_PersistentKeepalive :: int

record VPNWireGuardClientConfig =
  wcc_Endpoint :: string
  wcc_ServerPublicKey :: string
  wcc_AllowedIPs :: "string list"
  wcc_DNS :: "string list"
  wcc_MTU :: int
  wcc_PersistentKeepalive :: int

record VPNIPsecCertificateAuth =
  ica_RemoteIdentity :: string

record VPNIPsecEAPAuth =
  eap_Identity :: string
  eap_SecretRef :: string

record VPNConnectionIPsecAuth =
  cia_PSKSecretRef :: string
  cia_Certificate :: "VPNIPsecCertificateAuth option"
  cia_EAP :: "VPNIPsecEAPAuth option"

record VPNConnectionIPsec =
  cip_RemoteIdentity :: string
  cip_PeerAddress :: string
  cip_Auth :: VPNConnectionIPsecAuth
  cip_Proposals :: "string list"
  cip_DPDDelay :: int
  cip_StartAction :: string
  cip_AddressPool :: string

record VPNConnectionSpec =
  vcs_GatewayRef :: LocalVPNGatewayRef
  vcs_RemoteCIDRs :: "string list"
  vcs_WireGuard :: "VPNConnectionWireGuard option"
  vcs_IPsec :: "VPNConnectionIPsec option"

record VPNConnectionStatus =
  vcst_Phase :: string
  vcst_LastHandshake :: "int option"
  vcst_ObservedAt :: "int option"
  vcst_AssignedAddresses :: "string list"
  vcst_ClientConfig :: "VPNWireGuardClientConfig option"
  vcst_Conditions :: "Condition list"

record VPNConnection =
  vc_meta :: ObjectMeta
  vc_Spec :: VPNConnectionSpec
  vc_Status :: VPNConnectionStatus

section \<open>Bindings and peerings\<close>

record VPCBindingSpec =
  bs_VPCRef :: VPCRef
  bs_AllowForwarding :: bool
  bs_ForwardingCIDRs :: "string list"

record VPCBinding =
  vb_meta :: ObjectMeta
  vb_Spec :: VPCBindingSpec

record VPCPeeringSpec =
  ps_VPCRef :: LocalVPCRef
  ps_PeerRef :: VPCRef

record VPCPeeringStatus =
  pst_Phase :: string
  pst_PeerVNI :: int
  pst_Conditions :: "Condition list"

record VPCPeering =
  vp_meta :: ObjectMeta
  vp_Spec :: VPCPeeringSpec
  vp_Status :: VPCPeeringStatus

section \<open>Ports\<close>

record PortSpec =
  pts_VPCRef :: VPCRef
  pts_IP :: string
  pts_MAC :: string
  pts_Node :: string
  pts_NodeIP :: string
  pts_PodNamespace :: string
  pts_PodName :: string
  pts_Gateway :: bool
  pts_Forwarding :: bool
  pts_Primary :: bool

record SecurityGroupMembership =
  sgm_ID :: int
  sgm_UID :: string

record PortStatus =
  ptst_Groups :: "int list"
  ptst_GroupRefs :: "SecurityGroupMembership list"
  ptst_GroupPodUID :: string

record Port =
  port_meta :: ObjectMeta
  port_Spec :: PortSpec
  port_Status :: PortStatus

section \<open>Floating IPs and service VIPs\<close>

record FloatingIPSpec =
  fs_VPCRef :: LocalVPCRef
  fs_Target :: string
  fs_LoadBalancerClass :: string
  fs_AddressClaimName :: string

record FloatingIPStatus =
  fst_Address :: string
  fst_Phase :: string
  fst_Conditions :: "Condition list"

record FloatingIP =
  fip_meta :: ObjectMeta
  fip_Spec :: FloatingIPSpec
  fip_Status :: FloatingIPStatus

record ServiceRef =
  sr_Namespace :: string
  sr_Name :: string

record VIPPort =
  vipp_Name :: string
  vipp_Protocol :: string
  vipp_Port :: int

record VIPBackendPort =
  vbp_Protocol :: string
  vbp_Port :: int
  vbp_TargetPort :: int

record VIPBackend =
  vbe_IP :: string
  vbe_Ports :: "VIPBackendPort list"

record ServiceVIPSpec =
  svs_VPCRef :: VPCRef
  svs_IP :: string
  svs_ServiceRef :: ServiceRef
  svs_Ports :: "VIPPort list"
  svs_SessionAffinity :: string

record ServiceVIPStatus =
  svst_Backends :: "VIPBackend list"
  svst_Phase :: string
  svst_Conditions :: "Condition list"

record ServiceVIP =
  sv_meta :: ObjectMeta
  sv_Spec :: ServiceVIPSpec
  sv_Status :: ServiceVIPStatus

section \<open>Security groups\<close>

record SecurityGroupPeer =
  sgp_Group :: string
  sgp_VPC :: "VPCRef option"
  sgp_CIDR :: string

record SecurityGroupPort =
  sgpt_Protocol :: string
  sgpt_Port :: int

record SecurityGroupRule =
  sgr_From :: SecurityGroupPeer
  sgr_Ports :: "SecurityGroupPort list"

record SecurityGroupEgressRule =
  sge_To :: SecurityGroupPeer
  sge_Ports :: "SecurityGroupPort list"

record SecurityGroupSpec =
  sgs_VPCRef :: LocalVPCRef
  sgs_PodSelector :: LabelSelector
  sgs_Ingress :: "SecurityGroupRule list"
  sgs_Egress :: "SecurityGroupEgressRule list"

record SecurityGroupStatus =
  sgst_ID :: int
  sgst_Phase :: string
  sgst_Conditions :: "Condition list"

record SecurityGroup =
  sgo_meta :: ObjectMeta
  sgo_Spec :: SecurityGroupSpec
  sgo_Status :: SecurityGroupStatus

section \<open>Host firewalls\<close>

record HostFirewallPeer =
  hfp_CIDR :: string
  hfp_Except :: "string list"

record HostFirewallPort =
  hfpt_Protocol :: string
  hfpt_Port :: int
  hfpt_EndPort :: int

record HostFirewallRule =
  hfr_From :: "HostFirewallPeer list"
  hfr_Ports :: "HostFirewallPort list"

record HostFirewallEgressRule =
  hfe_To :: "HostFirewallPeer list"
  hfe_Ports :: "HostFirewallPort list"

record HostFirewallSpec =
  hfs_NodeSelector :: LabelSelector
  hfs_PolicyTypes :: "string list"
  hfs_Ingress :: "HostFirewallRule list"
  hfs_Egress :: "HostFirewallEgressRule list"

record HostFirewallStatus =
  hfst_Conditions :: "Condition list"

record HostFirewall =
  hfo_meta :: ObjectMeta
  hfo_Spec :: HostFirewallSpec
  hfo_Status :: HostFirewallStatus

end
