(* ===== verification/Admission.thy ===== *)
theory Admission
  imports ApiTypes
begin

text \<open>
  What the admission code of every kind shares: field errors, the virtual-verb checks
  (\<^verbatim>\<open>pkg/registry/sdn/authz\<close>, \<^verbatim>\<open>pkg/registry/managed.go\<close>), the reference limits
  (\<^verbatim>\<open>internal/vpnlimits/references.go\<close>), the identifier bounds (\<^verbatim>\<open>pkg/netid\<close>) and the way the API server
  drives a strategy.

  The authorizer, the DNS-name predicates and the label-selector parser belong to the Kubernetes libraries:
  they are parameters. \<^verbatim>\<open>rest_create\<close> and \<^verbatim>\<open>rest_update\<close> state the documented order of the library's
  \<^verbatim>\<open>rest.BeforeCreate\<close> and \<^verbatim>\<open>rest.BeforeUpdate\<close>: prepare, validate, store when there is no error. A nil slice
  and an empty one are the same list, so \<^verbatim>\<open>reflect.DeepEqual\<close> and \<^verbatim>\<open>equality.Semantic.DeepEqual\<close> are equality.
\<close>

section \<open>Field errors\<close>

datatype path_elem = Child string | Index nat | Key string

type_synonym path = "path_elem list"

datatype field_error =
    Required path string
  | Invalid path string
  | NotSupported path "string list"
  | Forbidden path string
  | TooMany path nat
  | Duplicate path

definition newPath :: "string list \<Rightarrow> path" where
  "newPath names = map Child names"

definition child :: "path \<Rightarrow> string list \<Rightarrow> path" where
  "child p names = p @ map Child names"

definition index :: "path \<Rightarrow> nat \<Rightarrow> path" where
  "index p i = p @ [Index i]"

definition key :: "path \<Rightarrow> string \<Rightarrow> path" where
  "key p k = p @ [Key k]"

text \<open>The loops of the validators: over a slice with its index, stopping at the first non-empty error list, or
  collecting all of them.\<close>

fun first_errors :: "(nat \<Rightarrow> 'a \<Rightarrow> 'e list) \<Rightarrow> nat \<Rightarrow> 'a list \<Rightarrow> 'e list" where
  "first_errors f i [] = []"
| "first_errors f i (x # xs) = (case f i x of [] \<Rightarrow> first_errors f (Suc i) xs | es \<Rightarrow> es)"

fun all_errors :: "(nat \<Rightarrow> 'a \<Rightarrow> 'e list) \<Rightarrow> nat \<Rightarrow> 'a list \<Rightarrow> 'e list" where
  "all_errors f i [] = []"
| "all_errors f i (x # xs) = f i x @ all_errors f (Suc i) xs"

definition or_else :: "'e list \<Rightarrow> 'e list \<Rightarrow> 'e list" where
  "or_else es fs = (if es \<noteq> [] then es else fs)"

named_theorems no_errors \<open>when a validator finds no error\<close>

lemma first_errors_Nil_nth:
  "first_errors f i xs = [] \<longleftrightarrow> (\<forall>j < length xs. f (i + j) (xs ! j) = [])"
proof (induction xs arbitrary: i)
  case (Cons x xs)
  show ?case by (cases "f i x") (auto simp: Cons.IH less_Suc_eq_0_disj)
qed simp

lemma all_errors_Nil_nth:
  "all_errors f i xs = [] \<longleftrightarrow> (\<forall>j < length xs. f (i + j) (xs ! j) = [])"
  by (induction xs arbitrary: i) (auto simp: less_Suc_eq_0_disj)

lemma first_errors_Nil:
  "(\<And>i x. f i x = [] \<longleftrightarrow> P x) \<Longrightarrow> first_errors f i xs = [] \<longleftrightarrow> (\<forall>x \<in> set xs. P x)"
  by (simp add: first_errors_Nil_nth all_set_conv_all_nth)

lemma all_errors_Nil:
  "(\<And>i x. f i x = [] \<longleftrightarrow> P x) \<Longrightarrow> all_errors f i xs = [] \<longleftrightarrow> (\<forall>x \<in> set xs. P x)"
  by (simp add: all_errors_Nil_nth all_set_conv_all_nth)

lemma or_else_Nil [simp, no_errors]: "or_else es fs = [] \<longleftrightarrow> es = [] \<and> fs = []"
  by (simp add: or_else_def)

section \<open>Authorization\<close>

datatype decision = DecisionDeny | DecisionAllow | DecisionNoOpinion

record AttributesRecord =
  ar_User :: string
  ar_Verb :: string
  ar_APIGroup :: string
  ar_Resource :: string
  ar_Namespace :: string
  ar_Name :: string

text \<open>An authorizer returns a decision, a reason, and an error. The request context is the user it names, if any.\<close>

type_synonym authorizer = "AttributesRecord \<Rightarrow> decision \<times> string \<times> string option"
type_synonym request_ctx = "string option"

definition GroupName :: string where
  "GroupName = ''sdn.cozystack.io''"

definition quoted :: "string \<Rightarrow> string" where
  "quoted s = CHR 0x22 # s @ [CHR 0x22]"

definition CheckResourceVerb ::
  "request_ctx \<Rightarrow> authorizer option \<Rightarrow> string \<Rightarrow> string \<Rightarrow> string \<Rightarrow> string \<Rightarrow> string \<Rightarrow> path \<Rightarrow> field_error option" where
  "CheckResourceVerb ctx auth verb resource kind namespace name p =
     (case auth of None \<Rightarrow> None
      | Some authorize \<Rightarrow>
        (case ctx of
           None \<Rightarrow> Some (Forbidden p (''no user in request context to check the '' @ quoted verb @ '' verb''))
         | Some u \<Rightarrow>
           let (decision, reason, err) = authorize
                 \<lparr> ar_User = u, ar_Verb = verb, ar_APIGroup = GroupName, ar_Resource = resource,
                   ar_Namespace = namespace, ar_Name = name \<rparr>;
               who = (if 253 < length name \<or> 63 < length namespace then ''(oversized reference)''
                      else if namespace \<noteq> [] then namespace @ ''/'' @ name else name)
           in (case err of
                 Some e \<Rightarrow> Some (Forbidden p (''checking the '' @ quoted verb @ '' verb on '' @ kind @ '' '' @ who @ '': '' @ e))
               | None \<Rightarrow>
                   if decision \<noteq> DecisionAllow
                   then Some (Forbidden p (''requires the '' @ quoted verb @ '' verb on '' @ kind @ '' '' @ who @
                          '' (sdn.cozystack.io '' @ resource @ '')'' @ (if reason \<noteq> [] then '': '' @ reason else [])))
                   else None)))"

definition CheckVPCVerb ::
  "request_ctx \<Rightarrow> authorizer option \<Rightarrow> string \<Rightarrow> string \<Rightarrow> string \<Rightarrow> path \<Rightarrow> field_error option" where
  "CheckVPCVerb ctx auth verb namespace name p = CheckResourceVerb ctx auth verb ''vpcs'' ''VPC'' namespace name p"

text \<open>Who may do what: the user of the request holds the verb according to the authorizer.\<close>

definition authorized :: "request_ctx \<Rightarrow> authorizer \<Rightarrow> string \<Rightarrow> string \<Rightarrow> string \<Rightarrow> string \<Rightarrow> bool" where
  "authorized ctx authorize verb resource namespace name \<longleftrightarrow>
     (\<exists>u reason. ctx = Some u \<and>
        authorize \<lparr> ar_User = u, ar_Verb = verb, ar_APIGroup = GroupName, ar_Resource = resource,
                    ar_Namespace = namespace, ar_Name = name \<rparr> = (DecisionAllow, reason, None))"

lemma CheckResourceVerb_None [no_errors]:
  "CheckResourceVerb ctx auth verb resource kind namespace name p = None \<longleftrightarrow>
     (\<forall>authorize. auth = Some authorize \<longrightarrow> authorized ctx authorize verb resource namespace name)"
  by (auto simp: CheckResourceVerb_def authorized_def Let_def split: option.splits prod.splits if_splits)

lemma CheckVPCVerb_None [no_errors]:
  "CheckVPCVerb ctx auth verb namespace name p = None \<longleftrightarrow>
     (\<forall>authorize. auth = Some authorize \<longrightarrow> authorized ctx authorize verb ''vpcs'' namespace name)"
  by (simp add: CheckVPCVerb_def CheckResourceVerb_None)

definition opt_error :: "field_error option \<Rightarrow> field_error list" where
  "opt_error e = (case e of None \<Rightarrow> [] | Some x \<Rightarrow> [x])"

lemma opt_error_Nil [simp, no_errors]: "opt_error e = [] \<longleftrightarrow> e = None"
  by (simp add: opt_error_def split: option.splits)

subsection \<open>Objects managed by the portal\<close>

definition ManagedByLabel :: string where
  "ManagedByLabel = ''app.kubernetes.io/managed-by''"

definition PortalManager :: string where
  "PortalManager = ''neosequentia-portal''"

text \<open>Reading a Go map of strings: an absent key reads as the empty string.\<close>

definition label :: "ObjectMeta \<Rightarrow> string \<Rightarrow> string" where
  "label m k = (case om_Labels m k of None \<Rightarrow> [] | Some v \<Rightarrow> v)"

definition PortalManaged :: "ObjectMeta option \<Rightarrow> bool" where
  "PortalManaged obj = (case obj of None \<Rightarrow> False | Some m \<Rightarrow> label m ManagedByLabel = PortalManager)"

definition CheckManaged ::
  "request_ctx \<Rightarrow> authorizer option \<Rightarrow> string \<Rightarrow> ObjectMeta \<Rightarrow> ObjectMeta option \<Rightarrow> field_error option" where
  "CheckManaged ctx auth resource obj old =
     (if \<not> PortalManaged (Some obj) \<and> \<not> PortalManaged old then None
      else CheckResourceVerb ctx auth ''manage-boundary'' resource resource (om_Namespace obj) (om_Name obj)
             (key (newPath [''metadata'', ''labels'']) ManagedByLabel))"

definition PreserveManager :: "ObjectMeta \<Rightarrow> ObjectMeta \<Rightarrow> ObjectMeta" where
  "PreserveManager current previous =
     current \<lparr> om_Labels := (case om_Labels previous ManagedByLabel of
                 Some value \<Rightarrow> (om_Labels current)(ManagedByLabel \<mapsto> value)
               | None \<Rightarrow> (om_Labels current)(ManagedByLabel := None)),
               om_Generation := om_Generation previous \<rparr>"

text \<open>The check a managed kind adds to every deletion; the caller's own check runs only after it passed.\<close>

definition deletionCheck ::
  "request_ctx \<Rightarrow> authorizer option \<Rightarrow> string \<Rightarrow> (ObjectMeta \<Rightarrow> field_error option) option \<Rightarrow> ObjectMeta \<Rightarrow> field_error option" where
  "deletionCheck ctx auth resource check obj =
     (case CheckManaged ctx auth resource obj None of
        Some e \<Rightarrow> Some e
      | None \<Rightarrow> (case check of None \<Rightarrow> None | Some f \<Rightarrow> f obj))"

lemma PreserveManager_managed [simp]:
  "PortalManaged (Some (PreserveManager new old)) = PortalManaged (Some old)"
  by (simp add: PreserveManager_def PortalManaged_def label_def split: option.splits)

lemma PreserveManager_other [simp]:
  "k \<noteq> ManagedByLabel \<Longrightarrow> label (PreserveManager new old) k = label new k"
  by (simp add: PreserveManager_def label_def split: option.splits)

lemma CheckManaged_None [no_errors]:
  "CheckManaged ctx auth resource obj old = None \<longleftrightarrow>
     (PortalManaged (Some obj) \<or> PortalManaged old \<longrightarrow>
       (\<forall>authorize. auth = Some authorize \<longrightarrow>
          authorized ctx authorize ''manage-boundary'' resource (om_Namespace obj) (om_Name obj)))"
  by (auto simp: CheckManaged_def CheckResourceVerb_None)

section \<open>References\<close>

text \<open>The name predicates report whether the library's validators return no message; a label selector that does not
  convert is \<^verbatim>\<open>None\<close>, one that does is its match on a label set.\<close>

record machinery =
  IsDNS1123Subdomain :: "string \<Rightarrow> bool"
  IsDNS1123Label :: "string \<Rightarrow> bool"
  LabelSelectorAsSelector :: "LabelSelector \<Rightarrow> ((string \<rightharpoonup> string) \<Rightarrow> bool) option"

definition ObjectName :: "machinery \<Rightarrow> string \<Rightarrow> bool" where
  "ObjectName k name = (name \<noteq> [] \<and> length name \<le> 253 \<and> IsDNS1123Subdomain k name)"

definition NamespaceName :: "machinery \<Rightarrow> string \<Rightarrow> bool" where
  "NamespaceName k name = (name \<noteq> [] \<and> length name \<le> 63 \<and> IsDNS1123Label k name)"

definition PeeringReferences :: "machinery \<Rightarrow> string \<Rightarrow> string \<Rightarrow> string \<Rightarrow> string \<Rightarrow> bool" where
  "PeeringReferences k namespace localName peerNamespace peerName =
     (NamespaceName k namespace \<and> ObjectName k localName \<and> NamespaceName k peerNamespace \<and> ObjectName k peerName)"

definition GroupReference :: "machinery \<Rightarrow> string \<Rightarrow> string \<Rightarrow> string \<Rightarrow> bool" where
  "GroupReference k grp namespace name =
     (ObjectName k grp \<and> ((namespace = [] \<and> name = []) \<or> (NamespaceName k namespace \<and> ObjectName k name)))"

definition NamespaceReferenceErrors :: "machinery \<Rightarrow> string \<Rightarrow> path \<Rightarrow> field_error list" where
  "NamespaceReferenceErrors k name p =
     (if name \<noteq> [] \<and> \<not> NamespaceName k name
      then [Invalid p ''must be a DNS label namespace of at most 63 bytes''] else [])"

definition ReferenceErrors :: "machinery \<Rightarrow> string \<Rightarrow> path \<Rightarrow> bool \<Rightarrow> field_error list" where
  "ReferenceErrors k name p required =
     (if name = [] then (if required then [Required p ''object name is required''] else [])
      else if \<not> ObjectName k name
      then [Invalid p ''must be a DNS subdomain object name of at most 253 bytes''] else [])"

lemma NamespaceReferenceErrors_Nil [no_errors]:
  "NamespaceReferenceErrors k name p = [] \<longleftrightarrow> name = [] \<or> NamespaceName k name"
  by (simp add: NamespaceReferenceErrors_def)

lemma ReferenceErrors_Nil [no_errors]:
  "ReferenceErrors k name p required = [] \<longleftrightarrow> (name = [] \<and> \<not> required) \<or> ObjectName k name"
  by (auto simp: ReferenceErrors_def ObjectName_def)

section \<open>Identifiers of the datapath\<close>

definition FirstVNI :: int where "FirstVNI = 100"
definition LastVNI :: int where "LastVNI = 2 ^ 22 - 1"
definition LastGroup :: int where "LastGroup = 62"

definition ValidVNI :: "int \<Rightarrow> bool" where
  "ValidVNI v = (FirstVNI \<le> v \<and> v \<le> LastVNI)"

definition ValidGroup :: "int \<Rightarrow> bool" where
  "ValidGroup v = (1 \<le> v \<and> v \<le> LastGroup)"

definition VNI :: "int \<Rightarrow> u32" where
  "VNI v = (if v < FirstVNI \<or> LastVNI < v then 0 else of_int v)"

definition Group :: "int \<Rightarrow> u16" where
  "Group v = (if v < 1 \<or> LastGroup < v then 0 else of_int v)"

lemma VNI_zero_iff: "VNI v = 0 \<longleftrightarrow> \<not> ValidVNI v"
  by (auto simp: VNI_def ValidVNI_def FirstVNI_def LastVNI_def of_int_eq_0_iff word_of_int_eq_0_iff
      dest: zdvd_imp_le)

lemma uint_VNI: "ValidVNI v \<Longrightarrow> uint (VNI v) = v"
  by (auto simp: VNI_def ValidVNI_def FirstVNI_def LastVNI_def unsigned_of_int take_bit_int_eq_self)

lemma uint_Group: "ValidGroup v \<Longrightarrow> uint (Group v) = v"
  by (auto simp: Group_def ValidGroup_def LastGroup_def unsigned_of_int take_bit_int_eq_self)

end
