(* ===== verification/ApiStrategy.thy ===== *)
theory ApiStrategy
  imports Admission
begin

text \<open>
  How the API server drives the strategy of a kind, and what every strategy of this repository promises: the
  main resource never writes the status, the status subresource never writes the spec. A strategy depends on
  the request context through its authorization checks.

  The library proves once what follows for the objects in the store: a predicate of the status that holds of
  the zero status and of every status the status subresource accepts holds of every stored object, whatever
  the requests, and likewise for the spec. Each kind interprets the contract on its own strategy.
\<close>

record 'o strategy =
  PrepareForCreate :: "'o \<Rightarrow> 'o"
  Validate :: "'o \<Rightarrow> field_error list"
  PrepareForUpdate :: "'o \<Rightarrow> 'o \<Rightarrow> 'o"
  ValidateUpdate :: "'o \<Rightarrow> 'o \<Rightarrow> field_error list"
  StatusPrepareForUpdate :: "'o \<Rightarrow> 'o \<Rightarrow> 'o"
  StatusValidateUpdate :: "'o \<Rightarrow> 'o \<Rightarrow> field_error list"

datatype 'o request = UpdateMain 'o | UpdateStatus 'o

fun submitted :: "'o request \<Rightarrow> 'o" where
  "submitted (UpdateMain obj) = obj"
| "submitted (UpdateStatus obj) = obj"

definition rest_create :: "'o strategy \<Rightarrow> 'o \<Rightarrow> field_error list + 'o" where
  "rest_create s obj =
     (let new = PrepareForCreate s obj
      in case Validate s new of [] \<Rightarrow> Inr new | errs \<Rightarrow> Inl errs)"

fun rest_update :: "'o strategy \<Rightarrow> 'o request \<Rightarrow> 'o \<Rightarrow> field_error list + 'o" where
  "rest_update s (UpdateMain obj) old =
     (let new = PrepareForUpdate s obj old
      in case ValidateUpdate s new old of [] \<Rightarrow> Inr new | errs \<Rightarrow> Inl errs)"
| "rest_update s (UpdateStatus obj) old =
     (let new = StatusPrepareForUpdate s obj old
      in case StatusValidateUpdate s new old of [] \<Rightarrow> Inr new | errs \<Rightarrow> Inl errs)"

text \<open>The library refuses an update that renames its object.\<close>

definition same_object :: "ObjectMeta \<Rightarrow> ObjectMeta \<Rightarrow> bool" where
  "same_object a b = (om_Name a = om_Name b \<and> om_Namespace a = om_Namespace b \<and> om_UID a = om_UID b)"

text \<open>The versions one object has had in the store, the newest first.\<close>

inductive history :: "(request_ctx \<Rightarrow> 'o strategy) \<Rightarrow> ('o \<Rightarrow> ObjectMeta) \<Rightarrow> 'o list \<Rightarrow> bool"
  for S :: "request_ctx \<Rightarrow> 'o strategy" and meta :: "'o \<Rightarrow> ObjectMeta" where
  created: "rest_create (S ctx) obj = Inr new \<Longrightarrow> history S meta [new]"
| updated: "history S meta (old # older) \<Longrightarrow> same_object (meta (submitted r)) (meta old) \<Longrightarrow>
            rest_update (S ctx) r old = Inr new \<Longrightarrow> history S meta (new # old # older)"

inductive_cases history_ConsE: "history S meta (new # older)"

lemma rest_create_Inr:
  "rest_create s obj = Inr new \<longleftrightarrow> new = PrepareForCreate s obj \<and> Validate s new = []"
  by (auto simp: rest_create_def Let_def split: list.splits)

lemma rest_update_main_Inr:
  "rest_update s (UpdateMain obj) old = Inr new \<longleftrightarrow>
     new = PrepareForUpdate s obj old \<and> ValidateUpdate s new old = []"
  by (auto simp: Let_def split: list.splits)

lemma rest_update_status_Inr:
  "rest_update s (UpdateStatus obj) old = Inr new \<longleftrightarrow>
     new = StatusPrepareForUpdate s obj old \<and> StatusValidateUpdate s new old = []"
  by (auto simp: Let_def split: list.splits)

lemmas rest_Inr = rest_create_Inr rest_update_main_Inr rest_update_status_Inr

declare rest_update.simps [simp del]

lemma history_not_Nil: "history S meta vs \<Longrightarrow> vs \<noteq> []"
  by (induction rule: history.induct) auto

text \<open>The rule that carries an invariant of the stored object over every request.\<close>

lemma history_invariant:
  assumes "history S meta vs"
    and "\<And>ctx obj. Validate (S ctx) (PrepareForCreate (S ctx) obj) = [] \<Longrightarrow> I (PrepareForCreate (S ctx) obj)"
    and "\<And>ctx obj old. I old \<Longrightarrow> same_object (meta obj) (meta old) \<Longrightarrow>
           ValidateUpdate (S ctx) (PrepareForUpdate (S ctx) obj old) old = [] \<Longrightarrow> I (PrepareForUpdate (S ctx) obj old)"
    and "\<And>ctx obj old. I old \<Longrightarrow> same_object (meta obj) (meta old) \<Longrightarrow>
           StatusValidateUpdate (S ctx) (StatusPrepareForUpdate (S ctx) obj old) old = [] \<Longrightarrow>
           I (StatusPrepareForUpdate (S ctx) obj old)"
  shows "list_all I vs"
  using assms(1)
proof (induction rule: history.induct)
  case (created ctx obj new)
  then show ?case using assms(2) by (auto simp: rest_Inr)
next
  case (updated old older r ctx new)
  then show ?case using assms(3,4) by (cases r) (auto simp: rest_Inr)
qed

locale resource_strategy =
  fixes S :: "request_ctx \<Rightarrow> 'o strategy"
    and meta :: "'o \<Rightarrow> ObjectMeta"
    and spec :: "'o \<Rightarrow> 's"
    and status :: "'o \<Rightarrow> 't"
    and zero :: 't
  assumes create_spec: "spec (PrepareForCreate (S ctx) obj) = spec obj"
    and create_status: "status (PrepareForCreate (S ctx) obj) = zero"
    and update_spec: "spec (PrepareForUpdate (S ctx) obj old) = spec obj"
    and update_status: "status (PrepareForUpdate (S ctx) obj old) = status old"
    and status_spec: "spec (StatusPrepareForUpdate (S ctx) obj old) = spec old"
    and status_status: "status (StatusPrepareForUpdate (S ctx) obj old) = status obj"
begin

lemma status_request_keeps_spec:
  "rest_update (S ctx) (UpdateStatus obj) old = Inr new \<Longrightarrow> spec new = spec old"
  by (auto simp: rest_Inr status_spec)

lemma main_request_keeps_status:
  "rest_update (S ctx) (UpdateMain obj) old = Inr new \<Longrightarrow> status new = status old"
  by (auto simp: rest_Inr update_status)

text \<open>Only a status request accepted by the status strategy writes the status.\<close>

lemma history_status:
  assumes "history S meta vs" "P zero"
    and "\<And>ctx new old. StatusValidateUpdate (S ctx) new old = [] \<Longrightarrow> P (status new)"
  shows "\<forall>v \<in> set vs. P (status v)"
proof -
  have "list_all (\<lambda>v. P (status v)) vs"
    using assms(1)
  proof (rule history_invariant)
    fix ctx obj show "P (status (PrepareForCreate (S ctx) obj))" by (simp add: create_status assms(2))
  next
    fix ctx obj old assume "P (status old)"
    then show "P (status (PrepareForUpdate (S ctx) obj old))" by (simp add: update_status)
  next
    fix ctx obj old assume "StatusValidateUpdate (S ctx) (StatusPrepareForUpdate (S ctx) obj old) old = []"
    then show "P (status (StatusPrepareForUpdate (S ctx) obj old))" by (rule assms(3))
  qed
  then show ?thesis by (simp add: list_all_iff)
qed

text \<open>Only a request accepted by the main strategy writes the spec.\<close>

lemma history_spec:
  assumes "history S meta vs"
    and "\<And>ctx new. Validate (S ctx) new = [] \<Longrightarrow> Q (spec new)"
    and "\<And>ctx new old. ValidateUpdate (S ctx) new old = [] \<Longrightarrow> Q (spec old) \<Longrightarrow> Q (spec new)"
  shows "\<forall>v \<in> set vs. Q (spec v)"
proof -
  have "list_all (\<lambda>v. Q (spec v)) vs"
    using assms(1)
  proof (rule history_invariant)
    fix ctx obj assume "Validate (S ctx) (PrepareForCreate (S ctx) obj) = []"
    then show "Q (spec (PrepareForCreate (S ctx) obj))" by (rule assms(2))
  next
    fix ctx obj old
    assume "Q (spec old)" "ValidateUpdate (S ctx) (PrepareForUpdate (S ctx) obj old) old = []"
    then show "Q (spec (PrepareForUpdate (S ctx) obj old))" using assms(3) by blast
  next
    fix ctx obj old assume "Q (spec old)"
    then show "Q (spec (StatusPrepareForUpdate (S ctx) obj old))" by (simp add: status_spec)
  qed
  then show ?thesis by (simp add: list_all_iff)
qed

end

text \<open>Kinds that count the versions of their spec: every request that changes the spec raises the generation by
  one, no other request changes it.\<close>

locale generation_strategy = resource_strategy +
  assumes update_generation:
    "om_Generation (meta (PrepareForUpdate (S ctx) obj old)) =
       om_Generation (meta old) + (if spec obj \<noteq> spec old then 1 else 0)"
    and status_generation: "om_Generation (meta (StatusPrepareForUpdate (S ctx) obj old)) = om_Generation (meta old)"
begin

lemma step_generation:
  assumes "rest_update (S ctx) r old = Inr new"
  shows "om_Generation (meta new) = om_Generation (meta old) + (if spec new \<noteq> spec old then 1 else 0)"
  using assms by (cases r) (auto simp: rest_Inr update_generation status_generation update_spec status_spec)

text \<open>The generation names the spec: two versions of an object with the same generation have the same spec.\<close>

lemma history_generation:
  assumes "history S meta vs"
  shows "sorted_wrt (\<lambda>newer older. om_Generation (meta older) \<le> om_Generation (meta newer) \<and>
           (om_Generation (meta older) = om_Generation (meta newer) \<longrightarrow> spec older = spec newer)) vs"
  using assms
proof (induction rule: history.induct)
  case (updated old older r ctx new)
  have s: "om_Generation (meta new) = om_Generation (meta old) + (if spec new \<noteq> spec old then 1 else 0)"
    using updated(3) by (rule step_generation)
  have "om_Generation (meta v) \<le> om_Generation (meta new) \<and>
        (om_Generation (meta v) = om_Generation (meta new) \<longrightarrow> spec v = spec new)"
    if "v \<in> set (old # older)" for v
  proof (cases "v = old")
    case False
    then have "v \<in> set older" using that by simp
    then have "om_Generation (meta v) \<le> om_Generation (meta old) \<and>
               (om_Generation (meta v) = om_Generation (meta old) \<longrightarrow> spec v = spec old)"
      using updated(4) by simp
    then show ?thesis using s by (auto split: if_splits)
  qed (use s in \<open>auto split: if_splits\<close>)
  then show ?case using updated(4) by simp
qed simp

end

end
