(* ===== verification/HfRegistry.thy ===== *)
theory HfRegistry
  imports ApiStrategy
begin

text \<open>
  Admission of host firewalls, \<^verbatim>\<open>pkg/registry/sdn/hostfirewall/strategy.go\<close>. What it accepts is exactly what the
  agent's compiler (\<^verbatim>\<open>HfCompile\<close>) can serve.
\<close>

section \<open>Specs\<close>

definition hf_cidr_errors :: "path \<Rightarrow> string \<Rightarrow> field_error list" where
  "hf_cidr_errors p cidr =
     (if 64 < length cidr then [Invalid p ''must contain at most 64 bytes'']
      else if parse_cidr cidr = None then [Invalid p ''must be a valid CIDR''] else [])"

definition hf_validatePeers :: "path \<Rightarrow> HostFirewallPeer list \<Rightarrow> field_error list" where
  "hf_validatePeers p peers = first_errors (\<lambda>j peer.
     let pp = index p j
     in or_else (hf_cidr_errors (child pp [''cidr'']) (hfp_CIDR peer))
          (first_errors (\<lambda>k ex. hf_cidr_errors (index (child pp [''except'']) k) ex) 0 (hfp_Except peer))) 0 peers"

definition hf_port_errors :: "path \<Rightarrow> HostFirewallPort \<Rightarrow> field_error list" where
  "hf_port_errors pp port =
     (if hfpt_Protocol port \<noteq> ''TCP'' \<and> hfpt_Protocol port \<noteq> ''UDP'' then [Invalid (child pp [''protocol'']) ''must be TCP or UDP'']
      else if hfpt_Port port < 0 \<or> 65535 < hfpt_Port port then [Invalid (child pp [''port'']) ''must be 0-65535'']
      else if hfpt_EndPort port \<noteq> 0 then
        (if hfpt_Port port = 0 then [Invalid (child pp [''endPort'']) ''requires port'']
         else if hfpt_EndPort port < hfpt_Port port \<or> 65535 < hfpt_EndPort port
         then [Invalid (child pp [''endPort'']) ''must be port-65535'']
         else if 64 < hfpt_EndPort port - hfpt_Port port + 1
         then [Invalid (child pp [''endPort'']) ''ranges expand per-port and are capped at 64 ports''] else [])
      else [])"

definition hf_validatePorts :: "path \<Rightarrow> HostFirewallPort list \<Rightarrow> field_error list" where
  "hf_validatePorts p ports = first_errors (\<lambda>j. hf_port_errors (index p j)) 0 ports"

definition hf_validateSpec :: "HostFirewall \<Rightarrow> field_error list" where
  "hf_validateSpec hf =
     or_else
       (first_errors (\<lambda>i rule. let rp = index (newPath [''spec'', ''egress'']) i
          in or_else (hf_validatePeers (child rp [''to'']) (hfe_To rule)) (hf_validatePorts (child rp [''ports'']) (hfe_Ports rule)))
          0 (hfs_Egress (hfo_Spec hf)))
       (first_errors (\<lambda>i rule. let rp = index (newPath [''spec'', ''ingress'']) i
          in or_else (hf_validatePeers (child rp [''from'']) (hfr_From rule)) (hf_validatePorts (child rp [''ports'']) (hfr_Ports rule)))
          0 (hfs_Ingress (hfo_Spec hf)))"

section \<open>The strategy\<close>

definition HostFirewallStatus_zero :: HostFirewallStatus where
  "HostFirewallStatus_zero = \<lparr> hfst_Conditions = [] \<rparr>"

definition hf_PrepareForCreate :: "HostFirewall \<Rightarrow> HostFirewall" where
  "hf_PrepareForCreate hf = hf \<lparr> hfo_Status := HostFirewallStatus_zero \<rparr>"

definition hf_PrepareForUpdate :: "HostFirewall \<Rightarrow> HostFirewall \<Rightarrow> HostFirewall" where
  "hf_PrepareForUpdate newHF oldHF = newHF \<lparr> hfo_Status := hfo_Status oldHF \<rparr>"

definition hfStatus_PrepareForUpdate :: "HostFirewall \<Rightarrow> HostFirewall \<Rightarrow> HostFirewall" where
  "hfStatus_PrepareForUpdate newHF oldHF = newHF \<lparr> hfo_Spec := hfo_Spec oldHF \<rparr>"

definition hostFirewallStrategy :: "request_ctx \<Rightarrow> HostFirewall strategy" where
  "hostFirewallStrategy ctx = \<lparr>
     PrepareForCreate = hf_PrepareForCreate,
     Validate = hf_validateSpec,
     PrepareForUpdate = hf_PrepareForUpdate,
     ValidateUpdate = (\<lambda>obj old. hf_validateSpec obj),
     StatusPrepareForUpdate = hfStatus_PrepareForUpdate,
     StatusValidateUpdate = (\<lambda>obj old. []) \<rparr>"

interpretation hf_kind: resource_strategy hostFirewallStrategy hfo_meta hfo_Spec hfo_Status HostFirewallStatus_zero
  by unfold_locales
    (simp_all add: hostFirewallStrategy_def hf_PrepareForCreate_def hf_PrepareForUpdate_def hfStatus_PrepareForUpdate_def)

section \<open>What the validators accept\<close>

definition hf_cidr_ok :: "string \<Rightarrow> bool" where
  "hf_cidr_ok s \<longleftrightarrow> length s \<le> 64 \<and> parse_cidr s \<noteq> None"

definition hf_peer_ok :: "HostFirewallPeer \<Rightarrow> bool" where
  "hf_peer_ok peer \<longleftrightarrow> hf_cidr_ok (hfp_CIDR peer) \<and> (\<forall>ex \<in> set (hfp_Except peer). hf_cidr_ok ex)"

text \<open>The last port of a range; a port without an end is its own range.\<close>

definition hf_last_port :: "HostFirewallPort \<Rightarrow> int" where
  "hf_last_port p = (if hfpt_EndPort p \<noteq> 0 then hfpt_EndPort p else hfpt_Port p)"

definition hf_port_ok :: "HostFirewallPort \<Rightarrow> bool" where
  "hf_port_ok p \<longleftrightarrow> hfpt_Protocol p \<in> {''TCP'', ''UDP''} \<and> 0 \<le> hfpt_Port p \<and> hfpt_Port p \<le> hf_last_port p \<and>
     hf_last_port p \<le> 65535 \<and> (hfpt_Port p = 0 \<longrightarrow> hf_last_port p = 0) \<and> hf_last_port p - hfpt_Port p < 64"

definition hf_spec_ok :: "HostFirewallSpec \<Rightarrow> bool" where
  "hf_spec_ok s \<longleftrightarrow>
     (\<forall>r \<in> set (hfs_Ingress s). (\<forall>p \<in> set (hfr_From r). hf_peer_ok p) \<and> (\<forall>p \<in> set (hfr_Ports r). hf_port_ok p)) \<and>
     (\<forall>r \<in> set (hfs_Egress s). (\<forall>p \<in> set (hfe_To r). hf_peer_ok p) \<and> (\<forall>p \<in> set (hfe_Ports r). hf_port_ok p))"

lemma hf_cidr_errors_Nil [no_errors]: "hf_cidr_errors p s = [] \<longleftrightarrow> hf_cidr_ok s"
  by (auto simp: hf_cidr_errors_def hf_cidr_ok_def not_less)

lemma hf_validatePeers_Nil [no_errors]: "hf_validatePeers p peers = [] \<longleftrightarrow> (\<forall>x \<in> set peers. hf_peer_ok x)"
  unfolding hf_validatePeers_def
  by (rule first_errors_Nil) (simp add: Let_def hf_peer_ok_def hf_cidr_errors_Nil first_errors_Nil [where P = hf_cidr_ok])

lemma hf_port_errors_Nil [no_errors]: "hf_port_errors p x = [] \<longleftrightarrow> hf_port_ok x"
  by (auto simp: hf_port_errors_def hf_port_ok_def hf_last_port_def)

lemma hf_validatePorts_Nil [no_errors]: "hf_validatePorts p ports = [] \<longleftrightarrow> (\<forall>x \<in> set ports. hf_port_ok x)"
  unfolding hf_validatePorts_def by (rule first_errors_Nil) (rule hf_port_errors_Nil)

lemma hf_validateSpec_Nil [no_errors]: "hf_validateSpec hf = [] \<longleftrightarrow> hf_spec_ok (hfo_Spec hf)"
proof -
  have e: "first_errors (\<lambda>i rule. let rp = index p i
      in or_else (hf_validatePeers (child rp a) (hfe_To rule)) (hf_validatePorts (child rp b) (hfe_Ports rule))) 0 rs = []
      \<longleftrightarrow> (\<forall>r \<in> set rs. (\<forall>x \<in> set (hfe_To r). hf_peer_ok x) \<and> (\<forall>x \<in> set (hfe_Ports r). hf_port_ok x))" for p a b rs
    by (rule first_errors_Nil) (simp add: Let_def hf_validatePeers_Nil hf_validatePorts_Nil)
  have i: "first_errors (\<lambda>i rule. let rp = index p i
      in or_else (hf_validatePeers (child rp a) (hfr_From rule)) (hf_validatePorts (child rp b) (hfr_Ports rule))) 0 rs = []
      \<longleftrightarrow> (\<forall>r \<in> set rs. (\<forall>x \<in> set (hfr_From r). hf_peer_ok x) \<and> (\<forall>x \<in> set (hfr_Ports r). hf_port_ok x))" for p a b rs
    by (rule first_errors_Nil) (simp add: Let_def hf_validatePeers_Nil hf_validatePorts_Nil)
  show ?thesis by (simp only: hf_validateSpec_def hf_spec_ok_def or_else_Nil e i conj_commute)
qed

text \<open>Every stored version of a host firewall has a spec the validators accept.\<close>

lemma hf_stored_ok: "history hostFirewallStrategy hfo_meta vs \<Longrightarrow> \<forall>v \<in> set vs. hf_spec_ok (hfo_Spec v)"
  by (erule hf_kind.history_spec) (simp_all add: hostFirewallStrategy_def hf_validateSpec_Nil)

end
