(* ===== verification/HfDatapath.thy ===== *)
theory HfDatapath
  imports CidrTable Packet
begin

text \<open>
  The host firewall: the modes and rule tables that \<^verbatim>\<open>datapath/hostfirewall.go\<close> and
  \<^verbatim>\<open>datapath/hostfirewall_bootstrap.go\<close> write, and the two packet programs
  \<^verbatim>\<open>cozyplane_hf_ingress\<close> and \<^verbatim>\<open>cozyplane_hf_egress\<close> of \<^verbatim>\<open>bpf/overlay.c\<close> that decide on them.
  A mode is 0 (off), 1 (rules complete) or 2 (updating or failed: every gated new flow is denied).
\<close>

section \<open>Data\<close>

definition cfgGenevePort :: u32 where "cfgGenevePort = 8"
definition cfgHFEnabled :: u32 where "cfgHFEnabled = 9"
definition cfgHFEgEnabled :: u32 where "cfgHFEgEnabled = 10"
definition hfModeInitialized :: u32 where "hfModeInitialized = 2"

lemmas hf_consts = cfgGenevePort_def cfgHFEnabled_def cfgHFEgEnabled_def hfModeInitialized_def

record HFAllow =
  ha_Proto :: u8
  ha_Port :: u16
  ha_CIDR :: "ipnet option"
  ha_Allow :: bool

record hf_allow_key =
  hk_Prefixlen :: u32
  hk_Proto :: u8
  hk_Pad :: u8
  hk_Port :: u16
  hk_Src :: u128

record 'w hf_objs =
  HfParams :: "('w, u32, u32) map_ops"
  HfModes :: "('w, u32, u32) map_ops"
  HfAllow :: "('w, hf_allow_key, u8) map_ops"
  HfEallow :: "('w, hf_allow_key, u8) map_ops"
  HfSelf :: "('w, u128, u8) map_ops"

section \<open>Synchronisation\<close>

definition setHFMode :: "'w hf_objs \<Rightarrow> u32 \<Rightarrow> u32 \<Rightarrow> 'w call" where
  "setHFMode m index mode = do_seq [put (HfModes m) (index - cfgHFEnabled) mode, put (HfParams m) index mode]"

text \<open>\<^verbatim>\<open>errors.Join\<close> of two calls: both run, and the result is nil only when both are.\<close>

definition join_calls :: "'w call \<Rightarrow> 'w call \<Rightarrow> 'w call" where
  "join_calls c d w = (case c w of (e1, w1) \<Rightarrow> case d w1 of (e2, w2) \<Rightarrow>
     (case List.map_filter (\<lambda>e. e) [e1, e2] of [] \<Rightarrow> (None, w2) | es \<Rightarrow> (Some (Joined es), w2)))"

definition BlockHostFirewall :: "'w hf_objs \<Rightarrow> 'w call" where
  "BlockHostFirewall m = join_calls (setHFMode m cfgHFEnabled 2) (setHFMode m cfgHFEgEnabled 2)"

definition hf_keyof :: "HFAllow \<Rightarrow> u128 \<times> u32 \<times> u8 \<Rightarrow> hf_allow_key" where
  "hf_keyof e = (\<lambda>(a, bits, family). \<lparr>hk_Prefixlen = 32 + bits, hk_Proto = ha_Proto e, hk_Pad = family,
     hk_Port = htons (ha_Port e), hk_Src = a\<rparr>)"

definition hf_rule_row :: "('w, hf_allow_key, u8) map_ops \<Rightarrow> HFAllow \<Rightarrow> (hf_allow_key \<times> u8) list \<Rightarrow>
    dp_error + (hf_allow_key \<times> u8) list" where
  "hf_rule_row mp e want =
     (if ha_CIDR e = None then Inr want
      else case cidrPolicyPrefix (ha_CIDR e) of
        Inl err \<Rightarrow> Inl err
      | Inr p \<Rightarrow>
          let key = hf_keyof e p; v = (if ha_Allow e then 1 else 0) in
          if map_of want key = Some 1 then Inr want
          else putDesired mp want key v)"

definition syncHFRules :: "range_order \<Rightarrow> ('w, hf_allow_key, u8) map_ops \<Rightarrow> HFAllow list \<Rightarrow> 'w call" where
  "syncHFRules ord mp entries = sync_desired ord mp (fold_err (hf_rule_row mp) entries [])"

definition applyHFDirection :: "range_order \<Rightarrow> 'w hf_objs \<Rightarrow> ('w, hf_allow_key, u8) map_ops \<Rightarrow> u32 \<Rightarrow> bool \<Rightarrow>
    HFAllow list \<Rightarrow> 'w call" where
  "applyHFDirection ord m mp index on entries = do_seq
     ([setHFMode m index (if on then 2 else 0),
       syncHFRules ord mp (if on then entries else [])] @
      (if on then [setHFMode m index 1] else []))"

definition ApplyHFIngress :: "range_order \<Rightarrow> 'w hf_objs \<Rightarrow> bool \<Rightarrow> HFAllow list \<Rightarrow> 'w call" where
  "ApplyHFIngress ord m on entries = applyHFDirection ord m (HfAllow m) cfgHFEnabled on entries"

definition ApplyHFEgress :: "range_order \<Rightarrow> 'w hf_objs \<Rightarrow> bool \<Rightarrow> HFAllow list \<Rightarrow> 'w call" where
  "ApplyHFEgress ord m on entries = applyHFDirection ord m (HfEallow m) cfgHFEgEnabled on entries"

definition hf_self_row :: "'w hf_objs \<Rightarrow> ip \<Rightarrow> (u128 \<times> u8) list \<Rightarrow> dp_error + (u128 \<times> u8) list" where
  "hf_self_row m ip want = (case addr128 ip of Inl e \<Rightarrow> Inl e | Inr a \<Rightarrow> putDesired (HfSelf m) want a 1)"

definition SyncHFSelf :: "range_order \<Rightarrow> 'w hf_objs \<Rightarrow> ip list \<Rightarrow> 'w call" where
  "SyncHFSelf ord m ips = sync_desired ord (HfSelf m) (fold_err (hf_self_row m) ips [])"

section \<open>Modes across restarts\<close>

text \<open>
  \<^verbatim>\<open>seedHFModeMap\<close>: the modes of the durable map are taken once from the legacy parameters; rules
  without any parameters are ambiguous and give mode 2.
\<close>

definition seed_mode :: "('w, u32, u32) map_ops \<Rightarrow> u32 \<Rightarrow> u32 \<Rightarrow> 'w call" where
  "seed_mode modes direction mode w = (if mode > 2 then (Some InvalidMode, w) else put modes direction mode w)"

definition seed_direction :: "('w, u32, u32) map_ops \<Rightarrow> ('w, u32, u32) map_ops option \<Rightarrow> bool \<Rightarrow> u32 \<Rightarrow> 'w call" where
  "seed_direction modes legacy ambiguous direction w = (case legacy of
       Some l \<Rightarrow> (case mo_lookup l (cfgHFEnabled + direction) w of
           (Inl e, w1) \<Rightarrow> if e \<noteq> ENOENT then (Some (Kernel e), w1) else seed_mode modes direction 0 w1
         | (Inr mode, w1) \<Rightarrow> seed_mode modes direction mode w1)
     | None \<Rightarrow> seed_mode modes direction (if ambiguous then 2 else 0) w)"

definition seedHFModeMap :: "('w, u32, u32) map_ops \<Rightarrow> ('w, u32, u32) map_ops option \<Rightarrow> bool \<Rightarrow> 'w call" where
  "seedHFModeMap modes legacy ambiguous w = (case mo_lookup modes hfModeInitialized w of
       (Inl e, w1) \<Rightarrow> (Some (Kernel e), w1)
     | (Inr initialized, w1) \<Rightarrow>
         if initialized = 1 then (None, w1)
         else if initialized \<noteq> 0 then (Some InvalidWitness, w1)
         else do_seq [seed_direction modes legacy ambiguous 0, seed_direction modes legacy ambiguous 1,
           put modes hfModeInitialized 1] w1)"

text \<open>
  \<^verbatim>\<open>armHFBootstrap\<close>: a direction that is armed but whose rules are gone is put in mode 2, and the
  node's own addresses are restored from the interfaces (\<^verbatim>\<open>netlink.AddrList\<close>, a parameter).
\<close>

definition IsUnspecified :: "ip \<Rightarrow> bool" where
  "IsUnspecified ip = (case ip_to4 ip of Some v4 \<Rightarrow> v4 = [0, 0, 0, 0] | None \<Rightarrow> ip = replicate 16 0)"

definition IsMulticast :: "ip \<Rightarrow> bool" where
  "IsMulticast ip = (case ip_to4 ip of Some v4 \<Rightarrow> v4 ! 0 AND 0xf0 = 0xe0 | None \<Rightarrow> length ip = 16 \<and> ip ! 0 = 0xff)"

definition arm_direction :: "'w hf_objs \<Rightarrow> (string \<Rightarrow> bool) \<Rightarrow> u32 \<Rightarrow> string \<Rightarrow> bool \<Rightarrow> 'w \<Rightarrow> (dp_error + bool) \<times> 'w" where
  "arm_direction m missing direction rules active w = (case mo_lookup (HfModes m) direction w of
       (Inl e, w1) \<Rightarrow> (Inl (Kernel e), w1)
     | (Inr mode0, w1) \<Rightarrow>
         if mode0 > 2 then (Inl InvalidMode, w1)
         else let mode = (if mode0 \<noteq> 0 \<and> missing rules then 2 else mode0)
              in case setHFMode m (cfgHFEnabled + direction) mode w1 of
                   (Some e, w2) \<Rightarrow> (Inl e, w2)
                 | (None, w2) \<Rightarrow> (Inr (active \<or> mode \<noteq> 0), w2))"

definition restore_self :: "range_order \<Rightarrow> 'w hf_objs \<Rightarrow> (errno + ip option list) \<Rightarrow> 'w call" where
  "restore_self ord m addresses w = (case addresses of
       Inl e \<Rightarrow> (Some (Kernel e), w)
     | Inr as \<Rightarrow>
         let ips = filter (\<lambda>ip. \<not> IsUnspecified ip \<and> \<not> IsMulticast ip) (List.map_filter (\<lambda>a. a) as)
         in if ips = [] then (Some NoHostAddresses, w) else SyncHFSelf ord m ips w)"

definition armHFBootstrap :: "range_order \<Rightarrow> 'w hf_objs \<Rightarrow> (string \<Rightarrow> bool) \<Rightarrow> (errno + ip option list) \<Rightarrow> 'w call" where
  "armHFBootstrap ord m missing addresses w = (case arm_direction m missing 0 ''hf_allow'' False w of
       (Inl e, w1) \<Rightarrow> (Some e, w1)
     | (Inr active, w1) \<Rightarrow> (case arm_direction m missing 1 ''hf_eallow'' active w1 of
         (Inl e, w2) \<Rightarrow> (Some e, w2)
       | (Inr active, w2) \<Rightarrow>
           if active \<and> missing ''hf_self'' then restore_self ord m addresses w2 else (None, w2)))"

section \<open>The packet programs\<close>

text \<open>
  What the programs read. \<open>h_ct\<close> is the set of reply pins. A program returns its verdict, the pin it
  writes and the drop counter it bumps (0 ingress, 1 egress); flow events are not part of the model.
\<close>

record hf_env =
  h_params :: "u32 \<rightharpoonup> u32"
  h_modes :: "u32 \<rightharpoonup> u32"
  h_self :: "u128 \<rightharpoonup> u8"
  h_nodes :: "u128 \<rightharpoonup> u8"
  h_allow :: "hf_allow_key \<Rightarrow> u8 option"
  h_eallow :: "hf_allow_key \<Rightarrow> u8 option"
  h_ct :: "np_ct_key \<Rightarrow> bool"
  h_remotes :: "u32 \<Rightarrow> u128 \<Rightarrow> u32 option"

record hf_out =
  ho_act :: tc_act
  ho_pin :: "np_ct_key option"
  ho_drop :: "u32 option"

definition cfg :: "hf_env \<Rightarrow> u32 \<Rightarrow> u32" where
  "cfg s idx = (if idx = cfgHFEnabled \<or> idx = cfgHFEgEnabled
     then (case h_modes s (idx - cfgHFEnabled) of Some mode \<Rightarrow> mode | None \<Rightarrow> 0)
     else (case h_params s idx of Some v \<Rightarrow> v | None \<Rightarrow> 0))"

definition hf_gate :: "(hf_allow_key \<Rightarrow> u8 option) \<Rightarrow> u8 \<Rightarrow> u16 \<Rightarrow> u128 \<Rightarrow> bool \<Rightarrow> bool" where
  "hf_gate rules proto port addr is_v6 =
     (let ak = \<lparr>hk_Prefixlen = 32 + 128, hk_Proto = proto, hk_Pad = (if is_v6 then 6 else 4), hk_Port = port, hk_Src = addr\<rparr>
      in case rules ak of
           Some v \<Rightarrow> v \<noteq> 0
         | None \<Rightarrow> (case rules (ak\<lparr>hk_Port := 0\<rparr>) of Some v \<Rightarrow> v \<noteq> 0 | None \<Rightarrow> False))"

definition hf_udp_pin :: "u8 \<Rightarrow> u128 \<Rightarrow> u128 \<Rightarrow> u16 \<Rightarrow> u16 \<Rightarrow> np_ct_key option" where
  "hf_udp_pin proto pod peer pport rport = (if proto = IPPROTO_UDP
     then Some \<lparr>ct_pod = pod, ct_peer = peer, ct_pport = pport, ct_rport = rport, ct_proto = IPPROTO_UDP\<rparr> else None)"

definition hf_ok :: "np_ct_key option \<Rightarrow> hf_out" where
  "hf_ok pin = \<lparr>ho_act = TC_ACT_OK, ho_pin = pin, ho_drop = None\<rparr>"

definition hf_shot :: "u32 \<Rightarrow> hf_out" where
  "hf_shot dir = \<lparr>ho_act = TC_ACT_SHOT, ho_pin = None, ho_drop = Some dir\<rparr>"

text \<open>The egress gate, which both programs contain: TCP is gated on a bare SYN only.\<close>

definition hf_egress_denied :: "hf_env \<Rightarrow> skb \<Rightarrow> pkt \<Rightarrow> u16 \<Rightarrow> bool" where
  "hf_egress_denied s skb p dport =
     (cfg s cfgHFEgEnabled \<noteq> 0 \<and>
      (p_proto p = IPPROTO_TCP \<longrightarrow> bare_syn (tcp_flags skb (p_is_v6 p))) \<and>
      (cfg s cfgHFEgEnabled = 2 \<or> \<not> hf_gate (h_eallow s) (p_proto p) dport (p_dst p) (p_is_v6 p)))"

definition hf_ports :: "skb \<Rightarrow> pkt \<Rightarrow> (u16 \<times> u16) option" where
  "hf_ports skb p = (if p_is_v6 p then l4_ports6 skb else l4_ports skb)"

definition cozyplane_hf_ingress :: "hf_env \<Rightarrow> skb \<Rightarrow> hf_out" where
  "cozyplane_hf_ingress s skb = (case parse_ip skb of None \<Rightarrow> hf_ok None | Some p \<Rightarrow>
     if p_proto p \<noteq> IPPROTO_TCP \<and> p_proto p \<noteq> IPPROTO_UDP \<and> p_proto p \<noteq> IPPROTO_SCTP then hf_ok None
     else case hf_ports skb p of None \<Rightarrow> hf_ok None | Some (sport, dport) \<Rightarrow>
       if h_self s (p_dst p) = None then
         if h_self s (p_src p) = None then hf_ok None
         else if h_nodes s (p_dst p) \<noteq> None then hf_ok None
         else if hf_egress_denied s skb p dport then hf_shot 1
         else hf_ok (hf_udp_pin (p_proto p) (p_src p) (p_dst p) sport dport)
       else if h_nodes s (p_src p) \<noteq> None then hf_ok None
       else if p_proto p = IPPROTO_TCP \<and> \<not> bare_syn (tcp_flags skb (p_is_v6 p)) then hf_ok None
       else if p_proto p = IPPROTO_UDP \<and> dport = htons (ucast (cfg s cfgGenevePort)) then hf_ok None
       else if p_proto p = IPPROTO_UDP \<and> h_ct s \<lparr>ct_pod = p_dst p, ct_peer = p_src p, ct_pport = dport, ct_rport = sport,
           ct_proto = IPPROTO_UDP\<rparr> then hf_ok None
       else if cfg s cfgHFEnabled = 0 then hf_ok None
       else if cfg s cfgHFEnabled = 2 \<or> \<not> hf_gate (h_allow s) (p_proto p) dport (p_src p) (p_is_v6 p) then hf_shot 0
       else hf_ok (hf_udp_pin (p_proto p) (p_dst p) (p_src p) dport sport))"

definition cozyplane_hf_egress :: "hf_env \<Rightarrow> skb \<Rightarrow> hf_out" where
  "cozyplane_hf_egress s skb = (case parse_ip skb of None \<Rightarrow> hf_ok None | Some p \<Rightarrow>
     case hf_ports skb p of None \<Rightarrow> hf_ok None | Some (sport, dport) \<Rightarrow>
       if hf_egress_denied s skb p dport then hf_shot 1
       else let pin = hf_udp_pin (p_proto p) (p_src p) (p_dst p) sport dport in
         case h_remotes s 0 (p_dst p) of
           None \<Rightarrow> hf_ok pin
         | Some node_ip \<Rightarrow> \<lparr>ho_act = Encap node_ip, ho_pin = pin, ho_drop = None\<rparr>)"

section \<open>What the tables hold and what a lookup finds\<close>

abbreviation hf_key_value :: "HFAllow list \<Rightarrow> hf_allow_key \<rightharpoonup> u8" where
  "hf_key_value \<equiv> flag_value ha_CIDR hf_keyof ha_Allow"

lemma hf_rules_table:
  assumes "fold_err (hf_rule_row mp) entries [] = Inr want"
  shows "desired_ok mp want \<and> map_of want = hf_key_value entries"
proof -
  have "hf_rule_row mp = flag_row mp ha_CIDR hf_keyof ha_Allow"
    by (intro ext) (simp add: hf_rule_row_def flag_row_def)
  then show ?thesis using assms flag_rows_table by simp
qed

definition hf_matches :: "hf_allow_key \<Rightarrow> hf_allow_key \<Rightarrow> bool" where
  "hf_matches k q = (hk_Proto k = hk_Proto q \<and> hk_Pad k = hk_Pad q \<and> hk_Port k = hk_Port q \<and>
     top_bits (unat (hk_Prefixlen k) - 32) (hk_Src q) = top_bits (unat (hk_Prefixlen k) - 32) (hk_Src k))"

definition hf_query :: "u8 \<times> u16 \<times> u8 \<times> u128 \<Rightarrow> hf_allow_key" where
  "hf_query = (\<lambda>(proto, port, family, a). \<lparr>hk_Prefixlen = 32 + 128, hk_Proto = proto, hk_Pad = family, hk_Port = port, hk_Src = a\<rparr>)"

interpretation hf_range: cidr_table ha_CIDR hf_keyof hf_matches "\<lambda>k. unat (hk_Prefixlen k)" 32 hf_query
  "\<lambda>e (proto, port, family, a). ha_Proto e = proto \<and> ha_Port e = htons port"
  "\<lambda>(proto, port, family, a). family" "\<lambda>(proto, port, family, a). a" "\<lambda>_. True" "\<lambda>_. True"
proof (unfold_locales, goal_cases)
  case (1 bits e a f)
  then show ?case by (simp add: hf_keyof_def unat_word_ariths)
next
  case (2 e q f bits a)
  have "unat (32 + bits) - 32 = unat bits" using 2 by (simp add: unat_word_ariths)
  then show ?case by (cases q) (auto simp: hf_keyof_def hf_query_def hf_matches_def htons_swap)
next
  case (3 e q e' p)
  then show ?case by (cases p) (auto simp: hf_keyof_def)
qed

text \<open>The rules for a protocol and a port (0: any port) that cover an address; the rules of the exact
  port decide alone when there are any.\<close>

definition hf_hits :: "HFAllow list \<Rightarrow> u8 \<Rightarrow> u16 \<Rightarrow> addr \<Rightarrow> HFAllow list" where
  "hf_hits entries proto port w = filter (\<lambda>e. (ha_Proto e = proto \<and> ha_Port e = port) \<and> cidr_covers (ha_CIDR e) w) entries"

definition hf_admits :: "HFAllow list \<Rightarrow> u8 \<Rightarrow> u16 \<Rightarrow> addr \<Rightarrow> bool" where
  "hf_admits entries proto port w =
     (if hf_hits entries proto port w \<noteq> [] then longest_allows ha_CIDR ha_Allow (hf_hits entries proto port w)
      else longest_allows ha_CIDR ha_Allow (hf_hits entries proto 0 w))"

lemma hf_lookup:
  assumes "lpm_trie rules (hf_key_value entries) hf_matches (\<lambda>k. unat (hk_Prefixlen k))" "packet_addr w f a"
  shows "(rules (hf_query (proto, port, f, a)) = None \<longleftrightarrow> hf_hits entries proto (htons port) w = []) \<and>
    (\<forall>v. rules (hf_query (proto, port, f, a)) = Some v \<longrightarrow>
      (v \<noteq> 0 \<longleftrightarrow> longest_allows ha_CIDR ha_Allow (hf_hits entries proto (htons port) w)))"
  using hf_range.lookup_verdict [OF assms(1), of w "(proto, port, f, a)"] assms(2) by (simp add: hf_hits_def)

lemma hf_gate_iff:
  assumes "lpm_trie rules (hf_key_value entries) hf_matches (\<lambda>k. unat (hk_Prefixlen k))"
    and "packet_addr w (if v6 then 6 else 4) a"
  shows "hf_gate rules proto port a v6 \<longleftrightarrow> hf_admits entries proto (htons port) w"
proof -
  obtain f :: u8 where f: "(if v6 then 6 else 4) = f" by simp
  have "hf_gate rules proto port a v6 = (case rules (hf_query (proto, port, f, a)) of Some v \<Rightarrow> v \<noteq> 0
      | None \<Rightarrow> (case rules (hf_query (proto, 0, f, a)) of Some v \<Rightarrow> v \<noteq> 0 | None \<Rightarrow> False))"
    unfolding hf_gate_def f by (simp add: hf_query_def Let_def cong: option.case_cong)
  moreover note hf_lookup [OF assms(1) assms(2) [unfolded f], of proto port] hf_lookup [OF assms(1) assms(2) [unfolded f], of proto 0]
  ultimately show ?thesis
    by (cases "rules (hf_query (proto, port, f, a))"; cases "rules (hf_query (proto, 0, f, a))")
      (simp_all add: hf_admits_def longest_allows_def)
qed

section \<open>The kernel as one direction uses it\<close>

text \<open>The two directions share the modes and the parameters and have a rule table each.\<close>

locale hf_direction =
  modes: ebpf_map "HfModes m" vm + params: ebpf_map "HfParams m" vp + rules: ebpf_map mp vr
  for m :: "'w hf_objs" and mp :: "('w, hf_allow_key, u8) map_ops" and vm vp vr +
  assumes modes_frame: "map_frame (HfModes m) (\<lambda>w. vr w)"
    and params_frame: "map_frame (HfParams m) (\<lambda>w. (vm w, vr w))"
    and rules_frame: "map_frame mp (\<lambda>w. vm w)"
begin

lemma put_mode: "triple (\<lambda>w. vm w = V \<and> R (vr w)) (put (HfModes m) d mode) (\<lambda>w. vm w = V(d \<mapsto> mode) \<and> R (vr w)) (\<lambda>w. vm w = V \<and> R (vr w))"
  by (rule triple_conseq [OF triple_conj [OF modes.put_triple [of V d mode] put_keeps [OF frame_keeps [OF modes_frame, of R], of d mode]]]) auto

lemma put_param: "triple (\<lambda>w. vm w = V \<and> R (vr w)) (put (HfParams m) k v) (\<lambda>w. vm w = V \<and> R (vr w)) (\<lambda>w. vm w = V \<and> R (vr w))"
  using put_keeps [OF frame_keeps [OF params_frame, of "\<lambda>(x, y). x = V \<and> R y"], of k v] by simp

lemma set_mode:
  "triple (\<lambda>w. vm w = V \<and> R (vr w)) (setHFMode m index mode) (\<lambda>w. vm w = V(index - cfgHFEnabled \<mapsto> mode) \<and> R (vr w))
    (\<lambda>w. R (vr w) \<and> (vm w = V \<or> vm w = V(index - cfgHFEnabled \<mapsto> mode)))"
    (is "triple ?P _ ?Q ?E")
proof -
  have 1: "triple ?P (put (HfModes m) (index - cfgHFEnabled) mode) ?Q ?E"
    by (rule triple_conseq [OF put_mode [of V R]]) auto
  have 2: "triple ?Q (put (HfParams m) index mode) ?Q ?E"
    by (rule triple_conseq [OF put_param [of "V(index - cfgHFEnabled \<mapsto> mode)" R]]) auto
  show ?thesis unfolding setHFMode_def by (intro triple_Cons [OF 1] triple_Cons [OF 2] triple_Nil)
qed

lemma sync_rules:
  assumes "valid_order ord"
  shows "triple (\<lambda>w. vm w = V) (syncHFRules ord mp entries) (\<lambda>w. vm w = V \<and> vr w = hf_key_value entries) (\<lambda>w. vm w = V)"
proof -
  have "triple (\<lambda>_. True) (syncHFRules ord mp entries) (\<lambda>w. vr w = hf_key_value entries) (\<lambda>_. True)"
    unfolding syncHFRules_def
    by (rule rules.sync_desired_post [OF assms]) (use hf_rules_table in auto)
  moreover have "triple (\<lambda>w. vm w = V) (syncHFRules ord mp entries) (\<lambda>w. vm w = V) (\<lambda>w. vm w = V)"
    unfolding syncHFRules_def by (rule frame_sync [OF rules_frame, where R = "\<lambda>x. x = V"]) simp
  ultimately show ?thesis
    by (rule triple_conseq [OF triple_conj]) auto
qed

lemma apply_on:
  fixes index :: u32
  assumes "valid_order ord"
  defines "d \<equiv> index - cfgHFEnabled"
  shows "triple (\<lambda>w. vm w = V \<and> vr w = R) (applyHFDirection ord m mp index True entries)
    (\<lambda>w. vm w = V(d \<mapsto> 1) \<and> vr w = hf_key_value entries)
    (\<lambda>w. vm w = V \<and> vr w = R \<or> vm w = V(d \<mapsto> 2) \<or> vm w = V(d \<mapsto> 1) \<and> vr w = hf_key_value entries)"
    (is "triple _ _ ?Q ?E")
proof -
  have arm: "triple (\<lambda>w. vm w = V \<and> vr w = R) (setHFMode m index 2) (\<lambda>w. vm w = V(d \<mapsto> 2)) ?E"
    by (rule triple_conseq [OF set_mode [of V "\<lambda>r. r = R"]]) (auto simp: d_def)
  have sync: "triple (\<lambda>w. vm w = V(d \<mapsto> 2)) (syncHFRules ord mp entries) (\<lambda>w. vm w = V(d \<mapsto> 2) \<and> vr w = hf_key_value entries) ?E"
    by (rule triple_conseq [OF sync_rules [OF assms(1)]]) auto
  have disarm: "triple (\<lambda>w. vm w = V(d \<mapsto> 2) \<and> vr w = hf_key_value entries) (setHFMode m index 1) ?Q ?E"
    by (rule triple_conseq [OF set_mode [of "V(d \<mapsto> 2)" "\<lambda>r. r = hf_key_value entries"]]) (auto simp: d_def)
  show ?thesis unfolding applyHFDirection_def if_True append.simps
    by (intro triple_Cons [OF arm] triple_Cons [OF sync] triple_Cons [OF disarm] triple_Nil)
qed

lemma apply_off:
  fixes index :: u32
  assumes "valid_order ord"
  defines "d \<equiv> index - cfgHFEnabled"
  shows "triple (\<lambda>w. vm w = V \<and> vr w = R) (applyHFDirection ord m mp index False entries)
    (\<lambda>w. vm w = V(d \<mapsto> 0) \<and> vr w = Map.empty) (\<lambda>w. vm w = V \<and> vr w = R \<or> vm w = V(d \<mapsto> 0))"
    (is "triple _ _ ?Q ?E")
proof -
  have off: "triple (\<lambda>w. vm w = V \<and> vr w = R) (setHFMode m index 0) (\<lambda>w. vm w = V(d \<mapsto> 0)) ?E"
    by (rule triple_conseq [OF set_mode [of V "\<lambda>r. r = R"]]) (auto simp: d_def)
  have sync: "triple (\<lambda>w. vm w = V(d \<mapsto> 0)) (syncHFRules ord mp []) ?Q ?E"
    by (rule triple_conseq [OF sync_rules [OF assms(1)]]) (auto simp: flag_value_def fun_eq_iff)
  show ?thesis unfolding applyHFDirection_def if_False append.simps
    by (intro triple_Cons [OF off] triple_Cons [OF sync] triple_Nil)
qed

text \<open>The rule table of an isolated direction is written in mode 2 only: a property that the table's
  operations keep in that mode is kept by the whole update.\<close>

lemma apply_guarded:
  assumes "map_keeps mp (\<lambda>w. vm w (index - cfgHFEnabled) = Some 2 \<and> P w)" "map_keeps (HfModes m) P" "map_keeps (HfParams m) P"
  shows "triple P (applyHFDirection ord m mp index True entries) P P"
proof -
  let ?d = "index - cfgHFEnabled"
  have mode: "triple P (setHFMode m index v) P P" for v
    unfolding setHFMode_def by (rule triple_seq_inv) (auto intro: put_keeps assms(2,3))
  have arm: "triple P (setHFMode m index 2) (\<lambda>w. vm w ?d = Some 2 \<and> P w) P"
    by (rule triple_by_view [where f = "\<lambda>w. (vm w, P w)"],
        rule triple_conseq [OF triple_conj [OF set_mode [where R = "\<lambda>_. True"] mode]]) auto
  have sync: "triple (\<lambda>w. vm w ?d = Some 2 \<and> P w) (syncHFRules ord mp entries) P P"
    unfolding syncHFRules_def by (rule triple_conseq [OF sync_desired_keeps [OF assms(1)]]) auto
  show ?thesis unfolding applyHFDirection_def if_True append.simps
    by (intro triple_Cons [OF arm] triple_Cons [OF sync] triple_Cons [OF mode] triple_Nil)
qed

end

end
