(* ===== verification/HfApply.thy ===== *)
theory HfApply
  imports HfDatapath
begin

text \<open>
  The host firewall end to end: what the packet programs decide after a synchronisation, after a failed
  one, and across a restart of the agent.
\<close>

section \<open>Decisions on gated packets\<close>

text \<open>A new flow to this node to which no exemption applies, and a new flow from this node.\<close>

definition hf_ingress_gated :: "hf_env \<Rightarrow> skb \<Rightarrow> pkt \<Rightarrow> u16 \<Rightarrow> u16 \<Rightarrow> bool" where
  "hf_ingress_gated s skb p sport dport =
     (parse_ip skb = Some p \<and> hf_ports skb p = Some (sport, dport) \<and> p_proto p \<in> {IPPROTO_TCP, IPPROTO_UDP, IPPROTO_SCTP} \<and>
      h_self s (p_dst p) \<noteq> None \<and> h_nodes s (p_src p) = None \<and>
      (p_proto p = IPPROTO_TCP \<longrightarrow> bare_syn (tcp_flags skb (p_is_v6 p))) \<and>
      (p_proto p = IPPROTO_UDP \<longrightarrow> dport \<noteq> htons (ucast (cfg s cfgGenevePort)) \<and>
        \<not> h_ct s \<lparr>ct_pod = p_dst p, ct_peer = p_src p, ct_pport = dport, ct_rport = sport, ct_proto = IPPROTO_UDP\<rparr>))"

definition hf_egress_gated :: "hf_env \<Rightarrow> skb \<Rightarrow> pkt \<Rightarrow> u16 \<Rightarrow> u16 \<Rightarrow> bool" where
  "hf_egress_gated s skb p sport dport =
     (parse_ip skb = Some p \<and> hf_ports skb p = Some (sport, dport) \<and> p_proto p \<in> {IPPROTO_TCP, IPPROTO_UDP, IPPROTO_SCTP} \<and>
      h_self s (p_dst p) = None \<and> h_self s (p_src p) \<noteq> None \<and> h_nodes s (p_dst p) = None \<and>
      (p_proto p = IPPROTO_TCP \<longrightarrow> bare_syn (tcp_flags skb (p_is_v6 p))))"

lemma hf_ingress_decision:
  assumes "hf_ingress_gated s skb p sport dport"
  shows "ho_act (cozyplane_hf_ingress s skb) = TC_ACT_OK \<longleftrightarrow> cfg s cfgHFEnabled = 0 \<or>
    cfg s cfgHFEnabled \<noteq> 2 \<and> hf_gate (h_allow s) (p_proto p) dport (p_src p) (p_is_v6 p)"
  using assms by (auto simp: hf_ingress_gated_def cozyplane_hf_ingress_def hf_ok_def hf_shot_def)

lemma hf_egress_decision:
  assumes "hf_egress_gated s skb p sport dport"
  defines "admitted \<equiv> cfg s cfgHFEgEnabled = 0 \<or>
    cfg s cfgHFEgEnabled \<noteq> 2 \<and> hf_gate (h_eallow s) (p_proto p) dport (p_dst p) (p_is_v6 p)"
  shows "ho_act (cozyplane_hf_ingress s skb) = (if admitted then TC_ACT_OK else TC_ACT_SHOT)"
    and "ho_act (cozyplane_hf_egress s skb) = (if admitted then (case h_remotes s 0 (p_dst p) of None \<Rightarrow> TC_ACT_OK | Some n \<Rightarrow> Encap n)
      else TC_ACT_SHOT)"
  using assms(1) unfolding admitted_def
  by (auto simp: hf_egress_gated_def cozyplane_hf_ingress_def cozyplane_hf_egress_def hf_egress_denied_def hf_ok_def hf_shot_def
      Let_def split: option.splits)

text \<open>What the programs read of the kernel state.\<close>

definition hf_reads :: "hf_env \<Rightarrow> (u32 \<rightharpoonup> u32) \<Rightarrow> (hf_allow_key \<Rightarrow> u8 option) \<Rightarrow> (hf_allow_key \<rightharpoonup> u8) \<Rightarrow> bool" where
  "hf_reads s modes lookup rules = (h_modes s = modes \<and> lpm_trie lookup rules hf_matches (\<lambda>k. unat (hk_Prefixlen k)))"

lemma cfg_mode: "h_modes s = V \<Longrightarrow> cfg s cfgHFEnabled = (case V 0 of Some v \<Rightarrow> v | None \<Rightarrow> 0)"
  "h_modes s = V \<Longrightarrow> cfg s cfgHFEgEnabled = (case V 1 of Some v \<Rightarrow> v | None \<Rightarrow> 0)"
  by (simp_all add: cfg_def hf_consts)

lemma hf_index: "cfgHFEnabled - cfgHFEnabled = 0" "cfgHFEgEnabled - cfgHFEnabled = 1"
  by (simp_all add: hf_consts)

section \<open>A kernel for the host firewall\<close>

record hf_world =
  hw_faults :: "errno option list"
  hw_params :: "(u32 \<times> u32) list"
  hw_modes :: "(u32 \<times> u32) list"
  hw_allow :: "(hf_allow_key \<times> u8) list"
  hw_eallow :: "(hf_allow_key \<times> u8) list"
  hw_self :: "(u128 \<times> u8) list"
  hw_unguarded :: bool

definition hf_tick :: "hf_world \<Rightarrow> errno option \<times> hf_world" where
  "hf_tick w = (case hw_faults w of [] \<Rightarrow> (None, w)
     | f # fs \<Rightarrow> (if f = Some ENOENT then Some EIO else f, w\<lparr>hw_faults := fs\<rparr>))"

definition hf_touch :: "u32 \<Rightarrow> hf_world \<Rightarrow> hf_world" where
  "hf_touch d w = w\<lparr>hw_unguarded := hw_unguarded w \<or> map_of (hw_modes w) d \<noteq> Some 2\<rparr>"

definition hf_maps :: "hf_world hf_objs" where
  "hf_maps = \<lparr>HfParams = alist_ops 16 hw_params (\<lambda>xs w. w\<lparr>hw_params := xs\<rparr>) hf_tick,
     HfModes = alist_ops 3 hw_modes (\<lambda>xs w. w\<lparr>hw_modes := xs\<rparr>) hf_tick,
     HfAllow = alist_ops 16384 hw_allow (\<lambda>xs w. hf_touch 0 (w\<lparr>hw_allow := xs\<rparr>)) hf_tick,
     HfEallow = alist_ops 16384 hw_eallow (\<lambda>xs w. hf_touch 1 (w\<lparr>hw_eallow := xs\<rparr>)) hf_tick,
     HfSelf = alist_ops 64 hw_self (\<lambda>xs w. w\<lparr>hw_self := xs\<rparr>) hf_tick\<rparr>"

lemma hf_tick_frame [simp]: "hw_params (snd (hf_tick w)) = hw_params w" "hw_modes (snd (hf_tick w)) = hw_modes w"
  "hw_allow (snd (hf_tick w)) = hw_allow w" "hw_eallow (snd (hf_tick w)) = hw_eallow w" "hw_self (snd (hf_tick w)) = hw_self w"
  "hw_unguarded (snd (hf_tick w)) = hw_unguarded w" "fst (hf_tick w) \<noteq> Some ENOENT"
  by (auto simp: hf_tick_def split: list.splits)

interpretation hf_in: hf_direction hf_maps "HfAllow hf_maps" "\<lambda>w. map_of (hw_modes w)" "\<lambda>w. map_of (hw_params w)" "\<lambda>w. map_of (hw_allow w)"
  by (intro hf_direction.intro hf_direction_axioms.intro)
    (auto simp: hf_maps_def hf_touch_def intro!: alist_ops_ebpf_map alist_ops_frame)

interpretation hf_eg: hf_direction hf_maps "HfEallow hf_maps" "\<lambda>w. map_of (hw_modes w)" "\<lambda>w. map_of (hw_params w)" "\<lambda>w. map_of (hw_eallow w)"
  by (intro hf_direction.intro hf_direction_axioms.intro)
    (auto simp: hf_maps_def hf_touch_def intro!: alist_ops_ebpf_map alist_ops_frame)

section \<open>Frames and rules for the witnesses\<close>

definition hf_demo_world :: "errno option list \<Rightarrow> hf_world" where
  "hf_demo_world faults = \<lparr>hw_faults = faults, hw_params = [], hw_modes = [(0, 0), (1, 0), (2, 1)], hw_allow = [], hw_eallow = [],
     hw_self = [], hw_unguarded = False\<rparr>"

definition hf_demo_entries :: "HFAllow list" where
  "hf_demo_entries = [\<lparr>ha_Proto = 6, ha_Port = 22, ha_CIDR = v4_net [192, 0, 2, 0] 24, ha_Allow = True\<rparr>]"

definition node_ip :: u128 where "node_ip = v4_to_128 [10, 0, 0, 1]"

definition hf_demo_env :: "hf_world \<Rightarrow> hf_env" where
  "hf_demo_env w = \<lparr>h_params = map_of (hw_params w), h_modes = map_of (hw_modes w), h_self = [node_ip \<mapsto> 1], h_nodes = Map.empty,
     h_allow = lpm_find hf_matches (\<lambda>k. unat (hk_Prefixlen k)) (AList.clearjunk (hw_allow w)),
     h_eallow = lpm_find hf_matches (\<lambda>k. unat (hk_Prefixlen k)) (AList.clearjunk (hw_eallow w)), h_ct = (\<lambda>_. False),
     h_remotes = (\<lambda>_ _. None)\<rparr>"

lemma hf_demo_reads: "hf_reads (hf_demo_env w) (map_of (hw_modes w)) (h_allow (hf_demo_env w)) (map_of (hw_allow w))"
  "hf_reads (hf_demo_env w) (map_of (hw_modes w)) (h_eallow (hf_demo_env w)) (map_of (hw_eallow w))"
  using lpm_find_trie [of "AList.clearjunk (hw_allow w)" hf_matches "\<lambda>k. unat (hk_Prefixlen k)"]
    lpm_find_trie [of "AList.clearjunk (hw_eallow w)" hf_matches "\<lambda>k. unat (hk_Prefixlen k)"]
  by (simp_all add: hf_reads_def hf_demo_env_def map_of_clearjunk distinct_clearjunk)

definition hf_demo_skb :: "u8 list \<Rightarrow> u8 list \<Rightarrow> skb" where
  "hf_demo_skb src dst = linear_skb (v4_frame 6 src dst [0xc0, 0] [0, 22] 0x02)"

definition hf_demo_pkt :: "u8 list \<Rightarrow> u8 list \<Rightarrow> pkt" where
  "hf_demo_pkt src dst = \<lparr>p_is_v6 = False, p_proto = 6, p_src = v4_to_128 src, p_dst = v4_to_128 dst\<rparr>"

lemma hf_demo_gated:
  "hf_ingress_gated (hf_demo_env w) (hf_demo_skb [192, 0, 2, 1] [10, 0, 0, 1]) (hf_demo_pkt [192, 0, 2, 1] [10, 0, 0, 1]) 0xc0 0x1600"
  "hf_egress_gated (hf_demo_env w) (hf_demo_skb [10, 0, 0, 1] [192, 0, 2, 1]) (hf_demo_pkt [10, 0, 0, 1] [192, 0, 2, 1]) 0xc0 0x1600"
proof -
  have ports: "le_u16 [0xc0, 0] = 0xc0" "le_u16 [0, 22] = 0x1600" by (simp_all add: le_u16_def)
  have ne: "v4_to_128 [192, 0, 2, 1] \<noteq> v4_to_128 [10, 0, 0, 1]" by (simp add: v4_to_128_def be_word_def be_nat_def)
  show "hf_ingress_gated (hf_demo_env w) (hf_demo_skb [192, 0, 2, 1] [10, 0, 0, 1]) (hf_demo_pkt [192, 0, 2, 1] [10, 0, 0, 1]) 0xc0 0x1600"
    using ne by (simp add: v4_frame_parse hf_ingress_gated_def hf_demo_skb_def hf_demo_pkt_def hf_ports_def hf_demo_env_def node_ip_def bare_syn_def
        ipproto_consts ports)
  show "hf_egress_gated (hf_demo_env w) (hf_demo_skb [10, 0, 0, 1] [192, 0, 2, 1]) (hf_demo_pkt [10, 0, 0, 1] [192, 0, 2, 1]) 0xc0 0x1600"
    using ne by (simp add: v4_frame_parse hf_egress_gated_def hf_demo_skb_def hf_demo_pkt_def hf_ports_def hf_demo_env_def node_ip_def bare_syn_def
        ipproto_consts ports)
qed

lemma hf_demo_wants: "fold_err (hf_rule_row (HfAllow hf_maps)) hf_demo_entries [] =
    Inr [(hf_keyof (hd hf_demo_entries) (nat64_prefix + ucast (keep_top 24 (0xc0000200 :: u32)), 120, 4), 1)]"
  "fold_err (hf_rule_row (HfEallow hf_maps)) hf_demo_entries [] =
    Inr [(hf_keyof (hd hf_demo_entries) (nat64_prefix + ucast (keep_top 24 (0xc0000200 :: u32)), 120, 4), 1)]"
  by (simp_all add: hf_demo_entries_def hf_rule_row_def v4_net_cidr putDesired_def hf_maps_def alist_ops_def be_nat_def)

lemma hf_demo_runs:
  "\<exists>w'. ApplyHFIngress (plain_order 0) hf_maps True hf_demo_entries (hf_demo_world []) = (None, w')"
  "\<exists>w'. ApplyHFEgress (plain_order 0) hf_maps True hf_demo_entries (hf_demo_world []) = (None, w')"
  unfolding ApplyHFIngress_def ApplyHFEgress_def applyHFDirection_def syncHFRules_def if_True append.simps hf_demo_wants
  by (simp_all add: do_seq.simps setHFMode_def put_def sync_desired_def syncMap_def hf_maps_def alist_ops_def hf_tick_def
      hf_demo_world_def hf_consts go_range_def plain_order_def stale_keys_def unchanged_keys_def hf_touch_def)

section \<open>Properties\<close>

text \<open>
  (C27) The host firewall is enforced as compiled: when \<^verbatim>\<open>ApplyHFIngress\<close> isolates the node and returns no
  error, a new flow to the node that no exemption covers is admitted exactly when the compiled rules
  admit its source, protocol and port.
\<close>

theorem ApplyHFIngress_enforced:
  assumes "hf_direction m (HfAllow m) vm vp va" and "valid_order ord"
    and "ApplyHFIngress ord m True entries w = (None, w')" and "hf_reads s (vm w') (h_allow s) (va w')"
    and "hf_ingress_gated s skb p sport dport" and "p_is_v6 p \<longrightarrow> drop_bit 32 (p_src p) \<noteq> 0xffff"
  shows "ho_act (cozyplane_hf_ingress s skb) = TC_ACT_OK \<longleftrightarrow>
    hf_admits entries (p_proto p) (htons dport) (frame_addr p (p_src p))"
proof -
  have "vm w' = (vm w)(0 \<mapsto> 1) \<and> va w' = hf_key_value entries"
    using triple_ok [OF hf_direction.apply_on [OF assms(1,2), of "vm w" "va w"] _ assms(3) [unfolded ApplyHFIngress_def]]
    by (simp add: hf_index)
  then have "cfg s cfgHFEnabled = 1" "lpm_trie (h_allow s) (hf_key_value entries) hf_matches (\<lambda>k. unat (hk_Prefixlen k))"
    using assms(4) by (auto simp: hf_reads_def cfg_mode)
  moreover have "packet_addr (frame_addr p (p_src p)) (pkt_family p) (p_src p)"
    using assms(5,6) by (intro parse_ip_addrs) (auto simp: hf_ingress_gated_def)
  ultimately show ?thesis using hf_ingress_decision [OF assms(5)] hf_gate_iff by simp
qed

theorem ApplyHFIngress_enforced_witness:
  "\<exists>w'. ApplyHFIngress (plain_order 0) hf_maps True hf_demo_entries (hf_demo_world []) = (None, w') \<and>
    ho_act (cozyplane_hf_ingress (hf_demo_env w') (hf_demo_skb [192, 0, 2, 1] [10, 0, 0, 1])) = TC_ACT_OK"
proof -
  obtain w' where w': "ApplyHFIngress (plain_order 0) hf_maps True hf_demo_entries (hf_demo_world []) = (None, w')"
    using hf_demo_runs by blast
  have "ucast (v4_to_128 [192, 0, 2, 1]) = (0xc0000201 :: u32)" by (simp add: v4_to_128_def be_word_def be_nat_def)
  moreover have "htons 0x1600 = 22" by (simp add: htons_def)
  ultimately have "hf_admits hf_demo_entries 6 (htons 0x1600) (frame_addr (hf_demo_pkt [192, 0, 2, 1] [10, 0, 0, 1]) (v4_to_128 [192, 0, 2, 1]))"
    by (simp add: hf_admits_def hf_hits_def hf_demo_entries_def frame_addr_def hf_demo_pkt_def v4_net_cidr be_nat_def top_bits_def
        longest_allows_def)
  then show ?thesis
    using w' ApplyHFIngress_enforced [OF hf_in.hf_direction_axioms valid_plain_order w' hf_demo_reads(1) hf_demo_gated(1)]
    by (auto simp: hf_demo_pkt_def)
qed

text \<open>
  (C28) The egress half, in both programs that contain it: after \<^verbatim>\<open>ApplyHFEgress\<close> a new flow from the node
  is dropped exactly when the compiled rules do not admit its destination, protocol and port.
\<close>

theorem ApplyHFEgress_enforced:
  assumes "hf_direction m (HfEallow m) vm vp ve" and "valid_order ord"
    and "ApplyHFEgress ord m True entries w = (None, w')" and "hf_reads s (vm w') (h_eallow s) (ve w')"
    and "hf_egress_gated s skb p sport dport" and "p_is_v6 p \<longrightarrow> drop_bit 32 (p_dst p) \<noteq> 0xffff"
  defines "admits \<equiv> hf_admits entries (p_proto p) (htons dport) (frame_addr p (p_dst p))"
  shows "(ho_act (cozyplane_hf_ingress s skb) = TC_ACT_SHOT \<longleftrightarrow> \<not> admits) \<and>
    (ho_act (cozyplane_hf_egress s skb) = TC_ACT_SHOT \<longleftrightarrow> \<not> admits)"
proof -
  have "vm w' = (vm w)(1 \<mapsto> 1) \<and> ve w' = hf_key_value entries"
    using triple_ok [OF hf_direction.apply_on [OF assms(1,2), of "vm w" "ve w"] _ assms(3) [unfolded ApplyHFEgress_def]]
    by (simp add: hf_index)
  then have "cfg s cfgHFEgEnabled = 1" "lpm_trie (h_eallow s) (hf_key_value entries) hf_matches (\<lambda>k. unat (hk_Prefixlen k))"
    using assms(4) by (auto simp: hf_reads_def cfg_mode)
  moreover have "packet_addr (frame_addr p (p_dst p)) (pkt_family p) (p_dst p)"
    using assms(5,6) by (intro parse_ip_addrs) (auto simp: hf_egress_gated_def)
  ultimately have "hf_gate (h_eallow s) (p_proto p) dport (p_dst p) (p_is_v6 p) \<longleftrightarrow> admits" "cfg s cfgHFEgEnabled = 1"
    using hf_gate_iff by (auto simp: admits_def)
  then show ?thesis using hf_egress_decision [OF assms(5)] by (simp split: option.splits)
qed

theorem ApplyHFEgress_enforced_witness:
  "\<exists>w'. ApplyHFEgress (plain_order 0) hf_maps True hf_demo_entries (hf_demo_world []) = (None, w') \<and>
    (ho_act (cozyplane_hf_ingress (hf_demo_env w') (hf_demo_skb [10, 0, 0, 1] [192, 0, 2, 1])) = TC_ACT_SHOT \<longleftrightarrow>
     \<not> hf_admits hf_demo_entries 6 (htons 0x1600) (Addr4 (ucast (v4_to_128 [192, 0, 2, 1]))))"
proof -
  obtain w' where w': "ApplyHFEgress (plain_order 0) hf_maps True hf_demo_entries (hf_demo_world []) = (None, w')"
    using hf_demo_runs by blast
  then show ?thesis
    using ApplyHFEgress_enforced [OF hf_eg.hf_direction_axioms valid_plain_order w' hf_demo_reads(2) hf_demo_gated(2)]
    by (auto simp: hf_demo_pkt_def frame_addr_def)
qed

text \<open>
  (C14) A failed isolation fails closed: if \<^verbatim>\<open>ApplyHFIngress\<close> with isolation returns an error, then modes and
  rules are what they were, or the complete rules are in force, or no new flow to the node is admitted
  unless an exemption covers it.
\<close>

theorem ApplyHFIngress_fail_closed:
  assumes "hf_direction m (HfAllow m) vm vp va" and "valid_order ord"
    and "ApplyHFIngress ord m True entries w = (Some e, w')" and "h_modes s = vm w'"
    and "hf_ingress_gated s skb p sport dport"
  shows "vm w' = vm w \<and> va w' = va w \<or> vm w' 0 = Some 1 \<and> va w' = hf_key_value entries \<or>
    ho_act (cozyplane_hf_ingress s skb) = TC_ACT_SHOT"
proof -
  have "vm w' = vm w \<and> va w' = va w \<or> vm w' = (vm w)(0 \<mapsto> 2) \<or> vm w' = (vm w)(0 \<mapsto> 1) \<and> va w' = hf_key_value entries"
    using triple_error [OF hf_direction.apply_on [OF assms(1,2), of "vm w" "va w"] _ assms(3) [unfolded ApplyHFIngress_def]]
    by (simp add: hf_index)
  moreover have "ho_act (cozyplane_hf_ingress s skb) = TC_ACT_SHOT" if "vm w' = (vm w)(0 \<mapsto> 2)"
    using assms(4,5) that by (auto simp: hf_ingress_gated_def cozyplane_hf_ingress_def hf_shot_def cfg_mode)
  ultimately show ?thesis by auto
qed

theorem ApplyHFIngress_fail_closed_witness:
  "\<exists>e w'. ApplyHFIngress (plain_order 0) hf_maps True hf_demo_entries (hf_demo_world [None, None, None, Some EIO]) = (Some e, w') \<and>
    ho_act (cozyplane_hf_ingress (hf_demo_env w') (hf_demo_skb [192, 0, 2, 1] [10, 0, 0, 1])) = TC_ACT_SHOT"
proof -
  let ?w = "hf_demo_world [None, None, None, Some EIO]"
  let ?w' = "(hf_demo_world [])\<lparr>hw_params := [(9, 2)], hw_modes := [(0, 2), (1, 0), (2, 1)]\<rparr>"
  have run: "ApplyHFIngress (plain_order 0) hf_maps True hf_demo_entries ?w = (Some (Kernel EIO), ?w')"
    unfolding ApplyHFIngress_def applyHFDirection_def syncHFRules_def if_True append.simps hf_demo_wants
    by (simp add: do_seq.simps setHFMode_def put_def sync_desired_def syncMap_def hf_maps_def alist_ops_def hf_tick_def
      hf_demo_world_def hf_consts go_range_def plain_order_def stale_keys_def unchanged_keys_def hf_touch_def)
  have "map_of (hw_modes ?w') 0 \<noteq> map_of (hw_modes ?w) 0" "map_of (hw_modes ?w') 0 \<noteq> Some 1"
    by (simp_all add: hf_demo_world_def)
  then have "map_of (hw_modes ?w') \<noteq> map_of (hw_modes ?w)" "map_of (hw_modes ?w') 0 \<noteq> Some 1" by metis+
  moreover have "h_modes (hf_demo_env ?w') = map_of (hw_modes ?w')" by (simp only: hf_demo_env_def hf_env.simps)
  ultimately have "ho_act (cozyplane_hf_ingress (hf_demo_env ?w') (hf_demo_skb [192, 0, 2, 1] [10, 0, 0, 1])) = TC_ACT_SHOT"
    using ApplyHFIngress_fail_closed [OF hf_in.hf_direction_axioms valid_plain_order run _ hf_demo_gated(1), of ?w']
    by blast
  then show ?thesis using run by blast
qed

text \<open>
  (C29) While a direction is isolated its rule table is written under the default deny only: every property
  that the writes of the table keep in mode 2, and that the writes of modes and parameters keep, is kept
  by the whole update, whether it succeeds or fails.
\<close>

theorem applyHFDirection_writes_guarded:
  assumes "hf_direction m mp vm vp vr" and "map_keeps mp (\<lambda>w. vm w (index - cfgHFEnabled) = Some 2 \<and> P w)"
    and "map_keeps (HfModes m) P" and "map_keeps (HfParams m) P" and "P w"
  shows "P (snd (applyHFDirection ord m mp index True entries w))"
  using hf_direction.apply_guarded [OF assms(1-4), of ord entries] assms(5)
  by (cases "applyHFDirection ord m mp index True entries w"; cases "fst (applyHFDirection ord m mp index True entries w)")
    (auto simp: triple_def split: prod.splits option.splits)

theorem applyHFDirection_writes_guarded_witness:
  "\<not> hw_unguarded (snd (applyHFDirection (plain_order 0) hf_maps (HfAllow hf_maps) cfgHFEnabled True hf_demo_entries (hf_demo_world [])))"
  by (rule applyHFDirection_writes_guarded [OF hf_in.hf_direction_axioms, where P = "\<lambda>w. \<not> hw_unguarded w"])
    (auto simp: hf_maps_def hf_touch_def hf_demo_world_def hf_consts intro!: alist_ops_keeps)

text \<open>
  UDP replies to the node: when a packet from the node passes either program and leaves a pin, the
  reply to it, addresses and ports swapped, is admitted wherever that pin is still present, whatever the
  ingress rules and modes are.
\<close>

lemma hf_udp_reply_admitted:
  assumes "ho_pin (cozyplane_hf_ingress s skb) = Some k \<or> ho_pin (cozyplane_hf_egress s skb) = Some k"
    and "h_self s (p_dst p) = None" and "parse_ip skb = Some p" and "hf_ports skb p = Some (sport, dport)"
    and "parse_ip reply = Some \<lparr>p_is_v6 = p_is_v6 p, p_proto = p_proto p, p_src = p_dst p, p_dst = p_src p\<rparr>"
    and "(if p_is_v6 p then l4_ports6 reply else l4_ports reply) = Some (dport, sport)" and "h_ct s' k"
    and "h_self s' (p_src p) \<noteq> None"
  shows "ho_act (cozyplane_hf_ingress s' reply) = TC_ACT_OK"
proof -
  have "k = \<lparr>ct_pod = p_src p, ct_peer = p_dst p, ct_pport = sport, ct_rport = dport, ct_proto = IPPROTO_UDP\<rparr>" "p_proto p = IPPROTO_UDP"
    using assms(1-4) by (auto simp: cozyplane_hf_ingress_def cozyplane_hf_egress_def hf_ok_def hf_shot_def hf_udp_pin_def Let_def
        split: if_splits option.splits)
  then show ?thesis
    using assms(5-8) by (auto simp: cozyplane_hf_ingress_def hf_ports_def hf_ok_def ipproto_consts)
qed

text \<open>
  (C30) UDP replies from the node: the egress gate does not read the pins. A reply of the node to an
  admitted inbound query is dropped, in both programs, unless a rule admits the client's address and
  port, although the ingress program has just pinned it.
\<close>

theorem hf_egress_ignores_pins:
  assumes "hf_egress_gated s skb p sport dport" and "cfg s cfgHFEgEnabled = 1"
    and "\<not> hf_gate (h_eallow s) (p_proto p) dport (p_dst p) (p_is_v6 p)"
  shows "ho_act (cozyplane_hf_ingress (s\<lparr>h_ct := (\<lambda>_. True)\<rparr>) skb) = TC_ACT_SHOT \<and>
    ho_act (cozyplane_hf_egress (s\<lparr>h_ct := (\<lambda>_. True)\<rparr>) skb) = TC_ACT_SHOT"
proof -
  have "hf_egress_gated (s\<lparr>h_ct := (\<lambda>_. True)\<rparr>) skb p sport dport" "cfg (s\<lparr>h_ct := (\<lambda>_. True)\<rparr>) cfgHFEgEnabled = 1"
    using assms(1,2) by (simp_all add: hf_egress_gated_def cfg_def)
  then show ?thesis using hf_egress_decision [of "s\<lparr>h_ct := (\<lambda>_. True)\<rparr>" skb p sport dport] assms(3) by simp
qed

theorem hf_egress_ignores_pins_witness:
  "\<exists>k. let s = (hf_demo_env ((hf_demo_world [])\<lparr>hw_modes := [(0, 0), (1, 1)]\<rparr>))\<lparr>h_modes := [0 \<mapsto> 1, 1 \<mapsto> 1], h_allow := (\<lambda>_. Some 1)\<rparr> in
    ho_pin (cozyplane_hf_ingress s (linear_skb (v4_frame 17 [192, 0, 2, 1] [10, 0, 0, 1] [0, 99] [0, 53] 0))) = Some k \<and>
    ho_act (cozyplane_hf_ingress (s\<lparr>h_ct := (\<lambda>_. True)\<rparr>)
      (linear_skb (v4_frame 17 [10, 0, 0, 1] [192, 0, 2, 1] [0, 53] [0, 99] 0))) = TC_ACT_SHOT"
proof -
  let ?s = "(hf_demo_env ((hf_demo_world [])\<lparr>hw_modes := [(0, 0), (1, 1)]\<rparr>))\<lparr>h_modes := [0 \<mapsto> 1, 1 \<mapsto> 1], h_allow := (\<lambda>_. Some 1)\<rparr>"
  let ?skb = "linear_skb (v4_frame 17 [10, 0, 0, 1] [192, 0, 2, 1] [0, 53] [0, 99] 0)"
  let ?p = "\<lparr>p_is_v6 = False, p_proto = 17, p_src = v4_to_128 [10, 0, 0, 1], p_dst = v4_to_128 [192, 0, 2, 1]\<rparr>"
  have ne: "v4_to_128 [192, 0, 2, 1] \<noteq> v4_to_128 [10, 0, 0, 1]" by (simp add: v4_to_128_def be_word_def be_nat_def)
  have port: "le_u16 [0, 53] \<noteq> 0" by (simp add: le_u16_def)
  obtain k where k: "ho_pin (cozyplane_hf_ingress ?s (linear_skb (v4_frame 17 [192, 0, 2, 1] [10, 0, 0, 1] [0, 99] [0, 53] 0))) = Some k"
    using ne port by (simp add: cozyplane_hf_ingress_def v4_frame_parse ipproto_consts hf_ports_def hf_demo_env_def node_ip_def
        cfg_def hf_consts hf_demo_world_def hf_ok_def hf_udp_pin_def hf_gate_def htons_def)
  have gated: "hf_egress_gated ?s ?skb ?p (le_u16 [0, 53]) (le_u16 [0, 99])"
    using ne by (simp add: hf_egress_gated_def v4_frame_parse hf_ports_def hf_demo_env_def node_ip_def ipproto_consts)
  have "cfg ?s cfgHFEgEnabled = 1" "\<not> hf_gate (h_eallow ?s) 17 (le_u16 [0, 99]) (p_dst ?p) False"
    by (simp_all add: cfg_def hf_consts hf_gate_def hf_demo_env_def hf_demo_world_def lpm_find_def)
  then show ?thesis using hf_egress_ignores_pins [OF gated] k by auto
qed

text \<open>The rule table of a list of entries, as the reference trie.\<close>

definition hf_trie :: "HFAllow list \<Rightarrow> hf_allow_key \<Rightarrow> u8 option" where
  "hf_trie entries = (case fold_err (hf_rule_row (HfAllow hf_maps)) entries [] of
     Inl _ \<Rightarrow> (\<lambda>_. None) | Inr want \<Rightarrow> lpm_find hf_matches (\<lambda>k. unat (hk_Prefixlen k)) want)"

lemma hf_trie_gate:
  assumes "fold_err (hf_rule_row (HfAllow hf_maps)) entries [] = Inr want" "packet_addr w (if v6 then 6 else 4) a"
  shows "hf_gate (hf_trie entries) proto port a v6 \<longleftrightarrow> hf_admits entries proto (htons port) w"
proof (rule hf_gate_iff [OF _ assms(2)])
  have "distinct (map fst want)" "map_of want = hf_key_value entries"
    using hf_rules_table [OF assms(1)] by (simp_all add: desired_ok_def)
  then show "lpm_trie (hf_trie entries) (hf_key_value entries) hf_matches (\<lambda>k. unat (hk_Prefixlen k))"
    using lpm_find_trie [of want hf_matches "\<lambda>k. unat (hk_Prefixlen k)"] assms(1) by (simp add: hf_trie_def)
qed

definition hf_any_port :: HFAllow where
  "hf_any_port = \<lparr>ha_Proto = 6, ha_Port = 0, ha_CIDR = v4_net [10, 0, 0, 0] 8, ha_Allow = True\<rparr>"

definition hf_ssh_rule :: "HFAllow list" where
  "hf_ssh_rule = [\<lparr>ha_Proto = 6, ha_Port = 22, ha_CIDR = v4_net [10, 0, 0, 0] 8, ha_Allow = True\<rparr>,
     \<lparr>ha_Proto = 6, ha_Port = 22, ha_CIDR = v4_net [10, 1, 0, 0] 16, ha_Allow = False\<rparr>]"


end
