(* ===== verification/HfCompile.thy ===== *)
theory HfCompile
  imports HfRegistry HfApply
begin

text \<open>
  The agent's compilation of host firewalls: \<^verbatim>\<open>cmd/agent/hostfirewall.go\<close>, the preflight of
  \<^verbatim>\<open>cmd/agent/policy_limits.go\<close> and the bounded warnings of \<^verbatim>\<open>cmd/agent/warnings.go\<close>. The compiled rows are
  what \<^verbatim>\<open>HfDatapath\<close> writes and the packet programs read, so the last section states what the objects mean
  for a packet. A warning is its constructor and its arguments, not its text.
\<close>

section \<open>Warnings\<close>

definition maxCompileWarnings :: nat where "maxCompileWarnings = 512"

definition addCompileWarnings :: "'w list \<Rightarrow> 'w list \<Rightarrow> 'w list" where
  "addCompileWarnings warnings values =
     (let room = int maxCompileWarnings + 1 - int (length warnings)
      in if room \<le> 0 then warnings
         else warnings @ (if room < int (length values) then take (nat room) values else values))"

text \<open>\<^verbatim>\<open>compileWarnings.update\<close>: the digests of the current warnings, the warnings that were not reported before,
  and whether some were dropped. The digest is a parameter.\<close>

fun warnings_scan :: "('w \<Rightarrow> 'd) \<Rightarrow> 'd set \<Rightarrow> 'd list \<Rightarrow> 'w list \<Rightarrow> 'w list \<Rightarrow> 'd list \<times> 'w list \<times> bool" where
  "warnings_scan digest previous next fresh [] = (next, fresh, False)"
| "warnings_scan digest previous next fresh (w # ws) =
     (if digest w \<in> set next then warnings_scan digest previous next fresh ws
      else if maxCompileWarnings \<le> length next then (next, fresh, True)
      else warnings_scan digest previous (next @ [digest w])
             (if digest w \<in> previous then fresh else fresh @ [w]) ws)"

definition warnings_update :: "('w \<Rightarrow> 'd) \<Rightarrow> 'd set \<Rightarrow> 'w list \<Rightarrow> 'd set \<times> 'w list \<times> bool" where
  "warnings_update digest previous warnings =
     (case warnings_scan digest previous [] [] warnings of
        (next, fresh, dropped) \<Rightarrow> (set next, fresh, dropped \<or> maxCompileWarnings < length warnings))"

lemma length_addCompileWarnings:
  "length warnings \<le> 513 \<Longrightarrow> length (addCompileWarnings warnings values) \<le> 513"
  by (auto simp: addCompileWarnings_def Let_def maxCompileWarnings_def)

lemma addCompileWarnings_Nil [simp]: "addCompileWarnings ws [] = ws"
  by (simp add: addCompileWarnings_def Let_def)

section \<open>Compilation\<close>

datatype hf_warning =
    ProtocolNotServed string
  | PortOutOfRange int
  | EndPortInvalid int int
  | RangeTooLong int int
  | BadCIDR string
  | BadExcept string
  | BadNodeSelector

definition hfProtoNum :: "string \<Rightarrow> u8 option" where
  "hfProtoNum proto = (if proto = ''TCP'' then Some 6 else if proto = ''UDP'' then Some 17 else None)"

record hfPortRow =
  pr_proto :: u8
  pr_port :: u16

definition hf_port_range :: "u8 \<Rightarrow> int \<Rightarrow> int \<Rightarrow> hfPortRow list" where
  "hf_port_range proto lo hi = map (\<lambda>port. \<lparr> pr_proto = proto, pr_port = of_int port \<rparr>) [lo..hi]"

definition hf_port_item :: "HostFirewallPort \<Rightarrow> hfPortRow list \<times> hf_warning list \<Rightarrow> hfPortRow list \<times> hf_warning list" where
  "hf_port_item p = (\<lambda>(out, warnings).
     case hfProtoNum (hfpt_Protocol p) of
       None \<Rightarrow> (out, addCompileWarnings warnings [ProtocolNotServed (hfpt_Protocol p)])
     | Some proto \<Rightarrow>
       if hfpt_Port p < 0 \<or> 65535 < hfpt_Port p then (out, addCompileWarnings warnings [PortOutOfRange (hfpt_Port p)])
       else let lo = hfpt_Port p; hi = (if hfpt_EndPort p \<noteq> 0 then hfpt_EndPort p else hfpt_Port p)
         in if hi < lo \<or> 65535 < hi \<or> (lo = 0 \<and> hi \<noteq> 0)
            then (out, addCompileWarnings warnings [EndPortInvalid (hfpt_EndPort p) (hfpt_Port p)])
            else if 64 < hi - lo + 1 then (out, addCompileWarnings warnings [RangeTooLong lo hi])
            else (out @ hf_port_range proto lo hi, warnings))"

definition hfCompilePorts :: "HostFirewallPort list \<Rightarrow> hfPortRow list \<times> hf_warning list" where
  "hfCompilePorts ports =
     (if ports = [] then ([\<lparr> pr_proto = 6, pr_port = 0 \<rparr>, \<lparr> pr_proto = 17, pr_port = 0 \<rparr>], [])
      else fold hf_port_item ports ([], []))"

definition hfAnyPeers :: "HostFirewallPeer list" where
  "hfAnyPeers = [\<lparr> hfp_CIDR = ''0.0.0.0/0'', hfp_Except = [] \<rparr>, \<lparr> hfp_CIDR = ''::/0'', hfp_Except = [] \<rparr>]"

definition hfIsolation :: "HostFirewall \<Rightarrow> bool \<times> bool" where
  "hfIsolation hf =
     (let s = hfo_Spec hf
      in if hfs_PolicyTypes s = [] then (True, 0 < length (hfs_Egress s))
         else (''Ingress'' \<in> set (hfs_PolicyTypes s), ''Egress'' \<in> set (hfs_PolicyTypes s)))"

fun hf_excepts :: "string list \<Rightarrow> string + ipnet list" where
  "hf_excepts [] = Inr []"
| "hf_excepts (ex # exs) =
     (case parse_cidr ex of
        None \<Rightarrow> Inl ex
      | Some (_, exNet) \<Rightarrow> (case hf_excepts exs of Inl bad \<Rightarrow> Inl bad | Inr nets \<Rightarrow> Inr (exNet # nets)))"

definition hf_entry :: "hfPortRow \<Rightarrow> ipnet \<Rightarrow> bool \<Rightarrow> HFAllow" where
  "hf_entry row net allow = \<lparr> ha_Proto = pr_proto row, ha_Port = pr_port row, ha_CIDR = Some net, ha_Allow = allow \<rparr>"

definition hf_peer_rows :: "hfPortRow list \<Rightarrow> ipnet \<Rightarrow> ipnet list \<Rightarrow> HFAllow list" where
  "hf_peer_rows rows allowNet excepts =
     concat (map (\<lambda>row. hf_entry row allowNet True # map (\<lambda>ex. hf_entry row ex False) excepts) rows)"

definition hf_peer_item :: "string \<Rightarrow> hfPortRow list \<Rightarrow> HostFirewallPeer \<Rightarrow>
    HFAllow list \<times> (string \<times> hf_warning) list \<Rightarrow> HFAllow list \<times> (string \<times> hf_warning) list" where
  "hf_peer_item name rows peer = (\<lambda>(entries, warnings).
     case parse_cidr (hfp_CIDR peer) of
       None \<Rightarrow> (entries, addCompileWarnings warnings [(name, BadCIDR (hfp_CIDR peer))])
     | Some (_, allowNet) \<Rightarrow>
       (case hf_excepts (hfp_Except peer) of
          Inl ex \<Rightarrow> (entries, addCompileWarnings warnings [(name, BadExcept ex)])
        | Inr excepts \<Rightarrow> (entries @ hf_peer_rows rows allowNet excepts, warnings)))"

definition hfCompileRule :: "string \<Rightarrow> HostFirewallPeer list \<Rightarrow> HostFirewallPort list \<Rightarrow>
    HFAllow list \<times> (string \<times> hf_warning) list \<Rightarrow> HFAllow list \<times> (string \<times> hf_warning) list" where
  "hfCompileRule name peers ports = (\<lambda>(entries, warnings).
     let (rows, w) = hfCompilePorts ports;
         warnings' = fold (\<lambda>warn ws. addCompileWarnings ws [(name, warn)]) w warnings;
         peers' = (if peers = [] then hfAnyPeers else peers)
     in fold (hf_peer_item name rows) peers' (entries, warnings'))"

section \<open>The preflight\<close>

definition policyRowLimit :: nat where "policyRowLimit = 65536"
definition policyWorkLimit :: nat where "policyWorkLimit = 2 ^ 20"

datatype hf_budget_error = HFTooManyObjects | HFInputBudget | HFIngressRows | HFEgressRows

definition hf_count_port :: "HostFirewallPort \<Rightarrow> nat" where
  "hf_count_port p =
     (let hi = (if hfpt_EndPort p \<noteq> 0 then hfpt_EndPort p else hfpt_Port p)
      in if hfpt_Port p \<le> hi \<and> hi - hfpt_Port p < 64 then nat (hi - hfpt_Port p + 1) else 0)"

definition hf_count :: "HostFirewallPeer list \<Rightarrow> HostFirewallPort list \<Rightarrow> nat \<Rightarrow> (hf_budget_error + nat) \<times> nat" where
  "hf_count peers ports work =
     (let portRows = (if ports = [] then 2 else sum_list (map hf_count_port ports));
          peerSum = sum_list (map (\<lambda>p. length (hfp_Except p) + 1) peers);
          peerRows = (if peers = [] then 2 else peerSum);
          work' = work + 1 + length ports + peerSum
      in (if policyWorkLimit < work' \<or> policyRowLimit < portRows \<or> policyWorkLimit < peerRows
          then Inl HFInputBudget else Inr (portRows * peerRows), work'))"

fun hf_count_rules :: "hf_budget_error \<Rightarrow> (HostFirewallPeer list \<times> HostFirewallPort list) list \<Rightarrow> nat \<times> nat \<Rightarrow>
    hf_budget_error + nat \<times> nat" where
  "hf_count_rules over [] (rows, work) = Inr (rows, work)"
| "hf_count_rules over ((peers, ports) # rules) (rows, work) =
     (case hf_count peers ports work of
        (Inl e, work') \<Rightarrow> Inl e
      | (Inr n, work') \<Rightarrow>
          if policyRowLimit < rows + n then Inl over else hf_count_rules over rules (rows + n, work'))"

definition hf_ingress_rules :: "HostFirewall \<Rightarrow> (HostFirewallPeer list \<times> HostFirewallPort list) list" where
  "hf_ingress_rules hf = map (\<lambda>r. (hfr_From r, hfr_Ports r)) (hfs_Ingress (hfo_Spec hf))"

definition hf_egress_rules :: "HostFirewall \<Rightarrow> (HostFirewallPeer list \<times> HostFirewallPort list) list" where
  "hf_egress_rules hf = map (\<lambda>r. (hfe_To r, hfe_Ports r)) (hfs_Egress (hfo_Spec hf))"

definition hf_selects :: "machinery \<Rightarrow> (string \<rightharpoonup> string) \<Rightarrow> HostFirewall \<Rightarrow> bool" where
  "hf_selects k nodeLabels hf =
     (case LabelSelectorAsSelector k (hfs_NodeSelector (hfo_Spec hf)) of None \<Rightarrow> False | Some sel \<Rightarrow> sel nodeLabels)"

fun hf_preflight :: "machinery \<Rightarrow> (string \<rightharpoonup> string) \<Rightarrow> HostFirewall list \<Rightarrow> nat \<times> nat \<times> nat \<Rightarrow> hf_budget_error option" where
  "hf_preflight k nodeLabels [] (ingress, egress, work) = None"
| "hf_preflight k nodeLabels (hf # hfs) (ingress, egress, work) =
     (let work1 = work + 1
      in if \<not> hf_selects k nodeLabels hf then hf_preflight k nodeLabels hfs (ingress, egress, work1)
         else let (ing, eg) = hfIsolation hf
           in (case (if ing then hf_count_rules HFIngressRows (hf_ingress_rules hf) (ingress, work1) else Inr (ingress, work1)) of
                 Inl e \<Rightarrow> Some e
               | Inr (ingress', work2) \<Rightarrow>
                 (case (if eg then hf_count_rules HFEgressRows (hf_egress_rules hf) (egress, work2) else Inr (egress, work2)) of
                    Inl e \<Rightarrow> Some e
                  | Inr (egress', work3) \<Rightarrow> hf_preflight k nodeLabels hfs (ingress', egress', work3))))"

definition validateHFCompilation :: "machinery \<Rightarrow> HostFirewall list \<Rightarrow> (string \<rightharpoonup> string) \<Rightarrow> hf_budget_error option" where
  "validateHFCompilation k hfs nodeLabels =
     (if policyRowLimit < length hfs then Some HFTooManyObjects else hf_preflight k nodeLabels hfs (0, 0, 0))"

record hfCompiled =
  hc_ingress :: bool
  hc_egress :: bool
  hc_in :: "HFAllow list"
  hc_eg :: "HFAllow list"
  hc_warnings :: "(string \<times> hf_warning) list"
  hc_err :: "hf_budget_error option"

definition hfCompiled_zero :: hfCompiled where
  "hfCompiled_zero = \<lparr> hc_ingress = False, hc_egress = False, hc_in = [], hc_eg = [], hc_warnings = [], hc_err = None \<rparr>"

definition hf_compile_rules :: "string \<Rightarrow> (HostFirewallPeer list \<times> HostFirewallPort list) list \<Rightarrow>
    HFAllow list \<times> (string \<times> hf_warning) list \<Rightarrow> HFAllow list \<times> (string \<times> hf_warning) list" where
  "hf_compile_rules name rules = fold (\<lambda>(peers, ports). hfCompileRule name peers ports) rules"

definition hf_compile_object :: "machinery \<Rightarrow> (string \<rightharpoonup> string) \<Rightarrow> HostFirewall \<Rightarrow> hfCompiled \<Rightarrow> hfCompiled" where
  "hf_compile_object k nodeLabels hf c =
     (let name = om_Name (hfo_meta hf)
      in case LabelSelectorAsSelector k (hfs_NodeSelector (hfo_Spec hf)) of
           None \<Rightarrow> c \<lparr> hc_warnings := addCompileWarnings (hc_warnings c) [(name, BadNodeSelector)] \<rparr>
         | Some sel \<Rightarrow>
           if \<not> sel nodeLabels then c
           else let (ing, eg) = hfIsolation hf;
                    (rin, w1) = (if ing then hf_compile_rules name (hf_ingress_rules hf) (hc_in c, hc_warnings c)
                                 else (hc_in c, hc_warnings c));
                    (reg, w2) = (if eg then hf_compile_rules name (hf_egress_rules hf) (hc_eg c, w1) else (hc_eg c, w1))
                in c \<lparr> hc_ingress := hc_ingress c \<or> ing, hc_egress := hc_egress c \<or> eg,
                       hc_in := rin, hc_eg := reg, hc_warnings := w2 \<rparr>)"

definition compileHostFirewalls :: "machinery \<Rightarrow> HostFirewall list \<Rightarrow> (string \<rightharpoonup> string) \<Rightarrow> hfCompiled" where
  "compileHostFirewalls k hfs nodeLabels =
     (case validateHFCompilation k hfs nodeLabels of
        Some e \<Rightarrow> hfCompiled_zero \<lparr> hc_err := Some e \<rparr>
      | None \<Rightarrow> fold (hf_compile_object k nodeLabels) hfs hfCompiled_zero)"

end
