(* ===== verification/NpCompile.thy ===== *)
theory NpCompile
  imports NpDatapath HfCompile "HOL-Library.AList"
begin

text \<open>
  The agent's compilation of NetworkPolicies: \<^verbatim>\<open>cmd/agent/networkpolicy.go\<close> and \<^verbatim>\<open>npInputWork\<close> of
  \<^verbatim>\<open>cmd/agent/policy_limits.go\<close>. Pods, Namespaces and policies go in; identity rows, allow pairs and CIDR rows come
  out, which \<^verbatim>\<open>NpDatapath\<close> writes and the packet program reads. Go ranges over its maps in an unspecified order, so the
  orders are parameters. A compilation that sets \<^verbatim>\<open>c.err\<close> is that error: its caller reads no other field of it.
\<close>

section \<open>Objects\<close>

datatype IntOrString = IntVal int | StrVal string

record NetworkPolicyPort =
  npp_Protocol :: "string option"
  npp_Port :: "IntOrString option"
  npp_EndPort :: "int option"

record IPBlock =
  ipb_CIDR :: string
  ipb_Except :: "string list"

record NetworkPolicyPeer =
  npe_PodSelector :: "LabelSelector option"
  npe_NamespaceSelector :: "LabelSelector option"
  npe_IPBlock :: "IPBlock option"

text \<open>The peers are \<^verbatim>\<open>From\<close> of an ingress rule and \<^verbatim>\<open>To\<close> of an egress rule.\<close>

record NetworkPolicyRule =
  npr_Ports :: "NetworkPolicyPort list"
  npr_Peers :: "NetworkPolicyPeer list"

record NetworkPolicy =
  np_Namespace :: string
  np_Name :: string
  np_PodSelector :: LabelSelector
  np_PolicyTypes :: "string list"
  np_Ingress :: "NetworkPolicyRule list"
  np_Egress :: "NetworkPolicyRule list option"

record PolicyPod =
  pp_Namespace :: string
  pp_Labels :: "(string \<times> string) list"
  pp_HostNetwork :: bool
  pp_PodIPs :: "string list"

record Namespace =
  kn_Name :: string
  kn_Labels :: "(string \<times> string) list"

record Node =
  node_Addresses :: "(string \<times> string) list"
  node_Annotations :: "string \<rightharpoonup> string"

section \<open>Identities\<close>

definition NPSrcLocalNode :: u64 where "NPSrcLocalNode = 4"
definition NPFirstRealID :: u64 where "NPFirstRealID = 8"

definition npFilteredLabel :: "string \<Rightarrow> bool" where
  "npFilteredLabel lbl =
     (lbl \<in> set [''pod-template-hash'', ''controller-revision-hash'', ''statefulset.kubernetes.io/pod-name'',
        ''apps.kubernetes.io/pod-index'', ''controller-uid'', ''job-name''] \<or> has_prefix lbl ''batch.kubernetes.io/'')"

definition npFilterLabels :: "(string \<times> string) list \<Rightarrow> (string \<times> string) list" where
  "npFilterLabels labels = filter (\<lambda>(lbl, _). \<not> npFilteredLabel lbl) labels"

definition be_u64 :: "u8 list \<Rightarrow> u64" where
  "be_u64 bs = foldl (\<lambda>acc b. push_bit 8 acc OR ucast b) 0 bs"

definition np_encoding :: "string \<Rightarrow> (string \<times> string) list \<Rightarrow> string" where
  "np_encoding namespace filtered = namespace @ [CHR 0x00] @
     concat (map (\<lambda>lbl. lbl @ [CHR 0x00] @ the (map_of filtered lbl) @ [CHR 0x00]) (sort (map fst filtered)))"

definition npIdentityOf :: "(string \<Rightarrow> u8 list) \<Rightarrow> string \<Rightarrow> (string \<times> string) list \<Rightarrow> u64" where
  "npIdentityOf sha256 namespace filtered =
     (let i = be_u64 (take 8 (sha256 (np_encoding namespace filtered)))
      in if i < NPFirstRealID then i + NPFirstRealID else i)"

definition nodeAddrsAnnotation :: string where "nodeAddrsAnnotation = ''cozyplane.io/node-addresses''"

definition npNodeAddresses :: "Node \<Rightarrow> ip list" where
  "npNodeAddresses node =
     List.map_filter (\<lambda>(t, a). if t \<noteq> ''InternalIP'' \<and> t \<noteq> ''ExternalIP'' then None else Netip.parse_ip a) (node_Addresses node) @
     List.map_filter (\<lambda>s. Netip.parse_ip (trim_space s))
       (split_on CHR '','' (case node_Annotations node nodeAddrsAnnotation of Some v \<Rightarrow> v | None \<Rightarrow> []))"

section \<open>State of a compilation\<close>

datatype np_error = NpObjects | NpInputWork | NpWork | NpCidrBudget | NpRuleRows | NpIdentRows

datatype np_reason =
    NpFilteredKey string
  | NpProtocol string
  | NpEndPortWithoutPort
  | NpNamedPort string
  | NpPortRange int
  | NpBadEndPort int
  | NpBadPodSelector
  | NpBadPeerPodSelector
  | NpBadPeerNamespaceSelector
  | NpEntityNotServed string u8
  | NpWideRange u16 u16
  | NpBadCIDR string
  | NpBadExcept string

type_synonym np_warning = "(string \<times> string) \<times> np_reason"

record np_state =
  st_work :: nat
  st_flags :: "u64 \<Rightarrow> u32"
  st_allows :: "NPAllow list"
  st_cidrs :: "NPCidr list"
  st_warnings :: "np_warning list"

definition npCompileLimit :: nat where "npCompileLimit = 65536"
definition npCompileWorkLimit :: nat where "npCompileWorkLimit = 2 ^ 20"

definition spend :: "np_state \<Rightarrow> np_error + np_state" where
  "spend st = (let st = st\<lparr>st_work := Suc (st_work st)\<rparr> in if npCompileWorkLimit < st_work st then Inl NpWork else Inr st)"

definition np_warn :: "np_warning list \<Rightarrow> np_state \<Rightarrow> np_state" where
  "np_warn ws st = st\<lparr>st_warnings := fold (\<lambda>w warnings. addCompileWarnings warnings [w]) ws (st_warnings st)\<rparr>"

text \<open>The orders of Go's ranges: over the registry, where the number of operations spent so far tells one range from
  another, over the pods of the registry, and over the allow pairs.\<close>

record np_orders =
  no_registry :: "nat \<Rightarrow> range_order"
  no_pods :: range_order
  no_allows :: range_order

definition np_orders_ok :: "np_orders \<Rightarrow> bool" where
  "np_orders_ok ords = ((\<forall>n. valid_order (no_registry ords n)) \<and> valid_order (no_pods ords) \<and> valid_order (no_allows ords))"

record identInfo =
  ii_ns :: string
  ii_lbls :: "(string \<times> string) list"

type_synonym np_registry = "(u64 \<times> identInfo) list"

section \<open>Ports\<close>

record npPort =
  port_proto :: u8
  port_port :: u16
  port_endPort :: u16

definition np_protocol :: "string option \<Rightarrow> u8 option" where
  "np_protocol p = (case p of None \<Rightarrow> Some 6
     | Some t \<Rightarrow> if t = ''TCP'' then Some 6 else if t = ''UDP'' then Some 17 else None)"

text \<open>One item of the list: the port it compiles to, or why it compiles to nothing. Two of the warnings are appended
  without the bound.\<close>

definition np_port_item :: "NetworkPolicyPort \<Rightarrow> np_reason + npPort" where
  "np_port_item p = (case np_protocol (npp_Protocol p) of
     None \<Rightarrow> Inl (NpProtocol (the (npp_Protocol p)))
   | Some proto \<Rightarrow> (case npp_Port p of
       None \<Rightarrow> if npp_EndPort p \<noteq> None then Inl NpEndPortWithoutPort
               else Inr \<lparr> port_proto = proto, port_port = 0, port_endPort = 0 \<rparr>
     | Some (StrVal s) \<Rightarrow> Inl (NpNamedPort s)
     | Some (IntVal v) \<Rightarrow>
         if v < 1 \<or> 65535 < v then Inl (NpPortRange v)
         else case npp_EndPort p of
           None \<Rightarrow> Inr \<lparr> port_proto = proto, port_port = of_int v, port_endPort = 0 \<rparr>
         | Some e \<Rightarrow> if e < v \<or> 65535 < e then Inl (NpBadEndPort e)
             else Inr \<lparr> port_proto = proto, port_port = of_int v, port_endPort = of_int e \<rparr>))"

definition np_port_step :: "string \<times> string \<Rightarrow> NetworkPolicyPort \<Rightarrow> npPort list \<times> np_warning list \<Rightarrow> npPort list \<times> np_warning list" where
  "np_port_step policy p = (\<lambda>(out, warns). case np_port_item p of
     Inr item \<Rightarrow> (out @ [item], warns)
   | Inl r \<Rightarrow> (out, case r of
       NpEndPortWithoutPort \<Rightarrow> warns @ [(policy, r)]
     | NpPortRange v \<Rightarrow> warns @ [(policy, r)]
     | _ \<Rightarrow> addCompileWarnings warns [(policy, r)]))"

definition npCompilePorts :: "string \<times> string \<Rightarrow> NetworkPolicyPort list \<Rightarrow> np_warning list \<Rightarrow> npPort list \<times> np_warning list" where
  "npCompilePorts policy ports warns =
     (if ports = [] then ([\<lparr> port_proto = 6, port_port = 0, port_endPort = 0 \<rparr>, \<lparr> port_proto = 17, port_port = 0, port_endPort = 0 \<rparr>], warns)
      else fold (np_port_step policy) ports ([], warns))"

section \<open>Peers\<close>

definition npEntityLabel :: string where "npEntityLabel = ''policy.cozyplane.io/entity''"

definition npEntityPeer :: "NetworkPolicyPeer \<Rightarrow> string option" where
  "npEntityPeer peer = (case npe_NamespaceSelector peer of
     None \<Rightarrow> None
   | Some ns \<Rightarrow>
       if npe_PodSelector peer \<noteq> None \<or> npe_IPBlock peer \<noteq> None then None
       else if ls_MatchExpressions ns \<noteq> [] \<or> length (ls_MatchLabels ns) \<noteq> 1 then None
       else map_of (ls_MatchLabels ns) npEntityLabel)"

text \<open>The identity of an entity, when it is legal in the direction.\<close>

definition npEntityID :: "string \<Rightarrow> u8 \<Rightarrow> u64 option" where
  "npEntityID name dir =
     (if name = ''nodes'' then if dir = NPDirIn then Some NPSrcNodes else None
      else if name = ''local-node'' then if dir = NPDirIn then Some NPSrcLocalNode else None
      else if name = ''local-pods'' then Some NPSrcLocalPods
      else None)"

definition npSelectorWarnings :: "string \<times> string \<Rightarrow> LabelSelector option \<Rightarrow> np_warning list" where
  "npSelectorWarnings policy sel = (case sel of None \<Rightarrow> []
     | Some s \<Rightarrow> map (\<lambda>lbl. (policy, NpFilteredKey lbl))
         (filter npFilteredLabel (map fst (ls_MatchLabels s) @ map fst (ls_MatchExpressions s))))"

text \<open>\<^verbatim>\<open>LabelSelectorAsSelector\<close> of a nil selector matches nothing.\<close>

definition np_selector :: "machinery \<Rightarrow> LabelSelector option \<Rightarrow> ((string \<times> string) list \<Rightarrow> bool) option" where
  "np_selector k sel = (case sel of None \<Rightarrow> Some (\<lambda>_. False)
     | Some s \<Rightarrow> map_option (\<lambda>matches lbls. matches (map_of lbls)) (LabelSelectorAsSelector k s))"

definition np_select :: "np_orders \<Rightarrow> np_registry \<Rightarrow> (identInfo \<Rightarrow> bool) \<Rightarrow> np_state \<times> u64 list \<Rightarrow> np_error + np_state \<times> u64 list" where
  "np_select ords registry P = (\<lambda>(st, ids).
     fold_err (\<lambda>(i, info) (st, ids). case spend st of
         Inl e \<Rightarrow> Inl e
       | Inr st \<Rightarrow> Inr (st, if P info then ids @ [i] else ids))
       (go_range (no_registry ords (st_work st)) registry) (st, ids))"

datatype np_kind =
    PeerIds "u64 list"
  | PeerBad np_reason
  | PeerSelect "identInfo \<Rightarrow> bool"

text \<open>The three cases of an ordinary peer: the pods of the policy's namespace, any pod, the pods of selected namespaces.\<close>

definition np_ordinary_peer :: "machinery \<Rightarrow> (string \<rightharpoonup> (string \<times> string) list) \<Rightarrow> string \<Rightarrow> NetworkPolicyPeer \<Rightarrow> np_kind" where
  "np_ordinary_peer k nsLabels namespace peer = (case npe_NamespaceSelector peer of
     None \<Rightarrow> (case np_selector k (npe_PodSelector peer) of
         None \<Rightarrow> PeerBad NpBadPeerPodSelector
       | Some sel \<Rightarrow> PeerSelect (\<lambda>info. ii_ns info = namespace \<and> sel (ii_lbls info)))
   | Some ns \<Rightarrow>
       if npe_PodSelector peer = None \<and> ls_MatchLabels ns = [] \<and> ls_MatchExpressions ns = [] then PeerIds [NPSrcAnyPod]
       else case np_selector k (Some ns) of
         None \<Rightarrow> PeerBad NpBadPeerNamespaceSelector
       | Some nsSel \<Rightarrow> (case (if npe_PodSelector peer = None then Some (\<lambda>_. True) else np_selector k (npe_PodSelector peer)) of
           None \<Rightarrow> PeerBad NpBadPeerPodSelector
         | Some podSel \<Rightarrow> PeerSelect (\<lambda>info. case nsLabels (ii_ns info) of
             None \<Rightarrow> False | Some nsl \<Rightarrow> nsSel nsl \<and> podSel (ii_lbls info))))"

definition np_peer_kind :: "machinery \<Rightarrow> (string \<rightharpoonup> (string \<times> string) list) \<Rightarrow> string \<Rightarrow> u8 \<Rightarrow> NetworkPolicyPeer \<Rightarrow> np_kind" where
  "np_peer_kind k nsLabels namespace dir peer = (case npEntityPeer peer of
     Some name \<Rightarrow> (case npEntityID name dir of Some i \<Rightarrow> PeerIds [i] | None \<Rightarrow> PeerBad (NpEntityNotServed name dir))
   | None \<Rightarrow> np_ordinary_peer k nsLabels namespace peer)"

definition np_policy_key :: "NetworkPolicy \<Rightarrow> string \<times> string" where
  "np_policy_key np = (np_Namespace np, np_Name np)"

definition np_peer_warnings :: "NetworkPolicy \<Rightarrow> NetworkPolicyPeer \<Rightarrow> np_warning list" where
  "np_peer_warnings np peer = (if npEntityPeer peer \<noteq> None then []
     else npSelectorWarnings (np_policy_key np) (npe_PodSelector peer) @ npSelectorWarnings (np_policy_key np) (npe_NamespaceSelector peer))"

definition np_peer_step :: "machinery \<Rightarrow> np_orders \<Rightarrow> np_registry \<Rightarrow> (string \<rightharpoonup> (string \<times> string) list) \<Rightarrow> NetworkPolicy \<Rightarrow> u8 \<Rightarrow>
    NetworkPolicyPeer \<Rightarrow> (np_state \<times> u64 list) \<times> IPBlock list \<Rightarrow> np_error + (np_state \<times> u64 list) \<times> IPBlock list" where
  "np_peer_step k ords registry nsLabels np dir peer = (\<lambda>((st, ids), blocks). case spend st of
     Inl e \<Rightarrow> Inl e
   | Inr st \<Rightarrow> (case npe_IPBlock peer of
       Some b \<Rightarrow> Inr ((st, ids), blocks @ [b])
     | None \<Rightarrow>
         let st = np_warn (np_peer_warnings np peer) st
         in (case np_peer_kind k nsLabels (np_Namespace np) dir peer of
             PeerIds is \<Rightarrow> Inr ((st, ids @ is), blocks)
           | PeerBad r \<Rightarrow> Inr ((np_warn [(np_policy_key np, r)] st, ids), blocks)
           | PeerSelect P \<Rightarrow> map_sum id (\<lambda>r. (r, blocks)) (np_select ords registry P (st, ids)))))"

definition resolvePeers :: "machinery \<Rightarrow> np_orders \<Rightarrow> np_registry \<Rightarrow> (string \<rightharpoonup> (string \<times> string) list) \<Rightarrow> NetworkPolicy \<Rightarrow>
    NetworkPolicyPeer list \<Rightarrow> u8 \<Rightarrow> np_state \<Rightarrow> np_error + (np_state \<times> u64 list) \<times> IPBlock list" where
  "resolvePeers k ords registry nsLabels np peers dir st =
     fold_err (np_peer_step k ords registry nsLabels np dir) peers ((st, []), [])"

section \<open>Rows\<close>

definition np_expand_port :: "npPort \<Rightarrow> (npPort list \<times> (u16 \<times> u16) list)" where
  "np_expand_port p =
     (if port_endPort p = 0 then ([p], [])
      else if 64 \<le> uint (port_endPort p) - uint (port_port p) then ([], [(port_port p, port_endPort p)])
      else (map (\<lambda>q. \<lparr> port_proto = port_proto p, port_port = of_int q, port_endPort = 0 \<rparr>) [uint (port_port p)..uint (port_endPort p)], []))"

definition expandPorts :: "npPort list \<Rightarrow> npPort list" where
  "expandPorts ports = concat (map (fst \<circ> np_expand_port) ports)"

definition expand_warnings :: "string \<times> string \<Rightarrow> npPort list \<Rightarrow> np_warning list" where
  "expand_warnings policy ports = map (\<lambda>(lo, hi). (policy, NpWideRange lo hi)) (concat (map (snd \<circ> np_expand_port) ports))"

definition np_cidr_of :: "u64 \<Rightarrow> u8 \<Rightarrow> ipnet \<Rightarrow> bool \<Rightarrow> npPort \<Rightarrow> NPCidr" where
  "np_cidr_of self dir net allow p = \<lparr> nc_ID = self, nc_Dir = dir, nc_Proto = port_proto p, nc_Port = port_port p,
     nc_CIDR = Some net, nc_Allow = allow \<rparr>"

definition add_cidr :: "NPCidr \<Rightarrow> np_state \<Rightarrow> np_error + np_state" where
  "add_cidr row st =
     (if npCompileLimit \<le> length (st_cidrs st) then Inl NpCidrBudget
      else case spend st of Inl _ \<Rightarrow> Inl NpCidrBudget | Inr st \<Rightarrow> Inr (st\<lparr>st_cidrs := st_cidrs st @ [row]\<rparr>))"

definition except_step :: "string \<times> string \<Rightarrow> u64 \<Rightarrow> u8 \<Rightarrow> npPort list \<Rightarrow> string \<Rightarrow> np_state \<Rightarrow> np_error + np_state" where
  "except_step policy self dir ports exs st = (case parse_cidr (trim_space exs) of
     None \<Rightarrow> Inr (np_warn [(policy, NpBadExcept exs)] st)
   | Some (_, ex) \<Rightarrow> fold_err add_cidr (map (np_cidr_of self dir ex False) ports) st)"

definition block_step :: "string \<times> string \<Rightarrow> u64 \<Rightarrow> u8 \<Rightarrow> npPort list \<Rightarrow> IPBlock \<Rightarrow> np_state \<Rightarrow> np_error + np_state" where
  "block_step policy self dir ports b st = (case parse_cidr (trim_space (ipb_CIDR b)) of
     None \<Rightarrow> Inr (np_warn [(policy, NpBadCIDR (ipb_CIDR b))] st)
   | Some (_, net) \<Rightarrow> (case fold_err add_cidr (map (np_cidr_of self dir net True) ports) st of
       Inl e \<Rightarrow> Inl e
     | Inr st \<Rightarrow> fold_err (except_step policy self dir ports) (ipb_Except b) st))"

definition compileBlocks :: "string \<times> string \<Rightarrow> IPBlock list \<Rightarrow> u64 \<Rightarrow> u8 \<Rightarrow> npPort list \<Rightarrow> np_state \<Rightarrow> np_error + np_state" where
  "compileBlocks policy blocks self dir ports st =
     (if blocks = [] then Inr st
      else fold_err (block_step policy self dir (expandPorts ports)) blocks (np_warn (expand_warnings policy ports) st))"

definition np_allow_of :: "u8 \<Rightarrow> u64 \<Rightarrow> u64 \<Rightarrow> npPort \<Rightarrow> NPAllow" where
  "np_allow_of dir subject peer p = \<lparr> na_DstID = (if dir = NPDirIn then subject else peer), na_SrcID = (if dir = NPDirIn then peer else subject),
     na_Dir = dir, na_Proto = port_proto p, na_Port = port_port p, na_EndPort = port_endPort p \<rparr>"

definition add_allow :: "NPAllow \<Rightarrow> np_state \<Rightarrow> np_error + np_state" where
  "add_allow row st = (case spend st of
     Inl e \<Rightarrow> Inl e
   | Inr st \<Rightarrow>
       if row \<notin> set (st_allows st) \<and> npCompileLimit \<le> length (st_allows st) then Inl NpRuleRows
       else Inr (st\<lparr>st_allows := (if row \<in> set (st_allows st) then st_allows st else st_allows st @ [row])\<rparr>))"

section \<open>Policies\<close>

text \<open>The rows of one rule for one subject: the product of its peers and ports, then its blocks.\<close>

definition subject_step :: "string \<times> string \<Rightarrow> u8 \<Rightarrow> u64 list \<Rightarrow> IPBlock list \<Rightarrow> npPort list \<Rightarrow> u64 \<Rightarrow> np_state \<Rightarrow> np_error + np_state" where
  "subject_step policy dir peerIDs blocks ports subject st =
     (case fold_err add_allow (concat (map (\<lambda>peer. map (np_allow_of dir subject peer) ports) peerIDs)) st of
        Inl e \<Rightarrow> Inl e
      | Inr st \<Rightarrow> compileBlocks policy blocks subject dir ports st)"

definition rule_step :: "machinery \<Rightarrow> np_orders \<Rightarrow> np_registry \<Rightarrow> (string \<rightharpoonup> (string \<times> string) list) \<Rightarrow> NetworkPolicy \<Rightarrow> u64 list \<Rightarrow> u8 \<Rightarrow>
    NetworkPolicyRule \<Rightarrow> np_state \<Rightarrow> np_error + np_state" where
  "rule_step k ords registry nsLabels np subjects dir rule st =
     (let (ports, warnings) = npCompilePorts (np_policy_key np) (npr_Ports rule) (st_warnings st);
          st = st\<lparr>st_warnings := warnings\<rparr>
      in case (if npr_Peers rule = [] then Inr ((st, [NPSrcAny]), []) else resolvePeers k ords registry nsLabels np (npr_Peers rule) dir st) of
           Inl e \<Rightarrow> Inl e
         | Inr ((st, peerIDs), blocks) \<Rightarrow>
             if ports = [] then Inr st
             else fold_err (subject_step (np_policy_key np) dir peerIDs blocks ports) subjects st)"

definition np_isolation :: "NetworkPolicy \<Rightarrow> bool \<times> bool" where
  "np_isolation np =
     (if np_PolicyTypes np \<noteq> [] then (''Ingress'' \<in> set (np_PolicyTypes np), ''Egress'' \<in> set (np_PolicyTypes np))
      else (True, np_Egress np \<noteq> None))"

definition np_egress_rules :: "NetworkPolicy \<Rightarrow> NetworkPolicyRule list" where
  "np_egress_rules np = (case np_Egress np of None \<Rightarrow> [] | Some rules \<Rightarrow> rules)"

definition np_isolate :: "bool \<times> bool \<Rightarrow> u64 \<Rightarrow> (u64 \<Rightarrow> u32) \<Rightarrow> u64 \<Rightarrow> u32" where
  "np_isolate isolated i flags =
     (let flags = (if fst isolated then flags(i := flags i OR NPIngIsolated) else flags)
      in if snd isolated then flags(i := flags i OR NPEgIsolated) else flags)"

definition policy_step :: "machinery \<Rightarrow> np_orders \<Rightarrow> np_registry \<Rightarrow> (string \<rightharpoonup> (string \<times> string) list) \<Rightarrow> NetworkPolicy \<Rightarrow>
    np_state \<Rightarrow> np_error + np_state" where
  "policy_step k ords registry nsLabels np st = (case np_selector k (Some (np_PodSelector np)) of
     None \<Rightarrow> Inr (np_warn [(np_policy_key np, NpBadPodSelector)] st)
   | Some sel \<Rightarrow>
       (case np_select ords registry (\<lambda>info. ii_ns info = np_Namespace np \<and> sel (ii_lbls info))
           (np_warn (npSelectorWarnings (np_policy_key np) (Some (np_PodSelector np))) st, []) of
          Inl e \<Rightarrow> Inl e
        | Inr (st, subjects) \<Rightarrow>
            let (hasIngress, hasEgress) = np_isolation np;
                st = st\<lparr>st_flags := fold (np_isolate (hasIngress, hasEgress)) subjects (st_flags st)\<rparr>
            in case fold_err (rule_step k ords registry nsLabels np subjects NPDirIn) (if hasIngress then np_Ingress np else []) st of
                 Inl e \<Rightarrow> Inl e
               | Inr st \<Rightarrow> fold_err (rule_step k ords registry nsLabels np subjects NPDirEg) (if hasEgress then np_egress_rules np else []) st))"

section \<open>The preflight\<close>

definition np_selector_work :: "LabelSelector option \<Rightarrow> nat" where
  "np_selector_work sel = (case sel of None \<Rightarrow> 0
     | Some s \<Rightarrow> length (ls_MatchLabels s) + length (ls_MatchExpressions s) + (\<Sum>(_, _, values) \<leftarrow> ls_MatchExpressions s. length values))"

definition np_peers_work :: "NetworkPolicyPeer list \<Rightarrow> nat" where
  "np_peers_work ps = length ps + (\<Sum>p \<leftarrow> ps. np_selector_work (npe_PodSelector p) + np_selector_work (npe_NamespaceSelector p) +
     (case npe_IPBlock p of None \<Rightarrow> 0 | Some b \<Rightarrow> length (ipb_Except b) + 1))"

definition np_rules_work :: "NetworkPolicyRule list \<Rightarrow> nat" where
  "np_rules_work rules = (\<Sum>r \<leftarrow> rules. 1 + length (npr_Ports r) + np_peers_work (npr_Peers r))"

fun add_work :: "nat list \<Rightarrow> nat \<Rightarrow> np_error + nat" where
  "add_work [] work = Inr work"
| "add_work (n # ns) work = (if policyWorkLimit < work + n then Inl NpInputWork else add_work ns (work + n))"

definition npInputWork :: "PolicyPod list \<Rightarrow> Namespace list \<Rightarrow> NetworkPolicy list \<Rightarrow> np_error + nat" where
  "npInputWork pods nss nps = add_work
     (map (\<lambda>p. length (pp_Labels p) + length (pp_PodIPs p)) pods @ map (\<lambda>ns. length (kn_Labels ns)) nss @
      map (\<lambda>np. np_selector_work (Some (np_PodSelector np)) + np_rules_work (np_Ingress np) + np_rules_work (np_egress_rules np)) nps)
     (length pods + length nss + length nps)"

section \<open>Compilation\<close>

record npCompiled =
  npc_idents :: "NPIdent list"
  npc_allows :: "NPAllow list"
  npc_cidrs :: "NPCidr list"
  npc_warnings :: "np_warning list"

definition np_networked :: "PolicyPod \<Rightarrow> bool" where
  "np_networked pod \<longleftrightarrow> \<not> (pp_HostNetwork pod \<or> pp_PodIPs pod = [])"

definition np_info :: "PolicyPod \<Rightarrow> identInfo" where
  "np_info pod = \<lparr> ii_ns = pp_Namespace pod, ii_lbls = npFilterLabels (pp_Labels pod) \<rparr>"

definition np_pod_id :: "(string \<Rightarrow> u8 list) \<Rightarrow> PolicyPod \<Rightarrow> u64" where
  "np_pod_id sha256 pod = npIdentityOf sha256 (pp_Namespace pod) (npFilterLabels (pp_Labels pod))"

definition np_register :: "(string \<Rightarrow> u8 list) \<Rightarrow> PolicyPod list \<Rightarrow> np_registry" where
  "np_register sha256 pods = fold (\<lambda>pod registry. AList.update (np_pod_id sha256 pod) (np_info pod) registry) (filter np_networked pods) []"

definition np_namespace_labels :: "Namespace list \<Rightarrow> string \<rightharpoonup> (string \<times> string) list" where
  "np_namespace_labels nss = foldl (\<lambda>m ns. m(kn_Name ns \<mapsto> kn_Labels ns)) Map.empty nss"

definition ident_step :: "u64 \<times> u32 \<Rightarrow> string \<Rightarrow> string list \<times> NPIdent list \<Rightarrow> np_error + string list \<times> NPIdent list" where
  "ident_step row pip = (\<lambda>(seen, idents). case Netip.parse_ip pip of
     None \<Rightarrow> Inr (seen, idents)
   | Some ip \<Rightarrow>
       if pip \<in> set seen then Inr (seen, idents)
       else if npCompileLimit \<le> length idents then Inl NpIdentRows
       else Inr (pip # seen, idents @ [\<lparr> ni_IP = ip, ni_ID = fst row, ni_Flags = snd row \<rparr>]))"

definition np_ident_rows :: "(string \<Rightarrow> u8 list) \<Rightarrow> (u64 \<Rightarrow> u32) \<Rightarrow> PolicyPod list \<Rightarrow> np_error + string list \<times> NPIdent list" where
  "np_ident_rows sha256 flags pods =
     fold_err (\<lambda>pod. fold_err (ident_step (np_pod_id sha256 pod, flags (np_pod_id sha256 pod))) (pp_PodIPs pod)) pods ([], [])"

definition compileNetworkPolicies :: "machinery \<Rightarrow> (string \<Rightarrow> u8 list) \<Rightarrow> np_orders \<Rightarrow> PolicyPod list \<Rightarrow> Namespace list \<Rightarrow> NetworkPolicy list \<Rightarrow>
    np_error + npCompiled" where
  "compileNetworkPolicies k sha256 ords pods nss nps =
     (if npCompileLimit < length pods \<or> npCompileLimit < length nss \<or> npCompileLimit < length nps then Inl NpObjects
      else case npInputWork pods nss nps of
        Inl e \<Rightarrow> Inl e
      | Inr work \<Rightarrow>
          (case fold_err (policy_step k ords (np_register sha256 pods) (np_namespace_labels nss)) nps
              \<lparr> st_work = work, st_flags = (\<lambda>_. 0), st_allows = [], st_cidrs = [], st_warnings = [] \<rparr> of
             Inl e \<Rightarrow> Inl e
           | Inr st \<Rightarrow> (case np_ident_rows sha256 (st_flags st) (go_range (no_pods ords) (filter np_networked pods)) of
               Inl e \<Rightarrow> Inl e
             | Inr (_, idents) \<Rightarrow> Inr \<lparr> npc_idents = idents, npc_allows = go_range (no_allows ords) (st_allows st),
                 npc_cidrs = st_cidrs st, npc_warnings = st_warnings st \<rparr>)))"

text \<open>The body of \<^verbatim>\<open>resync\<close> on the lists of the informers: a refused compilation arms the guard, any other is applied.\<close>

datatype np_resync_error = NpRefused np_error | NpApply dp_error

definition np_resync :: "(nat \<Rightarrow> range_order) \<Rightarrow> 'w np_objs \<Rightarrow> machinery \<Rightarrow> (string \<Rightarrow> u8 list) \<Rightarrow> np_orders \<Rightarrow> PolicyPod list \<Rightarrow> Namespace list \<Rightarrow>
    NetworkPolicy list \<Rightarrow> 'w \<Rightarrow> np_resync_error option \<times> 'w" where
  "np_resync sync m k sha256 ords pods nss nps w = (case compileNetworkPolicies k sha256 ords pods nss nps of
     Inl e \<Rightarrow> (Some (NpRefused e), snd (BlockNetworkPolicy m w))
   | Inr c \<Rightarrow> (case ApplyNetworkPolicy sync m (npc_idents c) (npc_allows c) (npc_cidrs c) w of
       (None, w) \<Rightarrow> (None, w)
     | (Some e, w) \<Rightarrow> (Some (NpApply e), w)))"

end
