(* ===== verification/NpRows.thy ===== *)
theory NpRows
  imports NpCompile
begin

text \<open>
  What a compilation of NetworkPolicies produces: the sets of rows each step adds, independent of the order in which Go
  ranges over its maps and of the budget, as long as the budget is not exceeded.
\<close>

section \<open>What a step adds\<close>

definition adds :: "np_state \<Rightarrow> NPAllow set \<Rightarrow> NPCidr set \<Rightarrow> np_state \<Rightarrow> bool" where
  "adds st A C st' \<longleftrightarrow> st_flags st' = st_flags st \<and> set (st_allows st') = set (st_allows st) \<union> A \<and>
     set (st_cidrs st') = set (st_cidrs st) \<union> C"

lemma adds_refl [simp]: "adds st {} {} st" by (simp add: adds_def)

lemma adds_trans: "adds st A C st' \<Longrightarrow> adds st' B D st'' \<Longrightarrow> adds st (A \<union> B) (C \<union> D) st''"
  by (auto simp: adds_def)

lemma adds_then: "adds st {} {} st' \<Longrightarrow> adds st' A C st'' \<Longrightarrow> adds st A C st''"
  by (simp add: adds_def)

lemma adds_warned [simp]: "adds (np_warn ws st) A C st' \<longleftrightarrow> adds st A C st'" by (simp add: adds_def np_warn_def)

lemma adds_to_warn [simp]: "adds st A C (np_warn ws st') \<longleftrightarrow> adds st A C st'" by (simp add: adds_def np_warn_def)

lemma adds_warnings [simp]: "adds (st\<lparr>st_warnings := ws\<rparr>) A C st' \<longleftrightarrow> adds st A C st'" by (simp add: adds_def)

lemma adds_spend: "spend st = Inr st' \<Longrightarrow> adds st {} {} st'"
  by (auto simp: spend_def adds_def Let_def split: if_splits)

lemma adds_fold:
  assumes "fold_err f xs a = Inr b" and "\<And>x c d. x \<in> set xs \<Longrightarrow> f x c = Inr d \<Longrightarrow> adds c (A x) (C x) d"
  shows "adds a (\<Union>x \<in> set xs. A x) (\<Union>x \<in> set xs. C x) b"
  using assms
proof (induction xs arbitrary: a)
  case (Cons x xs)
  then obtain c where c: "f x a = Inr c" "fold_err f xs c = Inr b" by (auto split: sum.splits)
  then have "adds a (A x) (C x) c" "adds c (\<Union>x \<in> set xs. A x) (\<Union>x \<in> set xs. C x) b" using Cons by auto
  then show ?case using adds_trans by fastforce
qed simp

section \<open>Peers\<close>

definition np_selected :: "np_registry \<Rightarrow> (identInfo \<Rightarrow> bool) \<Rightarrow> u64 set" where
  "np_selected registry P = {i. \<exists>info. (i, info) \<in> set registry \<and> P info}"

lemma np_select_fold:
  assumes "fold_err (\<lambda>(i, info) (st, ids). case spend st of Inl e \<Rightarrow> Inl e | Inr st \<Rightarrow> Inr (st, if P info then ids @ [i] else ids)) xs (st, ids) = Inr (st', ids')"
  shows "adds st {} {} st' \<and> set ids' = set ids \<union> np_selected xs P"
  using assms
proof (induction xs arbitrary: st ids)
  case (Cons x xs)
  obtain i info where x: "x = (i, info)" by (cases x)
  with Cons.prems obtain st1 where s: "spend st = Inr st1" by (auto split: sum.splits)
  with Cons x have "adds st1 {} {} st' \<and> set ids' = set (if P info then ids @ [i] else ids) \<union> np_selected xs P" by simp
  with adds_spend [OF s] show ?case by (auto simp: x np_selected_def intro: adds_then)
qed (simp add: np_selected_def)

lemma np_select_adds:
  assumes "np_orders_ok ords" "np_select ords registry P (st, ids) = Inr (st', ids')"
  shows "adds st {} {} st' \<and> set ids' = set ids \<union> np_selected registry P"
  using np_select_fold [of P _ st ids st' ids'] assms
  by (simp add: np_select_def np_selected_def np_orders_ok_def set_go_range)

definition np_peer_ids :: "machinery \<Rightarrow> np_registry \<Rightarrow> (string \<rightharpoonup> (string \<times> string) list) \<Rightarrow> string \<Rightarrow> u8 \<Rightarrow> NetworkPolicyPeer \<Rightarrow> u64 set" where
  "np_peer_ids k registry nsLabels namespace dir peer =
     (if npe_IPBlock peer \<noteq> None then {}
      else case np_peer_kind k nsLabels namespace dir peer of
        PeerIds is \<Rightarrow> set is | PeerBad r \<Rightarrow> {} | PeerSelect P \<Rightarrow> np_selected registry P)"

lemma np_peer_step_adds:
  assumes "np_orders_ok ords" "np_peer_step k ords registry nsLabels np dir peer ((st, ids), blocks) = Inr ((st', ids'), blocks')"
  shows "adds st {} {} st' \<and> set ids' = set ids \<union> np_peer_ids k registry nsLabels (np_Namespace np) dir peer \<and>
    set blocks' = set blocks \<union> set_option (npe_IPBlock peer)"
proof -
  obtain st1 where s: "spend st = Inr st1" using assms(2) by (auto simp: np_peer_step_def split: sum.splits)
  note sa = adds_spend [OF s]
  show ?thesis
  proof (cases "npe_IPBlock peer")
    case (Some b)
    with assms(2) s sa show ?thesis by (auto simp: np_peer_step_def np_peer_ids_def)
  next
    case None
    note b = None
    show ?thesis
    proof (cases "np_peer_kind k nsLabels (np_Namespace np) dir peer")
      case (PeerSelect P)
      with assms(2) s b obtain r where
        "np_select ords registry P (np_warn (np_peer_warnings np peer) st1, ids) = Inr (st', ids')" "blocks' = blocks"
        by (cases "np_select ords registry P (np_warn (np_peer_warnings np peer) st1, ids)") (auto simp: np_peer_step_def Let_def)
      with np_select_adds [OF assms(1), of registry P "np_warn (np_peer_warnings np peer) st1" ids st' ids'] sa b PeerSelect show ?thesis
        by (auto simp: np_peer_ids_def intro: adds_then)
    qed (use assms(2) s sa b in \<open>auto simp: np_peer_step_def np_peer_ids_def Let_def intro: adds_then\<close>)
  qed
qed

lemma resolvePeers_adds:
  assumes "np_orders_ok ords" "resolvePeers k ords registry nsLabels np peers dir st = Inr ((st', ids), blocks)"
  shows "adds st {} {} st' \<and> set ids = (\<Union>peer \<in> set peers. np_peer_ids k registry nsLabels (np_Namespace np) dir peer) \<and>
    set blocks = (\<Union>peer \<in> set peers. set_option (npe_IPBlock peer))"
proof -
  have "adds st0 {} {} st' \<and> set ids = set ids0 \<union> (\<Union>peer \<in> set peers. np_peer_ids k registry nsLabels (np_Namespace np) dir peer) \<and>
    set blocks = set blocks0 \<union> (\<Union>peer \<in> set peers. set_option (npe_IPBlock peer))"
    if "fold_err (np_peer_step k ords registry nsLabels np dir) peers ((st0, ids0), blocks0) = Inr ((st', ids), blocks)" for st0 ids0 blocks0
    using that
  proof (induction peers arbitrary: st0 ids0 blocks0)
    case (Cons p ps)
    then obtain r where r: "np_peer_step k ords registry nsLabels np dir p ((st0, ids0), blocks0) = Inr r"
      "fold_err (np_peer_step k ords registry nsLabels np dir) ps r = Inr ((st', ids), blocks)" by (auto split: sum.splits)
    obtain st1 ids1 blocks1 where r': "r = ((st1, ids1), blocks1)" by (metis surj_pair)
    note one = np_peer_step_adds [OF assms(1) r(1) [unfolded r']]
    note rest = Cons.IH [OF r(2) [unfolded r']]
    from one rest show ?case by (auto intro: adds_then)
  qed simp
  from this [of st "[]" "[]"] assms(2) show ?thesis by (simp add: resolvePeers_def)
qed

section \<open>Rows\<close>

lemma add_cidr_adds: "add_cidr row st = Inr st' \<Longrightarrow> adds st {} {row} st'"
  by (auto simp: add_cidr_def adds_def spend_def Let_def split: if_splits sum.splits)

lemma add_cidrs_adds: "fold_err add_cidr rows st = Inr st' \<Longrightarrow> adds st {} (set rows) st'"
  using adds_fold [of add_cidr rows st st' "\<lambda>_. {}" "\<lambda>r. {r}"] add_cidr_adds by auto

definition np_except_rows :: "u64 \<Rightarrow> u8 \<Rightarrow> npPort list \<Rightarrow> string \<Rightarrow> NPCidr set" where
  "np_except_rows self dir ports exs = (case parse_cidr (trim_space exs) of None \<Rightarrow> {}
     | Some (_, ex) \<Rightarrow> np_cidr_of self dir ex False ` set ports)"

definition np_block_rows :: "u64 \<Rightarrow> u8 \<Rightarrow> npPort list \<Rightarrow> IPBlock \<Rightarrow> NPCidr set" where
  "np_block_rows self dir ports b = (case parse_cidr (trim_space (ipb_CIDR b)) of None \<Rightarrow> {}
     | Some (_, net) \<Rightarrow> np_cidr_of self dir net True ` set ports \<union> (\<Union>exs \<in> set (ipb_Except b). np_except_rows self dir ports exs))"

lemma except_step_adds: "except_step policy self dir ports exs st = Inr st' \<Longrightarrow> adds st {} (np_except_rows self dir ports exs) st'"
  using add_cidrs_adds by (fastforce simp: except_step_def np_except_rows_def split: option.splits)

lemma block_step_adds:
  assumes "block_step policy self dir ports b st = Inr st'"
  shows "adds st {} (np_block_rows self dir ports b) st'"
proof (cases "parse_cidr (trim_space (ipb_CIDR b))")
  case None
  with assms show ?thesis by (auto simp: block_step_def np_block_rows_def)
next
  case (Some r)
  obtain net where r: "r = (fst r, net)" by (metis prod.collapse)
  with assms Some obtain st1 where s: "fold_err add_cidr (map (np_cidr_of self dir net True) ports) st = Inr st1"
    "fold_err (except_step policy self dir ports) (ipb_Except b) st1 = Inr st'"
    by (auto simp: block_step_def split: sum.splits prod.splits)
  have "adds st1 {} (\<Union>exs \<in> set (ipb_Except b). np_except_rows self dir ports exs) st'"
    using adds_fold [OF s(2), of "\<lambda>_. {}" "np_except_rows self dir ports"] except_step_adds by auto
  with add_cidrs_adds [OF s(1)] show ?thesis using adds_trans r Some
    by (fastforce simp: np_block_rows_def split: prod.splits)
qed

lemma compileBlocks_adds:
  assumes "compileBlocks policy blocks self dir ports st = Inr st'"
  shows "adds st {} (\<Union>b \<in> set blocks. np_block_rows self dir (expandPorts ports) b) st'"
proof (cases "blocks = []")
  case False
  with assms have "fold_err (block_step policy self dir (expandPorts ports)) blocks (np_warn (expand_warnings policy ports) st) = Inr st'"
    by (simp add: compileBlocks_def)
  from adds_fold [OF this, of "\<lambda>_. {}" "np_block_rows self dir (expandPorts ports)"] block_step_adds show ?thesis by auto
qed (use assms in \<open>simp add: compileBlocks_def\<close>)

lemma add_allow_adds: "add_allow row st = Inr st' \<Longrightarrow> adds st {row} {} st'"
  by (auto simp: add_allow_def adds_def spend_def Let_def split: if_splits sum.splits)

lemma add_allows_adds: "fold_err add_allow rows st = Inr st' \<Longrightarrow> adds st (set rows) {} st'"
  using adds_fold [of add_allow rows st st' "\<lambda>r. {r}" "\<lambda>_. {}"] add_allow_adds by auto

section \<open>Rules and policies\<close>

definition np_rule_ports :: "NetworkPolicyRule \<Rightarrow> npPort list" where
  "np_rule_ports rule = (if npr_Ports rule = []
     then [\<lparr> port_proto = 6, port_port = 0, port_endPort = 0 \<rparr>, \<lparr> port_proto = 17, port_port = 0, port_endPort = 0 \<rparr>]
     else List.map_filter (\<lambda>p. case np_port_item p of Inl _ \<Rightarrow> None | Inr item \<Rightarrow> Some item) (npr_Ports rule))"

lemma fst_npCompilePorts: "fst (npCompilePorts policy (npr_Ports rule) ws) = np_rule_ports rule"
proof -
  have "fst (fold (np_port_step policy) ps (out, ws)) = out @ List.map_filter (\<lambda>p. case np_port_item p of Inl _ \<Rightarrow> None | Inr item \<Rightarrow> Some item) ps"
    for ps out ws
    by (induction ps arbitrary: out ws) (auto simp: np_port_step_def List.map_filter_def split: sum.splits)
  then show ?thesis by (simp add: npCompilePorts_def np_rule_ports_def)
qed

definition np_rule_peers :: "machinery \<Rightarrow> np_registry \<Rightarrow> (string \<rightharpoonup> (string \<times> string) list) \<Rightarrow> string \<Rightarrow> u8 \<Rightarrow> NetworkPolicyRule \<Rightarrow> u64 set" where
  "np_rule_peers k registry nsLabels namespace dir rule = (if npr_Peers rule = [] then {NPSrcAny}
     else \<Union>peer \<in> set (npr_Peers rule). np_peer_ids k registry nsLabels namespace dir peer)"

definition np_rule_blocks :: "NetworkPolicyRule \<Rightarrow> IPBlock set" where
  "np_rule_blocks rule = (\<Union>peer \<in> set (npr_Peers rule). set_option (npe_IPBlock peer))"

definition np_pairs :: "u8 \<Rightarrow> u64 set \<Rightarrow> u64 set \<Rightarrow> npPort set \<Rightarrow> NPAllow set" where
  "np_pairs dir subjects peers ports = (\<Union>s \<in> subjects. \<Union>p \<in> peers. np_allow_of dir s p ` ports)"

definition np_cidr_rows :: "u8 \<Rightarrow> u64 set \<Rightarrow> NetworkPolicyRule \<Rightarrow> NPCidr set" where
  "np_cidr_rows dir subjects rule = (\<Union>s \<in> subjects. \<Union>b \<in> np_rule_blocks rule. np_block_rows s dir (expandPorts (np_rule_ports rule)) b)"

lemma subject_step_adds:
  assumes "subject_step policy dir peerIDs blocks ports subject st = Inr st'"
  shows "adds st (np_pairs dir {subject} (set peerIDs) (set ports)) (\<Union>b \<in> set blocks. np_block_rows subject dir (expandPorts ports) b) st'"
proof -
  obtain st1 where s: "fold_err add_allow (concat (map (\<lambda>peer. map (np_allow_of dir subject peer) ports) peerIDs)) st = Inr st1"
    "compileBlocks policy blocks subject dir ports st1 = Inr st'" using assms by (auto simp: subject_step_def split: sum.splits)
  from adds_trans [OF add_allows_adds [OF s(1)] compileBlocks_adds [OF s(2)]] show ?thesis by (simp add: np_pairs_def)
qed

lemma rule_step_adds:
  assumes "np_orders_ok ords" "rule_step k ords registry nsLabels np subjects dir rule st = Inr st'"
  shows "adds st (np_pairs dir (set subjects) (np_rule_peers k registry nsLabels (np_Namespace np) dir rule) (set (np_rule_ports rule)))
    (np_cidr_rows dir (set subjects) rule) st'"
proof -
  obtain ports ws where p: "npCompilePorts (np_policy_key np) (npr_Ports rule) (st_warnings st) = (ports, ws)" by fastforce
  have ports: "ports = np_rule_ports rule" using fst_npCompilePorts [of "np_policy_key np" rule "st_warnings st"] p by simp
  obtain st1 peerIDs blocks where
    r: "(if npr_Peers rule = [] then Inr ((st\<lparr>st_warnings := ws\<rparr>, [NPSrcAny]), [])
        else resolvePeers k ords registry nsLabels np (npr_Peers rule) dir (st\<lparr>st_warnings := ws\<rparr>)) = Inr ((st1, peerIDs), blocks)"
    and run: "(if ports = [] then Inr st1 else fold_err (subject_step (np_policy_key np) dir peerIDs blocks ports) subjects st1) = Inr st'"
    using assms(2) p by (auto simp: rule_step_def Let_def split: sum.splits prod.splits if_splits)
  have peers: "adds st {} {} st1" "set peerIDs = np_rule_peers k registry nsLabels (np_Namespace np) dir rule" "set blocks = np_rule_blocks rule"
    using r resolvePeers_adds [OF assms(1), of k registry nsLabels np "npr_Peers rule" dir "st\<lparr>st_warnings := ws\<rparr>" st1 peerIDs blocks]
    by (auto simp: np_rule_peers_def np_rule_blocks_def adds_def split: if_splits)
  show ?thesis
  proof (cases "ports = []")
    case True
    with ports have "np_cidr_rows dir (set subjects) rule = {}"
      by (auto simp: np_cidr_rows_def expandPorts_def np_block_rows_def np_except_rows_def split: option.splits)
    with True run peers(1) ports [symmetric] show ?thesis by (simp add: np_pairs_def)
  next
    case False
    with run have "fold_err (subject_step (np_policy_key np) dir peerIDs blocks ports) subjects st1 = Inr st'" by simp
    from adds_fold [OF this, of "\<lambda>s. np_pairs dir {s} (set peerIDs) (set ports)" "\<lambda>s. \<Union>b \<in> set blocks. np_block_rows s dir (expandPorts ports) b"]
    have "adds st1 (np_pairs dir (set subjects) (set peerIDs) (set ports)) (\<Union>s \<in> set subjects. \<Union>b \<in> set blocks. np_block_rows s dir (expandPorts ports) b) st'"
      using subject_step_adds by (simp add: np_pairs_def)
    with peers ports show ?thesis by (simp add: np_cidr_rows_def adds_then)
  qed
qed

definition np_subjects :: "machinery \<Rightarrow> np_registry \<Rightarrow> NetworkPolicy \<Rightarrow> u64 set" where
  "np_subjects k registry np = (case np_selector k (Some (np_PodSelector np)) of None \<Rightarrow> {}
     | Some sel \<Rightarrow> np_selected registry (\<lambda>info. ii_ns info = np_Namespace np \<and> sel (ii_lbls info)))"

definition np_rules :: "NetworkPolicy \<Rightarrow> (u8 \<times> NetworkPolicyRule) set" where
  "np_rules np = (if fst (np_isolation np) then Pair NPDirIn ` set (np_Ingress np) else {}) \<union>
     (if snd (np_isolation np) then Pair NPDirEg ` set (np_egress_rules np) else {})"

definition np_flag :: "NetworkPolicy \<Rightarrow> u32" where
  "np_flag np = (if fst (np_isolation np) then NPIngIsolated else 0) OR (if snd (np_isolation np) then NPEgIsolated else 0)"

lemma np_isolate_fold:
  "fold (np_isolate isolated) ids flags i = (if i \<in> set ids then flags i OR (if fst isolated then NPIngIsolated else 0) OR
     (if snd isolated then NPEgIsolated else 0) else flags i)"
  by (induction ids arbitrary: flags) (auto simp: np_isolate_def Let_def ac_simps or.left_idem)

definition np_policy_allows :: "machinery \<Rightarrow> np_registry \<Rightarrow> (string \<rightharpoonup> (string \<times> string) list) \<Rightarrow> NetworkPolicy \<Rightarrow> NPAllow set" where
  "np_policy_allows k registry nsLabels np = (\<Union>(dir, rule) \<in> np_rules np. np_pairs dir (np_subjects k registry np)
     (np_rule_peers k registry nsLabels (np_Namespace np) dir rule) (set (np_rule_ports rule)))"

definition np_policy_cidrs :: "machinery \<Rightarrow> np_registry \<Rightarrow> NetworkPolicy \<Rightarrow> NPCidr set" where
  "np_policy_cidrs k registry np = (\<Union>(dir, rule) \<in> np_rules np. np_cidr_rows dir (np_subjects k registry np) rule)"

lemma policy_step_adds:
  assumes "np_orders_ok ords" "policy_step k ords registry nsLabels np st = Inr st'"
  shows "st_flags st' = (\<lambda>i. if i \<in> np_subjects k registry np then st_flags st i OR np_flag np else st_flags st i) \<and>
    set (st_allows st') = set (st_allows st) \<union> np_policy_allows k registry nsLabels np \<and>
    set (st_cidrs st') = set (st_cidrs st) \<union> np_policy_cidrs k registry np"
proof (cases "np_selector k (Some (np_PodSelector np))")
  case None
  with assms(2) show ?thesis
    by (auto simp: policy_step_def np_subjects_def np_policy_allows_def np_policy_cidrs_def np_pairs_def np_cidr_rows_def np_warn_def)
next
  case (Some sel)
  define P where "P = (\<lambda>info :: identInfo. ii_ns info = np_Namespace np \<and> sel (ii_lbls info))"
  define st0 where "st0 = np_warn (npSelectorWarnings (np_policy_key np) (Some (np_PodSelector np))) st"
  define ing where "ing = (if fst (np_isolation np) then np_Ingress np else [])"
  define eg where "eg = (if snd (np_isolation np) then np_egress_rules np else [])"
  from assms(2) Some obtain st1 subjects st2 where s: "np_select ords registry P (st0, []) = Inr (st1, subjects)"
    and run: "fold_err (rule_step k ords registry nsLabels np subjects NPDirIn) ing
        (st1\<lparr>st_flags := fold (np_isolate (np_isolation np)) subjects (st_flags st1)\<rparr>) = Inr st2"
      "fold_err (rule_step k ords registry nsLabels np subjects NPDirEg) eg st2 = Inr st'"
    by (auto simp: policy_step_def P_def st0_def ing_def eg_def Let_def split: sum.splits prod.splits)
  have sel: "adds st {} {} st1" "set subjects = np_subjects k registry np"
    using np_select_adds [OF assms(1) s] Some by (simp_all add: st0_def np_subjects_def P_def)
  let ?A = "\<lambda>dir rule. np_pairs dir (set subjects) (np_rule_peers k registry nsLabels (np_Namespace np) dir rule) (set (np_rule_ports rule))"
  let ?C = "\<lambda>dir. np_cidr_rows dir (set subjects)"
  note rows = adds_fold [OF run(1), of "?A NPDirIn" "?C NPDirIn"] adds_fold [OF run(2), of "?A NPDirEg" "?C NPDirEg"]
  have "adds (st1\<lparr>st_flags := fold (np_isolate (np_isolation np)) subjects (st_flags st1)\<rparr>)
      ((\<Union>r \<in> set ing. ?A NPDirIn r) \<union> (\<Union>r \<in> set eg. ?A NPDirEg r)) ((\<Union>r \<in> set ing. ?C NPDirIn r) \<union> (\<Union>r \<in> set eg. ?C NPDirEg r)) st'"
    by (rule adds_trans [OF rows(1) rows(2)]) (auto intro: rule_step_adds [OF assms(1)])
  moreover have "(\<Union>r \<in> set ing. ?A NPDirIn r) \<union> (\<Union>r \<in> set eg. ?A NPDirEg r) = np_policy_allows k registry nsLabels np"
    "(\<Union>r \<in> set ing. ?C NPDirIn r) \<union> (\<Union>r \<in> set eg. ?C NPDirEg r) = np_policy_cidrs k registry np"
    unfolding np_policy_allows_def np_policy_cidrs_def np_rules_def ing_def eg_def sel(2) by auto
  ultimately show ?thesis using sel by (simp add: adds_def fun_eq_iff np_isolate_fold np_flag_def or.assoc)
qed

lemma policies_add:
  assumes "np_orders_ok ords" "fold_err (policy_step k ords registry nsLabels) nps st = Inr st'"
  shows "(\<forall>i g. bit (st_flags st' i) g \<longleftrightarrow> bit (st_flags st i) g \<or> (\<exists>np \<in> set nps. i \<in> np_subjects k registry np \<and> bit (np_flag np) g)) \<and>
    set (st_allows st') = set (st_allows st) \<union> (\<Union>np \<in> set nps. np_policy_allows k registry nsLabels np) \<and>
    set (st_cidrs st') = set (st_cidrs st) \<union> (\<Union>np \<in> set nps. np_policy_cidrs k registry np)"
  using assms(2)
proof (induction nps arbitrary: st)
  case (Cons np nps)
  then obtain st1 where s: "policy_step k ords registry nsLabels np st = Inr st1"
    "fold_err (policy_step k ords registry nsLabels) nps st1 = Inr st'" by (auto split: sum.splits)
  from policy_step_adds [OF assms(1) s(1)] Cons.IH [OF s(2)] show ?case by (auto simp: bit_or_iff)
qed simp

end
