(* ===== verification/NpPolicy.thy ===== *)
theory NpPolicy
  imports NpRows
begin

text \<open>
  What NetworkPolicies mean for a packet, on the API objects themselves, and that the compiled rows say the same. The
  selectors see the labels that are not filtered out of an identity, and a pod is found by the address of the packet.
\<close>

section \<open>The meaning of the objects\<close>

definition np_matches :: "machinery \<Rightarrow> LabelSelector option \<Rightarrow> (string \<rightharpoonup> string) \<Rightarrow> bool" where
  "np_matches k sel lbls = (case sel of None \<Rightarrow> False
     | Some s \<Rightarrow> (case LabelSelectorAsSelector k s of None \<Rightarrow> False | Some matches \<Rightarrow> matches lbls))"

definition np_labels :: "PolicyPod \<Rightarrow> string \<rightharpoonup> string" where
  "np_labels pod = map_of (npFilterLabels (pp_Labels pod))"

definition np_selects :: "machinery \<Rightarrow> NetworkPolicy \<Rightarrow> PolicyPod \<Rightarrow> bool" where
  "np_selects k np pod \<longleftrightarrow> pp_Namespace pod = np_Namespace np \<and> np_matches k (Some (np_PodSelector np)) (np_labels pod)"

definition np_pod_peer :: "machinery \<Rightarrow> Namespace list \<Rightarrow> NetworkPolicy \<Rightarrow> NetworkPolicyPeer \<Rightarrow> PolicyPod \<Rightarrow> bool" where
  "np_pod_peer k nss np peer pod = (case npe_NamespaceSelector peer of
     None \<Rightarrow> pp_Namespace pod = np_Namespace np \<and> np_matches k (npe_PodSelector peer) (np_labels pod)
   | Some ns \<Rightarrow>
       npe_PodSelector peer = None \<and> ls_MatchLabels ns = [] \<and> ls_MatchExpressions ns = [] \<or>
       (\<exists>nsl. np_namespace_labels nss (pp_Namespace pod) = Some nsl \<and> np_matches k (Some ns) (map_of nsl) \<and>
          (npe_PodSelector peer = None \<or> np_matches k (npe_PodSelector peer) (np_labels pod))))"

text \<open>A peer admits the other end of the packet: an entity by what the node knows of the address, a selector by the pod
  that has it.\<close>

definition np_peer_admits :: "machinery \<Rightarrow> np_env \<Rightarrow> Namespace list \<Rightarrow> NetworkPolicy \<Rightarrow> u8 \<Rightarrow> NetworkPolicyPeer \<Rightarrow> u128 \<Rightarrow> PolicyPod option \<Rightarrow> bool" where
  "np_peer_admits k s nss np dir peer x owner \<longleftrightarrow> npe_IPBlock peer = None \<and>
     (case npEntityPeer peer of
        Some name \<Rightarrow> name = ''nodes'' \<and> dir = NPDirIn \<and> e_nodes s x \<noteq> None \<or> name = ''local-pods'' \<and> owner \<noteq> None \<and> e_local0 s x
      | None \<Rightarrow> (\<exists>pod. owner = Some pod \<and> np_pod_peer k nss np peer pod))"

definition np_port_admits :: "u8 \<Rightarrow> u16 \<Rightarrow> NetworkPolicyPort \<Rightarrow> bool" where
  "np_port_admits proto port p \<longleftrightarrow> np_protocol (npp_Protocol p) = Some proto \<and>
     (case npp_Port p of
        None \<Rightarrow> npp_EndPort p = None
      | Some (StrVal _) \<Rightarrow> False
      | Some (IntVal v) \<Rightarrow> 1 \<le> v \<and> v \<le> 65535 \<and>
          (case npp_EndPort p of None \<Rightarrow> uint port = v | Some e \<Rightarrow> e \<le> 65535 \<and> v \<le> uint port \<and> uint port \<le> e))"

definition np_ports_admit :: "u8 \<Rightarrow> u16 \<Rightarrow> NetworkPolicyRule \<Rightarrow> bool" where
  "np_ports_admit proto port rule \<longleftrightarrow>
     (if npr_Ports rule = [] then proto = 6 \<or> proto = 17 else \<exists>p \<in> set (npr_Ports rule). np_port_admits proto port p)"

definition np_rule_allows :: "machinery \<Rightarrow> np_env \<Rightarrow> Namespace list \<Rightarrow> NetworkPolicy \<Rightarrow> u8 \<Rightarrow> NetworkPolicyRule \<Rightarrow> u8 \<Rightarrow> u16 \<Rightarrow> u128 \<Rightarrow>
    PolicyPod option \<Rightarrow> bool" where
  "np_rule_allows k s nss np dir rule proto port x owner \<longleftrightarrow> np_ports_admit proto port rule \<and>
     (npr_Peers rule = [] \<or> (\<exists>peer \<in> set (npr_Peers rule). np_peer_admits k s nss np dir peer x owner))"

text \<open>The ranges the ipBlocks of a pod's policies give for a protocol and port, each an allow or an exception.\<close>

definition np_block_net :: "IPBlock \<Rightarrow> ipnet \<times> bool \<Rightarrow> bool" where
  "np_block_net b = (\<lambda>(net, allow). \<exists>q cidr. parse_cidr (trim_space (ipb_CIDR b)) = Some (q, cidr) \<and>
     (if allow then net = cidr else \<exists>exs \<in> set (ipb_Except b). \<exists>q. parse_cidr (trim_space exs) = Some (q, net)))"

definition np_block_port :: "NetworkPolicyRule \<Rightarrow> u8 \<Rightarrow> u16 \<Rightarrow> bool" where
  "np_block_port rule proto port \<longleftrightarrow> (\<exists>p \<in> set (expandPorts (np_rule_ports rule)). port_proto p = proto \<and> port_port p = port)"

definition np_pod_nets :: "machinery \<Rightarrow> NetworkPolicy list \<Rightarrow> PolicyPod \<Rightarrow> u8 \<Rightarrow> u8 \<Rightarrow> u16 \<Rightarrow> (ipnet \<times> bool) set" where
  "np_pod_nets k nps pod dir proto port = {n. \<exists>np \<in> set nps. np_selects k np pod \<and> (\<exists>rule. (dir, rule) \<in> np_rules np \<and>
     np_block_port rule proto port \<and> (\<exists>b \<in> np_rule_blocks rule. np_block_net b n))}"

definition np_nets_admit :: "(ipnet \<times> bool) set \<Rightarrow> addr \<Rightarrow> bool" where
  "np_nets_admit nets a \<longleftrightarrow> (\<exists>net. (net, True) \<in> nets \<and> cidr_covers (Some net) a \<and>
     (\<forall>(net', _) \<in> nets. cidr_covers (Some net') a \<longrightarrow> cidr_bits (Some net') \<le> cidr_bits (Some net)))"

definition np_blocks_admit :: "machinery \<Rightarrow> NetworkPolicy list \<Rightarrow> PolicyPod \<Rightarrow> u8 \<Rightarrow> u8 \<Rightarrow> u16 \<Rightarrow> addr \<Rightarrow> bool" where
  "np_blocks_admit k nps pod dir proto port a \<longleftrightarrow>
     (if \<exists>(net, _) \<in> np_pod_nets k nps pod dir proto port. cidr_covers (Some net) a
      then np_nets_admit (np_pod_nets k nps pod dir proto port) a else np_nets_admit (np_pod_nets k nps pod dir proto 0) a)"

definition np_ingress_api :: "machinery \<Rightarrow> np_env \<Rightarrow> Namespace list \<Rightarrow> NetworkPolicy list \<Rightarrow> (u128 \<Rightarrow> PolicyPod option) \<Rightarrow> addr \<Rightarrow> np_query \<Rightarrow> bool" where
  "np_ingress_api k s nss nps own a q \<longleftrightarrow> (case own (q_dst q) of
     None \<Rightarrow> True
   | Some pod \<Rightarrow>
       let mine = {np \<in> set nps. np_selects k np pod \<and> fst (np_isolation np)} in
       mine = {} \<or> np_local_node s (q_src q) \<or>
       (\<exists>np \<in> mine. \<exists>rule \<in> set (np_Ingress np). np_rule_allows k s nss np NPDirIn rule (q_proto q) (htons (q_dport q)) (q_src q) (own (q_src q))) \<or>
       np_blocks_admit k nps pod NPDirIn (q_proto q) (htons (q_dport q)) a \<or> np_pin_check s q)"

definition np_egress_api :: "machinery \<Rightarrow> np_env \<Rightarrow> Namespace list \<Rightarrow> NetworkPolicy list \<Rightarrow> (u128 \<Rightarrow> PolicyPod option) \<Rightarrow> addr \<Rightarrow> np_query \<Rightarrow> bool" where
  "np_egress_api k s nss nps own a q \<longleftrightarrow> (case own (q_src q) of
     None \<Rightarrow> True
   | Some pod \<Rightarrow>
       let mine = {np \<in> set nps. np_selects k np pod \<and> snd (np_isolation np)} in
       mine = {} \<or>
       (\<exists>np \<in> mine. \<exists>rule \<in> set (np_egress_rules np). np_rule_allows k s nss np NPDirEg rule (q_proto q) (htons (q_dport q)) (q_dst q) (own (q_dst q))) \<or>
       np_blocks_admit k nps pod NPDirEg (q_proto q) (htons (q_dport q)) a \<or> np_pin_check s q)"

section \<open>Ports\<close>

lemma in_map_filter: "y \<in> set (List.map_filter f xs) \<longleftrightarrow> (\<exists>x \<in> set xs. f x = Some y)"
  by (force simp: List.map_filter_def)

lemma np_rule_ports_iff:
  assumes "npr_Ports rule \<noteq> []"
  shows "item \<in> set (np_rule_ports rule) \<longleftrightarrow> (\<exists>p \<in> set (npr_Ports rule). np_port_item p = Inr item)"
proof -
  have "(case r of Inl _ \<Rightarrow> None | Inr i \<Rightarrow> Some i) = Some item \<longleftrightarrow> r = Inr item" for r :: "np_reason + npPort" by (cases r) auto
  with assms show ?thesis by (simp add: np_rule_ports_def in_map_filter)
qed

lemma np_ports_admit_rows:
  "(\<exists>p \<in> set (np_rule_ports rule). port_proto p = proto \<and> (port_port p = 0 \<or>
      port_port p \<le> port \<and> port \<le> (if port_endPort p = 0 then port_port p else port_endPort p))) \<longleftrightarrow> np_ports_admit proto port rule"
proof -
  have item: "(\<exists>item. np_port_item p = Inr item \<and> port_proto item = proto \<and> (port_port item = 0 \<or>
      port_port item \<le> port \<and> port \<le> (if port_endPort item = 0 then port_port item else port_endPort item))) \<longleftrightarrow> np_port_admits proto port p" for p
  proof -
    have small: "uint (of_int v :: u16) = v" if "1 \<le> v" "v \<le> 65535" for v :: int using that by (simp add: uint_word_of_int)
    have nonzero: "(of_int v :: u16) \<noteq> 0" if "1 \<le> v" "v \<le> 65535" for v :: int
    proof
      assume "(of_int v :: u16) = 0"
      with small [OF that] that show False by simp
    qed
    show ?thesis
      by (auto simp: np_port_item_def np_port_admits_def word_le_def small nonzero split: option.splits IntOrString.splits if_splits)
  qed
  let ?fits = "\<lambda>p. port_proto p = proto \<and> (port_port p = 0 \<or>
    port_port p \<le> port \<and> port \<le> (if port_endPort p = 0 then port_port p else port_endPort p))"
  show ?thesis
  proof (cases "npr_Ports rule = []")
    case False
    then have "(\<exists>p \<in> set (np_rule_ports rule). ?fits p) \<longleftrightarrow> (\<exists>p \<in> set (npr_Ports rule). \<exists>item. np_port_item p = Inr item \<and> ?fits item)"
      using np_rule_ports_iff by blast
    with False item show ?thesis by (simp add: np_ports_admit_def)
  qed (auto simp: np_rule_ports_def np_ports_admit_def)
qed

section \<open>Identities\<close>

text \<open>Two pods with one identity are alike: the same namespace and, but for the filtered ones, the same labels.\<close>

definition np_collision_free :: "(string \<Rightarrow> u8 list) \<Rightarrow> PolicyPod list \<Rightarrow> bool" where
  "np_collision_free sha256 pods \<longleftrightarrow> (\<forall>p \<in> set pods. \<forall>q \<in> set pods. np_networked p \<and> np_networked q \<and>
     np_pod_id sha256 p = np_pod_id sha256 q \<longrightarrow> pp_Namespace p = pp_Namespace q \<and> np_labels p = np_labels q)"

lemma np_pod_id_real: "NPFirstRealID \<le> np_pod_id sha256 pod"
proof -
  have "8 \<le> (if i < 8 then i + 8 else i)" for i :: u64
  proof (cases "i < 8")
    case True
    then have "uint i < 8" by (simp add: word_less_def)
    then have "uint (i + 8) = uint i + 8" by (simp add: uint_word_ariths)
    then show ?thesis using True by (simp add: word_le_def)
  qed simp
  then show ?thesis unfolding np_pod_id_def npIdentityOf_def NPFirstRealID_def Let_def .
qed

lemma np_register_map:
  "map_of (np_register sha256 pods) = foldl (\<lambda>m pod. m(np_pod_id sha256 pod \<mapsto> np_info pod)) Map.empty (filter np_networked pods)"
  "distinct (map fst (np_register sha256 pods))"
proof -
  have "map_of (fold (\<lambda>pod registry. AList.update (np_pod_id sha256 pod) (np_info pod) registry) ps reg) =
      foldl (\<lambda>m pod. m(np_pod_id sha256 pod \<mapsto> np_info pod)) (map_of reg) ps \<and>
      (distinct (map fst reg) \<longrightarrow> distinct (map fst (fold (\<lambda>pod registry. AList.update (np_pod_id sha256 pod) (np_info pod) registry) ps reg)))"
    for ps reg
    by (induction ps arbitrary: reg) (simp_all add: update_conv' distinct_update)
  from this [of "filter np_networked pods" "[]"]
  show "map_of (np_register sha256 pods) = foldl (\<lambda>m pod. m(np_pod_id sha256 pod \<mapsto> np_info pod)) Map.empty (filter np_networked pods)"
    "distinct (map fst (np_register sha256 pods))" by (simp_all add: np_register_def)
qed

lemma np_register_in: "(i, info) \<in> set (np_register sha256 pods) \<longleftrightarrow> map_of (np_register sha256 pods) i = Some info"
  by (simp add: np_register_map(2))

lemma np_registered:
  "map_of (np_register sha256 pods) i = Some info \<Longrightarrow> \<exists>pod \<in> set pods. np_networked pod \<and> np_pod_id sha256 pod = i \<and> np_info pod = info"
  "pod \<in> set pods \<Longrightarrow> np_networked pod \<Longrightarrow> \<exists>info. map_of (np_register sha256 pods) (np_pod_id sha256 pod) = Some info"
proof -
  have "(foldl (\<lambda>m pod. m(np_pod_id sha256 pod \<mapsto> np_info pod)) Map.empty ps i = Some info \<longrightarrow>
      (\<exists>pod \<in> set ps. np_pod_id sha256 pod = i \<and> np_info pod = info)) \<and>
    (pod \<in> set ps \<longrightarrow> (\<exists>info. foldl (\<lambda>m pod. m(np_pod_id sha256 pod \<mapsto> np_info pod)) Map.empty ps (np_pod_id sha256 pod) = Some info))"
    for ps i info pod
    by (induction ps rule: rev_induct) auto
  note folded = this [of "filter np_networked pods"]
  show "map_of (np_register sha256 pods) i = Some info \<Longrightarrow> \<exists>pod \<in> set pods. np_networked pod \<and> np_pod_id sha256 pod = i \<and> np_info pod = info"
    using folded [of i info] by (simp add: np_register_map(1)) blast
  show "pod \<in> set pods \<Longrightarrow> np_networked pod \<Longrightarrow> \<exists>info. map_of (np_register sha256 pods) (np_pod_id sha256 pod) = Some info"
    using folded by (simp add: np_register_map(1))
qed

text \<open>The identities that a condition on namespace and labels selects are those of the pods that satisfy it.\<close>

definition np_by_labels :: "(identInfo \<Rightarrow> bool) \<Rightarrow> bool" where
  "np_by_labels P \<longleftrightarrow> (\<forall>x y. ii_ns x = ii_ns y \<longrightarrow> map_of (ii_lbls x) = map_of (ii_lbls y) \<longrightarrow> P x = P y)"

lemma np_selected_iff:
  assumes "np_collision_free sha256 pods" "pod \<in> set pods" "np_networked pod" "np_by_labels P"
  shows "np_pod_id sha256 pod \<in> np_selected (np_register sha256 pods) P \<longleftrightarrow> P (np_info pod)"
proof -
  obtain info where info: "map_of (np_register sha256 pods) (np_pod_id sha256 pod) = Some info" using np_registered(2) assms(2,3) by blast
  then obtain pod' where p: "pod' \<in> set pods" "np_networked pod'" "np_pod_id sha256 pod' = np_pod_id sha256 pod" "np_info pod' = info"
    using np_registered(1) by blast
  have "pp_Namespace pod' = pp_Namespace pod" "np_labels pod' = np_labels pod"
    using bspec [OF bspec [OF assms(1) [unfolded np_collision_free_def] p(1)] assms(2)] p(2,3) assms(3) by simp_all
  then have "P (np_info pod') = P (np_info pod)" using assms(4) by (simp add: np_by_labels_def np_info_def np_labels_def)
  moreover have "np_pod_id sha256 pod \<in> np_selected (np_register sha256 pods) P \<longleftrightarrow> P info"
    using info unfolding np_selected_def np_register_in by simp
  ultimately show ?thesis using p(4) by simp
qed

lemma np_selected_real: "i \<in> np_selected (np_register sha256 pods) P \<Longrightarrow> NPFirstRealID \<le> i"
proof -
  assume "i \<in> np_selected (np_register sha256 pods) P"
  then obtain info where "map_of (np_register sha256 pods) i = Some info" unfolding np_selected_def np_register_in by blast
  then show ?thesis using np_registered(1) np_pod_id_real by metis
qed

lemma np_subjects_iff:
  assumes "np_collision_free sha256 pods" "pod \<in> set pods" "np_networked pod"
  shows "np_pod_id sha256 pod \<in> np_subjects k (np_register sha256 pods) np \<longleftrightarrow> np_selects k np pod"
proof (cases "LabelSelectorAsSelector k (np_PodSelector np)")
  case (Some sel)
  have "np_by_labels (\<lambda>info. ii_ns info = np_Namespace np \<and> sel (map_of (ii_lbls info)))" by (simp add: np_by_labels_def)
  from np_selected_iff [OF assms this] Some show ?thesis
    by (simp add: np_subjects_def np_selector_def np_selects_def np_matches_def np_info_def np_labels_def)
qed (simp add: np_subjects_def np_selector_def np_selects_def np_matches_def)

section \<open>Peers\<close>

lemma np_selector_matches: "np_selector k sel = Some f \<Longrightarrow> f lbls = np_matches k sel (map_of lbls)"
  by (auto simp: np_selector_def np_matches_def split: option.splits)

lemma np_selector_invalid: "np_selector k sel = None \<Longrightarrow> \<not> np_matches k sel lbls"
  by (auto simp: np_selector_def np_matches_def split: option.splits)

lemma np_ordinary_peer_pod:
  "case np_ordinary_peer k (np_namespace_labels nss) (np_Namespace np) peer of
     PeerIds is \<Rightarrow> is = [NPSrcAnyPod] \<and> (\<forall>pod. np_pod_peer k nss np peer pod)
   | PeerBad _ \<Rightarrow> (\<forall>pod. \<not> np_pod_peer k nss np peer pod)
   | PeerSelect P \<Rightarrow> np_by_labels P \<and> (\<forall>pod. P (np_info pod) = np_pod_peer k nss np peer pod)"
proof (cases "npe_NamespaceSelector peer")
  case None
  then show ?thesis
    by (auto simp: np_ordinary_peer_def np_pod_peer_def np_by_labels_def np_info_def np_labels_def np_selector_matches np_selector_invalid split: option.splits)
next
  case (Some ns)
  show ?thesis
  proof (cases "npe_PodSelector peer = None \<and> ls_MatchLabels ns = [] \<and> ls_MatchExpressions ns = []")
    case True
    with Some have "\<forall>pod. np_pod_peer k nss np peer pod" by (simp add: np_pod_peer_def)
    moreover have "np_ordinary_peer k (np_namespace_labels nss) (np_Namespace np) peer = PeerIds [NPSrcAnyPod]"
      using Some True by (simp add: np_ordinary_peer_def)
    ultimately show ?thesis by (simp only: np_kind.case simp_thms)
  next
    case False
    let ?pod = "if npe_PodSelector peer = None then Some (\<lambda>_. True) else np_selector k (npe_PodSelector peer)"
    have pod: "f lbls \<longleftrightarrow> npe_PodSelector peer = None \<or> np_matches k (npe_PodSelector peer) (map_of lbls)" if "?pod = Some f" for f lbls
      using that by (auto simp: np_selector_matches split: if_splits)
    have bad: "\<not> (npe_PodSelector peer = None \<or> np_matches k (npe_PodSelector peer) lbls)" if "?pod = None" for lbls
      using that by (auto simp: np_selector_invalid split: if_splits)
    have spec: "np_pod_peer k nss np peer p \<longleftrightarrow> (\<exists>nsl. np_namespace_labels nss (pp_Namespace p) = Some nsl \<and>
        np_matches k (Some ns) (map_of nsl) \<and> (npe_PodSelector peer = None \<or> np_matches k (npe_PodSelector peer) (np_labels p)))" for p
      using Some False by (auto simp: np_pod_peer_def)
    show ?thesis
    proof (cases "np_selector k (Some ns)")
      case None
      with Some False have "np_ordinary_peer k (np_namespace_labels nss) (np_Namespace np) peer = PeerBad NpBadPeerNamespaceSelector"
        unfolding np_ordinary_peer_def by simp
      with np_selector_invalid [OF None] show ?thesis by (simp add: spec)
    next
      case sel: (Some nsSel)
      note nsSel = np_selector_matches [OF sel]
      show ?thesis
      proof (cases ?pod)
        case None
        with bad have "\<not> np_pod_peer k nss np peer p" for p by (auto simp: spec)
        moreover have "np_ordinary_peer k (np_namespace_labels nss) (np_Namespace np) peer = PeerBad NpBadPeerPodSelector"
          using Some False sel None unfolding np_ordinary_peer_def by simp
        ultimately show ?thesis by simp
      next
        case f: (Some f)
        have "np_ordinary_peer k (np_namespace_labels nss) (np_Namespace np) peer =
          PeerSelect (\<lambda>info. case np_namespace_labels nss (ii_ns info) of None \<Rightarrow> False | Some nsl \<Rightarrow> nsSel nsl \<and> f (ii_lbls info))"
          using Some False sel f unfolding np_ordinary_peer_def by simp
        then show ?thesis
          by (auto simp: spec nsSel pod [OF f] np_by_labels_def np_info_def np_labels_def split: option.splits)
      qed
    qed
  qed
qed

text \<open>The identities the packet program probes for the other end of a packet.\<close>

definition np_end_ids :: "np_env \<Rightarrow> (string \<Rightarrow> u8 list) \<Rightarrow> u8 \<Rightarrow> u128 \<Rightarrow> PolicyPod option \<Rightarrow> u64 set" where
  "np_end_ids s sha256 dir x owner = {NPSrcAny} \<union> (if dir = NPDirIn \<and> e_nodes s x \<noteq> None then {NPSrcNodes} else {}) \<union>
     (case owner of None \<Rightarrow> {} | Some pod \<Rightarrow> {np_pod_id sha256 pod, NPSrcAnyPod} \<union> (if e_local0 s x then {NPSrcLocalPods} else {}))"

lemma np_real_ids: "NPFirstRealID \<le> i \<Longrightarrow> i \<noteq> NPSrcAny \<and> i \<noteq> NPSrcAnyPod \<and> i \<noteq> NPSrcNodes \<and> i \<noteq> NPSrcLocalPods \<and> i \<noteq> NPSrcLocalNode"
  unfolding NPFirstRealID_def NPSrcLocalNode_def np_consts by (intro conjI notI; simp add: word_le_def)

lemma np_pod_id_ne:
  "np_pod_id sha256 pod \<noteq> NPSrcAny" "np_pod_id sha256 pod \<noteq> NPSrcAnyPod" "np_pod_id sha256 pod \<noteq> NPSrcNodes"
  "np_pod_id sha256 pod \<noteq> NPSrcLocalPods" "np_pod_id sha256 pod \<noteq> NPSrcLocalNode"
  using np_real_ids [OF np_pod_id_real] by blast+

lemma np_entity_admits:
  "(\<exists>i \<in> np_end_ids s sha256 dir x owner. npEntityID name dir = Some i) \<longleftrightarrow>
    name = ''nodes'' \<and> dir = NPDirIn \<and> e_nodes s x \<noteq> None \<or> name = ''local-pods'' \<and> owner \<noteq> None \<and> e_local0 s x"
proof -
  have ids: "NPSrcNodes \<in> np_end_ids s sha256 d x owner \<longleftrightarrow> d = NPDirIn \<and> e_nodes s x \<noteq> None"
    "NPSrcLocalPods \<in> np_end_ids s sha256 d x owner \<longleftrightarrow> owner \<noteq> None \<and> e_local0 s x" "NPSrcLocalNode \<notin> np_end_ids s sha256 d x owner" for d
    using np_pod_id_ne by (auto simp: np_end_ids_def NPSrcLocalNode_def np_consts split: option.splits dest: sym)
  show ?thesis
    by (cases "name = ''nodes''"; cases "name = ''local-node''"; cases "name = ''local-pods''"; cases "dir = NPDirIn"; simp add: npEntityID_def ids)
qed

definition np_owned :: "PolicyPod list \<Rightarrow> PolicyPod option \<Rightarrow> bool" where
  "np_owned pods owner = (case owner of None \<Rightarrow> True | Some pod \<Rightarrow> pod \<in> set pods \<and> np_networked pod)"

lemma np_peer_ids_admit:
  assumes "np_collision_free sha256 pods" and "np_owned pods owner"
  shows "np_end_ids s sha256 dir x owner \<inter> np_peer_ids k (np_register sha256 pods) (np_namespace_labels nss) (np_Namespace np) dir peer \<noteq> {}
    \<longleftrightarrow> np_peer_admits k s nss np dir peer x owner"
proof (cases "npe_IPBlock peer = None")
  case True
  show ?thesis
  proof (cases "npEntityPeer peer")
    case (Some name)
    with True np_entity_admits [of s sha256 dir x owner name] show ?thesis
      by (auto simp: np_peer_ids_def np_peer_kind_def np_peer_admits_def split: option.splits)
  next
    case None
    note entity = None
    note spec = np_ordinary_peer_pod [of k nss np peer]
    show ?thesis
    proof (cases "np_ordinary_peer k (np_namespace_labels nss) (np_Namespace np) peer")
      case (PeerSelect P)
      with spec have P: "np_by_labels P" "P (np_info pod) = np_pod_peer k nss np peer pod" for pod by auto
      have "np_end_ids s sha256 dir x owner \<inter> np_selected (np_register sha256 pods) P = (case owner of None \<Rightarrow> {}
          | Some pod \<Rightarrow> {np_pod_id sha256 pod} \<inter> np_selected (np_register sha256 pods) P)"
        using np_selected_real np_real_ids by (fastforce simp: np_end_ids_def split: option.splits if_splits)
      with True entity PeerSelect assms(2) show ?thesis
        by (cases owner) (simp_all add: np_owned_def np_peer_ids_def np_peer_kind_def np_peer_admits_def np_selected_iff [OF assms(1) _ _ P(1)] P(2))
    qed (use True entity spec in \<open>cases owner; auto simp: np_peer_ids_def np_peer_kind_def np_peer_admits_def np_end_ids_def np_consts\<close>)+
  qed
qed (simp add: np_peer_ids_def np_peer_admits_def)

end
