(* ===== verification/NpEnforced.thy ===== *)
theory NpEnforced
  imports NpPolicy
begin

text \<open>
  From the objects to the packet: the rows of a compilation decide every packet as the NetworkPolicies say, and so does
  the packet program when a resynchronisation reports no error.
\<close>

section \<open>Allow pairs\<close>

lemma np_rule_peers_admit:
  assumes "np_collision_free sha256 pods" and "np_owned pods owner"
  shows "np_end_ids s sha256 dir x owner \<inter> np_rule_peers k (np_register sha256 pods) (np_namespace_labels nss) (np_Namespace np) dir rule \<noteq> {}
    \<longleftrightarrow> npr_Peers rule = [] \<or> (\<exists>peer \<in> set (npr_Peers rule). np_peer_admits k s nss np dir peer x owner)"
proof (cases "npr_Peers rule = []")
  case False
  then have "np_end_ids s sha256 dir x owner \<inter> np_rule_peers k (np_register sha256 pods) (np_namespace_labels nss) (np_Namespace np) dir rule \<noteq> {}
    \<longleftrightarrow> (\<exists>peer \<in> set (npr_Peers rule). np_end_ids s sha256 dir x owner \<inter>
      np_peer_ids k (np_register sha256 pods) (np_namespace_labels nss) (np_Namespace np) dir peer \<noteq> {})"
    by (auto simp: np_rule_peers_def)
  with False show ?thesis by (simp add: np_peer_ids_admit [OF assms])
qed (simp add: np_rule_peers_def np_end_ids_def)

definition np_row_admits :: "NPAllow \<Rightarrow> u8 \<Rightarrow> u8 \<Rightarrow> u64 \<Rightarrow> u64 \<Rightarrow> u16 \<Rightarrow> bool" where
  "np_row_admits r dir proto subject peer port =
     np_rule_admits r dir proto (if dir = NPDirIn then subject else peer) (if dir = NPDirIn then peer else subject) port"

lemma np_row_admits_of:
  "np_row_admits (np_allow_of d s p item) dir proto subject peer port \<longleftrightarrow> d = dir \<and> s = subject \<and> p = peer \<and>
     port_proto item = proto \<and> (port_port item = 0 \<or>
       port_port item \<le> port \<and> port \<le> (if port_endPort item = 0 then port_port item else port_endPort item))"
  by (auto simp: np_row_admits_def np_rule_admits_def np_allow_of_def)

lemma np_pairs_admit:
  "(\<exists>r \<in> np_pairs d subjects peers (set (np_rule_ports rule)). \<exists>i \<in> I. np_row_admits r dir proto subject i port) \<longleftrightarrow>
     d = dir \<and> subject \<in> subjects \<and> I \<inter> peers \<noteq> {} \<and> np_ports_admit proto port rule"
proof -
  have "(\<exists>r \<in> np_pairs d subjects peers (set (np_rule_ports rule)). \<exists>i \<in> I. np_row_admits r dir proto subject i port) \<longleftrightarrow>
     (\<exists>s \<in> subjects. \<exists>p \<in> peers. \<exists>item \<in> set (np_rule_ports rule). \<exists>i \<in> I. np_row_admits (np_allow_of d s p item) dir proto subject i port)"
    by (simp add: np_pairs_def)
  also have "\<dots> \<longleftrightarrow> d = dir \<and> subject \<in> subjects \<and> I \<inter> peers \<noteq> {} \<and> np_ports_admit proto port rule"
    unfolding np_row_admits_of np_ports_admit_rows [symmetric] by blast
  finally show ?thesis .
qed

lemma np_allows_admit:
  assumes "np_collision_free sha256 pods" "pod \<in> set pods" "np_networked pod"
    and "np_owned pods owner"
  shows "(\<exists>r \<in> \<Union>np \<in> set nps. np_policy_allows k (np_register sha256 pods) (np_namespace_labels nss) np.
      \<exists>i \<in> np_end_ids s sha256 dir x owner. np_row_admits r dir proto (np_pod_id sha256 pod) i port) \<longleftrightarrow>
    (\<exists>np \<in> set nps. np_selects k np pod \<and> (\<exists>rule. (dir, rule) \<in> np_rules np \<and> np_rule_allows k s nss np dir rule proto port x owner))"
proof -
  have "(\<exists>r \<in> np_policy_allows k (np_register sha256 pods) (np_namespace_labels nss) np.
      \<exists>i \<in> np_end_ids s sha256 dir x owner. np_row_admits r dir proto (np_pod_id sha256 pod) i port) \<longleftrightarrow>
    np_selects k np pod \<and> (\<exists>rule. (dir, rule) \<in> np_rules np \<and> np_rule_allows k s nss np dir rule proto port x owner)" (is "?l \<longleftrightarrow> _") for np
  proof -
    have "?l \<longleftrightarrow> (\<exists>(d, rule) \<in> np_rules np. \<exists>r \<in> np_pairs d (np_subjects k (np_register sha256 pods) np)
        (np_rule_peers k (np_register sha256 pods) (np_namespace_labels nss) (np_Namespace np) d rule) (set (np_rule_ports rule)).
      \<exists>i \<in> np_end_ids s sha256 dir x owner. np_row_admits r dir proto (np_pod_id sha256 pod) i port)"
      unfolding np_policy_allows_def by fast
    also have "\<dots> \<longleftrightarrow> (\<exists>(d, rule) \<in> np_rules np. d = dir \<and> np_selects k np pod \<and> np_end_ids s sha256 dir x owner \<inter>
        np_rule_peers k (np_register sha256 pods) (np_namespace_labels nss) (np_Namespace np) d rule \<noteq> {} \<and> np_ports_admit proto port rule)"
      unfolding np_pairs_admit np_subjects_iff [OF assms(1-3)] ..
    also have "\<dots> \<longleftrightarrow> np_selects k np pod \<and> (\<exists>rule. (dir, rule) \<in> np_rules np \<and> np_end_ids s sha256 dir x owner \<inter>
        np_rule_peers k (np_register sha256 pods) (np_namespace_labels nss) (np_Namespace np) dir rule \<noteq> {} \<and> np_ports_admit proto port rule)"
      by fast
    also have "\<dots> \<longleftrightarrow> np_selects k np pod \<and> (\<exists>rule. (dir, rule) \<in> np_rules np \<and> np_rule_allows k s nss np dir rule proto port x owner)"
      unfolding np_rule_peers_admit [OF assms(1,4)] np_rule_allows_def by blast
    finally show ?thesis .
  qed
  then show ?thesis unfolding bex_UN by simp
qed

section \<open>ipBlocks\<close>

lemma np_block_rows_iff:
  "e \<in> np_block_rows self dir ports b \<longleftrightarrow> nc_ID e = self \<and> nc_Dir e = dir \<and> (\<exists>p \<in> set ports. port_proto p = nc_Proto e \<and> port_port p = nc_Port e) \<and>
     (\<exists>net. nc_CIDR e = Some net \<and> np_block_net b (net, nc_Allow e))"
proof -
  have row: "e = np_cidr_of self dir net allow p \<longleftrightarrow> nc_ID e = self \<and> nc_Dir e = dir \<and> port_proto p = nc_Proto e \<and> port_port p = nc_Port e \<and>
      nc_CIDR e = Some net \<and> nc_Allow e = allow" for net allow p
    by (cases e) (auto simp: np_cidr_of_def)
  show ?thesis
  proof (cases "parse_cidr (trim_space (ipb_CIDR b))")
    case (Some r)
    obtain q net where r: "r = (q, net)" by (cases r)
    have ex: "e \<in> np_except_rows self dir ports exs \<longleftrightarrow> (\<exists>q ex. parse_cidr (trim_space exs) = Some (q, ex) \<and> e \<in> np_cidr_of self dir ex False ` set ports)" for exs
      by (auto simp: np_except_rows_def split: option.splits)
    have "e \<in> np_block_rows self dir ports b \<longleftrightarrow> (\<exists>p \<in> set ports. e = np_cidr_of self dir net True p) \<or>
        (\<exists>exs \<in> set (ipb_Except b). \<exists>q ex. parse_cidr (trim_space exs) = Some (q, ex) \<and> (\<exists>p \<in> set ports. e = np_cidr_of self dir ex False p))"
      using Some r by (simp add: np_block_rows_def ex image_iff)
    also have "\<dots> \<longleftrightarrow> nc_ID e = self \<and> nc_Dir e = dir \<and> (\<exists>p \<in> set ports. port_proto p = nc_Proto e \<and> port_port p = nc_Port e) \<and>
        (\<exists>n. nc_CIDR e = Some n \<and> np_block_net b (n, nc_Allow e))"
      unfolding row np_block_net_def using Some r by (cases "nc_Allow e") auto
    finally show ?thesis .
  qed (simp add: np_block_rows_def np_block_net_def)
qed

lemma np_policy_cidrs_iff:
  assumes "np_collision_free sha256 pods" "pod \<in> set pods" "np_networked pod"
  shows "(e \<in> (\<Union>np \<in> set nps. np_policy_cidrs k (np_register sha256 pods) np) \<and> nc_ID e = np_pod_id sha256 pod \<and> nc_Dir e = dir \<and>
      nc_Proto e = proto \<and> nc_Port e = port) \<longleftrightarrow>
    nc_ID e = np_pod_id sha256 pod \<and> nc_Dir e = dir \<and> nc_Proto e = proto \<and> nc_Port e = port \<and>
      (\<exists>net. nc_CIDR e = Some net \<and> (net, nc_Allow e) \<in> np_pod_nets k nps pod dir proto port)"
proof -
  have "e \<in> np_policy_cidrs k (np_register sha256 pods) np \<longleftrightarrow> (\<exists>rule. (dir, rule) \<in> np_rules np \<and>
      np_pod_id sha256 pod \<in> np_subjects k (np_register sha256 pods) np \<and>
      (\<exists>b \<in> np_rule_blocks rule. np_block_port rule proto port \<and> (\<exists>net. nc_CIDR e = Some net \<and> np_block_net b (net, nc_Allow e))))"
    if "nc_ID e = np_pod_id sha256 pod" "nc_Dir e = dir" "nc_Proto e = proto" "nc_Port e = port" for np
  proof -
    have "e \<in> np_policy_cidrs k (np_register sha256 pods) np \<longleftrightarrow> (\<exists>d rule. (d, rule) \<in> np_rules np \<and>
        (\<exists>self \<in> np_subjects k (np_register sha256 pods) np. \<exists>b \<in> np_rule_blocks rule. e \<in> np_block_rows self d (expandPorts (np_rule_ports rule)) b))"
      unfolding np_policy_cidrs_def np_cidr_rows_def by fast
    then show ?thesis unfolding np_block_rows_iff np_block_port_def that by blast
  qed
  then show ?thesis unfolding UN_iff np_subjects_iff [OF assms] np_pod_nets_def mem_Collect_eq by blast
qed

lemma np_cidrs_admit:
  assumes "np_collision_free sha256 pods" "pod \<in> set pods" "np_networked pod"
    and "set cidrs = (\<Union>np \<in> set nps. np_policy_cidrs k (np_register sha256 pods) np)"
  shows "np_cidr_admits cidrs (np_pod_id sha256 pod) dir proto port a \<longleftrightarrow> np_blocks_admit k nps pod dir proto port a"
proof -
  let ?nets = "np_pod_nets k nps pod dir proto" and ?hits = "\<lambda>port. np_cidr_hits cidrs (np_pod_id sha256 pod) dir proto port a"
  have hits: "e \<in> set (?hits port) \<longleftrightarrow> nc_ID e = np_pod_id sha256 pod \<and> nc_Dir e = dir \<and> nc_Proto e = proto \<and> nc_Port e = port \<and>
      (\<exists>net. nc_CIDR e = Some net \<and> (net, nc_Allow e) \<in> ?nets port \<and> cidr_covers (Some net) a)" for e port
    using np_policy_cidrs_iff [OF assms(1-3), where e = e and nps = nps and k = k and dir = dir and proto = proto and port = port] unfolding np_cidr_hits_def assms(4) [symmetric] by auto
  have row: "\<lparr> nc_ID = np_pod_id sha256 pod, nc_Dir = dir, nc_Proto = proto, nc_Port = port, nc_CIDR = Some net, nc_Allow = allow \<rparr> \<in> set (?hits port)"
    if "(net, allow) \<in> ?nets port" "cidr_covers (Some net) a" for net allow port using that by (simp add: hits)
  have some: "?hits port \<noteq> [] \<longleftrightarrow> (\<exists>(net, _) \<in> ?nets port. cidr_covers (Some net) a)" for port
    using row hits by (fastforce simp: neq_Nil_conv)
  have verdict: "np_cidr_verdict (?hits port) \<longleftrightarrow> np_nets_admit (?nets port) a" for port
  proof
    assume "np_cidr_verdict (?hits port)"
    then obtain e where e: "e \<in> set (?hits port)" "nc_Allow e" "\<And>e'. e' \<in> set (?hits port) \<Longrightarrow> cidr_bits (nc_CIDR e') \<le> cidr_bits (nc_CIDR e)"
      by (auto simp: longest_allows_def)
    then obtain net where net: "nc_CIDR e = Some net" "(net, True) \<in> ?nets port" "cidr_covers (Some net) a" using hits by auto
    then show "np_nets_admit (?nets port) a" using e(3) [OF row] by (auto simp: np_nets_admit_def)
  next
    assume "np_nets_admit (?nets port) a"
    then obtain net where net: "(net, True) \<in> ?nets port" "cidr_covers (Some net) a"
      "\<And>net' allow. (net', allow) \<in> ?nets port \<Longrightarrow> cidr_covers (Some net') a \<Longrightarrow> cidr_bits (Some net') \<le> cidr_bits (Some net)"
      by (auto simp: np_nets_admit_def)
    then show "np_cidr_verdict (?hits port)"
      unfolding longest_allows_def by (intro bexI [OF _ row [OF net(1,2)]]) (auto simp: hits)
  qed
  show ?thesis by (simp add: np_cidr_admits_def np_blocks_admit_def some verdict)
qed

section \<open>Addresses\<close>

text \<open>The pods that list an address.\<close>

definition np_pods_at :: "PolicyPod list \<Rightarrow> u128 \<Rightarrow> PolicyPod set" where
  "np_pods_at pods x = {pod \<in> set pods. np_networked pod \<and> (\<exists>pip \<in> set (pp_PodIPs pod). addr128Str pip = Inr x)}"

lemma ident_steps:
  assumes "fold_err (ident_step row) pips (seen, idents) = Inr (seen', idents')"
  shows "set seen' = set seen \<union> {pip \<in> set pips. Netip.parse_ip pip \<noteq> None} \<and>
    (\<exists>new. idents' = idents @ new \<and> (\<forall>i \<in> set new. ni_ID i = fst row \<and> ni_Flags i = snd row \<and> (\<exists>pip \<in> set pips. Netip.parse_ip pip = Some (ni_IP i)))
      \<and> (\<forall>pip \<in> set pips. \<forall>ip. Netip.parse_ip pip = Some ip \<longrightarrow> pip \<in> set seen \<or> ip \<in> ni_IP ` set new))"
  using assms
proof (induction pips arbitrary: seen idents)
  case (Cons p ps)
  show ?case
  proof (cases "Netip.parse_ip p = None \<or> p \<in> set seen")
    case True
    with Cons.prems have "fold_err (ident_step row) ps (seen, idents) = Inr (seen', idents')" by (auto simp: ident_step_def [of row p] split: option.splits)
    from Cons.IH [OF this] True show ?thesis by fastforce
  next
    case False
    then obtain ip where ip: "Netip.parse_ip p = Some ip" "p \<notin> set seen" by auto
    define i where "i = \<lparr> ni_IP = ip, ni_ID = fst row, ni_Flags = snd row \<rparr>"
    have "fold_err (ident_step row) ps (p # seen, idents @ [i]) = Inr (seen', idents')"
      using Cons.prems ip by (auto simp: ident_step_def [of row p] i_def split: if_splits)
    note IH = Cons.IH [OF this]
    then obtain new where new: "idents' = (idents @ [i]) @ new"
      "\<forall>i \<in> set new. ni_ID i = fst row \<and> ni_Flags i = snd row \<and> (\<exists>pip \<in> set ps. Netip.parse_ip pip = Some (ni_IP i))"
      "\<forall>pip \<in> set ps. \<forall>ip. Netip.parse_ip pip = Some ip \<longrightarrow> pip \<in> set (p # seen) \<or> ip \<in> ni_IP ` set new" by blast
    have "set seen' = set seen \<union> {pip \<in> set (p # ps). Netip.parse_ip pip \<noteq> None}" using IH ip by auto
    moreover have "\<forall>pip \<in> set (p # ps). \<forall>ip'. Netip.parse_ip pip = Some ip' \<longrightarrow> pip \<in> set seen \<or> ip' \<in> ni_IP ` set (i # new)"
      using new(3) ip by (auto simp: i_def)
    ultimately show ?thesis using new(1,2) ip by (intro conjI exI [of _ "i # new"]) (auto simp: i_def)
  qed
qed simp

definition np_rows_of :: "(string \<Rightarrow> u8 list) \<Rightarrow> (u64 \<Rightarrow> u32) \<Rightarrow> PolicyPod set \<Rightarrow> NPIdent set \<Rightarrow> bool" where
  "np_rows_of sha256 flags pods idents \<longleftrightarrow>
     (\<forall>i \<in> idents. \<exists>pod \<in> pods. ni_ID i = np_pod_id sha256 pod \<and> ni_Flags i = flags (np_pod_id sha256 pod) \<and>
        (\<exists>pip \<in> set (pp_PodIPs pod). Netip.parse_ip pip = Some (ni_IP i))) \<and>
     (\<forall>pod \<in> pods. \<forall>pip \<in> set (pp_PodIPs pod). \<forall>ip. Netip.parse_ip pip = Some ip \<longrightarrow> ip \<in> ni_IP ` idents)"

lemma np_ident_rows_of:
  assumes "np_ident_rows sha256 flags pods = Inr (seen, idents)"
  shows "np_rows_of sha256 flags (set pods) (set idents)"
proof -
  let ?step = "\<lambda>pod. fold_err (ident_step (np_pod_id sha256 pod, flags (np_pod_id sha256 pod))) (pp_PodIPs pod)"
  let ?P = "\<lambda>ps (seen, idents). np_rows_of sha256 flags (set ps) (set idents) \<and>
    (\<forall>pip \<in> set seen. \<forall>ip. Netip.parse_ip pip = Some ip \<longrightarrow> ip \<in> ni_IP ` set idents)"
  have "?P pods (seen, idents)"
  proof (rule fold_err_induct [of ?step pods "([], [])" "(seen, idents)" ?P])
    show "fold_err ?step pods ([], []) = Inr (seen, idents)" using assms by (simp add: np_ident_rows_def)
    show "?P [] ([], [])" by (simp add: np_rows_of_def)
  next
    fix ys pod zs c d
    assume P: "?P ys c" and run: "?step pod c = Inr d"
    obtain s0 i0 s1 i1 where cd: "c = (s0, i0)" "d = (s1, i1)" by (metis surj_pair)
    from ident_steps [OF run [unfolded cd]] obtain new where
      seen: "set s1 = set s0 \<union> {pip \<in> set (pp_PodIPs pod). Netip.parse_ip pip \<noteq> None}" and
      new: "i1 = i0 @ new" "\<forall>i \<in> set new. ni_ID i = np_pod_id sha256 pod \<and> ni_Flags i = flags (np_pod_id sha256 pod) \<and>
        (\<exists>pip \<in> set (pp_PodIPs pod). Netip.parse_ip pip = Some (ni_IP i))"
        "\<forall>pip \<in> set (pp_PodIPs pod). \<forall>ip. Netip.parse_ip pip = Some ip \<longrightarrow> pip \<in> set s0 \<or> ip \<in> ni_IP ` set new" by auto
    have P': "np_rows_of sha256 flags (set ys) (set i0)" "\<And>pip ip. pip \<in> set s0 \<Longrightarrow> Netip.parse_ip pip = Some ip \<Longrightarrow> ip \<in> ni_IP ` set i0"
      using P unfolding cd(1) by auto
    have ips: "ni_IP ` set i1 = ni_IP ` set i0 \<union> ni_IP ` set new" by (simp add: new(1) image_Un)
    have rows: "ip \<in> ni_IP ` set i1" if "pip \<in> set (pp_PodIPs pod)" "Netip.parse_ip pip = Some ip" for pip ip
      unfolding ips using that new(3) P'(2) by blast
    have "np_rows_of sha256 flags (insert pod (set ys)) (set i0 \<union> set new)"
      using P'(1) new(2) rows unfolding np_rows_of_def ips image_Un by (simp only: ball_Un ball_simps bex_simps) blast
    then have "np_rows_of sha256 flags (set (ys @ [pod])) (set i1)" by (simp add: new(1))
    moreover have "\<forall>pip \<in> set s1. \<forall>ip. Netip.parse_ip pip = Some ip \<longrightarrow> ip \<in> ni_IP ` set i1"
      unfolding seen using rows P'(2) ips by blast
    ultimately show "?P (ys @ [pod]) d" by (simp add: cd(2))
  qed
  then show ?thesis by simp
qed

lemma np_ident_of_None: "np_ident_of idents x = None \<longleftrightarrow> (\<forall>i \<in> set idents. addr128 (ni_IP i) \<noteq> Inr x)"
  by (induction idents rule: rev_induct) (auto simp: np_ident_of_def)

lemma np_ident_of_Some:
  "np_ident_of idents x = Some v \<Longrightarrow> \<exists>i \<in> set idents. addr128 (ni_IP i) = Inr x \<and> v = \<lparr>iv_Id = ni_ID i, iv_Flags = ni_Flags i\<rparr>"
  by (induction idents rule: rev_induct) (auto simp: np_ident_of_def split: if_splits)

text \<open>Each address belongs to one of the pods that list it: which one, when there are several, the order of the range
  decides.\<close>

definition np_owners :: "PolicyPod list \<Rightarrow> (u128 \<Rightarrow> PolicyPod option) \<Rightarrow> bool" where
  "np_owners pods own \<longleftrightarrow> (\<forall>x. case own x of None \<Rightarrow> np_pods_at pods x = {} | Some pod \<Rightarrow> pod \<in> np_pods_at pods x)"

lemma np_owners_exist:
  assumes "np_rows_of sha256 flags {pod \<in> set pods. np_networked pod} (set idents)"
  shows "\<exists>own. np_owners pods own \<and> np_ident_of idents =
    (\<lambda>x. map_option (\<lambda>pod. \<lparr>iv_Id = np_pod_id sha256 pod, iv_Flags = flags (np_pod_id sha256 pod)\<rparr>) (own x))"
proof -
  define ok where "ok x o' \<longleftrightarrow> (case o' of None \<Rightarrow> np_pods_at pods x = {} | Some pod \<Rightarrow> pod \<in> np_pods_at pods x) \<and>
      np_ident_of idents x = map_option (\<lambda>pod. \<lparr>iv_Id = np_pod_id sha256 pod, iv_Flags = flags (np_pod_id sha256 pod)\<rparr>) o'" for x o'
  have "\<exists>o'. ok x o'" for x
  proof (cases "np_ident_of idents x")
    case None
    have "np_pods_at pods x = {}"
    proof (rule ccontr)
      assume "np_pods_at pods x \<noteq> {}"
      then obtain pod pip ip where p: "pod \<in> set pods" "np_networked pod" "pip \<in> set (pp_PodIPs pod)" "Netip.parse_ip pip = Some ip" "addr128 ip = Inr x"
        by (auto simp: np_pods_at_def addr128Str_def split: option.splits)
      then have "ip \<in> ni_IP ` set idents" using assms unfolding np_rows_of_def by blast
      with p(5) None np_ident_of_None show False by fastforce
    qed
    with None show ?thesis by (intro exI [of _ None]) (simp add: ok_def)
  next
    case (Some v)
    then obtain i where i: "i \<in> set idents" "addr128 (ni_IP i) = Inr x" "v = \<lparr>iv_Id = ni_ID i, iv_Flags = ni_Flags i\<rparr>" using np_ident_of_Some by blast
    obtain pod pip where p: "pod \<in> set pods" "np_networked pod" "ni_ID i = np_pod_id sha256 pod" "ni_Flags i = flags (np_pod_id sha256 pod)"
      "pip \<in> set (pp_PodIPs pod)" "Netip.parse_ip pip = Some (ni_IP i)"
      using assms i(1) unfolding np_rows_of_def by blast
    have "pod \<in> np_pods_at pods x"
      unfolding np_pods_at_def by (intro CollectI conjI p(1,2) bexI [OF _ p(5)]) (simp add: addr128Str_def p(6) i(2))
    with Some i(3) p(3,4) show ?thesis by (intro exI [of _ "Some pod"]) (simp add: ok_def)
  qed
  then obtain own where "\<forall>x. ok x (own x)" by metis
  then show ?thesis unfolding np_owners_def ok_def by (intro exI [of _ own]) (simp add: fun_eq_iff)
qed

section \<open>The decision\<close>

text \<open>What the tables of a compilation hold.\<close>

definition np_compiled :: "machinery \<Rightarrow> (string \<Rightarrow> u8 list) \<Rightarrow> PolicyPod list \<Rightarrow> Namespace list \<Rightarrow> NetworkPolicy list \<Rightarrow> (u64 \<Rightarrow> u32) \<Rightarrow> npCompiled \<Rightarrow> bool" where
  "np_compiled k sha256 pods nss nps flags c \<longleftrightarrow> np_rows_of sha256 flags {pod \<in> set pods. np_networked pod} (set (npc_idents c)) \<and>
     (\<forall>i g. bit (flags i) g \<longleftrightarrow> (\<exists>np \<in> set nps. i \<in> np_subjects k (np_register sha256 pods) np \<and> bit (np_flag np) g)) \<and>
     set (npc_allows c) = (\<Union>np \<in> set nps. np_policy_allows k (np_register sha256 pods) (np_namespace_labels nss) np) \<and>
     set (npc_cidrs c) = (\<Union>np \<in> set nps. np_policy_cidrs k (np_register sha256 pods) np)"

lemma compileNetworkPolicies_rows:
  assumes "np_orders_ok ords" "compileNetworkPolicies k sha256 ords pods nss nps = Inr c"
  shows "\<exists>flags. np_compiled k sha256 pods nss nps flags c"
proof -
  obtain work st seen idents where
    run: "fold_err (policy_step k ords (np_register sha256 pods) (np_namespace_labels nss)) nps
        \<lparr> st_work = work, st_flags = (\<lambda>_. 0), st_allows = [], st_cidrs = [], st_warnings = [] \<rparr> = Inr st"
    and idents: "np_ident_rows sha256 (st_flags st) (go_range (no_pods ords) (filter np_networked pods)) = Inr (seen, idents)"
    and c: "c = \<lparr> npc_idents = idents, npc_allows = go_range (no_allows ords) (st_allows st), npc_cidrs = st_cidrs st, npc_warnings = st_warnings st \<rparr>"
    using assms(2) by (auto simp: compileNetworkPolicies_def split: if_splits sum.splits)
  have ord: "valid_order (no_pods ords)" "valid_order (no_allows ords)" using assms(1) by (simp_all add: np_orders_ok_def)
  have "np_rows_of sha256 (st_flags st) {pod \<in> set pods. np_networked pod} (set idents)"
    using np_ident_rows_of [OF idents] by (simp add: set_go_range [OF ord(1)] Collect_conj_eq inter_set_filter)
  with policies_add [OF assms(1) run] show ?thesis
    by (intro exI [of _ "st_flags st"]) (simp add: np_compiled_def c set_go_range [OF ord(2)])
qed

lemma np_isolated_iff:
  assumes "np_compiled k sha256 pods nss nps flags c" "np_collision_free sha256 pods" "pod \<in> set pods" "np_networked pod"
  shows "flags (np_pod_id sha256 pod) AND NPIngIsolated = 0 \<longleftrightarrow> {np \<in> set nps. np_selects k np pod \<and> fst (np_isolation np)} = {}"
    "flags (np_pod_id sha256 pod) AND NPEgIsolated = 0 \<longleftrightarrow> {np \<in> set nps. np_selects k np pod \<and> snd (np_isolation np)} = {}"
proof -
  have b: "w AND 1 = 0 \<longleftrightarrow> \<not> bit w 0" "w AND 2 = 0 \<longleftrightarrow> \<not> bit w 1" for w :: u32
    using and_nonzero_iff [of w 1] and_nonzero_iff [of w 2] by (auto simp: bit_1_iff bit_2_iff)
  have f: "bit (np_flag np) 0 \<longleftrightarrow> fst (np_isolation np)" "bit (np_flag np) 1 \<longleftrightarrow> snd (np_isolation np)" for np
    by (simp_all add: np_flag_def np_consts bit_or_iff bit_numeral_rec)
  have "bit (flags (np_pod_id sha256 pod)) g \<longleftrightarrow> (\<exists>np \<in> set nps. np_selects k np pod \<and> bit (np_flag np) g)" for g
    using assms(1) unfolding np_compiled_def np_subjects_iff [OF assms(2-4)] by (simp add: np_subjects_iff [OF assms(2-4)])
  then show "flags (np_pod_id sha256 pod) AND NPIngIsolated = 0 \<longleftrightarrow> {np \<in> set nps. np_selects k np pod \<and> fst (np_isolation np)} = {}"
    "flags (np_pod_id sha256 pod) AND NPEgIsolated = 0 \<longleftrightarrow> {np \<in> set nps. np_selects k np pod \<and> snd (np_isolation np)} = {}"
    by (auto simp: NPIngIsolated_def NPEgIsolated_def b f f [unfolded One_nat_def])
qed

lemma np_end_ids_eq:
  assumes "np_ident_of idents = (\<lambda>x. map_option (\<lambda>pod. \<lparr>iv_Id = np_pod_id sha256 pod, iv_Flags = flags (np_pod_id sha256 pod)\<rparr>) (own x))"
  shows "np_src_peers s idents x = np_end_ids s sha256 NPDirIn x (own x)" "np_dst_peers s idents x = np_end_ids s sha256 NPDirEg x (own x)"
  by (cases "own x"; simp add: np_src_peers_def np_dst_peers_def np_end_ids_def assms NPDirEg_def NPDirIn_def)+

lemma np_owners_ok:
  assumes "np_owners pods own"
  shows "np_owned pods (own x)" "own x = Some pod \<Longrightarrow> pod \<in> set pods \<and> np_networked pod"
  using assms by (auto simp: np_owners_def np_owned_def np_pods_at_def split: option.splits dest!: spec [of _ x])

lemma np_rules_dir: "(NPDirIn, rule) \<in> np_rules np \<longleftrightarrow> fst (np_isolation np) \<and> rule \<in> set (np_Ingress np)"
  "(NPDirEg, rule) \<in> np_rules np \<longleftrightarrow> snd (np_isolation np) \<and> rule \<in> set (np_egress_rules np)"
  by (auto simp: np_rules_def NPDirIn_def NPDirEg_def)

lemma np_compiled_policy:
  assumes c: "np_compiled k sha256 pods nss nps flags c" and free: "np_collision_free sha256 pods" and own: "np_owners pods own"
    and idents: "np_ident_of (npc_idents c) = (\<lambda>x. map_option (\<lambda>pod. \<lparr>iv_Id = np_pod_id sha256 pod, iv_Flags = flags (np_pod_id sha256 pod)\<rparr>) (own x))"
  shows "np_ingress_policy s (npc_idents c) (npc_allows c) (npc_cidrs c) a q = np_ingress_api k s nss nps own a q"
    "np_egress_policy s (npc_idents c) (npc_allows c) (npc_cidrs c) a q = np_egress_api k s nss nps own a q"
proof -
  note rows = c [unfolded np_compiled_def, THEN conjunct2, THEN conjunct2]
  have pairs: "(\<exists>r \<in> set (npc_allows c). \<exists>i \<in> np_end_ids s sha256 dir x (own x). np_row_admits r dir proto (np_pod_id sha256 pod) i port) \<longleftrightarrow>
      (\<exists>np \<in> set nps. np_selects k np pod \<and> (\<exists>rule. (dir, rule) \<in> np_rules np \<and> np_rule_allows k s nss np dir rule proto port x (own x)))"
    if "pod \<in> set pods \<and> np_networked pod" for pod dir x proto port
    using np_allows_admit [OF free _ _ np_owners_ok(1) [OF own, of x], where pod = pod and nps = nps and k = k and nss = nss and s = s and dir = dir and proto = proto and port = port and x = x] that rows by simp
  have blocks: "np_cidr_admits (npc_cidrs c) (np_pod_id sha256 pod) dir proto port a \<longleftrightarrow> np_blocks_admit k nps pod dir proto port a"
    if "pod \<in> set pods \<and> np_networked pod" for pod dir proto port
    using np_cidrs_admit [OF free, where pod = pod and cidrs = "npc_cidrs c" and nps = nps and k = k] that rows by simp
  have row: "np_rule_admits r NPDirIn proto i j port = np_row_admits r NPDirIn proto i j port"
    "np_rule_admits r NPDirEg proto j i port = np_row_admits r NPDirEg proto i j port" for r proto i j port
    by (simp_all add: np_row_admits_def NPDirIn_def NPDirEg_def)
  show "np_ingress_policy s (npc_idents c) (npc_allows c) (npc_cidrs c) a q = np_ingress_api k s nss nps own a q"
  proof (cases "own (q_dst q)")
    case (Some pod)
    note pod = np_owners_ok(2) [OF own Some]
    show ?thesis
      using np_isolated_iff(1) [OF c free] pod Some
      unfolding np_ingress_policy_def np_ingress_api_def np_end_ids_eq [OF idents] row
      by (simp add: idents pairs blocks np_rules_dir Let_def) blast
  qed (simp add: np_ingress_policy_def np_ingress_api_def idents)
  show "np_egress_policy s (npc_idents c) (npc_allows c) (npc_cidrs c) a q = np_egress_api k s nss nps own a q"
  proof (cases "own (q_src q)")
    case (Some pod)
    note pod = np_owners_ok(2) [OF own Some]
    show ?thesis
      using np_isolated_iff(2) [OF c free] pod Some
      unfolding np_egress_policy_def np_egress_api_def np_end_ids_eq [OF idents] row
      by (simp add: idents pairs blocks np_rules_dir Let_def) blast
  qed (simp add: np_egress_policy_def np_egress_api_def idents)
qed

lemma np_compiled_cidrs_ok: "np_compiled k sha256 pods nss nps flags c \<Longrightarrow> np_cidrs_ok (npc_cidrs c)"
  by (auto simp: np_compiled_def np_cidrs_ok_def np_policy_cidrs_def np_cidr_rows_def np_block_rows_iff np_rules_def NPDirIn_def NPDirEg_def split: if_splits)

end
