(* ===== verification/NpIdentity.thy ===== *)
theory NpIdentity
  imports NpPolicy
begin

text \<open>
  Identities: the bytes that \<^verbatim>\<open>npIdentityOf\<close> hashes determine the namespace and the labels of a pod, so that two pods
  share an identity exactly when they are alike, as far as the digest tells different texts apart.
\<close>

definition np_terminated :: "string list \<Rightarrow> string" where
  "np_terminated texts = concat (map (\<lambda>s. s @ [CHR 0x00]) texts)"

definition np_clean :: "string \<Rightarrow> bool" where
  "np_clean s \<longleftrightarrow> CHR 0x00 \<notin> set s"

lemma np_terminated_inj:
  "list_all np_clean xs \<Longrightarrow> list_all np_clean ys \<Longrightarrow> np_terminated xs = np_terminated ys \<Longrightarrow> xs = ys"
proof (induction xs arbitrary: ys)
  case Nil
  then show ?case by (cases ys) (auto simp: np_terminated_def)
next
  case (Cons x xs)
  then obtain y ys' where ys: "ys = y # ys'" by (cases ys) (auto simp: np_terminated_def)
  with Cons.prems have "x @ CHR 0x00 # np_terminated xs = y @ CHR 0x00 # np_terminated ys'" by (simp add: np_terminated_def)
  then have "cut (CHR 0x00) (x @ CHR 0x00 # np_terminated xs) = cut (CHR 0x00) (y @ CHR 0x00 # np_terminated ys')" by simp
  then have "x = y" "np_terminated xs = np_terminated ys'" using Cons.prems(1,2) ys by (simp_all add: np_clean_def)
  with Cons ys show ?case by simp
qed

definition np_fields :: "string \<Rightarrow> (string \<times> string) list \<Rightarrow> string list" where
  "np_fields namespace filtered = namespace # concat (map (\<lambda>lbl. [lbl, the (map_of filtered lbl)]) (sort (map fst filtered)))"

lemma np_encoding_fields: "np_encoding namespace filtered = np_terminated (np_fields namespace filtered)"
proof -
  have "concat (map (\<lambda>lbl. lbl @ [CHR 0x00] @ v lbl @ [CHR 0x00]) ks) = np_terminated (concat (map (\<lambda>lbl. [lbl, v lbl]) ks))" for v :: "string \<Rightarrow> string" and ks
    by (induction ks) (simp_all add: np_terminated_def)
  from this [of "\<lambda>lbl. the (map_of filtered lbl)"] show ?thesis by (simp add: np_encoding_def np_fields_def) (simp add: np_terminated_def)
qed

lemma pairs_inj: "concat (map (\<lambda>k. [k, f k]) ks) = concat (map (\<lambda>k. [k, g k]) ls) \<Longrightarrow> ks = ls \<and> (\<forall>k \<in> set ks. f k = g k)"
proof (induction ks arbitrary: ls)
  case Nil
  then show ?case by (cases ls) auto
next
  case (Cons k ks)
  then show ?case by (cases ls) auto
qed

definition np_clean_pod :: "PolicyPod \<Rightarrow> bool" where
  "np_clean_pod pod \<longleftrightarrow> np_clean (pp_Namespace pod) \<and> distinct (map fst (pp_Labels pod)) \<and>
     (\<forall>(lbl, v) \<in> set (pp_Labels pod). np_clean lbl \<and> np_clean v)"

lemma np_fields_clean: "np_clean_pod pod \<Longrightarrow> list_all np_clean (np_fields (pp_Namespace pod) (npFilterLabels (pp_Labels pod)))"
proof -
  assume c: "np_clean_pod pod"
  let ?f = "npFilterLabels (pp_Labels pod)"
  have "np_clean lbl \<and> np_clean (the (map_of ?f lbl))" if l: "lbl \<in> fst ` set ?f" for lbl
  proof -
    obtain v where v: "map_of ?f lbl = Some v" using l by (cases "map_of ?f lbl") (simp_all add: map_of_eq_None_iff)
    then have "(lbl, v) \<in> set (pp_Labels pod)" by (auto simp: npFilterLabels_def dest: map_of_SomeD)
    with c v show ?thesis by (auto simp: np_clean_pod_def)
  qed
  then show ?thesis using c by (auto simp: np_fields_def list_all_iff np_clean_pod_def)
qed

lemma np_labels_fields:
  assumes "np_clean_pod p" "np_clean_pod q"
  shows "np_fields (pp_Namespace p) (npFilterLabels (pp_Labels p)) = np_fields (pp_Namespace q) (npFilterLabels (pp_Labels q)) \<longleftrightarrow>
    pp_Namespace p = pp_Namespace q \<and> np_labels p = np_labels q"
proof -
  let ?f = "npFilterLabels (pp_Labels p)" and ?g = "npFilterLabels (pp_Labels q)"
  have d: "distinct (map fst ?f)" "distinct (map fst ?g)"
    using assms by (auto simp: np_clean_pod_def npFilterLabels_def intro: distinct_map_filter)
  have keys: "sort (map fst ?f) = sort (map fst ?g) \<longleftrightarrow> dom (map_of ?f) = dom (map_of ?g)"
  proof
    assume "sort (map fst ?f) = sort (map fst ?g)"
    then have "set (sort (map fst ?f)) = set (sort (map fst ?g))" by simp
    then have "set (map fst ?f) = set (map fst ?g)" unfolding set_sort .
    then show "dom (map_of ?f) = dom (map_of ?g)" by (simp add: dom_map_of_conv_image_fst)
  next
    assume "dom (map_of ?f) = dom (map_of ?g)"
    then have "set (map fst ?f) = set (map fst ?g)" by (simp add: dom_map_of_conv_image_fst)
    then show "sort (map fst ?f) = sort (map fst ?g)" by (intro sorted_distinct_set_unique) (simp_all add: d del: set_map)
  qed
  have same: "map_of ?f = map_of ?g" if eq: "dom (map_of ?f) = dom (map_of ?g)" "\<forall>k \<in> dom (map_of ?f). the (map_of ?f k) = the (map_of ?g k)"
  proof
    fix k
    show "map_of ?f k = map_of ?g k"
    proof (cases "k \<in> dom (map_of ?f)")
      case True
      then obtain v where v: "map_of ?f k = Some v" by blast
      have "k \<in> dom (map_of ?g)" using True unfolding eq(1) .
      then obtain w where w: "map_of ?g k = Some w" by blast
      from bspec [OF eq(2) True] v w show ?thesis by simp
    next
      case False
      moreover have "k \<notin> dom (map_of ?g)" using False unfolding eq(1) .
      ultimately show ?thesis unfolding domIff by simp
    qed
  qed
  have dom: "set (sort (map fst ?f)) = dom (map_of ?f)" unfolding set_sort by (simp add: dom_map_of_conv_image_fst)
  show ?thesis
  proof
    assume "np_fields (pp_Namespace p) ?f = np_fields (pp_Namespace q) ?g"
    then have ns: "pp_Namespace p = pp_Namespace q" and rest: "concat (map (\<lambda>k. [k, the (map_of ?f k)]) (sort (map fst ?f))) =
        concat (map (\<lambda>k. [k, the (map_of ?g k)]) (sort (map fst ?g)))" unfolding np_fields_def by blast+
    note eq = pairs_inj [OF rest]
    have "map_of ?f = map_of ?g" using eq unfolding keys dom by (intro same) blast+
    with ns show "pp_Namespace p = pp_Namespace q \<and> np_labels p = np_labels q" unfolding np_labels_def by blast
  next
    assume eq: "pp_Namespace p = pp_Namespace q \<and> np_labels p = np_labels q"
    then have m: "map_of ?f = map_of ?g" unfolding np_labels_def by blast
    then have "sort (map fst ?f) = sort (map fst ?g)" unfolding keys by (rule arg_cong)
    with eq m show "np_fields (pp_Namespace p) ?f = np_fields (pp_Namespace q) ?g" unfolding np_fields_def by (simp only: simp_thms)
  qed
qed

text \<open>The identity that a hashed text gives.\<close>

definition np_text_id :: "(string \<Rightarrow> u8 list) \<Rightarrow> string \<Rightarrow> u64" where
  "np_text_id sha256 hashed = (let i = be_u64 (take 8 (sha256 hashed)) in if i < NPFirstRealID then i + NPFirstRealID else i)"

definition np_text :: "PolicyPod \<Rightarrow> string" where
  "np_text pod = np_encoding (pp_Namespace pod) (npFilterLabels (pp_Labels pod))"

lemma np_pod_id_text: "np_pod_id sha256 pod = np_text_id sha256 (np_text pod)"
  unfolding np_pod_id_def npIdentityOf_def np_text_id_def np_text_def ..

lemma np_text_inj:
  assumes "np_clean_pod p" "np_clean_pod q"
  shows "np_text p = np_text q \<longleftrightarrow> pp_Namespace p = pp_Namespace q \<and> np_labels p = np_labels q"
proof -
  have "np_text p = np_text q \<longleftrightarrow> np_fields (pp_Namespace p) (npFilterLabels (pp_Labels p)) = np_fields (pp_Namespace q) (npFilterLabels (pp_Labels q))"
    unfolding np_text_def np_encoding_fields by (auto intro: np_terminated_inj [OF np_fields_clean np_fields_clean] assms)
  then show ?thesis unfolding np_labels_fields [OF assms] .
qed

text \<open>
  (C16) Identities are exact: two pods have one identity exactly when they have the same namespace and the same labels,
  filtered ones aside. Names and labels have no NUL byte, as the API server ensures; the first eight bytes of the digest
  tell the hashed texts of these pods apart.
\<close>

theorem np_identity_exact:
  assumes "np_clean_pod p" "np_clean_pod q" and "inj_on (np_text_id sha256) {np_text p, np_text q}"
  shows "np_pod_id sha256 p = np_pod_id sha256 q \<longleftrightarrow> pp_Namespace p = pp_Namespace q \<and> np_labels p = np_labels q"
proof -
  have "np_pod_id sha256 p = np_pod_id sha256 q \<longleftrightarrow> np_text p = np_text q"
    unfolding np_pod_id_text by (rule inj_on_eq_iff [OF assms(3)]) simp_all
  then show ?thesis unfolding np_text_inj [OF assms(1,2)] .
qed

end
