(* ===== verification/NpReference.thy ===== *)
theory NpReference
  imports NpEnforced NpIdentity
begin

text \<open>
  NetworkPolicy from the API objects to the packet, on the reference kernel: the property, a cluster of two pods and one
  policy on which it is applied, and what the compilation does where the documentation promises something else.
\<close>

section \<open>A cluster\<close>

text \<open>Selectors by their \<^verbatim>\<open>matchLabels\<close>, and a digest that tells the pods of the examples apart.\<close>

definition np_kit :: machinery where
  "np_kit = \<lparr> IsDNS1123Subdomain = (\<lambda>_. True), IsDNS1123Label = (\<lambda>_. True),
     LabelSelectorAsSelector = (\<lambda>s. Some (\<lambda>lbls. \<forall>(name, v) \<in> set (ls_MatchLabels s). lbls name = Some v)) \<rparr>"

definition np_digest :: "string \<Rightarrow> u8 list" where
  "np_digest s = [1, 0, 0, 0, 0, 0, 0, of_nat (length s)]"

definition np_pod :: "(string \<times> string) list \<Rightarrow> string \<Rightarrow> PolicyPod" where
  "np_pod labels ip = \<lparr> pp_Namespace = ''a'', pp_Labels = labels, pp_HostNetwork = False, pp_PodIPs = [ip] \<rparr>"

definition np_sel :: "(string \<times> string) list \<Rightarrow> LabelSelector" where
  "np_sel labels = \<lparr> ls_MatchLabels = labels, ls_MatchExpressions = [] \<rparr>"

definition np_web :: PolicyPod where "np_web = np_pod [(''app'', ''web''), (''job-name'', ''x'')] ''10.0.0.1''"
definition np_client :: PolicyPod where "np_client = np_pod [(''app'', ''client'')] ''10.0.0.2''"

definition np_example :: NetworkPolicy where
  "np_example = \<lparr> np_Namespace = ''a'', np_Name = ''web'', np_PodSelector = np_sel [(''app'', ''web'')], np_PolicyTypes = [],
     np_Ingress = [\<lparr> npr_Ports = [\<lparr> npp_Protocol = None, npp_Port = Some (IntVal 80), npp_EndPort = None \<rparr>],
       npr_Peers = [\<lparr> npe_PodSelector = Some (np_sel [(''app'', ''client'')]), npe_NamespaceSelector = None, npe_IPBlock = None \<rparr>] \<rparr>],
     np_Egress = None \<rparr>"

definition np_plain :: np_orders where
  "np_plain = \<lparr> no_registry = plain_order, no_pods = plain_order 0, no_allows = plain_order 0 \<rparr>"

definition np_example_rows :: npCompiled where
  "np_example_rows = \<lparr> npc_idents = [\<lparr> ni_IP = v4_in_v6_prefix @ [10, 0, 0, 1], ni_ID = 0x010000000000000A, ni_Flags = 1 \<rparr>,
       \<lparr> ni_IP = v4_in_v6_prefix @ [10, 0, 0, 2], ni_ID = 0x010000000000000D, ni_Flags = 0 \<rparr>],
     npc_allows = [\<lparr> na_DstID = 0x010000000000000A, na_SrcID = 0x010000000000000D, na_Dir = 0, na_Proto = 6, na_Port = 80, na_EndPort = 0 \<rparr>],
     npc_cidrs = [], npc_warnings = [] \<rparr>"

lemmas np_example_defs = np_kit_def np_pod_def np_sel_def np_web_def np_client_def np_example_def

lemma go_range_plain [simp]: "go_range (plain_order i) xs = xs"
  by (simp add: go_range_def plain_order_def map_nth)

lemma np_example_ids: "np_pod_id np_digest np_web = 0x010000000000000A" "np_pod_id np_digest np_client = 0x010000000000000D"
  by (simp_all add: np_pod_id_def npIdentityOf_def np_encoding_def npFilterLabels_def npFilteredLabel_def has_prefix_def be_u64_def
      NPFirstRealID_def np_digest_def np_example_defs Let_def)

lemma np_example_registry: "np_register np_digest [np_web, np_client] =
    [(0x010000000000000A, \<lparr> ii_ns = ''a'', ii_lbls = [(''app'', ''web'')] \<rparr>), (0x010000000000000D, \<lparr> ii_ns = ''a'', ii_lbls = [(''app'', ''client'')] \<rparr>)]"
proof -
  have "np_networked np_web" "np_networked np_client" by (simp_all add: np_networked_def np_example_defs)
  moreover have "np_info np_web = \<lparr> ii_ns = ''a'', ii_lbls = [(''app'', ''web'')] \<rparr>" "np_info np_client = \<lparr> ii_ns = ''a'', ii_lbls = [(''app'', ''client'')] \<rparr>"
    by (simp_all add: np_info_def npFilterLabels_def npFilteredLabel_def has_prefix_def np_example_defs)
  ultimately show ?thesis by (simp add: np_register_def np_example_ids)
qed

lemma np_example_work: "npInputWork [np_web, np_client] [] [np_example] = Inr 13"
  by (simp add: npInputWork_def np_selector_work_def np_rules_work_def np_peers_work_def np_egress_rules_def policyWorkLimit_def np_example_defs)

lemma np_example_policy:
  "policy_step np_kit np_plain (np_register np_digest [np_web, np_client]) m np_example
     \<lparr> st_work = 13, st_flags = (\<lambda>_. 0), st_allows = [], st_cidrs = [], st_warnings = [] \<rparr> =
   Inr \<lparr> st_work = 19, st_flags = (\<lambda>_. 0)(0x010000000000000A := 1), st_allows = npc_allows np_example_rows, st_cidrs = [], st_warnings = [] \<rparr>"
  unfolding np_example_registry
  by (simp add: policy_step_def np_selector_def np_select_def np_plain_def spend_def npCompileWorkLimit_def np_warn_def
      npSelectorWarnings_def np_isolation_def np_isolate_def rule_step_def npCompilePorts_def np_port_step_def np_port_item_def np_protocol_def
      resolvePeers_def np_peer_step_def np_peer_kind_def npEntityPeer_def np_ordinary_peer_def np_peer_warnings_def subject_step_def np_allow_of_def
      add_allow_def npCompileLimit_def compileBlocks_def np_egress_rules_def np_example_rows_def npFilteredLabel_def has_prefix_def
      np_consts np_example_defs Let_def)

lemma np_example_ips: "Netip.parse_ip ''10.0.0.1'' = Some (v4_in_v6_prefix @ [10, 0, 0, 1])" "Netip.parse_ip ''10.0.0.2'' = Some (v4_in_v6_prefix @ [10, 0, 0, 2])"
  by (simp_all add: net_eval)

lemma np_example_compiled: "compileNetworkPolicies np_kit np_digest np_plain [np_web, np_client] [] [np_example] = Inr np_example_rows"
proof -
  have pods: "filter np_networked [np_web, np_client] = [np_web, np_client]" by (simp add: np_networked_def np_example_defs)
  have "pp_PodIPs np_web = [''10.0.0.1'']" "pp_PodIPs np_client = [''10.0.0.2'']" by (simp_all add: np_example_defs)
  then have "np_ident_rows np_digest ((\<lambda>_. 0)(0x010000000000000A := 1)) [np_web, np_client] = Inr ([''10.0.0.2'', ''10.0.0.1''], npc_idents np_example_rows)"
    by (simp add: np_ident_rows_def np_example_ids ident_step_def np_example_ips npCompileLimit_def np_example_rows_def)
  then show ?thesis
    using np_example_policy [of "np_namespace_labels []"]
    by (simp only: compileNetworkPolicies_def np_example_work pods) (simp add: np_plain_def npCompileLimit_def np_example_rows_def)
qed

lemma np_example_ports: "npPortPrefixes 80 80 = [\<lparr>pp_port = 80, pp_bits = 16\<rparr>]"
proof -
  have "block_size 80 80 1 = 1" by (simp add: block_size.simps Let_def)
  moreover have "halvings 1 = 0" by (simp add: halvings.simps)
  ultimately have "port_blocks 80 80 = \<lparr>pp_port = 80, pp_bits = 16\<rparr> # port_blocks 81 80"
    by (subst port_blocks.simps) (simp add: Let_def)
  then show ?thesis by (simp add: npPortPrefixes_def port_blocks_empty)
qed

lemma np_example_runs:
  "\<exists>w'. np_resync plain_order (np_maps (Pair None)) np_kit np_digest np_plain [np_web, np_client] [] [np_example] (np_demo_world []) = (None, w')"
proof -
  let ?m = "np_maps (Pair None)"
  have "\<exists>w. fold_err (np_ident_row ?m) (npc_idents np_example_rows) [] = Inr w"
    by (simp add: np_example_rows_def np_ident_row_def addr128_def ip_to4_def v4_in_v6_prefix_def putDesired_def np_maps_def alist_ops_def)
  moreover have "\<exists>w. fold_err (np_allow_rows ?m) (npc_allows np_example_rows) [] = Inr w"
    by (simp add: np_example_rows_def np_allow_rows_def np_allow_range_def np_example_ports putDesired_def np_maps_def alist_ops_def)
  moreover have "\<exists>w. fold_err (np_cidr_row ?m) (npc_cidrs np_example_rows) [] = Inr w" by (simp add: np_example_rows_def)
  ultimately obtain wi wa wc where "fold_err (np_ident_row ?m) (npc_idents np_example_rows) [] = Inr wi"
    "fold_err (np_allow_rows ?m) (npc_allows np_example_rows) [] = Inr wa" "fold_err (np_cidr_row ?m) (npc_cidrs np_example_rows) [] = Inr wc" by blast
  from triple_total [OF np_sure.apply_total [OF _ this, of plain_order], of "np_demo_world []"]
  obtain w' where "ApplyNetworkPolicy plain_order ?m (npc_idents np_example_rows) (npc_allows np_example_rows) (npc_cidrs np_example_rows) (np_demo_world []) = (None, w')"
    by (auto simp: np_demo_world_def np_consts)
  then show ?thesis by (simp add: np_resync_def np_example_compiled)
qed

lemma np_resync_applies:
  assumes "np_resync sync m k sha256 ords pods nss nps w = (None, w')"
  shows "\<exists>c. compileNetworkPolicies k sha256 ords pods nss nps = Inr c \<and> ApplyNetworkPolicy sync m (npc_idents c) (npc_allows c) (npc_cidrs c) w = (None, w')"
  using assms by (auto simp: np_resync_def split: sum.splits prod.splits option.splits)

definition np_example_query :: "u16 \<Rightarrow> np_query" where
  "np_example_query port = \<lparr>q_src = nat64_prefix + 0x0a000002, q_dst = nat64_prefix + 0x0a000001, q_dport = htons port, q_sport = 0,
     q_proto = 6, q_family = 4\<rparr>"

lemma np_example_packet: "packet_addr (Addr4 0x0a000002) (q_family (np_example_query port)) (q_src (np_example_query port))"
  by (simp add: packet_addr_def np_example_query_def addr128_as16_v4 addr_family_def is4_def del: as16.simps)

lemma np_example_owners:
  assumes "np_owners [np_web, np_client] own"
  shows "own (nat64_prefix + 0x0a000001) = Some np_web" "own (nat64_prefix + 0x0a000002) = Some np_client"
proof -
  have "addr128Str ''10.0.0.1'' = Inr (nat64_prefix + 0x0a000001)" "addr128Str ''10.0.0.2'' = Inr (nat64_prefix + 0x0a000002)"
    by (simp_all add: addr128Str_def np_example_ips addr128_def ip_to4_def v4_in_v6_prefix_def be_nat_def)
  then have "np_pods_at [np_web, np_client] (nat64_prefix + 0x0a000001) = {np_web}" "np_pods_at [np_web, np_client] (nat64_prefix + 0x0a000002) = {np_client}"
    by (auto simp: np_pods_at_def np_networked_def np_example_defs)
  then show "own (nat64_prefix + 0x0a000001) = Some np_web" "own (nat64_prefix + 0x0a000002) = Some np_client"
    using assms [unfolded np_owners_def, rule_format, of "nat64_prefix + 0x0a000001"] assms [unfolded np_owners_def, rule_format, of "nat64_prefix + 0x0a000002"]
    by (auto split: option.splits)
qed

lemma np_example_api:
  assumes "np_owners [np_web, np_client] own"
  shows "np_ingress_api np_kit (np_demo_env w) [] [np_example] own a (np_example_query port) \<longleftrightarrow> port = 80"
proof -
  have labels: "np_labels np_web = [''app'' \<mapsto> ''web'']" "np_labels np_client = [''app'' \<mapsto> ''client'']"
    by (simp_all add: np_labels_def npFilterLabels_def npFilteredLabel_def has_prefix_def np_example_defs)
  have selects: "np_selects np_kit np_example np_web"
    unfolding np_selects_def labels np_matches_def by (simp add: np_example_defs)
  have iso: "fst (np_isolation np_example)" by (simp add: np_isolation_def np_example_def)
  define rule where "rule = hd (np_Ingress np_example)"
  have rule: "np_Ingress np_example = [rule]" "np_rule_blocks rule = {}" "npr_Peers rule \<noteq> []"
    by (simp_all add: rule_def np_rule_blocks_def np_example_defs)
  have "uint port = 80 \<longleftrightarrow> port = 80" by (simp add: word_uint_eq_iff)
  then have port: "np_ports_admit 6 port rule \<longleftrightarrow> port = 80"
    by (simp add: rule_def np_ports_admit_def np_port_admits_def np_protocol_def np_example_defs)
  have peer: "\<exists>peer \<in> set (npr_Peers rule). np_peer_admits np_kit s [] np_example NPDirIn peer x (Some np_client)" for s x
    unfolding rule_def np_peer_admits_def np_pod_peer_def np_matches_def labels
    by (simp add: np_example_def npEntityPeer_def) (simp add: np_example_defs labels [unfolded np_example_defs])
  have "\<not> np_blocks_admit np_kit [np_example] np_web NPDirIn 6 port a"
    using rule(1,2) by (simp add: np_blocks_admit_def np_pod_nets_def np_rules_dir np_nets_admit_def)
  with rule port peer selects iso show ?thesis
    by (simp add: np_ingress_api_def np_example_query_def np_example_owners [OF assms] np_rule_allows_def np_demo_env) blast
qed

section \<open>Properties\<close>



text \<open>A pod's policies admit an address through an ipBlock in the sense of the Kubernetes API: some rule of one of them
  admits the port and has a block that contains the address and none of whose exceptions does.\<close>

definition np_block_contains :: "IPBlock \<Rightarrow> addr \<Rightarrow> bool" where
  "np_block_contains b a \<longleftrightarrow> (\<exists>net. np_block_net b (net, True) \<and> cidr_covers (Some net) a) \<and>
     \<not> (\<exists>net. np_block_net b (net, False) \<and> cidr_covers (Some net) a)"

definition np_union_admits :: "machinery \<Rightarrow> NetworkPolicy list \<Rightarrow> PolicyPod \<Rightarrow> u8 \<Rightarrow> u8 \<Rightarrow> u16 \<Rightarrow> addr \<Rightarrow> bool" where
  "np_union_admits k nps pod dir proto port a \<longleftrightarrow> (\<exists>np \<in> set nps. np_selects k np pod \<and> (\<exists>rule. (dir, rule) \<in> np_rules np \<and>
     np_ports_admit proto port rule \<and> (\<exists>b \<in> np_rule_blocks rule. np_block_contains b a)))"

text \<open>What the API server checks of a block: its exceptions are longer prefixes than its range.\<close>

definition np_block_valid :: "IPBlock \<Rightarrow> bool" where
  "np_block_valid b \<longleftrightarrow> (\<forall>net ex. np_block_net b (net, True) \<longrightarrow> np_block_net b (ex, False) \<longrightarrow> cidr_bits (Some net) < cidr_bits (Some ex))"

lemma np_rule_ports_ok:
  assumes "item \<in> set (np_rule_ports rule)"
  shows "port_endPort item = 0 \<or> port_port item \<noteq> 0"
proof (cases "npr_Ports rule = []")
  case False
  with assms obtain p where p: "np_port_item p = Inr item" using np_rule_ports_iff by blast
  have "(of_int v :: u16) \<noteq> 0" if "1 \<le> v" "v \<le> 65535" for v :: int using that by (simp add: word_uint_eq_iff uint_word_of_int)
  with p show ?thesis by (auto simp: np_port_item_def split: option.splits IntOrString.splits if_splits)
qed (use assms in \<open>auto simp: np_rule_ports_def\<close>)

lemma np_block_port_admits:
  assumes "np_block_port rule proto port'" "port' = port \<or> port' = 0"
  shows "np_ports_admit proto port rule"
proof -
  obtain item p where i: "item \<in> set (np_rule_ports rule)" "p \<in> set (fst (np_expand_port item))" "port_proto p = proto" "port_port p = port'"
    using assms(1) by (auto simp: np_block_port_def expandPorts_def)
  show ?thesis unfolding np_ports_admit_rows [symmetric]
  proof (intro bexI [OF _ i(1)])
    show "port_proto item = proto \<and> (port_port item = 0 \<or> port_port item \<le> port \<and> port \<le> (if port_endPort item = 0 then port_port item else port_endPort item))"
    proof (cases "port_endPort item = 0")
      case True
      with i assms(2) show ?thesis by (auto simp: np_expand_port_def)
    next
      case False
      then obtain v where v: "uint (port_port item) \<le> v" "v \<le> uint (port_endPort item)" "p = \<lparr> port_proto = port_proto item, port_port = of_int v, port_endPort = 0 \<rparr>"
        using i(2) by (auto simp: np_expand_port_def split: if_splits)
      have "0 \<le> v" using uint_ge_0 v(1) by (rule order_trans)
      moreover have "v < 65536" using v(2) uint_bounded [of "port_endPort item"] by simp
      ultimately have "uint (of_int v :: u16) = v" by (simp add: unsigned_of_int take_bit_int_eq_self)
      moreover have "uint (port_port item) \<noteq> 0" using np_rule_ports_ok [OF i(1)] False by (simp add: word_uint_eq_iff)
      ultimately have "uint port' = v" "port' \<noteq> 0" using v i(4) uint_ge_0 [of "port_port item"] by auto
      then show ?thesis using assms(2) v i(3) False by (auto simp: word_le_def)
    qed
  qed
qed


section \<open>Where the union of policies is lost\<close>

definition np_block_policy :: "string list \<Rightarrow> NetworkPolicy" where
  "np_block_policy excepts = np_example\<lparr> np_Ingress := [\<lparr> npr_Ports = [], npr_Peers = [\<lparr> npe_PodSelector = None, npe_NamespaceSelector = None,
     npe_IPBlock = Some \<lparr> ipb_CIDR = ''10.0.0.0/8'', ipb_Except = excepts \<rparr> \<rparr>] \<rparr>] \<rparr>"

lemma np_block_policy_nets:
  "\<exists>q. parse_cidr ''10.0.0.0/8'' = Some (q, the (v4_net [10, 0, 0, 0] 8))" "\<exists>q. parse_cidr ''10.1.0.0/16'' = Some (q, the (v4_net [10, 1, 0, 0] 16))"
  "trim_space ''10.0.0.0/8'' = ''10.0.0.0/8''" "trim_space ''10.1.0.0/16'' = ''10.1.0.0/16''"
  by (simp_all add: net_eval v4_net_def cidr_mask_def upt_rec trim_space_def is_space_def)

lemma np_block_policy_pod: "np_selects np_kit (np_block_policy excepts) np_web" "np_rules (np_block_policy excepts) = {(NPDirIn, hd (np_Ingress (np_block_policy excepts)))}"
  by (simp_all add: np_selects_def np_matches_def np_labels_def npFilterLabels_def npFilteredLabel_def has_prefix_def np_rules_def np_isolation_def
      np_block_policy_def np_example_defs)

lemma np_block_policy_rule:
  "np_rule_blocks (hd (np_Ingress (np_block_policy excepts))) = {\<lparr> ipb_CIDR = ''10.0.0.0/8'', ipb_Except = excepts \<rparr>}"
  "np_ports_admit 6 port (hd (np_Ingress (np_block_policy excepts)))"
  "np_block_port (hd (np_Ingress (np_block_policy excepts))) 6 port \<longleftrightarrow> port = 0"
  by (auto simp: np_rule_blocks_def np_block_policy_def np_ports_admit_def np_block_port_def np_rule_ports_def expandPorts_def np_expand_port_def)

lemma np_block_policy_net:
  "np_block_net \<lparr> ipb_CIDR = ''10.0.0.0/8'', ipb_Except = [] \<rparr> n \<longleftrightarrow> n = (the (v4_net [10, 0, 0, 0] 8), True)"
  "np_block_net \<lparr> ipb_CIDR = ''10.0.0.0/8'', ipb_Except = [''10.1.0.0/16''] \<rparr> n \<longleftrightarrow>
     n = (the (v4_net [10, 0, 0, 0] 8), True) \<or> n = (the (v4_net [10, 1, 0, 0] 16), False)"
  using np_block_policy_nets(1,2) by (cases n; auto simp: np_block_net_def np_block_policy_nets(3,4))+

lemma np_block_policy_covers:
  "cidr_covers (Some (the (v4_net [10, 0, 0, 0] 8))) (Addr4 0x0a010001)" "cidr_covers (Some (the (v4_net [10, 1, 0, 0] 16))) (Addr4 0x0a010001)"
  "cidr_bits (Some (the (v4_net [10, 0, 0, 0] 8))) = 8" "cidr_bits (Some (the (v4_net [10, 1, 0, 0] 16))) = 16"
proof -
  have e: "Some (the (v4_net ip n)) = v4_net ip n" for ip n by (simp add: v4_net_def)
  show "cidr_covers (Some (the (v4_net [10, 0, 0, 0] 8))) (Addr4 0x0a010001)" "cidr_covers (Some (the (v4_net [10, 1, 0, 0] 16))) (Addr4 0x0a010001)"
    "cidr_bits (Some (the (v4_net [10, 0, 0, 0] 8))) = 8" "cidr_bits (Some (the (v4_net [10, 1, 0, 0] 16))) = 16"
    by (simp_all add: e v4_net_cidr be_nat_def top_bits_def)
qed



text \<open>Two pods of one Job template, told apart only by a filtered label.\<close>

definition np_retry :: PolicyPod where "np_retry = np_pod [(''app'', ''web''), (''job-name'', ''y'')] ''10.0.0.3''"

theorem np_identity_exact_witness: "np_pod_id np_digest np_web = np_pod_id np_digest np_retry"
proof -
  have clean: "np_clean_pod np_web" "np_clean_pod np_retry" by (simp_all add: np_clean_pod_def np_clean_def np_retry_def np_example_defs)
  have "np_labels np_web = np_labels np_retry" "pp_Namespace np_web = pp_Namespace np_retry" "np_text np_web = np_text np_retry"
    by (simp_all add: np_labels_def np_text_def npFilterLabels_def npFilteredLabel_def has_prefix_def np_retry_def np_example_defs)
  then show ?thesis using np_identity_exact [OF clean, of np_digest] by simp
qed

section \<open>Where two pods list one address\<close>

text \<open>A Pod that has finished keeps its address in its status while the address is given to another.\<close>

definition np_finished :: PolicyPod where "np_finished = np_pod [(''app'', ''batch'')] ''10.0.0.1''"

definition np_deny :: NetworkPolicy where "np_deny = np_example\<lparr> np_Ingress := [] \<rparr>"

definition np_backwards :: np_orders where
  "np_backwards = np_plain\<lparr> no_pods := (\<lambda>n. rev [0..<n]) \<rparr>"

definition np_shared :: "np_orders \<Rightarrow> np_error + npCompiled" where
  "np_shared ords = compileNetworkPolicies np_kit np_digest ords [np_finished, np_web] [] [np_deny]"

lemma np_shared_registry:
  "np_register np_digest [np_finished, np_web] =
    [(0x010000000000000C, \<lparr> ii_ns = ''a'', ii_lbls = [(''app'', ''batch'')] \<rparr>), (0x010000000000000A, \<lparr> ii_ns = ''a'', ii_lbls = [(''app'', ''web'')] \<rparr>)]"
  "np_pod_id np_digest np_finished = 0x010000000000000C"
proof -
  have "np_networked np_web" "np_networked np_finished" by (simp_all add: np_networked_def np_finished_def np_example_defs)
  moreover have "np_info np_web = \<lparr> ii_ns = ''a'', ii_lbls = [(''app'', ''web'')] \<rparr>" "np_info np_finished = \<lparr> ii_ns = ''a'', ii_lbls = [(''app'', ''batch'')] \<rparr>"
    by (simp_all add: np_info_def npFilterLabels_def npFilteredLabel_def has_prefix_def np_finished_def np_example_defs)
  moreover show f: "np_pod_id np_digest np_finished = 0x010000000000000C"
    by (simp add: np_pod_id_def npIdentityOf_def np_encoding_def npFilterLabels_def npFilteredLabel_def has_prefix_def be_u64_def
      NPFirstRealID_def np_digest_def np_finished_def np_example_defs Let_def)
  ultimately show "np_register np_digest [np_finished, np_web] =
    [(0x010000000000000C, \<lparr> ii_ns = ''a'', ii_lbls = [(''app'', ''batch'')] \<rparr>), (0x010000000000000A, \<lparr> ii_ns = ''a'', ii_lbls = [(''app'', ''web'')] \<rparr>)]"
    by (simp add: np_register_def np_example_ids)
qed

lemma np_shared_policy:
  assumes "no_registry ords = plain_order"
  shows "policy_step np_kit ords (np_register np_digest [np_finished, np_web]) m np_deny
     \<lparr> st_work = work, st_flags = (\<lambda>_. 0), st_allows = [], st_cidrs = [], st_warnings = [] \<rparr> =
   (if work < 1048575 then Inr \<lparr> st_work = work + 2, st_flags = (\<lambda>_. 0)(0x010000000000000A := 1), st_allows = [], st_cidrs = [], st_warnings = [] \<rparr>
    else Inl NpWork)"
  unfolding np_shared_registry
  by (simp add: assms policy_step_def np_selector_def np_select_def spend_def npCompileWorkLimit_def np_warn_def
      npSelectorWarnings_def np_isolation_def np_isolate_def npFilteredLabel_def has_prefix_def np_deny_def np_consts np_example_defs Let_def)

lemma np_shared_work: "npInputWork [np_finished, np_web] [] [np_deny] = Inr 9"
  by (simp add: npInputWork_def np_selector_work_def np_rules_work_def np_egress_rules_def policyWorkLimit_def np_deny_def np_finished_def np_example_defs)

lemma np_shared_rows:
  assumes "no_registry ords = plain_order" "go_range (no_pods ords) [np_finished, np_web] = [p, q]" "(p, q) = (np_finished, np_web) \<or> (p, q) = (np_web, np_finished)"
  shows "\<exists>c. np_shared ords = Inr c \<and> npc_idents c = [\<lparr> ni_IP = v4_in_v6_prefix @ [10, 0, 0, 1], ni_ID = np_pod_id np_digest p,
    ni_Flags = (if p = np_web then NPIngIsolated else 0) \<rparr>]"
proof -
  have pods: "filter np_networked [np_finished, np_web] = [np_finished, np_web]" by (simp add: np_networked_def np_finished_def np_example_defs)
  have ips: "pp_PodIPs np_web = [''10.0.0.1'']" "pp_PodIPs np_finished = [''10.0.0.1'']" by (simp_all add: np_finished_def np_example_defs)
  have ne: "np_finished \<noteq> np_web" by (simp add: np_finished_def np_example_defs)
  have "np_ident_rows np_digest ((\<lambda>_. 0)(0x010000000000000A := 1)) [p, q] = Inr ([''10.0.0.1''], [\<lparr> ni_IP = v4_in_v6_prefix @ [10, 0, 0, 1],
      ni_ID = np_pod_id np_digest p, ni_Flags = (if p = np_web then NPIngIsolated else 0) \<rparr>])"
    using assms(3) by (auto simp: np_ident_rows_def np_example_ids np_shared_registry(2) ident_step_def ips np_example_ips npCompileLimit_def ne NPIngIsolated_def)
  then show ?thesis
    using np_shared_policy [OF assms(1), of "np_namespace_labels []" 9]
    by (simp only: np_shared_def compileNetworkPolicies_def np_shared_work pods assms(2)) (simp add: npCompileLimit_def)
qed


end
