(* ===== verification/SgRegistry.thy ===== *)
theory SgRegistry
  imports ApiStrategy
begin

text \<open>
  Admission of security groups, \<^verbatim>\<open>pkg/registry/sdn/securitygroup/strategy.go\<close>: the spec of every stored group is
  well formed, its VPC never changes, and its identifier is pending or one of the 62 that the datapath knows.
\<close>

section \<open>Specs\<close>

definition validateRulePorts :: "SecurityGroupPort list \<Rightarrow> path \<Rightarrow> field_error list" where
  "validateRulePorts ports p = first_errors (\<lambda>i port.
     if sgpt_Protocol port \<noteq> ''TCP'' \<and> sgpt_Protocol port \<noteq> ''UDP''
     then [Invalid (child (index p i) [''protocol'']) ''must be TCP or UDP'']
     else if sgpt_Port port < 0 \<or> 65535 < sgpt_Port port
     then [Invalid (child (index p i) [''port'']) ''must be 0-65535''] else []) 0 ports"

text \<open>The stricter check of ports that the package declares and no caller uses.\<close>

definition sg_validatePorts :: "SecurityGroupPort list \<Rightarrow> path \<Rightarrow> field_error list" where
  "sg_validatePorts ports p = all_errors (\<lambda>i port.
     (if sgpt_Protocol port \<noteq> ''TCP'' \<and> sgpt_Protocol port \<noteq> ''UDP''
      then [NotSupported (child (index p i) [''protocol'']) [''TCP'', ''UDP'']] else []) @
     (if sgpt_Port port < 1 \<or> 65535 < sgpt_Port port
      then [Invalid (child (index p i) [''port'']) ''must be between 1 and 65535''] else [])) 0 ports"

definition peer_cidr_errors :: "string \<Rightarrow> path \<Rightarrow> field_error list" where
  "peer_cidr_errors cidr p =
     (if cidr = [] then []
      else if 64 < length cidr then [Invalid (child p [''cidr'']) ''must contain at most 64 bytes'']
      else if parse_cidr cidr = None then [Invalid (child p [''cidr'']) ''not a valid CIDR''] else [])"

definition peer_vpc_errors :: "machinery \<Rightarrow> SecurityGroupPeer \<Rightarrow> path \<Rightarrow> bool \<Rightarrow> field_error list" where
  "peer_vpc_errors k peer p unchanged =
     (case sgp_VPC peer of
        None \<Rightarrow> []
      | Some vpc \<Rightarrow>
          if vr_Namespace vpc = [] \<or> vr_Name vpc = []
          then [Invalid (child p [''vpc'']) ''peer vpc ref needs both namespace and name'']
          else if sgp_Group peer = []
          then [Required (child p [''group'']) ''a peer-VPC reference must name a group'']
          else if unchanged then []
          else if \<not> NamespaceName k (vr_Namespace vpc)
          then [Invalid (child p [''vpc'', ''namespace'']) ''must be a DNS label namespace of at most 63 bytes'']
          else ReferenceErrors k (vr_Name vpc) (child p [''vpc'', ''name'']) True)"

definition validateRulePeer :: "machinery \<Rightarrow> SecurityGroupPeer \<Rightarrow> path \<Rightarrow> bool \<Rightarrow> field_error list" where
  "validateRulePeer k peer p unchanged =
     (let hasGroup = sgp_Group peer \<noteq> []; hasCIDR = sgp_CIDR peer \<noteq> []
      in if hasGroup \<and> hasCIDR then [Invalid p ''set exactly one of group or cidr'']
         else if \<not> hasGroup \<and> \<not> hasCIDR then [Required p ''one of group or cidr is required'']
         else or_else (if hasGroup \<and> \<not> unchanged then ReferenceErrors k (sgp_Group peer) (child p [''group'']) True else [])
           (or_else (peer_cidr_errors (sgp_CIDR peer) p) (peer_vpc_errors k peer p unchanged)))"

definition sg_rule_errors ::
    "machinery \<Rightarrow> path \<Rightarrow> string \<Rightarrow> bool \<Rightarrow> SecurityGroupPeer \<Rightarrow> SecurityGroupPort list \<Rightarrow> field_error list" where
  "sg_rule_errors k rp field unchanged peer ports =
     or_else (validateRulePorts ports (child rp [''ports''])) (validateRulePeer k peer (child rp [field]) unchanged)"

definition validateSecurityGroup :: "machinery \<Rightarrow> SecurityGroup \<Rightarrow> bool \<Rightarrow> field_error list" where
  "validateSecurityGroup k sg unchanged =
     (let spec = sgo_Spec sg; specPath = newPath [''spec'']; name = lvr_Name (sgs_VPCRef spec)
      in or_else (if unchanged then [] else ReferenceErrors k name (child specPath [''vpcRef'', ''name'']) True)
         (or_else (if LabelSelectorAsSelector k (sgs_PodSelector spec) = None
                   then [Invalid (child specPath [''podSelector'']) ''must be a valid label selector''] else [])
         (or_else (if name = [] then [Required (child specPath [''vpcRef'', ''name'']) ''the local VPC name is required''] else [])
         (or_else (first_errors (\<lambda>i r. sg_rule_errors k (index (child specPath [''ingress'']) i) ''from'' unchanged (sgr_From r) (sgr_Ports r))
                     0 (sgs_Ingress spec))
                  (first_errors (\<lambda>i r. sg_rule_errors k (index (child specPath [''egress'']) i) ''to'' unchanged (sge_To r) (sge_Ports r))
                     0 (sgs_Egress spec))))))"

section \<open>The strategy\<close>

definition SecurityGroupStatus_zero :: SecurityGroupStatus where
  "SecurityGroupStatus_zero = \<lparr> sgst_ID = 0, sgst_Phase = [], sgst_Conditions = [] \<rparr>"

definition sg_PrepareForCreate :: "SecurityGroup \<Rightarrow> SecurityGroup" where
  "sg_PrepareForCreate sg = sg \<lparr> sgo_Status := SecurityGroupStatus_zero \<rparr>"

definition sg_PrepareForUpdate :: "SecurityGroup \<Rightarrow> SecurityGroup \<Rightarrow> SecurityGroup" where
  "sg_PrepareForUpdate newSG oldSG = newSG \<lparr> sgo_Status := sgo_Status oldSG \<rparr>"

definition sg_Validate :: "machinery \<Rightarrow> authorizer option \<Rightarrow> request_ctx \<Rightarrow> SecurityGroup \<Rightarrow> field_error list" where
  "sg_Validate k auth ctx sg =
     validateSecurityGroup k sg False @ opt_error (CheckManaged ctx auth ''securitygroups'' (sgo_meta sg) None)"

definition sg_ValidateUpdate ::
    "machinery \<Rightarrow> authorizer option \<Rightarrow> request_ctx \<Rightarrow> SecurityGroup \<Rightarrow> SecurityGroup \<Rightarrow> field_error list" where
  "sg_ValidateUpdate k auth ctx newSG oldSG =
     validateSecurityGroup k newSG (sgo_Spec newSG = sgo_Spec oldSG) @
     opt_error (CheckManaged ctx auth ''securitygroups'' (sgo_meta newSG) (Some (sgo_meta oldSG))) @
     (if sgs_VPCRef (sgo_Spec newSG) \<noteq> sgs_VPCRef (sgo_Spec oldSG)
      then [Forbidden (newPath [''spec'', ''vpcRef'']) ''vpcRef is immutable''] else [])"

definition sgStatus_PrepareForUpdate :: "SecurityGroup \<Rightarrow> SecurityGroup \<Rightarrow> SecurityGroup" where
  "sgStatus_PrepareForUpdate newSG oldSG =
     newSG \<lparr> sgo_Spec := sgo_Spec oldSG, sgo_meta := PreserveManager (sgo_meta newSG) (sgo_meta oldSG) \<rparr>"

definition sgStatus_ValidateUpdate :: "SecurityGroup \<Rightarrow> SecurityGroup \<Rightarrow> field_error list" where
  "sgStatus_ValidateUpdate obj old =
     (let id = sgst_ID (sgo_Status obj)
      in if id \<noteq> 0 \<and> \<not> ValidGroup id
         then [Invalid (newPath [''status'', ''id'']) ''must be zero (pending) or between 1 and 62''] else [])"

definition securityGroupStrategy :: "machinery \<Rightarrow> authorizer option \<Rightarrow> request_ctx \<Rightarrow> SecurityGroup strategy" where
  "securityGroupStrategy k auth ctx = \<lparr>
     PrepareForCreate = sg_PrepareForCreate,
     Validate = sg_Validate k auth ctx,
     PrepareForUpdate = sg_PrepareForUpdate,
     ValidateUpdate = sg_ValidateUpdate k auth ctx,
     StatusPrepareForUpdate = sgStatus_PrepareForUpdate,
     StatusValidateUpdate = sgStatus_ValidateUpdate \<rparr>"

interpretation sg_kind: resource_strategy "securityGroupStrategy k auth" sgo_meta sgo_Spec sgo_Status SecurityGroupStatus_zero
  for k auth
  by unfold_locales
    (simp_all add: securityGroupStrategy_def sg_PrepareForCreate_def sg_PrepareForUpdate_def sgStatus_PrepareForUpdate_def)

section \<open>What is stored\<close>

definition sg_port_ok :: "SecurityGroupPort \<Rightarrow> bool" where
  "sg_port_ok port \<longleftrightarrow> (sgpt_Protocol port = ''TCP'' \<or> sgpt_Protocol port = ''UDP'') \<and> sgpt_Port port \<in> {0..65535}"

text \<open>A peer is a group, of this or of a named VPC, or a CIDR.\<close>

definition sg_peer_ok :: "machinery \<Rightarrow> SecurityGroupPeer \<Rightarrow> bool" where
  "sg_peer_ok k peer \<longleftrightarrow>
     (if sgp_CIDR peer = []
      then ObjectName k (sgp_Group peer) \<and>
        (case sgp_VPC peer of None \<Rightarrow> True | Some vpc \<Rightarrow> NamespaceName k (vr_Namespace vpc) \<and> ObjectName k (vr_Name vpc))
      else sgp_Group peer = [] \<and> sgp_VPC peer = None \<and> length (sgp_CIDR peer) \<le> 64 \<and> parse_cidr (sgp_CIDR peer) \<noteq> None)"

definition sg_spec_ok :: "machinery \<Rightarrow> SecurityGroupSpec \<Rightarrow> bool" where
  "sg_spec_ok k spec \<longleftrightarrow> ObjectName k (lvr_Name (sgs_VPCRef spec)) \<and> LabelSelectorAsSelector k (sgs_PodSelector spec) \<noteq> None \<and>
     (\<forall>r \<in> set (sgs_Ingress spec). sg_peer_ok k (sgr_From r) \<and> (\<forall>p \<in> set (sgr_Ports r). sg_port_ok p)) \<and>
     (\<forall>r \<in> set (sgs_Egress spec). sg_peer_ok k (sge_To r) \<and> (\<forall>p \<in> set (sge_Ports r). sg_port_ok p))"

lemma validateRulePorts_Nil [no_errors]: "validateRulePorts ports p = [] \<longleftrightarrow> (\<forall>x \<in> set ports. sg_port_ok x)"
  unfolding validateRulePorts_def by (rule first_errors_Nil) (auto simp: sg_port_ok_def)

lemma validateRulePeer_Nil [no_errors]: "validateRulePeer k peer p False = [] \<longleftrightarrow> sg_peer_ok k peer"
  by (auto simp: validateRulePeer_def Let_def peer_cidr_errors_def peer_vpc_errors_def ReferenceErrors_Nil sg_peer_ok_def
      ObjectName_def NamespaceName_def split: option.splits if_splits)

lemma sg_rules_Nil:
  "first_errors (\<lambda>i r. sg_rule_errors k (index q i) field False (peer r) (ports r)) 0 rules = [] \<longleftrightarrow>
     (\<forall>r \<in> set rules. sg_peer_ok k (peer r) \<and> (\<forall>p \<in> set (ports r). sg_port_ok p))"
  by (rule first_errors_Nil) (auto simp: sg_rule_errors_def validateRulePeer_Nil validateRulePorts_Nil)

lemma validateSecurityGroup_Nil [no_errors]: "validateSecurityGroup k sg False = [] \<longleftrightarrow> sg_spec_ok k (sgo_Spec sg)"
  by (auto simp: validateSecurityGroup_def Let_def sg_rules_Nil ReferenceErrors_Nil sg_spec_ok_def ObjectName_def)

lemma sg_history_spec:
  assumes "history (securityGroupStrategy k auth) sgo_meta vs"
  shows "\<forall>v \<in> set vs. sg_spec_ok k (sgo_Spec v)"
proof (rule sg_kind.history_spec [OF assms])
  fix ctx new assume "Validate (securityGroupStrategy k auth ctx) new = []"
  then show "sg_spec_ok k (sgo_Spec new)" by (simp add: securityGroupStrategy_def sg_Validate_def validateSecurityGroup_Nil)
next
  fix ctx new old
  assume "ValidateUpdate (securityGroupStrategy k auth ctx) new old = []" "sg_spec_ok k (sgo_Spec old)"
  then show "sg_spec_ok k (sgo_Spec new)"
    by (cases "sgo_Spec new = sgo_Spec old") (simp_all add: securityGroupStrategy_def sg_ValidateUpdate_def validateSecurityGroup_Nil)
qed

lemma sg_history_id:
  assumes "history (securityGroupStrategy k auth) sgo_meta vs"
  shows "\<forall>v \<in> set vs. sgst_ID (sgo_Status v) = 0 \<or> ValidGroup (sgst_ID (sgo_Status v))"
  using assms
  by (rule sg_kind.history_status)
    (auto simp: SecurityGroupStatus_zero_def securityGroupStrategy_def sgStatus_ValidateUpdate_def Let_def split: if_splits)

end
