(* ===== verification/SgUnion.thy ===== *)
theory SgUnion
  imports DpAddr "HOL-Library.AList"
begin

text \<open>
  The precomputed unions of north-south security-group rules (\<^verbatim>\<open>unionContaining\<close> of
  \<^verbatim>\<open>datapath/securitygroup.go\<close>). A trie returns one entry, so every entry must already carry the
  groups of all the rules whose range contains its own.
\<close>

record cidrGroup =
  cg_scope :: u32
  cg_proto :: u8
  cg_port :: u16
  cg_cidr :: "ipnet option"
  cg_groups :: u64

type_synonym prefix_key = "u32 \<times> u8 \<times> u16 \<times> prefix"

definition group_key :: "cidrGroup \<Rightarrow> prefix_key option" where
  "group_key item = (if cg_cidr item = None then None
     else case normalizedCIDR (cg_cidr item) of Inl _ \<Rightarrow> None
       | Inr p \<Rightarrow> Some (cg_scope item, cg_proto item, cg_port item, p))"

definition get0 :: "('k \<times> u64) list \<Rightarrow> 'k \<Rightarrow> u64" where
  "get0 idx k = (case map_of idx k of None \<Rightarrow> 0 | Some v \<Rightarrow> v)"

definition union_index :: "cidrGroup list \<Rightarrow> (prefix_key \<times> u64) list" where
  "union_index items = foldl (\<lambda>idx item. case group_key item of
     None \<Rightarrow> idx | Some k \<Rightarrow> AList.update k (get0 idx k OR cg_groups item) idx) [] items"

definition union_of :: "(prefix_key \<times> u64) list \<Rightarrow> cidrGroup \<Rightarrow> u64" where
  "union_of idx item = (case group_key item of
       None \<Rightarrow> 0
     | Some (scope, proto, port, p) \<Rightarrow>
         if \<not> prefix_valid p then 0
         else or_list (map (\<lambda>bits. get0 idx (scope, proto, port, masked (prefix_from (paddr p) (int bits))))
           [0..<nat (pbits p) + 1]))"

definition unionContaining :: "cidrGroup list \<Rightarrow> u64 list" where
  "unionContaining items = map (union_of (union_index items)) items"

section \<open>The index\<close>

lemma get0_update: "get0 (AList.update k v idx) k' = (if k' = k then v else get0 idx k')"
  by (simp add: get0_def update_conv')

lemma bit_union_index:
  "bit (get0 (union_index items) k) g \<longleftrightarrow> (\<exists>item \<in> set items. group_key item = Some k \<and> bit (cg_groups item) g)"
proof (induction items rule: rev_induct)
  case Nil
  then show ?case by (simp add: union_index_def get0_def)
next
  case (snoc item items)
  show ?case
  proof (cases "group_key item")
    case None
    then show ?thesis using snoc by (simp add: union_index_def)
  next
    case (Some k')
    then have "union_index (items @ [item]) =
        AList.update k' (get0 (union_index items) k' OR cg_groups item) (union_index items)"
      by (simp add: union_index_def)
    then show ?thesis using snoc Some by (auto simp: get0_update bit_simps)
  qed
qed

section \<open>Ancestors of a prefix\<close>

text \<open>The prefixes that contain a prefix are its own address masked to fewer bits.\<close>

lemma ancestor_iff:
  assumes "wf_prefix p" "wf_prefix q"
  shows "(\<exists>b \<le> nat (pbits p). q = masked (prefix_from (paddr p) (int b))) \<longleftrightarrow>
    pbits q \<le> pbits p \<and> prefix_contains q (paddr p)"
proof -
  have p: "paddr p \<noteq> AddrZero" "addr_zone (paddr p) = []" "0 \<le> pbits p" "pbits p \<le> int (bit_len (paddr p))"
    using assms(1) by (auto simp: wf_prefix_def)
  have m: "masked (prefix_from (paddr p) (int b)) = Prefix (mask_addr b (paddr p)) (int b)" if "b \<le> nat (pbits p)" for b
    using masked_prefix_from [OF p(1), of "int b"] p that by (cases "paddr p") auto
  have eq: "q = Prefix (mask_addr b (paddr p)) (int b) \<longleftrightarrow> pbits q = int b \<and> prefix_contains q (paddr p)"
    if "b \<le> nat (pbits p)" for b
    using assms(2) p that
    by (cases q; cases "paddr q"; cases "paddr p")
      (auto simp: wf_prefix_def prefix_contains_def prefix_valid_def keep_top_eq_iff [symmetric])
  have "(\<exists>b \<le> nat (pbits p). q = masked (prefix_from (paddr p) (int b))) \<longleftrightarrow>
      (\<exists>b \<le> nat (pbits p). pbits q = int b \<and> prefix_contains q (paddr p))"
    using m eq by metis
  also have "\<dots> \<longleftrightarrow> pbits q \<le> pbits p \<and> prefix_contains q (paddr p)"
    using assms(2) p(3) by (auto simp: wf_prefix_def intro!: exI [of _ "nat (pbits q)"])
  finally show ?thesis .
qed

lemma group_key_wf: "group_key item = Some (s, pr, po, p) \<Longrightarrow> wf_prefix p \<and> \<not> is4in6 (paddr p)"
  using normalizedCIDR_wf by (auto simp: group_key_def split: if_splits sum.splits)

lemma bit_union_of:
  assumes "group_key item = Some (scope, proto, port, p)"
  shows "bit (union_of (union_index items) item) g \<longleftrightarrow>
    (\<exists>j \<in> set items. \<exists>q. group_key j = Some (scope, proto, port, q) \<and> pbits q \<le> pbits p \<and>
       prefix_contains q (paddr p) \<and> bit (cg_groups j) g)"
proof -
  have wf: "wf_prefix p" using group_key_wf [OF assms] by simp
  then have "prefix_valid p" by (cases "paddr p") (auto simp: wf_prefix_def prefix_valid_def)
  moreover have "set [0..<nat (pbits p) + 1] = {..nat (pbits p)}" by auto
  ultimately have "bit (union_of (union_index items) item) g \<longleftrightarrow> (\<exists>b \<le> nat (pbits p).
      bit (get0 (union_index items) (scope, proto, port, masked (prefix_from (paddr p) (int b)))) g)"
    using assms by (simp add: union_of_def bit_or_list Bex_def del: upt_Suc)
  also have "\<dots> \<longleftrightarrow> (\<exists>j \<in> set items. \<exists>q. group_key j = Some (scope, proto, port, q) \<and>
      (\<exists>b \<le> nat (pbits p). q = masked (prefix_from (paddr p) (int b))) \<and> bit (cg_groups j) g)"
    unfolding bit_union_index by blast
  finally show ?thesis using ancestor_iff [OF wf] group_key_wf by blast
qed

end
