(* ===== verification/SgDatapath.thy ===== *)
theory SgDatapath
  imports CidrTable Packet SgUnion
begin

text \<open>
  Security groups in the datapath: the five tables that \<^verbatim>\<open>ApplySecurityGroups\<close> writes
  (\<^verbatim>\<open>datapath/securitygroup.go\<close>) and the decisions of the packet program (\<^verbatim>\<open>sg_admit\<close>,
  \<^verbatim>\<open>sg_egress_admit\<close>, \<^verbatim>\<open>ns_sg_check\<close> and \<^verbatim>\<open>ns_egress_ok\<close> of \<^verbatim>\<open>bpf/overlay.c\<close>). The key types of
  \<^verbatim>\<open>sg_cidr\<close> and \<^verbatim>\<open>sg_egress_cidr\<close> have the same fields and are one record, as are their entries.
\<close>

section \<open>Data\<close>

definition cfgSGUpdating :: u32 where "cfgSGUpdating = 13"
definition cfgSGInitialized :: u32 where "cfgSGInitialized = 15"
definition SGWorldGroup :: nat where "SGWorldGroup = 63"

type_synonym sg_owner = "u64 \<times> u64 \<times> u64 \<times> u64"

record SGMember =
  sm_Net :: u32
  sm_IP :: ip
  sm_Groups :: u64
  sm_Owner :: sg_owner

record SGRule =
  sr_Net :: u32
  sr_SrcNet :: u32
  sr_Group :: u16
  sr_Proto :: u8
  sr_Port :: u16
  sr_Allowed :: u64

record SGEgress =
  eg_SrcNet :: u32
  eg_DstNet :: u32
  eg_Group :: u16
  eg_Proto :: u8
  eg_Port :: u16
  eg_Allowed :: u64

record SGCidr =
  sc_Net :: u32
  sc_Proto :: u8
  sc_Port :: u16
  sc_CIDR :: "ipnet option"
  sc_AllowedGroups :: u64

type_synonym SGEgressCidr = SGCidr

record local_key =
  lk_Net :: u32
  lk_Ip :: u128

record sg_member =
  mv_Groups :: u64
  mv_Owner :: sg_owner

record sg_rule_key =
  rk_Net :: u32
  rk_SrcNet :: u32
  rk_Group :: u16
  rk_Port :: u16
  rk_Proto :: u8

record sg_egress_key =
  ek_SrcNet :: u32
  ek_DstNet :: u32
  ek_Group :: u16
  ek_Port :: u16
  ek_Proto :: u8

record sg_cidr_key =
  sk_Prefixlen :: u32
  sk_Net :: u32
  sk_Port :: u16
  sk_Proto :: u16
  sk_Client :: u128

record 'w sg_objs =
  SgParams :: "('w, u32, u32) map_ops"
  SgMembers :: "('w, local_key, sg_member) map_ops"
  SgRules :: "('w, sg_rule_key, u64) map_ops"
  SgCidr :: "('w, sg_cidr_key, u64) map_ops"
  SgEgress :: "('w, sg_egress_key, u64) map_ops"
  SgEgressCidr :: "('w, sg_cidr_key, u64) map_ops"

section \<open>Synchronisation\<close>

text \<open>Group numbers are \<^verbatim>\<open>int32\<close>; a number outside \<open>1..62\<close> sets the pending bit 0.\<close>

definition SGMembershipBitmap :: "int list \<Rightarrow> u64" where
  "SGMembershipBitmap ids = foldl (\<lambda>bitmap id. if 0 < id \<and> id < int SGWorldGroup
     then bitmap OR push_bit (nat id) 1 else bitmap OR 1) 0 ids"

definition sg_member_row :: "'w sg_objs \<Rightarrow> SGMember \<Rightarrow> (local_key \<times> sg_member) list \<Rightarrow> dp_error + (local_key \<times> sg_member) list" where
  "sg_member_row m mem want = (case addr128 (sm_IP mem) of
       Inl e \<Rightarrow> Inl e
     | Inr ip \<Rightarrow> putDesired (SgMembers m) want \<lparr>lk_Net = sm_Net mem, lk_Ip = ip\<rparr>
         \<lparr>mv_Groups = sm_Groups mem, mv_Owner = sm_Owner mem\<rparr>)"

definition SyncSGMembers :: "range_order \<Rightarrow> 'w sg_objs \<Rightarrow> SGMember list \<Rightarrow> 'w call" where
  "SyncSGMembers ord m members = sync_desired ord (SgMembers m) (fold_err (sg_member_row m) members [])"

definition sg_rule_keyof :: "SGRule \<Rightarrow> sg_rule_key" where
  "sg_rule_keyof r = \<lparr>rk_Net = sr_Net r, rk_SrcNet = sr_SrcNet r, rk_Group = sr_Group r, rk_Port = htons (sr_Port r),
     rk_Proto = sr_Proto r\<rparr>"

definition SyncSGRules :: "range_order \<Rightarrow> 'w sg_objs \<Rightarrow> SGRule list \<Rightarrow> 'w call" where
  "SyncSGRules ord m rules = sync_desired ord (SgRules m) (fold_err (\<lambda>r want.
     putDesired (SgRules m) want (sg_rule_keyof r) (get0 want (sg_rule_keyof r) OR sr_Allowed r)) rules [])"

definition sg_egress_keyof :: "SGEgress \<Rightarrow> sg_egress_key" where
  "sg_egress_keyof r = \<lparr>ek_SrcNet = eg_SrcNet r, ek_DstNet = eg_DstNet r, ek_Group = eg_Group r, ek_Port = htons (eg_Port r),
     ek_Proto = eg_Proto r\<rparr>"

definition SyncSGEgress :: "range_order \<Rightarrow> 'w sg_objs \<Rightarrow> SGEgress list \<Rightarrow> 'w call" where
  "SyncSGEgress ord m rules = sync_desired ord (SgEgress m) (fold_err (\<lambda>r want.
     putDesired (SgEgress m) want (sg_egress_keyof r) (get0 want (sg_egress_keyof r) OR eg_Allowed r)) rules [])"

definition sg_cidr_item :: "SGCidr \<Rightarrow> dp_error + cidrGroup" where
  "sg_cidr_item e = (case (if sc_CIDR e = None then Inr () else map_sum id (\<lambda>_. ()) (cidrAddressPrefix (sc_CIDR e))) of
       Inl err \<Rightarrow> Inl err
     | Inr _ \<Rightarrow> Inr \<lparr>cg_scope = sc_Net e, cg_proto = sc_Proto e, cg_port = sc_Port e, cg_cidr = sc_CIDR e,
         cg_groups = sc_AllowedGroups e\<rparr>)"

definition sg_cidr_items :: "SGCidr list \<Rightarrow> dp_error + cidrGroup list" where
  "sg_cidr_items entries =
     fold_err (\<lambda>e items. case sg_cidr_item e of Inl err \<Rightarrow> Inl err | Inr i \<Rightarrow> Inr (items @ [i])) entries []"

definition sg_cidr_keyof :: "SGCidr \<Rightarrow> u128 \<times> u32 \<times> u8 \<Rightarrow> sg_cidr_key" where
  "sg_cidr_keyof e = (\<lambda>(a, bits, family). \<lparr>sk_Prefixlen = 64 + bits, sk_Net = sc_Net e, sk_Port = htons (sc_Port e),
     sk_Proto = ucast (sc_Proto e) OR push_bit 8 (ucast family), sk_Client = a\<rparr>)"

definition sg_cidr_row :: "('w, sg_cidr_key, u64) map_ops \<Rightarrow> SGCidr \<times> u64 \<Rightarrow> (sg_cidr_key \<times> u64) list \<Rightarrow>
    dp_error + (sg_cidr_key \<times> u64) list" where
  "sg_cidr_row mp eg want = (case eg of (e, groups) \<Rightarrow>
     if sc_CIDR e = None then Inr want
     else case cidrPolicyPrefix (sc_CIDR e) of
       Inl err \<Rightarrow> Inl err
     | Inr p \<Rightarrow> putDesired mp want (sg_cidr_keyof e p) (get0 want (sg_cidr_keyof e p) OR groups))"

definition sg_cidr_desired :: "('w, sg_cidr_key, u64) map_ops \<Rightarrow> SGCidr list \<Rightarrow> dp_error + (sg_cidr_key \<times> u64) list" where
  "sg_cidr_desired mp entries = (case sg_cidr_items entries of
       Inl err \<Rightarrow> Inl err
     | Inr items \<Rightarrow> fold_err (sg_cidr_row mp) (zip entries (unionContaining items)) [])"

definition SyncSGCidr :: "range_order \<Rightarrow> 'w sg_objs \<Rightarrow> SGCidr list \<Rightarrow> 'w call" where
  "SyncSGCidr ord m entries = sync_desired ord (SgCidr m) (sg_cidr_desired (SgCidr m) entries)"

definition SyncSGEgressCidr :: "range_order \<Rightarrow> 'w sg_objs \<Rightarrow> SGEgressCidr list \<Rightarrow> 'w call" where
  "SyncSGEgressCidr ord m entries = sync_desired ord (SgEgressCidr m) (sg_cidr_desired (SgEgressCidr m) entries)"

definition BlockSecurityGroups :: "'w sg_objs \<Rightarrow> 'w call" where
  "BlockSecurityGroups m = put (SgParams m) cfgSGUpdating 1"

definition ApplySecurityGroups :: "(nat \<Rightarrow> range_order) \<Rightarrow> 'w sg_objs \<Rightarrow> SGMember list \<Rightarrow> SGRule list \<Rightarrow> SGCidr list \<Rightarrow>
    SGEgress list \<Rightarrow> SGEgressCidr list \<Rightarrow> 'w call" where
  "ApplySecurityGroups ords m members rules cidrs egress egressCIDRs = do_seq
     [put (SgParams m) cfgSGUpdating 1,
      SyncSGMembers (ords 0) m members,
      SyncSGRules (ords 1) m rules,
      SyncSGCidr (ords 2) m cidrs,
      SyncSGEgress (ords 3) m egress,
      SyncSGEgressCidr (ords 4) m egressCIDRs,
      put (SgParams m) cfgSGInitialized 1,
      put (SgParams m) cfgSGUpdating 0]"

section \<open>The packet decisions\<close>

text \<open>\<^verbatim>\<open>locals\<close> gives the security-group owner of a registered endpoint.\<close>

record sg_env =
  s_params :: "u32 \<rightharpoonup> u32"
  s_members :: "local_key \<rightharpoonup> sg_member"
  s_locals :: "local_key \<rightharpoonup> sg_owner"
  s_rules :: "sg_rule_key \<rightharpoonup> u64"
  s_egress :: "sg_egress_key \<rightharpoonup> u64"
  s_cidr :: "sg_cidr_key \<Rightarrow> u64 option"
  s_egress_cidr :: "sg_cidr_key \<Rightarrow> u64 option"

record sg_query =
  sq_dst :: local_key
  sq_src_net :: u32
  sq_srcmap :: u64
  sq_dport :: u16
  sq_proto :: u8

record sg_egress_query =
  seq_src_net :: u32
  seq_dst_net :: u32
  seq_srcmap :: u64
  seq_dstmap :: u64
  seq_dport :: u16
  seq_proto :: u8

definition sg_updating :: "sg_env \<Rightarrow> bool" where
  "sg_updating s = (case s_params s cfgSGUpdating of Some v \<Rightarrow> v \<noteq> 0 | None \<Rightarrow> False)"

definition sg_membership :: "sg_env \<Rightarrow> local_key \<Rightarrow> u64" where
  "sg_membership s key =
     (let member = s_members s key;
          plain = (case member of Some mv \<Rightarrow> mv_Groups mv | None \<Rightarrow> 0)
      in if lk_Net key = 0 then plain
         else case s_locals s key of
           None \<Rightarrow> plain
         | Some (o0, o1, o2, o3) \<Rightarrow> (case member of
               None \<Rightarrow> 1
             | Some mv \<Rightarrow> if (o0 OR o1 OR o2 OR o3) = 0 \<or> (o0, o1, o2, o3) \<noteq> mv_Owner mv then 1 else plain))"

definition or_lookup :: "('k \<rightharpoonup> u64) \<Rightarrow> 'k \<Rightarrow> u64 \<Rightarrow> u64" where
  "or_lookup t k acc = (case t k of Some v \<Rightarrow> acc OR v | None \<Rightarrow> acc)"

definition sg_admit :: "sg_env \<Rightarrow> sg_query \<Rightarrow> bool" where
  "sg_admit s q =
     (if sg_updating s then False
      else let dstmap = sg_membership s (sq_dst q);
               rk = \<lparr>rk_Net = lk_Net (sq_dst q), rk_SrcNet = sq_src_net q, rk_Group = 0, rk_Port = 0, rk_Proto = sq_proto q\<rparr>
           in if dstmap = 0 then True
              else (fold (\<lambda>g allowed. if dstmap AND push_bit g 1 = 0 then allowed
                      else or_lookup (s_rules s) (rk\<lparr>rk_Group := of_nat g, rk_Port := 0\<rparr>)
                        (or_lookup (s_rules s) (rk\<lparr>rk_Group := of_nat g, rk_Port := sq_dport q\<rparr>) allowed))
                    [1..<SGWorldGroup] 0) AND sq_srcmap q \<noteq> 0)"

definition sg_egress_admit :: "sg_env \<Rightarrow> sg_egress_query \<Rightarrow> bool" where
  "sg_egress_admit s q =
     (if sg_updating s then False
      else let rk = \<lparr>ek_SrcNet = seq_src_net q, ek_DstNet = seq_dst_net q, ek_Group = 0, ek_Port = 0, ek_Proto = seq_proto q\<rparr>
           in if seq_srcmap q = 0 then True
              else (fold (\<lambda>g allowed. if seq_srcmap q AND push_bit g 1 = 0 then allowed
                      else or_lookup (s_egress s) (rk\<lparr>ek_Group := of_nat g, ek_Port := 0\<rparr>)
                        (or_lookup (s_egress s) (rk\<lparr>ek_Group := of_nat g, ek_Port := seq_dport q\<rparr>) allowed))
                    [1..<SGWorldGroup] 0) AND seq_dstmap q \<noteq> 0)"

definition cidr_proto :: "u8 \<Rightarrow> bool \<Rightarrow> u16" where
  "cidr_proto proto is_v6 = ucast proto OR push_bit 8 (if is_v6 then 6 else 4)"

definition hits_groups :: "u64 option \<Rightarrow> u64 \<Rightarrow> bool" where
  "hits_groups b groups = (case b of Some v \<Rightarrow> v AND groups \<noteq> 0 | None \<Rightarrow> False)"

definition ns_sg_check :: "sg_env \<Rightarrow> sg_query \<Rightarrow> sg_cidr_key \<Rightarrow> bool" where
  "ns_sg_check s q ck =
     (if sg_updating s then False
      else if sg_admit s q then True
      else let dstmap = sg_membership s (sq_dst q) in
        if hits_groups (s_cidr s ck) dstmap then True
        else hits_groups (s_cidr s (ck\<lparr>sk_Port := 0\<rparr>)) dstmap)"

definition ns_sg_admit :: "sg_env \<Rightarrow> u32 \<Rightarrow> u128 \<Rightarrow> u128 \<Rightarrow> u16 \<Rightarrow> u16 \<Rightarrow> bool" where
  "ns_sg_admit s net vpc_ip client proto dport = ns_sg_check s
     \<lparr>sq_dst = \<lparr>lk_Net = net, lk_Ip = vpc_ip\<rparr>, sq_src_net = net, sq_srcmap = push_bit SGWorldGroup 1, sq_dport = dport,
       sq_proto = ucast proto\<rparr>
     \<lparr>sk_Prefixlen = 64 + 128, sk_Net = net, sk_Port = dport, sk_Proto = proto, sk_Client = client\<rparr>"

text \<open>\<^verbatim>\<open>sg_l4\<close>: None when the packet is not gated, else the destination port as the bytes spell it in
  memory (the first byte is the low one).\<close>

definition sg_l4 :: "skb \<Rightarrow> u8 \<Rightarrow> nat \<Rightarrow> u16 option" where
  "sg_l4 skb proto l4off =
     (if proto = IPPROTO_TCP then
        (case load_u16 skb (l4off + 2) of
           None \<Rightarrow> None
         | Some dport \<Rightarrow> (case sk_load skb (l4off + 13) 1 of
              Some [flags] \<Rightarrow> if bare_syn flags then Some dport else None
            | _ \<Rightarrow> None))
      else if proto = IPPROTO_UDP \<or> proto = IPPROTO_SCTP then load_u16 skb (l4off + 2)
      else None)"

definition ns_egress_ok :: "sg_env \<Rightarrow> skb \<Rightarrow> u32 \<Rightarrow> bool \<Rightarrow> u8 \<Rightarrow> u128 \<Rightarrow> u128 \<Rightarrow> bool" where
  "ns_egress_ok s skb srcnet is_v6 proto src dst =
     (let l4 = sg_l4 skb proto (if is_v6 then 14 + 40 else 14 + 20) in
      if sg_updating s then l4 = None
      else let srcmap = sg_membership s \<lparr>lk_Net = srcnet, lk_Ip = src\<rparr> in
        if srcmap = 0 then True
        else case l4 of
          None \<Rightarrow> True
        | Some dport \<Rightarrow>
            let ck = \<lparr>sk_Prefixlen = 64 + 128, sk_Net = srcnet, sk_Port = dport, sk_Proto = cidr_proto proto is_v6, sk_Client = dst\<rparr> in
            if hits_groups (s_egress_cidr s ck) srcmap then True
            else hits_groups (s_egress_cidr s (ck\<lparr>sk_Port := 0\<rparr>)) srcmap)"

section \<open>What the tables hold\<close>

definition sg_member_of :: "SGMember list \<Rightarrow> local_key \<Rightarrow> sg_member option" where
  "sg_member_of members k = foldl (\<lambda>r mem. if addr128 (sm_IP mem) = Inr (lk_Ip k) \<and> sm_Net mem = lk_Net k
     then Some \<lparr>mv_Groups = sm_Groups mem, mv_Owner = sm_Owner mem\<rparr> else r) None members"

lemma sg_member_table:
  assumes "fold_err (sg_member_row m) members [] = Inr want"
  shows "desired_ok (SgMembers m) want \<and> map_of want = sg_member_of members"
  using assms
proof (rule fold_err_induct)
  show "desired_ok (SgMembers m) [] \<and> map_of [] = sg_member_of []" by (simp add: sg_member_of_def fun_eq_iff)
next
  fix ys x zs c d
  assume c: "desired_ok (SgMembers m) c \<and> map_of c = sg_member_of ys" and d: "sg_member_row m x c = Inr d"
  from d obtain a where a: "addr128 (sm_IP x) = Inr a"
    "putDesired (SgMembers m) c \<lparr>lk_Net = sm_Net x, lk_Ip = a\<rparr> \<lparr>mv_Groups = sm_Groups x, mv_Owner = sm_Owner x\<rparr> = Inr d"
    by (auto simp: sg_member_row_def split: sum.splits)
  show "desired_ok (SgMembers m) d \<and> map_of d = sg_member_of (ys @ [x])"
    using putDesired_ok [OF a(2)] a(1) c by (auto simp: sg_member_of_def fun_eq_iff)
qed

text \<open>Tables that accumulate bitmaps: a key holds the union of the bitmaps of the entries with that key.\<close>

definition union_table :: "('x \<Rightarrow> 'k option) \<Rightarrow> ('x \<Rightarrow> u64) \<Rightarrow> 'x list \<Rightarrow> ('k \<rightharpoonup> u64) \<Rightarrow> bool" where
  "union_table key val xs t = ((\<forall>k. t k \<noteq> None \<longleftrightarrow> (\<exists>x \<in> set xs. key x = Some k)) \<and>
     (\<forall>k v g. t k = Some v \<longrightarrow> (bit v g \<longleftrightarrow> (\<exists>x \<in> set xs. key x = Some k \<and> bit (val x) g))))"

lemma union_table_bit:
  assumes "union_table key val xs t"
  shows "(\<exists>v. t k = Some v \<and> bit v b) \<longleftrightarrow> (\<exists>x \<in> set xs. key x = Some k \<and> bit (val x) b)"
proof (cases "t k")
  case None
  then have "\<not> (\<exists>x \<in> set xs. key x = Some k)" using assms unfolding union_table_def by metis
  then show ?thesis using None by auto
next
  case (Some v)
  then show ?thesis using assms by (simp add: union_table_def)
qed

lemma union_table_fold:
  assumes "fold_err f xs [] = Inr want"
    and "\<And>x c d. x \<in> set xs \<Longrightarrow> f x c = Inr d \<Longrightarrow> (case key x of None \<Rightarrow> d = c
       | Some k \<Rightarrow> putDesired mp c k (get0 c k OR val x) = Inr d)"
  shows "desired_ok mp want \<and> union_table key val xs (map_of want)"
  using assms(1)
proof (rule fold_err_induct)
  show "desired_ok mp [] \<and> union_table key val [] (map_of [])" by (simp add: union_table_def)
next
  fix ys x zs c d
  assume xs: "xs = ys @ x # zs" and c: "desired_ok mp c \<and> union_table key val ys (map_of c)" and d: "f x c = Inr d"
  show "desired_ok mp d \<and> union_table key val (ys @ [x]) (map_of d)"
  proof (cases "key x")
    case None
    then show ?thesis using assms(2) [OF _ d] c xs by (simp add: union_table_def)
  next
    case (Some k)
    then have put: "putDesired mp c k (get0 c k OR val x) = Inr d" using assms(2) [OF _ d] xs by simp
    have "bit (get0 c k) g \<longleftrightarrow> (\<exists>y \<in> set ys. key y = Some k \<and> bit (val y) g)" for g
      using union_table_bit [of key val ys "map_of c" k g] c by (cases "map_of c k") (auto simp: get0_def)
    then show ?thesis using putDesired_ok [OF put] c Some by (auto simp: union_table_def bit_simps)
  qed
qed

lemma sg_rules_table:
  assumes "fold_err (\<lambda>r want. putDesired (SgRules m) want (sg_rule_keyof r) (get0 want (sg_rule_keyof r) OR sr_Allowed r)) rules [] = Inr want"
  shows "desired_ok (SgRules m) want \<and> union_table (\<lambda>r. Some (sg_rule_keyof r)) sr_Allowed rules (map_of want)"
  using assms by (rule union_table_fold) simp

lemma sg_egress_table:
  assumes "fold_err (\<lambda>r want. putDesired (SgEgress m) want (sg_egress_keyof r) (get0 want (sg_egress_keyof r) OR eg_Allowed r)) rules [] = Inr want"
  shows "desired_ok (SgEgress m) want \<and> union_table (\<lambda>r. Some (sg_egress_keyof r)) eg_Allowed rules (map_of want)"
  using assms by (rule union_table_fold) simp

abbreviation sg_entry_key :: "SGCidr \<Rightarrow> sg_cidr_key option" where
  "sg_entry_key \<equiv> entry_key sc_CIDR sg_cidr_keyof"

definition sg_group_of :: "SGCidr \<Rightarrow> cidrGroup" where
  "sg_group_of e = \<lparr>cg_scope = sc_Net e, cg_proto = sc_Proto e, cg_port = sc_Port e, cg_cidr = sc_CIDR e, cg_groups = sc_AllowedGroups e\<rparr>"

lemma sg_cidr_items_map: "sg_cidr_items entries = Inr items \<Longrightarrow> items = map sg_group_of entries"
  unfolding sg_cidr_items_def
  by (erule fold_err_induct) (auto simp: sg_cidr_item_def sg_group_of_def split: sum.splits if_splits)

definition sg_entry_groups :: "SGCidr list \<Rightarrow> SGCidr \<Rightarrow> u64" where
  "sg_entry_groups entries e = union_of (union_index (map sg_group_of entries)) (sg_group_of e)"

lemma set_zip_map: "set (zip xs (map f xs)) = (\<lambda>x. (x, f x)) ` set xs"
  by (induction xs) auto

lemma sg_cidr_table:
  assumes "sg_cidr_desired mp entries = Inr want"
  shows "desired_ok mp want \<and> union_table sg_entry_key (sg_entry_groups entries) entries (map_of want)"
proof -
  obtain items where items: "sg_cidr_items entries = Inr items"
    "fold_err (sg_cidr_row mp) (zip entries (unionContaining items)) [] = Inr want"
    using assms by (auto simp: sg_cidr_desired_def split: sum.splits)
  have "desired_ok mp want \<and> union_table (\<lambda>x. sg_entry_key (fst x)) snd (zip entries (unionContaining items)) (map_of want)"
    using items(2) by (rule union_table_fold) (auto simp: sg_cidr_row_def entry_key_def split: if_splits sum.splits)
  moreover have "unionContaining items = map (sg_entry_groups entries) entries"
    using sg_cidr_items_map [OF items(1)] by (simp add: unionContaining_def sg_entry_groups_def)
  ultimately show ?thesis by (simp add: union_table_def set_zip_map)
qed

section \<open>Rule-level policies\<close>

definition sg_rule_applies :: "SGRule \<Rightarrow> u32 \<Rightarrow> u32 \<Rightarrow> u8 \<Rightarrow> u16 \<Rightarrow> bool" where
  "sg_rule_applies r net src_net proto port = (sr_Net r = net \<and> sr_SrcNet r = src_net \<and> sr_Proto r = proto \<and>
     (sr_Port r = port \<or> sr_Port r = 0) \<and> 1 \<le> unat (sr_Group r) \<and> unat (sr_Group r) < SGWorldGroup)"

definition sg_policy :: "u64 \<Rightarrow> SGRule list \<Rightarrow> sg_query \<Rightarrow> bool" where
  "sg_policy dstmap rules q = (dstmap = 0 \<or> (\<exists>r \<in> set rules.
     sg_rule_applies r (lk_Net (sq_dst q)) (sq_src_net q) (sq_proto q) (htons (sq_dport q)) \<and>
     bit dstmap (unat (sr_Group r)) \<and> sr_Allowed r AND sq_srcmap q \<noteq> 0))"

definition sg_egress_applies :: "SGEgress \<Rightarrow> u32 \<Rightarrow> u32 \<Rightarrow> u8 \<Rightarrow> u16 \<Rightarrow> bool" where
  "sg_egress_applies r src_net dst_net proto port = (eg_SrcNet r = src_net \<and> eg_DstNet r = dst_net \<and> eg_Proto r = proto \<and>
     (eg_Port r = port \<or> eg_Port r = 0) \<and> 1 \<le> unat (eg_Group r) \<and> unat (eg_Group r) < SGWorldGroup)"

definition sg_egress_policy :: "SGEgress list \<Rightarrow> sg_egress_query \<Rightarrow> bool" where
  "sg_egress_policy rules q = (seq_srcmap q = 0 \<or> (\<exists>r \<in> set rules.
     sg_egress_applies r (seq_src_net q) (seq_dst_net q) (seq_proto q) (htons (seq_dport q)) \<and>
     bit (seq_srcmap q) (unat (eg_Group r)) \<and> eg_Allowed r AND seq_dstmap q \<noteq> 0))"

lemma bit_or_lookup: "bit (or_lookup t k acc) b \<longleftrightarrow> bit acc b \<or> (\<exists>v. t k = Some v \<and> bit v b)"
  by (auto simp: or_lookup_def bit_simps split: option.splits)

lemma bit_group_fold:
  shows "bit (fold (\<lambda>g allowed. if m AND push_bit g 1 = 0 then allowed
      else or_lookup t (k0 g) (or_lookup t (k1 g) allowed)) gs acc) b \<longleftrightarrow>
    bit acc b \<or> (\<exists>g \<in> set gs. bit (m :: u64) g \<and> (\<exists>v. (t (k0 g) = Some v \<or> t (k1 g) = Some v) \<and> bit v b))"
  by (induction gs arbitrary: acc) (auto simp: and_exp_eq_0_iff_not_bit bit_or_lookup)

lemma unat_of_nat_small16: "g < 63 \<Longrightarrow> unat (of_nat g :: u16) = g"
  by (simp add: unsigned_of_nat take_bit_nat_eq_self_iff)

lemma of_nat_group: "g < SGWorldGroup \<Longrightarrow> of_nat g = (x :: u16) \<longleftrightarrow> unat x = g"
  by (metis SGWorldGroup_def unat_of_nat_small16 word_unat_eq_iff)

lemma sg_admit_iff:
  assumes "\<not> sg_updating s" "union_table (\<lambda>r. Some (sg_rule_keyof r)) sr_Allowed rules (s_rules s)"
  shows "sg_admit s q = sg_policy (sg_membership s (sq_dst q)) rules q"
proof -
  let ?d = "sg_membership s (sq_dst q)"
  let ?k = "\<lambda>port g. \<lparr>rk_Net = lk_Net (sq_dst q), rk_SrcNet = sq_src_net q, rk_Group = of_nat g, rk_Port = port, rk_Proto = sq_proto q\<rparr>"
  let ?all = "fold (\<lambda>g allowed. if ?d AND push_bit g 1 = 0 then allowed
      else or_lookup (s_rules s) (?k 0 g) (or_lookup (s_rules s) (?k (sq_dport q) g) allowed)) [1..<SGWorldGroup] 0"
  let ?r = "\<lambda>r. sg_rule_applies r (lk_Net (sq_dst q)) (sq_src_net q) (sq_proto q) (htons (sq_dport q))"
  have key: "Some (sg_rule_keyof r) = Some (?k port g) \<longleftrightarrow> sr_Net r = lk_Net (sq_dst q) \<and> sr_SrcNet r = sq_src_net q \<and>
      unat (sr_Group r) = g \<and> sr_Port r = htons port \<and> sr_Proto r = sq_proto q" if "g < SGWorldGroup" for g port r
    using of_nat_group [OF that, of "sr_Group r"] by (auto simp: sg_rule_keyof_def htons_swap)
  have "bit ?all b \<longleftrightarrow> (\<exists>g \<in> set [1..<SGWorldGroup]. bit ?d g \<and>
      ((\<exists>r \<in> set rules. Some (sg_rule_keyof r) = Some (?k 0 g) \<and> bit (sr_Allowed r) b) \<or>
       (\<exists>r \<in> set rules. Some (sg_rule_keyof r) = Some (?k (sq_dport q) g) \<and> bit (sr_Allowed r) b)))" for b
    unfolding bit_group_fold ex_disj_distrib conj_disj_distribR union_table_bit [OF assms(2)] by simp
  moreover have "(\<exists>g \<in> set [1..<SGWorldGroup]. bit ?d g \<and>
      ((\<exists>r \<in> set rules. Some (sg_rule_keyof r) = Some (?k 0 g) \<and> bit (sr_Allowed r) b) \<or>
       (\<exists>r \<in> set rules. Some (sg_rule_keyof r) = Some (?k (sq_dport q) g) \<and> bit (sr_Allowed r) b))) \<longleftrightarrow> (\<exists>r \<in> set rules. ?r r \<and> bit ?d (unat (sr_Group r)) \<and> bit (sr_Allowed r) b)" for b
    using key by (auto simp: sg_rule_applies_def)
  ultimately have "bit ?all b \<longleftrightarrow> (\<exists>r \<in> set rules. ?r r \<and> bit ?d (unat (sr_Group r)) \<and> bit (sr_Allowed r) b)" for b by (simp only:)
  moreover have "sg_admit s q \<longleftrightarrow> ?d = 0 \<or> ?all AND sq_srcmap q \<noteq> 0" using assms(1) by (simp add: sg_admit_def Let_def cong: if_cong)
  ultimately show ?thesis unfolding sg_policy_def and_nonzero_iff by blast
qed

lemma sg_egress_admit_iff:
  assumes "\<not> sg_updating s" "union_table (\<lambda>r. Some (sg_egress_keyof r)) eg_Allowed rules (s_egress s)"
  shows "sg_egress_admit s q = sg_egress_policy rules q"
proof -
  let ?k = "\<lambda>port g. \<lparr>ek_SrcNet = seq_src_net q, ek_DstNet = seq_dst_net q, ek_Group = of_nat g, ek_Port = port, ek_Proto = seq_proto q\<rparr>"
  let ?all = "fold (\<lambda>g allowed. if seq_srcmap q AND push_bit g 1 = 0 then allowed
      else or_lookup (s_egress s) (?k 0 g) (or_lookup (s_egress s) (?k (seq_dport q) g) allowed)) [1..<SGWorldGroup] 0"
  let ?r = "\<lambda>r. sg_egress_applies r (seq_src_net q) (seq_dst_net q) (seq_proto q) (htons (seq_dport q))"
  have key: "Some (sg_egress_keyof r) = Some (?k port g) \<longleftrightarrow> eg_SrcNet r = seq_src_net q \<and> eg_DstNet r = seq_dst_net q \<and>
      unat (eg_Group r) = g \<and> eg_Port r = htons port \<and> eg_Proto r = seq_proto q" if "g < SGWorldGroup" for g port r
    using of_nat_group [OF that, of "eg_Group r"] by (auto simp: sg_egress_keyof_def htons_swap)
  have "bit ?all b \<longleftrightarrow> (\<exists>g \<in> set [1..<SGWorldGroup]. bit (seq_srcmap q) g \<and>
      ((\<exists>r \<in> set rules. Some (sg_egress_keyof r) = Some (?k 0 g) \<and> bit (eg_Allowed r) b) \<or>
       (\<exists>r \<in> set rules. Some (sg_egress_keyof r) = Some (?k (seq_dport q) g) \<and> bit (eg_Allowed r) b)))" for b
    unfolding bit_group_fold ex_disj_distrib conj_disj_distribR union_table_bit [OF assms(2)] by simp
  moreover have "(\<exists>g \<in> set [1..<SGWorldGroup]. bit (seq_srcmap q) g \<and>
      ((\<exists>r \<in> set rules. Some (sg_egress_keyof r) = Some (?k 0 g) \<and> bit (eg_Allowed r) b) \<or>
       (\<exists>r \<in> set rules. Some (sg_egress_keyof r) = Some (?k (seq_dport q) g) \<and> bit (eg_Allowed r) b))) \<longleftrightarrow> (\<exists>r \<in> set rules. ?r r \<and> bit (seq_srcmap q) (unat (eg_Group r)) \<and> bit (eg_Allowed r) b)" for b
    using key by (auto simp: sg_egress_applies_def)
  ultimately have "bit ?all b \<longleftrightarrow> (\<exists>r \<in> set rules. ?r r \<and> bit (seq_srcmap q) (unat (eg_Group r)) \<and> bit (eg_Allowed r) b)" for b by (simp only:)
  moreover have "sg_egress_admit s q \<longleftrightarrow> seq_srcmap q = 0 \<or> ?all AND seq_dstmap q \<noteq> 0"
    using assms(1) by (simp add: sg_egress_admit_def Let_def cong: if_cong)
  ultimately show ?thesis unfolding sg_egress_policy_def and_nonzero_iff by blast
qed

section \<open>North-south lookups\<close>

definition sg_cidr_matches :: "sg_cidr_key \<Rightarrow> sg_cidr_key \<Rightarrow> bool" where
  "sg_cidr_matches k q = (sk_Net k = sk_Net q \<and> sk_Port k = sk_Port q \<and> sk_Proto k = sk_Proto q \<and>
     top_bits (unat (sk_Prefixlen k) - 64) (sk_Client q) = top_bits (unat (sk_Prefixlen k) - 64) (sk_Client k))"

definition sg_cidr_query :: "u32 \<Rightarrow> u16 \<Rightarrow> u8 \<Rightarrow> u8 \<Rightarrow> u128 \<Rightarrow> sg_cidr_key" where
  "sg_cidr_query net port proto family a = \<lparr>sk_Prefixlen = 64 + 128, sk_Net = net, sk_Port = port,
     sk_Proto = ucast proto OR push_bit 8 (ucast family), sk_Client = a\<rparr>"

lemma proto_family_eq:
  fixes p p' f f' :: u8
  shows "(ucast p OR push_bit 8 (ucast f) :: u16) = ucast p' OR push_bit 8 (ucast f') \<longleftrightarrow> p = p' \<and> f = f'"
proof
  assume eq: "(ucast p OR push_bit 8 (ucast f) :: u16) = ucast p' OR push_bit 8 (ucast f')"
  have lo: "ucast (ucast p OR push_bit 8 (ucast f) :: u16) = p" for p f :: u8
    by (rule bit_word_eqI) (auto simp: bit_simps)
  have hi: "ucast (drop_bit 8 (ucast p OR push_bit 8 (ucast f) :: u16)) = f" for p f :: u8
    by (rule bit_word_eqI) (auto simp: bit_simps dest: bit_imp_le_length)
  show "p = p' \<and> f = f'" using lo [of p f] lo [of p' f'] hi [of p f] hi [of p' f'] eq by simp
qed simp

interpretation sg_range: cidr_table sc_CIDR sg_cidr_keyof sg_cidr_matches "\<lambda>k. unat (sk_Prefixlen k)" 64
  "\<lambda>(net, port, proto, family, a). sg_cidr_query net port proto family a"
  "\<lambda>e (net, port, proto, family, a). sc_Net e = net \<and> sc_Proto e = proto \<and> sc_Port e = htons port"
  "\<lambda>(net, port, proto, family, a). family" "\<lambda>(net, port, proto, family, a). a" "\<lambda>_. True" "\<lambda>_. True"
proof (unfold_locales, goal_cases)
  case (1 bits e a f)
  then show ?case by (simp add: sg_cidr_keyof_def unat_word_ariths)
next
  case (2 e q f bits a)
  have "unat (64 + bits) - 64 = unat bits" using 2 by (simp add: unat_word_ariths)
  then show ?case by (cases q) (auto simp: sg_cidr_keyof_def sg_cidr_query_def sg_cidr_matches_def proto_family_eq htons_swap)
next
  case (3 e q e' p)
  then show ?case by (cases p) (auto simp: sg_cidr_keyof_def)
qed

lemma sg_union_bit:
  assumes e: "e \<in> set entries" "sg_entry_key e = Some k" "cidr_covers (sc_CIDR e) w"
    and longest: "\<And>e'. e' \<in> set entries \<Longrightarrow> sc_Net e' = sc_Net e \<Longrightarrow> sc_Proto e' = sc_Proto e \<Longrightarrow> sc_Port e' = sc_Port e \<Longrightarrow>
      cidr_covers (sc_CIDR e') w \<Longrightarrow> cidr_bits (sc_CIDR e') \<le> cidr_bits (sc_CIDR e)"
  shows "bit (sg_entry_groups entries e) g \<longleftrightarrow>
    (\<exists>j \<in> set entries. sc_Net j = sc_Net e \<and> sc_Proto j = sc_Proto e \<and> sc_Port j = sc_Port e \<and> cidr_covers (sc_CIDR j) w \<and>
      bit (sc_AllowedGroups j) g)"
proof -
  obtain p where p: "normalizedCIDR (sc_CIDR e) = Inr p" "prefix_contains p w"
    using e(3) by (auto simp: cidr_covers_def split: sum.splits)
  have key: "group_key (sg_group_of j) = Some (s, pr, po, q) \<longleftrightarrow>
      sc_Net j = s \<and> sc_Proto j = pr \<and> sc_Port j = po \<and> normalizedCIDR (sc_CIDR j) = Inr q" for j s pr po q
    by (cases "sc_CIDR j") (auto simp: group_key_def sg_group_of_def normalizedCIDR_def split: sum.splits)
  have wf: "wf_prefix p" using normalizedCIDR_wf [OF p(1)] by simp
  have cover: "pbits q \<le> pbits p \<and> prefix_contains q (paddr p) \<longleftrightarrow> prefix_contains q w"
    if "j \<in> set entries" "sc_Net j = sc_Net e" "sc_Proto j = sc_Proto e" "sc_Port j = sc_Port e" "normalizedCIDR (sc_CIDR j) = Inr q" for j q
  proof -
    have q: "wf_prefix q" "0 \<le> pbits q" "0 \<le> pbits p" using normalizedCIDR_wf [OF that(5)] wf by (auto simp: wf_prefix_def)
    have "pbits q \<le> pbits p" if "prefix_contains q w"
      using longest [of j] \<open>j \<in> set entries\<close> \<open>sc_Net j = sc_Net e\<close> \<open>sc_Proto j = sc_Proto e\<close> \<open>sc_Port j = sc_Port e\<close>
        \<open>normalizedCIDR (sc_CIDR j) = Inr q\<close> p(1) that by (simp add: cidr_covers_def cidr_bits_def)
    then show ?thesis using netip.covers_via_longest [OF wf q(1) p(2)] q by (auto simp: nat_le_eq_zle)
  qed
  have "bit (sg_entry_groups entries e) g \<longleftrightarrow>
      (\<exists>j \<in> set entries. \<exists>q. sc_Net j = sc_Net e \<and> sc_Proto j = sc_Proto e \<and> sc_Port j = sc_Port e \<and>
        normalizedCIDR (sc_CIDR j) = Inr q \<and> (pbits q \<le> pbits p \<and> prefix_contains q (paddr p)) \<and> bit (sc_AllowedGroups j) g)"
    using bit_union_of [of "sg_group_of e" "sc_Net e" "sc_Proto e" "sc_Port e" p "map sg_group_of entries" g] p(1)
    unfolding sg_entry_groups_def by (auto simp: key) (auto simp: sg_group_of_def)
  also have "\<dots> \<longleftrightarrow> (\<exists>j \<in> set entries. \<exists>q. sc_Net j = sc_Net e \<and> sc_Proto j = sc_Proto e \<and> sc_Port j = sc_Port e \<and>
        normalizedCIDR (sc_CIDR j) = Inr q \<and> prefix_contains q w \<and> bit (sc_AllowedGroups j) g)"
    using cover by meson
  also have "\<dots> \<longleftrightarrow> (\<exists>j \<in> set entries. sc_Net j = sc_Net e \<and> sc_Proto j = sc_Proto e \<and> sc_Port j = sc_Port e \<and> cidr_covers (sc_CIDR j) w \<and>
      bit (sc_AllowedGroups j) g)"
  proof -
    have "cidr_covers (sc_CIDR j) w \<longleftrightarrow> (\<exists>q. normalizedCIDR (sc_CIDR j) = Inr q \<and> prefix_contains q w)" for j
      by (cases "normalizedCIDR (sc_CIDR j)") (auto simp: cidr_covers_def)
    then show ?thesis by blast
  qed
  finally show ?thesis .
qed

text \<open>
  The lookup finds one entry, and that entry carries the groups of every rule that covers the address:
  asking whether a group is admitted is asking whether some rule admits it.
\<close>

definition sg_cidr_admits :: "SGCidr list \<Rightarrow> u32 \<Rightarrow> u8 \<Rightarrow> u16 \<Rightarrow> addr \<Rightarrow> u64 \<Rightarrow> bool" where
  "sg_cidr_admits entries net proto port w groups = (\<exists>e \<in> set entries. sc_Net e = net \<and> sc_Proto e = proto \<and>
     (sc_Port e = port \<or> sc_Port e = 0) \<and> cidr_covers (sc_CIDR e) w \<and> sc_AllowedGroups e AND groups \<noteq> 0)"

lemma sg_cidr_lookup:
  assumes trie: "lpm_trie lookup content sg_cidr_matches (\<lambda>k. unat (sk_Prefixlen k))"
    and table: "union_table sg_entry_key (sg_entry_groups entries) entries content" and w: "packet_addr w family a"
  shows "hits_groups (lookup (sg_cidr_query net port proto family a)) m \<longleftrightarrow> (\<exists>e \<in> set entries. sc_Net e = net \<and>
    sc_Proto e = proto \<and> sc_Port e = htons port \<and> cidr_covers (sc_CIDR e) w \<and> sc_AllowedGroups e AND m \<noteq> 0)"
proof -
  let ?E = "set entries" and ?q = "(net, port, proto, family, a)" and ?lookup = "lookup (sg_cidr_query net port proto family a)"
  let ?hits = "\<lambda>e. sc_Net e = net \<and> sc_Proto e = proto \<and> sc_Port e = htons port \<and> cidr_covers (sc_CIDR e) w"
  have content: "content k \<noteq> None \<longleftrightarrow> (\<exists>e \<in> ?E. sg_entry_key e = Some k)" for k
    using table by (simp add: union_table_def)
  note found = sg_range.lookup_longest [OF trie, of w ?q, OF _ _ _ content, simplified, OF w]
  show ?thesis
  proof (cases ?lookup)
    case None
    then show ?thesis using found by (auto simp: hits_groups_def)
  next
    case (Some v)
    then obtain e k where e: "e \<in> ?E" "sg_entry_key e = Some k" "content k = Some v"
      "\<And>e'. e' \<in> ?E \<Longrightarrow> sg_entry_key e' = Some k \<Longrightarrow> ?hits e' \<and> (\<forall>j \<in> ?E. ?hits j \<longrightarrow> cidr_bits (sc_CIDR j) \<le> cidr_bits (sc_CIDR e'))"
      using found by auto
    have one: "bit (sg_entry_groups entries e') g \<longleftrightarrow> (\<exists>j \<in> ?E. ?hits j \<and> bit (sc_AllowedGroups j) g)"
      if "e' \<in> ?E" "sg_entry_key e' = Some k" for e' g
      using sg_union_bit [OF that, of w g] e(4) [OF that] by auto
    have "bit v g \<longleftrightarrow> (\<exists>e' \<in> ?E. sg_entry_key e' = Some k \<and> bit (sg_entry_groups entries e') g)" for g
      using table e(3) by (simp add: union_table_def)
    then have "bit v g \<longleftrightarrow> (\<exists>j \<in> ?E. ?hits j \<and> bit (sc_AllowedGroups j) g)" for g
      using one e(1,2) by blast
    then show ?thesis using Some unfolding hits_groups_def and_nonzero_iff by (auto simp: and_nonzero_iff)
  qed
qed

section \<open>The decisions in terms of the rules\<close>

definition sg_reads :: "sg_env \<Rightarrow> (u32 \<rightharpoonup> u32) \<Rightarrow> (local_key \<rightharpoonup> sg_member) \<Rightarrow> (sg_rule_key \<rightharpoonup> u64) \<Rightarrow>
    (sg_cidr_key \<rightharpoonup> u64) \<Rightarrow> (sg_egress_key \<rightharpoonup> u64) \<Rightarrow> (sg_cidr_key \<rightharpoonup> u64) \<Rightarrow> bool" where
  "sg_reads s params members rules cidr egress egress_cidr = (s_params s = params \<and> s_members s = members \<and>
     s_rules s = rules \<and> s_egress s = egress \<and>
     lpm_trie (s_cidr s) cidr sg_cidr_matches (\<lambda>k. unat (sk_Prefixlen k)) \<and>
     lpm_trie (s_egress_cidr s) egress_cidr sg_cidr_matches (\<lambda>k. unat (sk_Prefixlen k)))"

definition sg_tables :: "SGMember list \<Rightarrow> SGRule list \<Rightarrow> SGCidr list \<Rightarrow> SGEgress list \<Rightarrow> SGEgressCidr list \<Rightarrow>
    (local_key \<rightharpoonup> sg_member) \<Rightarrow> (sg_rule_key \<rightharpoonup> u64) \<Rightarrow> (sg_cidr_key \<rightharpoonup> u64) \<Rightarrow> (sg_egress_key \<rightharpoonup> u64) \<Rightarrow>
    (sg_cidr_key \<rightharpoonup> u64) \<Rightarrow> bool" where
  "sg_tables ms rs cs es ecs vm vr vc ve vec = (vm = sg_member_of ms \<and>
     union_table (\<lambda>r. Some (sg_rule_keyof r)) sr_Allowed rs vr \<and> union_table sg_entry_key (sg_entry_groups cs) cs vc \<and>
     union_table (\<lambda>r. Some (sg_egress_keyof r)) eg_Allowed es ve \<and> union_table sg_entry_key (sg_entry_groups ecs) ecs vec)"

text \<open>A north-south client is admitted by a rule for the whole world or by a range that covers it.\<close>

definition ns_sg_policy :: "u64 \<Rightarrow> SGRule list \<Rightarrow> SGCidr list \<Rightarrow> u32 \<Rightarrow> u128 \<Rightarrow> addr \<Rightarrow> u8 \<Rightarrow> u16 \<Rightarrow> bool" where
  "ns_sg_policy dstmap rules cidrs net vpc_ip w proto dport =
     (sg_policy dstmap rules \<lparr>sq_dst = \<lparr>lk_Net = net, lk_Ip = vpc_ip\<rparr>, sq_src_net = net, sq_srcmap = push_bit SGWorldGroup 1,
        sq_dport = dport, sq_proto = proto\<rparr> \<or> sg_cidr_admits cidrs net proto (htons dport) w dstmap)"

definition ns_egress_policy :: "u64 \<Rightarrow> SGEgressCidr list \<Rightarrow> u32 \<Rightarrow> addr \<Rightarrow> u8 \<Rightarrow> u16 option \<Rightarrow> bool" where
  "ns_egress_policy srcmap cidrs srcnet w proto l4 = (srcmap = 0 \<or> (case l4 of None \<Rightarrow> True
     | Some dport \<Rightarrow> sg_cidr_admits cidrs srcnet proto (htons dport) w srcmap))"

lemma cidr_proto_split: "cidr_proto proto v6 = ucast proto OR push_bit 8 (ucast (if v6 then 6 else 4 :: u8))"
  by (simp add: cidr_proto_def)

lemma cidr_proto_low: "ucast (cidr_proto proto v6) = proto"
  by (rule bit_word_eqI) (auto simp: cidr_proto_def bit_simps)

lemma sg_cidr_pair:
  fixes net :: u32 and dport :: u16 and proto :: u8
  assumes "lpm_trie lookup content sg_cidr_matches (\<lambda>k. unat (sk_Prefixlen k))"
    and "union_table sg_entry_key (sg_entry_groups entries) entries content" and "packet_addr w (if v6 then 6 else 4) a"
  defines "ck \<equiv> \<lparr>sk_Prefixlen = 64 + 128, sk_Net = net, sk_Port = dport, sk_Proto = cidr_proto proto v6, sk_Client = a\<rparr>"
  shows "hits_groups (lookup ck) m \<or> hits_groups (lookup (ck\<lparr>sk_Port := 0\<rparr>)) m \<longleftrightarrow>
    sg_cidr_admits entries net proto (htons dport) w m"
proof -
  have "ck = sg_cidr_query net dport proto (if v6 then 6 else 4) a"
    "ck\<lparr>sk_Port := 0\<rparr> = sg_cidr_query net 0 proto (if v6 then 6 else 4) a"
    by (simp_all add: ck_def sg_cidr_query_def cidr_proto_split)
  then show ?thesis
    using sg_cidr_lookup [OF assms(1-3), of net dport proto m] sg_cidr_lookup [OF assms(1-3), of net 0 proto m]
    by (auto simp: sg_cidr_admits_def)
qed

lemma sg_decisions:
  assumes reads: "sg_reads s params vm vr vc ve vec" and idle: "params cfgSGUpdating = Some 0"
    and tables: "sg_tables ms rs cs es ecs vm vr vc ve vec"
  shows "sg_admit s q = sg_policy (sg_membership s (sq_dst q)) rs q" "sg_egress_admit s eq = sg_egress_policy es eq"
    and "packet_addr w (if v6 then 6 else 4) a \<Longrightarrow> ns_sg_admit s net vpc_ip a (cidr_proto proto v6) dport =
      ns_sg_policy (sg_membership s \<lparr>lk_Net = net, lk_Ip = vpc_ip\<rparr>) rs cs net vpc_ip w proto dport"
    and "packet_addr w (if v6 then 6 else 4) a \<Longrightarrow> ns_egress_ok s skb net v6 proto src a =
      ns_egress_policy (sg_membership s \<lparr>lk_Net = net, lk_Ip = src\<rparr>) ecs net w proto
        (sg_l4 skb proto (if v6 then 14 + 40 else 14 + 20))"
proof -
  have u: "\<not> sg_updating s" using reads idle by (simp add: sg_updating_def sg_reads_def)
  have trie: "lpm_trie (s_cidr s) vc sg_cidr_matches (\<lambda>k. unat (sk_Prefixlen k))"
    "lpm_trie (s_egress_cidr s) vec sg_cidr_matches (\<lambda>k. unat (sk_Prefixlen k))" using reads by (simp_all add: sg_reads_def)
  have table: "union_table sg_entry_key (sg_entry_groups cs) cs vc" "union_table sg_entry_key (sg_entry_groups ecs) ecs vec"
    using tables by (simp_all add: sg_tables_def)
  show admit: "sg_admit s q = sg_policy (sg_membership s (sq_dst q)) rs q" for q
    using reads tables by (intro sg_admit_iff [OF u]) (simp add: sg_reads_def sg_tables_def)
  show "sg_egress_admit s eq = sg_egress_policy es eq"
    using reads tables by (intro sg_egress_admit_iff [OF u]) (simp add: sg_reads_def sg_tables_def)
  show "ns_sg_admit s net vpc_ip a (cidr_proto proto v6) dport =
      ns_sg_policy (sg_membership s \<lparr>lk_Net = net, lk_Ip = vpc_ip\<rparr>) rs cs net vpc_ip w proto dport"
    if "packet_addr w (if v6 then 6 else 4) a"
    using sg_cidr_pair [OF trie(1) table(1) that, of net dport proto "sg_membership s \<lparr>lk_Net = net, lk_Ip = vpc_ip\<rparr>"] u
    by (auto simp: ns_sg_admit_def ns_sg_check_def ns_sg_policy_def admit Let_def cidr_proto_low)
  show "ns_egress_ok s skb net v6 proto src a = ns_egress_policy (sg_membership s \<lparr>lk_Net = net, lk_Ip = src\<rparr>) ecs net w proto
        (sg_l4 skb proto (if v6 then 14 + 40 else 14 + 20))" if "packet_addr w (if v6 then 6 else 4) a"
  proof (cases "sg_l4 skb proto (if v6 then 14 + 40 else 14 + 20)")
    case None
    then show ?thesis using u by (simp add: ns_egress_ok_def ns_egress_policy_def Let_def)
  next
    case (Some dport)
    then show ?thesis
      using sg_cidr_pair [OF trie(2) table(2) that, of net dport proto "sg_membership s \<lparr>lk_Net = net, lk_Ip = src\<rparr>"] u
      by (auto simp: ns_egress_ok_def ns_egress_policy_def Let_def)
  qed
qed

end
