(* ===== verification/SgApply.thy ===== *)
theory SgApply
  imports SgDatapath
begin

text \<open>
  The guarded update of the security-group tables (\<^verbatim>\<open>ApplySecurityGroups\<close>) over any kernel that meets the
  contract of its maps, and what the packet program decides after it.
\<close>

section \<open>The kernel as security groups use it\<close>

locale sg_kernel =
  params: ebpf_map "SgParams m" vp + members: ebpf_map "SgMembers m" vm + rules: ebpf_map "SgRules m" vr +
  cidr: ebpf_map "SgCidr m" vc + egress: ebpf_map "SgEgress m" ve + ecidr: ebpf_map "SgEgressCidr m" vec
  for m :: "'w sg_objs" and vp vm vr vc ve vec +
  assumes params_frame: "map_frame (SgParams m) (\<lambda>w. (vm w, vr w, vc w, ve w, vec w))"
    and members_frame: "map_frame (SgMembers m) (\<lambda>w. (vp w, vr w, vc w, ve w, vec w))"
    and rules_frame: "map_frame (SgRules m) (\<lambda>w. (vp w, vm w, vc w, ve w, vec w))"
    and cidr_frame: "map_frame (SgCidr m) (\<lambda>w. (vp w, vm w, vr w, ve w, vec w))"
    and egress_frame: "map_frame (SgEgress m) (\<lambda>w. (vp w, vm w, vr w, vc w, vec w))"
    and ecidr_frame: "map_frame (SgEgressCidr m) (\<lambda>w. (vp w, vm w, vr w, vc w, ve w))"
begin

abbreviation armed :: "'w \<Rightarrow> bool" where
  "armed w \<equiv> vp w cfgSGUpdating = Some 1"

lemma put_params:
  "triple (\<lambda>w. P ((vp w)(k \<mapsto> v)) (vm w) (vr w) (vc w) (ve w) (vec w) \<and> E (vp w) (vm w) (vr w) (vc w) (ve w) (vec w))
     (put (SgParams m) k v)
     (\<lambda>w. P (vp w) (vm w) (vr w) (vc w) (ve w) (vec w)) (\<lambda>w. E (vp w) (vm w) (vr w) (vc w) (ve w) (vec w))"
proof (rule triple_by_view [where f = "\<lambda>w. (vp w, vm w, vr w, vc w, ve w, vec w)"])
  fix w assume pre: "P ((vp w)(k \<mapsto> v)) (vm w) (vr w) (vc w) (ve w) (vec w) \<and> E (vp w) (vm w) (vr w) (vc w) (ve w) (vec w)"
  have keep: "map_keeps (SgParams m) (\<lambda>u. (vm u, vr u, vc u, ve u, vec u) = (vm w, vr w, vc w, ve w, vec w))"
    by (rule frame_keeps [OF params_frame])
  show "triple (\<lambda>u. (vp u, vm u, vr u, vc u, ve u, vec u) = (vp w, vm w, vr w, vc w, ve w, vec w)) (put (SgParams m) k v)
      (\<lambda>w. P (vp w) (vm w) (vr w) (vc w) (ve w) (vec w)) (\<lambda>w. E (vp w) (vm w) (vr w) (vc w) (ve w) (vec w))"
    by (rule triple_conseq [OF triple_conj [OF params.put_triple [of "vp w" k v] put_keeps [OF keep, of k v]]])
      (use pre in auto)
qed

text \<open>Each synchronisation establishes its own table and leaves the others alone.\<close>

lemma sync_members:
  assumes "valid_order ord"
  shows "triple (\<lambda>_. True) (SyncSGMembers ord m ms) (\<lambda>w. vm w = sg_member_of ms) (\<lambda>_. True)"
    and "(\<And>w. Q w \<longleftrightarrow> R (vp w, vr w, vc w, ve w, vec w)) \<Longrightarrow> triple Q (SyncSGMembers ord m ms) Q Q"
  unfolding SyncSGMembers_def
  by (rule members.sync_desired_post [OF assms], erule sg_member_table) (rule frame_sync [OF members_frame, where R = R])

lemma sync_rules:
  assumes "valid_order ord"
  shows "triple (\<lambda>_. True) (SyncSGRules ord m rs) (\<lambda>w. union_table (\<lambda>r. Some (sg_rule_keyof r)) sr_Allowed rs (vr w)) (\<lambda>_. True)"
    and "(\<And>w. Q w \<longleftrightarrow> R (vp w, vm w, vc w, ve w, vec w)) \<Longrightarrow> triple Q (SyncSGRules ord m rs) Q Q"
  unfolding SyncSGRules_def
  by (rule rules.sync_desired_post [OF assms], erule sg_rules_table) (rule frame_sync [OF rules_frame, where R = R])

lemma sync_cidr:
  assumes "valid_order ord"
  shows "triple (\<lambda>_. True) (SyncSGCidr ord m cs) (\<lambda>w. union_table sg_entry_key (sg_entry_groups cs) cs (vc w)) (\<lambda>_. True)"
    and "(\<And>w. Q w \<longleftrightarrow> R (vp w, vm w, vr w, ve w, vec w)) \<Longrightarrow> triple Q (SyncSGCidr ord m cs) Q Q"
  unfolding SyncSGCidr_def
  by (rule cidr.sync_desired_post [OF assms], erule sg_cidr_table) (rule frame_sync [OF cidr_frame, where R = R])

lemma sync_egress:
  assumes "valid_order ord"
  shows "triple (\<lambda>_. True) (SyncSGEgress ord m es) (\<lambda>w. union_table (\<lambda>r. Some (sg_egress_keyof r)) eg_Allowed es (ve w)) (\<lambda>_. True)"
    and "(\<And>w. Q w \<longleftrightarrow> R (vp w, vm w, vr w, vc w, vec w)) \<Longrightarrow> triple Q (SyncSGEgress ord m es) Q Q"
  unfolding SyncSGEgress_def
  by (rule egress.sync_desired_post [OF assms], erule sg_egress_table) (rule frame_sync [OF egress_frame, where R = R])

lemma sync_ecidr:
  assumes "valid_order ord"
  shows "triple (\<lambda>_. True) (SyncSGEgressCidr ord m ecs) (\<lambda>w. union_table sg_entry_key (sg_entry_groups ecs) ecs (vec w)) (\<lambda>_. True)"
    and "(\<And>w. Q w \<longleftrightarrow> R (vp w, vm w, vr w, vc w, ve w)) \<Longrightarrow> triple Q (SyncSGEgressCidr ord m ecs) Q Q"
  unfolding SyncSGEgressCidr_def
  by (rule ecidr.sync_desired_post [OF assms], erule sg_cidr_table) (rule frame_sync [OF ecidr_frame, where R = R])

lemma stages_triple:
  assumes "\<And>i. valid_order (ords i)"
  shows "triple armed (do_seq [SyncSGMembers (ords 0) m ms, SyncSGRules (ords 1) m rs, SyncSGCidr (ords 2) m cs,
      SyncSGEgress (ords 3) m es, SyncSGEgressCidr (ords 4) m ecs])
    (\<lambda>w. armed w \<and> sg_tables ms rs cs es ecs (vm w) (vr w) (vc w) (ve w) (vec w)) armed"
proof -
  let ?A = "\<lambda>p. p cfgSGUpdating = Some 1"
  let ?M = "\<lambda>t. t = sg_member_of ms"
  let ?R = "union_table (\<lambda>r. Some (sg_rule_keyof r)) sr_Allowed rs"
  let ?C = "union_table sg_entry_key (sg_entry_groups cs) cs"
  let ?E = "union_table (\<lambda>r. Some (sg_egress_keyof r)) eg_Allowed es"
  let ?F = "union_table sg_entry_key (sg_entry_groups ecs) ecs"
  have s1: "triple (\<lambda>w. armed w \<and> True) (SyncSGMembers (ords 0) m ms) (\<lambda>w. armed w \<and> (True) \<and> ?M (vm w)) armed"
    by (rule guarded_stage [OF sync_members(1) [OF assms] sync_members(2) [OF assms, where R = "\<lambda>(p, _). ?A p \<and> True"]]) simp
  have s2: "triple (\<lambda>w. armed w \<and> ?M (vm w)) (SyncSGRules (ords 1) m rs) (\<lambda>w. armed w \<and> (?M (vm w)) \<and> ?R (vr w)) armed"
    by (rule guarded_stage [OF sync_rules(1) [OF assms] sync_rules(2) [OF assms, where R = "\<lambda>(p, mm, _). ?A p \<and> ?M mm"]]) simp
  have s3: "triple (\<lambda>w. armed w \<and> ?M (vm w) \<and> ?R (vr w)) (SyncSGCidr (ords 2) m cs) (\<lambda>w. armed w \<and> (?M (vm w) \<and> ?R (vr w)) \<and> ?C (vc w)) armed"
    by (rule guarded_stage [OF sync_cidr(1) [OF assms] sync_cidr(2) [OF assms, where R = "\<lambda>(p, mm, r, _). ?A p \<and> ?M mm \<and> ?R r"]]) simp
  have s4: "triple (\<lambda>w. armed w \<and> ?M (vm w) \<and> ?R (vr w) \<and> ?C (vc w)) (SyncSGEgress (ords 3) m es) (\<lambda>w. armed w \<and> (?M (vm w) \<and> ?R (vr w) \<and> ?C (vc w)) \<and> ?E (ve w)) armed"
    by (rule guarded_stage [OF sync_egress(1) [OF assms] sync_egress(2) [OF assms, where R = "\<lambda>(p, mm, r, c, _). ?A p \<and> ?M mm \<and> ?R r \<and> ?C c"]]) simp
  have s5: "triple (\<lambda>w. armed w \<and> ?M (vm w) \<and> ?R (vr w) \<and> ?C (vc w) \<and> ?E (ve w)) (SyncSGEgressCidr (ords 4) m ecs) (\<lambda>w. armed w \<and> (?M (vm w) \<and> ?R (vr w) \<and> ?C (vc w) \<and> ?E (ve w)) \<and> ?F (vec w)) armed"
    by (rule guarded_stage [OF sync_ecidr(1) [OF assms] sync_ecidr(2) [OF assms, where R = "\<lambda>(p, mm, r, c, e). ?A p \<and> ?M mm \<and> ?R r \<and> ?C c \<and> ?E e"]]) simp
  have "triple (\<lambda>w. armed w \<and> True) (do_seq [SyncSGMembers (ords 0) m ms, SyncSGRules (ords 1) m rs, SyncSGCidr (ords 2) m cs,
      SyncSGEgress (ords 3) m es, SyncSGEgressCidr (ords 4) m ecs])
    (\<lambda>w. armed w \<and> (?M (vm w) \<and> ?R (vr w) \<and> ?C (vc w) \<and> ?E (ve w)) \<and> ?F (vec w)) armed"
    using s1 s2 s3 s4 s5 unfolding conj_assoc simp_thms(21,22) by (intro triple_Cons triple_Nil)
  then show ?thesis by (simp add: sg_tables_def conj_assoc)
qed

lemma apply_triple:
  assumes "\<And>i. valid_order (ords i)"
  shows "triple (\<lambda>w. (vp w, vm w, vr w, vc w, ve w, vec w) = V) (ApplySecurityGroups ords m ms rs cs es ecs)
    (\<lambda>w. sg_tables ms rs cs es ecs (vm w) (vr w) (vc w) (ve w) (vec w) \<and>
       vp w cfgSGUpdating = Some 0 \<and> vp w cfgSGInitialized = Some 1)
    (\<lambda>w. (vp w, vm w, vr w, vc w, ve w, vec w) = V \<or> armed w)"
proof -
  let ?E = "\<lambda>w. (vp w, vm w, vr w, vc w, ve w, vec w) = V \<or> armed w"
  let ?T = "\<lambda>w. sg_tables ms rs cs es ecs (vm w) (vr w) (vc w) (ve w) (vec w)"
  have ne: "cfgSGInitialized \<noteq> cfgSGUpdating" by (simp add: cfgSGInitialized_def cfgSGUpdating_def)
  have arm: "triple (\<lambda>w. (vp w, vm w, vr w, vc w, ve w, vec w) = V) (put (SgParams m) cfgSGUpdating 1) armed ?E"
    by (rule triple_conseq [OF put_params [where P = "\<lambda>p _ _ _ _ _. p cfgSGUpdating = Some 1" and
        E = "\<lambda>p mm r c e ec. (p, mm, r, c, e, ec) = V"]]) auto
  have init: "triple (\<lambda>w. armed w \<and> ?T w) (put (SgParams m) cfgSGInitialized 1) (\<lambda>w. armed w \<and> ?T w \<and> vp w cfgSGInitialized = Some 1) ?E"
    by (rule triple_conseq [OF put_params [where P = "\<lambda>p mm r c e ec. p cfgSGUpdating = Some 1 \<and> sg_tables ms rs cs es ecs mm r c e ec \<and>
        p cfgSGInitialized = Some 1" and E = "\<lambda>p _ _ _ _ _. p cfgSGUpdating = Some 1"]]) (use ne in auto)
  have disarm: "triple (\<lambda>w. armed w \<and> ?T w \<and> vp w cfgSGInitialized = Some 1) (put (SgParams m) cfgSGUpdating 0)
      (\<lambda>w. ?T w \<and> vp w cfgSGUpdating = Some 0 \<and> vp w cfgSGInitialized = Some 1) ?E"
    by (rule triple_conseq [OF put_params [where P = "\<lambda>p mm r c e ec. sg_tables ms rs cs es ecs mm r c e ec \<and> p cfgSGUpdating = Some 0 \<and>
        p cfgSGInitialized = Some 1" and E = "\<lambda>p _ _ _ _ _. p cfgSGUpdating = Some 1"]]) (use ne in auto)
  let ?stages = "[SyncSGMembers (ords 0) m ms, SyncSGRules (ords 1) m rs, SyncSGCidr (ords 2) m cs,
      SyncSGEgress (ords 3) m es, SyncSGEgressCidr (ords 4) m ecs]"
  have "triple armed (do_seq ?stages) (\<lambda>w. armed w \<and> ?T w) ?E"
    by (rule triple_conseq [OF stages_triple [OF assms]]) auto
  moreover have "triple (\<lambda>w. armed w \<and> ?T w) (do_seq [put (SgParams m) cfgSGInitialized 1, put (SgParams m) cfgSGUpdating 0])
      (\<lambda>w. ?T w \<and> vp w cfgSGUpdating = Some 0 \<and> vp w cfgSGInitialized = Some 1) ?E"
    by (intro triple_Cons [OF init] triple_Cons [OF disarm] triple_Nil)
  ultimately have "triple armed (do_seq (?stages @ [put (SgParams m) cfgSGInitialized 1, put (SgParams m) cfgSGUpdating 0]))
      (\<lambda>w. ?T w \<and> vp w cfgSGUpdating = Some 0 \<and> vp w cfgSGInitialized = Some 1) ?E"
    by (rule triple_append)
  then show ?thesis unfolding ApplySecurityGroups_def append.simps by (rule triple_Cons [OF arm])
qed

lemma apply_guarded:
  assumes "map_keeps (SgMembers m) (\<lambda>w. armed w \<and> P w)" "map_keeps (SgRules m) (\<lambda>w. armed w \<and> P w)"
    "map_keeps (SgCidr m) (\<lambda>w. armed w \<and> P w)" "map_keeps (SgEgress m) (\<lambda>w. armed w \<and> P w)"
    "map_keeps (SgEgressCidr m) (\<lambda>w. armed w \<and> P w)" and params: "map_keeps (SgParams m) P"
  shows "triple P (ApplySecurityGroups ords m ms rs cs es ecs) P P"
proof -
  note put = triple_conj [OF params.put_triple put_keeps [OF params]]
  have arm: "triple P (put (SgParams m) cfgSGUpdating 1) (\<lambda>w. armed w \<and> P w) P"
    by (rule triple_by_view [where f = "\<lambda>w. (vp w, P w)"], rule triple_conseq [OF put]) auto
  have init: "triple (\<lambda>w. armed w \<and> P w) (put (SgParams m) cfgSGInitialized 1) (\<lambda>w. armed w \<and> P w) P"
    by (rule triple_by_view [where f = "\<lambda>w. (vp w, P w)"], rule triple_conseq [OF put])
      (auto simp: cfgSGInitialized_def cfgSGUpdating_def)
  have disarm: "triple (\<lambda>w. armed w \<and> P w) (put (SgParams m) cfgSGUpdating 0) P P"
    by (rule triple_conseq [OF put_keeps [OF params]]) auto
  have stage: "triple (\<lambda>w. armed w \<and> P w) c (\<lambda>w. armed w \<and> P w) P"
    if "triple (\<lambda>w. armed w \<and> P w) c (\<lambda>w. armed w \<and> P w) (\<lambda>w. armed w \<and> P w)" for c
    by (rule triple_conseq [OF that]) auto
  show ?thesis unfolding ApplySecurityGroups_def SyncSGMembers_def SyncSGRules_def SyncSGCidr_def SyncSGEgress_def SyncSGEgressCidr_def
    by (intro triple_Cons [OF arm] triple_Cons [OF stage] triple_Cons [OF init] triple_Cons [OF disarm] triple_Nil
        sync_desired_keeps assms(1-5))
qed

end

section \<open>A kernel for security groups\<close>

record sg_world =
  sw_faults :: "errno option list"
  sw_params :: "(u32 \<times> u32) list"
  sw_members :: "(local_key \<times> sg_member) list"
  sw_rules :: "(sg_rule_key \<times> u64) list"
  sw_cidr :: "(sg_cidr_key \<times> u64) list"
  sw_egress :: "(sg_egress_key \<times> u64) list"
  sw_ecidr :: "(sg_cidr_key \<times> u64) list"
  sw_unguarded :: bool

definition sg_tick :: "sg_world \<Rightarrow> errno option \<times> sg_world" where
  "sg_tick w = (case sw_faults w of [] \<Rightarrow> (None, w)
     | f # fs \<Rightarrow> (if f = Some ENOENT then Some EIO else f, w\<lparr>sw_faults := fs\<rparr>))"

definition sg_touch :: "sg_world \<Rightarrow> sg_world" where
  "sg_touch w = w\<lparr>sw_unguarded := sw_unguarded w \<or> map_of (sw_params w) cfgSGUpdating \<noteq> Some 1\<rparr>"

definition sg_maps :: "(sg_world \<Rightarrow> errno option \<times> sg_world) \<Rightarrow> sg_world sg_objs" where
  "sg_maps tick = \<lparr>SgParams = alist_ops 16 sw_params (\<lambda>xs w. w\<lparr>sw_params := xs\<rparr>) tick,
     SgMembers = alist_ops 65536 sw_members (\<lambda>xs w. sg_touch (w\<lparr>sw_members := xs\<rparr>)) tick,
     SgRules = alist_ops 65536 sw_rules (\<lambda>xs w. sg_touch (w\<lparr>sw_rules := xs\<rparr>)) tick,
     SgCidr = alist_ops 16384 sw_cidr (\<lambda>xs w. sg_touch (w\<lparr>sw_cidr := xs\<rparr>)) tick,
     SgEgress = alist_ops 65536 sw_egress (\<lambda>xs w. sg_touch (w\<lparr>sw_egress := xs\<rparr>)) tick,
     SgEgressCidr = alist_ops 16384 sw_ecidr (\<lambda>xs w. sg_touch (w\<lparr>sw_ecidr := xs\<rparr>)) tick\<rparr>"

lemma sg_tick_frame [simp]: "sw_params (snd (sg_tick w)) = sw_params w" "sw_members (snd (sg_tick w)) = sw_members w"
  "sw_rules (snd (sg_tick w)) = sw_rules w" "sw_cidr (snd (sg_tick w)) = sw_cidr w" "sw_egress (snd (sg_tick w)) = sw_egress w"
  "sw_ecidr (snd (sg_tick w)) = sw_ecidr w" "sw_unguarded (snd (sg_tick w)) = sw_unguarded w" "fst (sg_tick w) \<noteq> Some ENOENT"
  by (auto simp: sg_tick_def split: list.splits)

interpretation sg_ref: sg_kernel "sg_maps sg_tick" "\<lambda>w. map_of (sw_params w)" "\<lambda>w. map_of (sw_members w)"
  "\<lambda>w. map_of (sw_rules w)" "\<lambda>w. map_of (sw_cidr w)" "\<lambda>w. map_of (sw_egress w)" "\<lambda>w. map_of (sw_ecidr w)"
  by (intro sg_kernel.intro sg_kernel_axioms.intro)
    (auto simp: sg_maps_def sg_touch_def intro!: alist_ops_ebpf_map alist_ops_frame)

section \<open>A concrete update\<close>

definition sg_demo_world :: "errno option list \<Rightarrow> sg_world" where
  "sg_demo_world faults = \<lparr>sw_faults = faults, sw_params = [(cfgSGUpdating, 0), (cfgSGInitialized, 0)], sw_members = [],
     sw_rules = [], sw_cidr = [], sw_egress = [], sw_ecidr = [], sw_unguarded = False\<rparr>"

definition sg_demo_members :: "SGMember list" where
  "sg_demo_members = [\<lparr>sm_Net = 100, sm_IP = [10, 0, 0, 1], sm_Groups = 2, sm_Owner = (1, 0, 0, 0)\<rparr>]"

definition sg_demo_rules :: "SGRule list" where
  "sg_demo_rules = [\<lparr>sr_Net = 100, sr_SrcNet = 100, sr_Group = 1, sr_Proto = 6, sr_Port = 80, sr_Allowed = 4\<rparr>]"

definition sg_demo_cidrs :: "SGCidr list" where
  "sg_demo_cidrs = [\<lparr>sc_Net = 100, sc_Proto = 6, sc_Port = 443,
     sc_CIDR = Some \<lparr>net_ip = [192, 168, 0, 0], net_mask = [255, 255, 0, 0]\<rparr>, sc_AllowedGroups = 2\<rparr>]"

lemma sg_demo_cidr: "\<exists>a. cidrPolicyPrefix (Some \<lparr>net_ip = [192, 168, 0, 0], net_mask = [255, 255, 0, 0]\<rparr>) = Inr (a, 112, 4)"
proof -
  have "cidr_mask 16 4 = [255, 255, 0, 0]" by (simp add: cidr_mask_def upt_rec)
  then have "mask_size [255, 255, 0, 0] = (16, 32)" using mask_size_cidr_mask [of 16 4] by simp
  then show ?thesis
    by (simp add: cidrPolicyPrefix_def normalizedCIDR_def addr_from_slice_def unmap_def is4_def masked_prefix_from
        addr128_as16_v4 del: as16.simps)
qed

lemma sg_demo_runs:
  "\<exists>w'. ApplySecurityGroups plain_order (sg_maps sg_tick) sg_demo_members sg_demo_rules sg_demo_cidrs [] [] (sg_demo_world []) = (None, w')"
proof -
  obtain a where a: "cidrPolicyPrefix (Some \<lparr>net_ip = [192, 168, 0, 0], net_mask = [255, 255, 0, 0]\<rparr>) = Inr (a, 112, 4)"
    using sg_demo_cidr ..
  show ?thesis
    by (simp add: ApplySecurityGroups_def do_seq.simps put_def SyncSGMembers_def SyncSGRules_def SyncSGCidr_def SyncSGEgress_def
      SyncSGEgressCidr_def sync_desired_def sg_demo_members_def sg_demo_rules_def sg_demo_cidrs_def sg_demo_world_def
      sg_member_row_def sg_cidr_desired_def sg_cidr_items_def sg_cidr_item_def sg_cidr_row_def unionContaining_def cidrAddressPrefix_def
      addr128_def ip_to4_def a putDesired_def sg_maps_def alist_ops_def sg_tick_def sg_touch_def syncMap_def stale_keys_def
      unchanged_keys_def go_range_def plain_order_def)
qed

text \<open>The packet program on the tables of a state: the reference tries, no registered endpoint.\<close>

definition sg_demo_env :: "sg_world \<Rightarrow> sg_env" where
  "sg_demo_env w = \<lparr>s_params = map_of (sw_params w), s_members = map_of (sw_members w), s_locals = Map.empty,
     s_rules = map_of (sw_rules w), s_egress = map_of (sw_egress w),
     s_cidr = lpm_find sg_cidr_matches (\<lambda>k. unat (sk_Prefixlen k)) (AList.clearjunk (sw_cidr w)),
     s_egress_cidr = lpm_find sg_cidr_matches (\<lambda>k. unat (sk_Prefixlen k)) (AList.clearjunk (sw_ecidr w))\<rparr>"

lemma sg_demo_reads: "sg_reads (sg_demo_env w) (map_of (sw_params w)) (map_of (sw_members w)) (map_of (sw_rules w))
    (map_of (sw_cidr w)) (map_of (sw_egress w)) (map_of (sw_ecidr w))"
  using lpm_find_trie [of "AList.clearjunk (sw_cidr w)" sg_cidr_matches "\<lambda>k. unat (sk_Prefixlen k)"]
    lpm_find_trie [of "AList.clearjunk (sw_ecidr w)" sg_cidr_matches "\<lambda>k. unat (sk_Prefixlen k)"]
  by (simp add: sg_reads_def sg_demo_env_def map_of_clearjunk distinct_clearjunk)

lemma sg_demo_packet: "packet_addr (Addr4 0xc0a80101) (if False then 6 else 4) (nat64_prefix + 0xc0a80101)"
  by (simp add: packet_addr_def addr128_as16_v4 addr_family_def is4_def del: as16.simps)

section \<open>Properties\<close>

text \<open>
  (C25) End to end, security groups are enforced as compiled: when \<^verbatim>\<open>ApplySecurityGroups\<close> returns no error, the
  packet program that reads the maps it left takes its four decisions (east-west ingress and egress,
  north-south ingress and egress) exactly as the compiled members and rules say. In particular a
  north-south range that covers the client counts even when a longer range of another group shadows it
  in the trie.
\<close>

theorem ApplySecurityGroups_enforced:
  assumes "sg_kernel m vp vm vr vc ve vec" and "\<forall>i. valid_order (ords i)"
    and "ApplySecurityGroups ords m ms rs cs es ecs w = (None, w')"
    and "sg_reads s (vp w') (vm w') (vr w') (vc w') (ve w') (vec w')"
    and "packet_addr a (if v6 then 6 else 4) x"
  shows "s_members s = sg_member_of ms \<and>
    sg_admit s q = sg_policy (sg_membership s (sq_dst q)) rs q \<and> sg_egress_admit s eq = sg_egress_policy es eq \<and>
    ns_sg_admit s net ip x (cidr_proto proto v6) dport =
      ns_sg_policy (sg_membership s \<lparr>lk_Net = net, lk_Ip = ip\<rparr>) rs cs net ip a proto dport \<and>
    ns_egress_ok s skb net v6 proto ip x = ns_egress_policy (sg_membership s \<lparr>lk_Net = net, lk_Ip = ip\<rparr>) ecs net a proto
      (sg_l4 skb proto (if v6 then 14 + 40 else 14 + 20))"
proof -
  have t: "sg_tables ms rs cs es ecs (vm w') (vr w') (vc w') (ve w') (vec w')" "vp w' cfgSGUpdating = Some 0"
    using triple_ok [OF sg_kernel.apply_triple [OF assms(1)] refl assms(3)] assms(2) by blast+
  have "s_members s = sg_member_of ms" using t(1) assms(4) by (simp add: sg_tables_def sg_reads_def)
  then show ?thesis using sg_decisions [OF assms(4) t(2,1)] assms(5) by blast
qed

theorem ApplySecurityGroups_enforced_witness:
  "\<exists>w'. ApplySecurityGroups plain_order (sg_maps sg_tick) sg_demo_members sg_demo_rules sg_demo_cidrs [] [] (sg_demo_world []) = (None, w') \<and>
    ns_sg_admit (sg_demo_env w') 100 (nat64_prefix + 0x0a000001) (nat64_prefix + 0xc0a80101) (cidr_proto 6 False) (htons 443) =
      ns_sg_policy (sg_membership (sg_demo_env w') \<lparr>lk_Net = 100, lk_Ip = nat64_prefix + 0x0a000001\<rparr>) sg_demo_rules sg_demo_cidrs 100
        (nat64_prefix + 0x0a000001) (Addr4 0xc0a80101) 6 (htons 443)"
proof -
  obtain w' where w': "ApplySecurityGroups plain_order (sg_maps sg_tick) sg_demo_members sg_demo_rules sg_demo_cidrs [] [] (sg_demo_world []) = (None, w')"
    using sg_demo_runs by blast
  then show ?thesis
    using ApplySecurityGroups_enforced [OF sg_ref.sg_kernel_axioms _ w' sg_demo_reads sg_demo_packet] by auto
qed

text \<open>
  (C13) A failed update fails closed: if \<^verbatim>\<open>ApplySecurityGroups\<close> returns an error, then either it changed nothing (the
  guard could not be armed) or the packet program denies every gated packet, east-west and
  north-south, until an update succeeds.
\<close>

theorem ApplySecurityGroups_fail_closed:
  assumes "sg_kernel m vp vm vr vc ve vec" and "\<forall>i. valid_order (ords i)"
    and "ApplySecurityGroups ords m ms rs cs es ecs w = (Some e, w')" and "s_params s = vp w'"
  shows "(vp w', vm w', vr w', vc w', ve w', vec w') = (vp w, vm w, vr w, vc w, ve w, vec w) \<or>
    (\<not> sg_admit s q \<and> \<not> sg_egress_admit s eq \<and> \<not> ns_sg_admit s net ip x proto16 dport \<and>
     (ns_egress_ok s skb net v6 proto ip x \<longleftrightarrow> sg_l4 skb proto (if v6 then 14 + 40 else 14 + 20) = None))"
proof -
  have "(vp w', vm w', vr w', vc w', ve w', vec w') = (vp w, vm w, vr w, vc w, ve w, vec w) \<or> vp w' cfgSGUpdating = Some 1"
    using triple_error [OF sg_kernel.apply_triple [OF assms(1)] refl assms(3)] assms(2) by blast
  then show ?thesis
  proof
    assume "vp w' cfgSGUpdating = Some 1"
    then have "sg_updating s" using assms(4) by (simp add: sg_updating_def)
    then show ?thesis by (simp add: sg_admit_def sg_egress_admit_def ns_sg_admit_def ns_sg_check_def ns_egress_ok_def)
  qed simp
qed

theorem ApplySecurityGroups_fail_closed_witness:
  "\<exists>e w'. ApplySecurityGroups plain_order (sg_maps sg_tick) sg_demo_members sg_demo_rules sg_demo_cidrs [] []
      (sg_demo_world [None, Some EIO]) = (Some e, w') \<and> map_of (sw_params w') cfgSGUpdating = Some 1 \<and> (\<forall>q. \<not> sg_admit (sg_demo_env w') q)"
proof -
  let ?w = "sg_demo_world [None, Some EIO]"
  let ?w' = "?w\<lparr>sw_faults := [], sw_params := [(cfgSGUpdating, 1), (cfgSGInitialized, 0)]\<rparr>"
  have run: "ApplySecurityGroups plain_order (sg_maps sg_tick) sg_demo_members sg_demo_rules sg_demo_cidrs [] [] ?w = (Some (Kernel EIO), ?w')"
    by (simp add: ApplySecurityGroups_def do_seq.simps put_def SyncSGMembers_def sync_desired_def sg_demo_members_def
      sg_member_row_def addr128_def ip_to4_def putDesired_def syncMap_def sg_maps_def alist_ops_def sg_tick_def sg_demo_world_def
      cfgSGInitialized_def cfgSGUpdating_def)
  have "map_of (sw_params ?w') cfgSGUpdating = Some 1" "map_of (sw_params ?w) cfgSGUpdating = Some 0"
    by (simp_all add: sg_demo_world_def)
  then have "map_of (sw_params ?w') \<noteq> map_of (sw_params ?w)" by (metis option.inject zero_neq_one)
  moreover have "s_params (sg_demo_env ?w') = map_of (sw_params ?w')" by (simp add: sg_demo_env_def)
  ultimately have "\<not> sg_admit (sg_demo_env ?w') q" for q
    using ApplySecurityGroups_fail_closed [OF sg_ref.sg_kernel_axioms _ run, of "sg_demo_env ?w'" q]
    by (simp only: prod.inject valid_plain_order simp_thms)
  then show ?thesis using run \<open>map_of (sw_params ?w') cfgSGUpdating = Some 1\<close> by blast
qed

text \<open>
  (C26) No packet ever sees half-written groups: a property of the kernel state that the writes of the five
  tables keep while the guard is armed, and that the writes of the guard keep, is kept by the whole
  update, whether it succeeds or fails.
\<close>

theorem ApplySecurityGroups_writes_guarded:
  assumes "sg_kernel m vp vm vr vc ve vec"
    and "map_keeps (SgMembers m) (\<lambda>w. vp w cfgSGUpdating = Some 1 \<and> P w)"
    and "map_keeps (SgRules m) (\<lambda>w. vp w cfgSGUpdating = Some 1 \<and> P w)"
    and "map_keeps (SgCidr m) (\<lambda>w. vp w cfgSGUpdating = Some 1 \<and> P w)"
    and "map_keeps (SgEgress m) (\<lambda>w. vp w cfgSGUpdating = Some 1 \<and> P w)"
    and "map_keeps (SgEgressCidr m) (\<lambda>w. vp w cfgSGUpdating = Some 1 \<and> P w)"
    and "map_keeps (SgParams m) P" and "P w"
  shows "P (snd (ApplySecurityGroups ords m ms rs cs es ecs w))"
  using sg_kernel.apply_guarded [OF assms(1-7), of ords ms rs cs es ecs] assms(8)
  by (cases "ApplySecurityGroups ords m ms rs cs es ecs w"; cases "fst (ApplySecurityGroups ords m ms rs cs es ecs w)")
    (auto simp: triple_def split: prod.splits option.splits)

theorem ApplySecurityGroups_writes_guarded_witness:
  "\<not> sw_unguarded (snd (ApplySecurityGroups plain_order (sg_maps sg_tick) sg_demo_members sg_demo_rules sg_demo_cidrs [] [] (sg_demo_world [])))"
  by (rule ApplySecurityGroups_writes_guarded [OF sg_ref.sg_kernel_axioms, where P = "\<lambda>w. \<not> sw_unguarded w"])
    (auto simp: sg_maps_def sg_touch_def sg_demo_world_def intro!: alist_ops_keeps)

end
