(* ===== verification/Claims.thy ===== *)
theory Claims
  imports Admission
begin

text \<open>
  Address claims (\<^verbatim>\<open>api/sdn/names.go\<close>, \<^verbatim>\<open>internal/ipam/reserved.go\<close>): a Port and a ServiceVIP are named by the
  VNI and the address they hold, so that the uniqueness of names is the uniqueness of addresses. This rests on
  the escaping of addresses being injective on canonical spellings, which is proved here from the way Go
  prints an address.
\<close>

section \<open>Printing addresses\<close>

fun itox :: "nat \<Rightarrow> string" where
  "itox n = (if n < 16 then [hex_char n] else itox (n div 16) @ [hex_char (n mod 16)])"

declare itox.simps [simp del]

definition hex_byte :: "u8 \<Rightarrow> string" where
  "hex_byte b = [hex_char (unat b div 16), hex_char (unat b mod 16)]"

definition hex_encode :: "u8 list \<Rightarrow> string" where
  "hex_encode bs = concat (map hex_byte bs)"

text \<open>The eight groups of an IPv6 address, the longest run of at least two zero groups (the first one when there are
  several; 255 when there is none) and the loop that prints the groups around it. The loop has eight iterations at
  most, counted by its first argument.\<close>

definition v6_groups :: "ip \<Rightarrow> nat list" where
  "v6_groups ip = map (\<lambda>i. 256 * unat (ip ! (2 * i)) + unat (ip ! (2 * i + 1))) [0..<8]"

definition zero_run :: "nat list \<Rightarrow> nat \<times> nat" where
  "zero_run gs = foldl (\<lambda>(zs, ze) i.
     let j = i + length (takeWhile (\<lambda>g. g = 0) (drop i gs)); l = j - i
     in if 2 \<le> l \<and> ze - zs < l then (i, j) else (zs, ze)) (255, 255) [0..<8]"

fun print_groups :: "nat \<Rightarrow> nat list \<Rightarrow> nat \<Rightarrow> nat \<Rightarrow> nat \<Rightarrow> string" where
  "print_groups 0 gs zs ze i = []"
| "print_groups (Suc n) gs zs ze i =
     (if 8 \<le> i then []
      else if i = zs then '':'' @ '':'' @ (if 8 \<le> ze then [] else itox (gs ! ze) @ print_groups n gs zs ze (Suc ze))
      else (if 0 < i then '':'' else []) @ itox (gs ! i) @ print_groups n gs zs ze (Suc i))"

definition v6_string :: "ip \<Rightarrow> string" where
  "v6_string ip = (let gs = v6_groups ip; (zs, ze) = zero_run gs in print_groups 8 gs zs ze 0)"

definition v4_string :: "ip \<Rightarrow> string" where
  "v4_string p = join_with CHR ''.'' (map (\<lambda>b. itoa (unat b)) p)"

text \<open>\<^verbatim>\<open>net.IP.String\<close> on the 4- and 16-byte slices the sources print.\<close>

definition ip_string :: "ip \<Rightarrow> string" where
  "ip_string ip = (case ip_to4 ip of Some p4 \<Rightarrow> v4_string p4 | None \<Rightarrow> v6_string ip)"

section \<open>Claim names\<close>

definition ClaimPrefixPort :: string where "ClaimPrefixPort = ''v''"
definition ClaimPrefixServiceVIP :: string where "ClaimPrefixServiceVIP = ''sv''"

definition EscapeIP :: "string \<Rightarrow> string" where
  "EscapeIP ip =
     (let escaped = map (\<lambda>c. if c = CHR ''.'' \<or> c = CHR '':'' then CHR ''-'' else c) ip
      in if has_prefix escaped ''-'' \<or> has_suffix escaped ''-''
         then (case parse_addr ip of
                 Some addr \<Rightarrow> if is6 addr \<and> addr_zone addr = [] then ''x'' @ hex_encode (as16 addr) else escaped
               | None \<Rightarrow> escaped)
         else escaped)"

text \<open>A VNI is an \<^verbatim>\<open>int32\<close>; the names the code builds have a positive one.\<close>

definition itoa_int :: "int \<Rightarrow> string" where
  "itoa_int n = (if n < 0 then ''-'' @ itoa (nat (- n)) else itoa (nat n))"

definition PortName :: "int \<Rightarrow> string \<Rightarrow> string" where
  "PortName vni ip = ClaimPrefixPort @ itoa_int vni @ ''.'' @ EscapeIP ip"

definition ServiceVIPName :: "int \<Rightarrow> string \<Rightarrow> string" where
  "ServiceVIPName vni ip = ClaimPrefixServiceVIP @ itoa_int vni @ ''.'' @ EscapeIP ip"

definition ParseClaim :: "string \<Rightarrow> string \<Rightarrow> (int \<times> string) option" where
  "ParseClaim pre name =
     (case cut_prefix pre name of
        None \<Rightarrow> None
      | Some rest \<Rightarrow>
        (case cut CHR ''.'' rest of
           None \<Rightarrow> None
         | Some (vniStr, esc) \<Rightarrow>
           if vniStr = [] \<or> esc = [] then None
           else (case parse_int 32 vniStr of
                   None \<Rightarrow> None
                 | Some n \<Rightarrow> if n < FirstVNI \<or> LastVNI < n then None else Some (n, esc))))"

text \<open>The agent reads the VNI back from a Port's name on its own.\<close>

definition vniFromPortName :: "string \<Rightarrow> u32 option" where
  "vniFromPortName name =
     (if \<not> has_prefix name ''v'' then None
      else case cut CHR ''.'' name of
        None \<Rightarrow> None
      | Some (before, after) \<Rightarrow>
        if length before \<le> 1 then None
        else (case parse_uint 32 (drop 1 before) of
                None \<Rightarrow> None
              | Some vni \<Rightarrow> if int vni < FirstVNI \<or> LastVNI < int vni then None else Some (of_nat vni)))"

section \<open>Reserved addresses\<close>

definition reserved :: "string list" where
  "reserved = [''169.254.1.1'', ''fe80::1'', ''169.254.42.1'', ''fe80::2a:1'', ''64:ff9b::a9fe:101'', ''64:ff9b::a9fe:2a01'']"

definition IsReserved :: "ip \<Rightarrow> bool" where
  "IsReserved ip =
     (case addr_from_slice ip of
        None \<Rightarrow> False
      | Some address \<Rightarrow> Some (unmap address) \<in> set (map parse_addr reserved))"

definition IsPoolReserved :: "ipnet option \<Rightarrow> ip option \<Rightarrow> bool" where
  "IsPoolReserved network ip =
     (case (network, ip) of
        (Some n, Some a) \<Rightarrow>
          if IsReserved a then True
          else (case ip_mask (net_ip n) (net_mask n) of
                  None \<Rightarrow> True
                | Some base \<Rightarrow>
                  (case addr_from_slice base of
                     None \<Rightarrow> True
                   | Some address \<Rightarrow> ip_equal a base \<or> ip_equal a (as_slice (addr_next (unmap address)))))
      | _ \<Rightarrow> True)"

section \<open>Shapes of printed addresses\<close>

definition hex_digits :: "char set" where
  "hex_digits = set ''0123456789abcdef''"

lemma hex_char_digit: "d < 16 \<Longrightarrow> hex_char d \<in> hex_digits"
proof -
  assume "d < 16"
  moreover have "\<forall>d \<in> set [0..<16]. hex_char d \<in> hex_digits" by code_simp
  ultimately show ?thesis by simp
qed

lemma hex_char_inj: "d < 16 \<Longrightarrow> e < 16 \<Longrightarrow> hex_char d = hex_char e \<Longrightarrow> d = e"
  by (auto simp: hex_char_def split: if_splits dest!: arg_cong [of _ _ "of_char :: char \<Rightarrow> nat"])

lemma itox_digits: "set (itox n) \<subseteq> hex_digits"
proof (induction n rule: itox.induct)
  case (1 n)
  then show ?case by (subst itox.simps) (auto simp: hex_char_digit)
qed

lemma itox_not_Nil [simp]: "itox n \<noteq> []"
  by (subst itox.simps) simp

lemma hex_digits_special: "CHR ''-'' \<notin> hex_digits" "CHR ''.'' \<notin> hex_digits" "CHR '':'' \<notin> hex_digits" "CHR ''x'' \<notin> hex_digits"
  by (simp_all add: hex_digits_def)

lemma hex_byte_inj: "hex_byte a = hex_byte b \<Longrightarrow> a = b"
proof -
  assume h: "hex_byte a = hex_byte b"
  have "unat a < 256" "unat b < 256" using unat_less_power [of a] unat_less_power [of b] by simp_all
  then have "unat a div 16 = unat b div 16" "unat a mod 16 = unat b mod 16"
    using h by (auto simp: hex_byte_def intro: hex_char_inj)
  then have "unat a = unat b" by (metis div_mult_mod_eq)
  then show "a = b" by (simp add: word_unat_eq_iff)
qed

lemma hex_encode_inj: "hex_encode as = hex_encode bs \<Longrightarrow> as = bs"
proof (induction as arbitrary: bs)
  case Nil
  then show ?case by (cases bs) (simp_all add: hex_encode_def hex_byte_def)
next
  case (Cons a as)
  then obtain b bs' where b: "bs = b # bs'" by (cases bs) (auto simp: hex_encode_def hex_byte_def)
  then have "hex_byte a = hex_byte b" "hex_encode as = hex_encode bs'"
    using Cons.prems by (auto simp: hex_encode_def hex_byte_def)
  then show ?case using Cons.IH b hex_byte_inj by blast
qed

text \<open>A printed IPv4 address is four nonempty digit strings around three dots; a printed IPv6 address is hexadecimal
  digits and colons, and its pieces between colons are eight or one of them is empty.\<close>

lemma v4_string_shape:
  assumes "length p = 4"
  shows "set (v4_string p) \<subseteq> insert CHR ''.'' hex_digits" "length (split_on CHR ''.'' (v4_string p)) = 4"
    "[] \<notin> set (split_on CHR ''.'' (v4_string p))" "hd (v4_string p) \<in> hex_digits" "last (v4_string p) \<in> hex_digits" "v4_string p \<noteq> []"
proof -
  have dig: "c \<in> hex_digits" if "is_digit c" for c
  proof -
    have "list_all (\<lambda>n. char_of n \<in> hex_digits) [48..<58]" by code_simp
    then have "char_of (of_char c :: nat) \<in> hex_digits"
      using that unfolding list_all_iff set_upt is_digit_def by (simp del: char_of_char)
    then show ?thesis by simp
  qed
  have d: "set (itoa n) \<subseteq> hex_digits" for n using itoa_digits dig by blast
  have nd: "CHR ''.'' \<notin> set (itoa n)" for n using d [of n] hex_digits_special by blast
  obtain a b c e where p: "p = [a, b, c, e]"
    using assms by (auto simp: length_Suc_conv eval_nat_numeral)
  let ?xs = "map (\<lambda>b. itoa (unat b)) p"
  have sp: "split_on CHR ''.'' (v4_string p) = ?xs"
    unfolding v4_string_def by (rule split_on_join) (use p nd in auto)
  show "length (split_on CHR ''.'' (v4_string p)) = 4" "[] \<notin> set (split_on CHR ''.'' (v4_string p))"
    unfolding sp using assms itoa_not_Nil by (auto simp del: itoa_not_Nil) (metis itoa_not_Nil)
  show "set (v4_string p) \<subseteq> insert CHR ''.'' hex_digits"
    unfolding v4_string_def using set_join_with [of "CHR ''.''" ?xs] d by force
  have v: "v4_string p = itoa (unat a) @ CHR ''.'' # itoa (unat b) @ CHR ''.'' # itoa (unat c) @ CHR ''.'' # itoa (unat e)"
    by (simp add: v4_string_def p)
  have "hd (itoa (unat a)) \<in> set (itoa (unat a))" "last (itoa (unat e)) \<in> set (itoa (unat e))" by simp_all
  then have "hd (itoa (unat a)) \<in> hex_digits" "last (itoa (unat e)) \<in> hex_digits" using d by blast+
  then show "hd (v4_string p) \<in> hex_digits" "last (v4_string p) \<in> hex_digits" "v4_string p \<noteq> []"
    unfolding v by simp_all
qed

lemma split_on_double: "[] \<in> set (split_on c (a @ c # c # b))"
proof -
  have "[] \<in> set (tl (split_on c (a @ c # c # b)))"
    by (induction a) (auto split: list.splits dest: list.set_sel)
  then show ?thesis by (metis list.set_sel(2) split_on_not_Nil)
qed

lemma zero_run_cases: "zero_run gs = (255, 255) \<or> fst (zero_run gs) < 8"
proof -
  have fold: "P (foldl f a xs)" if "P a" "\<And>a x. P a \<Longrightarrow> x \<in> set xs \<Longrightarrow> P (f a x)"
    for P :: "nat \<times> nat \<Rightarrow> bool" and f a and xs :: "nat list"
    using that by (induction xs arbitrary: a) auto
  show ?thesis unfolding zero_run_def
    by (rule fold [where P = "\<lambda>p. p = (255, 255) \<or> fst p < 8"]) (auto simp: Let_def split: prod.splits)
qed

lemma itox_no_colon [simp]: "CHR '':'' \<notin> set (itox n)"
  using itox_digits hex_digits_special(3) by blast

lemma print_groups_chars: "set (print_groups n gs zs ze i) \<subseteq> insert CHR '':'' hex_digits"
proof (induction n arbitrary: i)
  case (Suc n)
  have d: "set (itox m) \<subseteq> insert CHR '':'' hex_digits" for m using itox_digits by blast
  show ?case using Suc.IH [of "Suc i"] Suc.IH [of "Suc ze"] d by (simp split: if_splits) blast
qed simp

lemma print_groups_run:
  "i \<le> zs \<Longrightarrow> zs < i + n \<Longrightarrow> zs < 8 \<Longrightarrow> \<exists>a b. print_groups n gs zs ze i = a @ CHR '':'' # CHR '':'' # b"
proof (induction n arbitrary: i)
  case (Suc n)
  show ?case
  proof (cases "i = zs")
    case True
    then have "print_groups (Suc n) gs zs ze i =
        [] @ CHR '':'' # CHR '':'' # (if 8 \<le> ze then [] else itox (gs ! ze) @ print_groups n gs zs ze (Suc ze))"
      using Suc.prems(3) by simp
    then show ?thesis by blast
  next
    case False
    then obtain a b where "print_groups n gs zs ze (Suc i) = a @ CHR '':'' # CHR '':'' # b"
      using Suc.IH [of "Suc i"] Suc.prems by auto
    then have "print_groups (Suc n) gs zs ze i =
        ((if 0 < i then '':'' else []) @ itox (gs ! i) @ a) @ CHR '':'' # CHR '':'' # b"
      using False Suc.prems by simp
    then show ?thesis by blast
  qed
qed simp

lemma print_groups_plain:
  "8 \<le> zs \<Longrightarrow> i + n = 8 \<Longrightarrow> print_groups n gs zs ze i =
     (if n = 0 then [] else (if 0 < i then '':'' else []) @ join_with CHR '':'' (map (\<lambda>j. itox (gs ! j)) [i..<8]))"
proof (induction n arbitrary: i)
  case (Suc n)
  then have "[i..<8] = i # [Suc i..<8]" by (simp add: upt_conv_Cons)
  moreover have "n \<noteq> 0 \<Longrightarrow> [Suc i..<8] = Suc i # [Suc (Suc i)..<8]" using Suc.prems by (simp add: upt_conv_Cons)
  moreover have "n = 0 \<Longrightarrow> [Suc i..<8] = []" using Suc.prems by simp
  ultimately show ?case using Suc.IH [of "Suc i"] Suc.prems by (cases "n = 0") simp_all
qed simp

lemma v6_string_shape:
  shows "set (v6_string ip) \<subseteq> insert CHR '':'' hex_digits"
    and "length (split_on CHR '':'' (v6_string ip)) = 8 \<or> [] \<in> set (split_on CHR '':'' (v6_string ip))"
    and "v6_string ip \<noteq> []"
proof -
  obtain zs ze where z: "zero_run (v6_groups ip) = (zs, ze)" by (cases "zero_run (v6_groups ip)")
  have v: "v6_string ip = print_groups 8 (v6_groups ip) zs ze 0" by (simp add: v6_string_def z)
  show "set (v6_string ip) \<subseteq> insert CHR '':'' hex_digits" unfolding v by (rule print_groups_chars)
  have "v6_string ip \<noteq> [] \<and>
    (length (split_on CHR '':'' (v6_string ip)) = 8 \<or> [] \<in> set (split_on CHR '':'' (v6_string ip)))"
  proof (cases "zs < 8")
    case True
    then obtain a b where "v6_string ip = a @ CHR '':'' # CHR '':'' # b"
      unfolding v using print_groups_run [of 0 zs 8 "v6_groups ip" ze] by auto
    then show ?thesis using split_on_double by simp
  next
    case False
    let ?xs = "map (\<lambda>j. itox (v6_groups ip ! j)) [0..<8]"
    have j: "v6_string ip = join_with CHR '':'' ?xs" using print_groups_plain [of zs 0 8] False v by simp
    have "split_on CHR '':'' (v6_string ip) = ?xs"
      unfolding j by (rule split_on_join) (simp_all add: itox_no_colon)
    then show ?thesis using j by (auto simp: upt_rec)
  qed
  then show "length (split_on CHR '':'' (v6_string ip)) = 8 \<or> [] \<in> set (split_on CHR '':'' (v6_string ip))"
    "v6_string ip \<noteq> []" by auto
qed

section \<open>The escaping is injective\<close>

definition canonical_ip :: "string \<Rightarrow> bool" where
  "canonical_ip s \<longleftrightarrow> (\<exists>ip. parse_ip s = Some ip \<and> ip_string ip = s)"

definition dash :: "char \<Rightarrow> char" where
  "dash c = (if c = CHR ''.'' \<or> c = CHR '':'' then CHR ''-'' else c)"

lemma parse_ip_length: "parse_ip s = Some ip \<Longrightarrow> length ip = 16"
proof -
  assume "parse_ip s = Some ip"
  then obtain a where "parse_addr s = Some a" "ip = as16 a" by (auto simp: parse_ip_def split: option.splits if_splits)
  then show ?thesis by (cases a) simp_all
qed

lemma split_on_dash:
  assumes "set s \<subseteq> insert c D" "dash c = CHR ''-''" "\<And>x. x \<in> D \<Longrightarrow> dash x = x \<and> x \<noteq> CHR ''-''" "c \<notin> D"
  shows "split_on CHR ''-'' (map dash s) = split_on c s"
  using assms(1)
proof (induction s)
  case (Cons x s)
  then show ?case using assms(2-4) by (cases "x = c") (auto split: list.splits)
qed simp

lemma dash_hex: "x \<in> hex_digits \<Longrightarrow> dash x = x \<and> x \<noteq> CHR ''-''"
  using hex_digits_special by (auto simp: dash_def)

lemma undash:
  assumes "set s \<subseteq> insert c hex_digits" "dash c = CHR ''-''"
  shows "map (\<lambda>x. if x = CHR ''-'' then c else x) (map dash s) = s"
  using assms(1)
proof (induction s)
  case (Cons x s)
  then show ?case using assms(2) dash_hex [of x] by (cases "x = c") simp_all
qed simp

lemma has_prefix_one: "has_prefix s [c] \<longleftrightarrow> s \<noteq> [] \<and> hd s = c"
  by (cases s) (auto simp: has_prefix_iff)

lemma has_suffix_one: "has_suffix s [c] \<longleftrightarrow> s \<noteq> [] \<and> last s = c"
  using has_prefix_one [of "rev s" c] by (simp add: has_suffix_def has_prefix_def hd_rev)

lemma EscapeIP_dash: "EscapeIP s = (let e = map dash s in if has_prefix e ''-'' \<or> has_suffix e ''-''
    then (case parse_addr s of Some addr \<Rightarrow> if is6 addr \<and> addr_zone addr = [] then ''x'' @ hex_encode (as16 addr) else e
          | None \<Rightarrow> e) else e)"
proof -
  have "(\<lambda>c. if c = CHR ''.'' \<or> c = CHR '':'' then CHR ''-'' else c) = dash" by (rule ext) (simp add: dash_def)
  then show ?thesis by (simp only: EscapeIP_def)
qed

text \<open>The three spellings of a canonical address: dotted, colons inside only, and the hexadecimal form.\<close>

lemma EscapeIP_cases:
  assumes "parse_ip s = Some ip" "ip_string ip = s"
  obtains (v4) "ip_to4 ip \<noteq> None" "EscapeIP s = map dash s" "split_on CHR ''-'' (map dash s) = split_on CHR ''.'' s"
      "length (split_on CHR ''.'' s) = 4" "[] \<notin> set (split_on CHR ''.'' s)" "set s \<subseteq> insert CHR ''.'' hex_digits" "hd (EscapeIP s) \<noteq> CHR ''x''"
  | (v6) "EscapeIP s = map dash s" "split_on CHR ''-'' (map dash s) = split_on CHR '':'' s"
      "length (split_on CHR '':'' s) = 8 \<or> [] \<in> set (split_on CHR '':'' s)" "set s \<subseteq> insert CHR '':'' hex_digits" "hd (EscapeIP s) \<noteq> CHR ''x''" "s \<noteq> []"
  | (hex) "EscapeIP s = ''x'' @ hex_encode ip"
proof (cases "ip_to4 ip")
  case (Some p)
  have "length p = 4" using Some parse_ip_length [OF assms(1)] by (auto simp: ip_to4_def split: if_splits)
  note sh = v4_string_shape [OF this]
  have s: "s = v4_string p" using assms(2) Some by (simp add: ip_string_def)
  have "hd (map dash s) = hd s" "last (map dash s) = last s" "s \<noteq> []"
    using sh(4-6) dash_hex by (simp_all add: s hd_map last_map)
  then have "\<not> has_prefix (map dash s) ''-''" "\<not> has_suffix (map dash s) ''-''"
    using sh(4,5) dash_hex by (auto simp: has_prefix_one has_suffix_one s)
  then have e: "EscapeIP s = map dash s" by (simp add: EscapeIP_dash Let_def)
  moreover have "hd (EscapeIP s) \<noteq> CHR ''x''"
    unfolding e \<open>hd (map dash s) = hd s\<close> using sh(4) hex_digits_special(4) s by metis
  moreover have "split_on CHR ''-'' (map dash s) = split_on CHR ''.'' s"
    by (rule split_on_dash [where D = hex_digits]) (use sh(1) s dash_hex hex_digits_special in \<open>auto simp: dash_def\<close>)
  ultimately show thesis using v4 Some sh(1-3) s by simp
next
  case None
  have s: "s = v6_string ip" using assms(2) None by (simp add: ip_string_def)
  note sh = v6_string_shape [of ip]
  obtain addr where a: "parse_addr s = Some addr" "addr_zone addr = []" "ip = as16 addr"
    using assms(1) by (auto simp: parse_ip_def split: option.splits if_splits)
  have six: "is6 addr" using None a(3) parse_addr_shape [OF a(1)]
    by (cases addr) (auto simp: is6_def ip_to4_def)
  show thesis
  proof (cases "has_prefix (map dash s) ''-'' \<or> has_suffix (map dash s) ''-''")
    case True
    then show thesis using hex a six by (simp add: EscapeIP_dash Let_def)
  next
    case False
    then have e: "EscapeIP s = map dash s" by (simp add: EscapeIP_dash Let_def)
    have ne: "s \<noteq> []" using sh(3) s by simp
    have "hd (map dash s) \<noteq> CHR ''-''" using False ne by (simp add: has_prefix_one)
    then have "hd s \<noteq> CHR '':''" using ne by (auto simp: hd_map dash_def)
    moreover have "hd s \<in> insert CHR '':'' hex_digits" using sh(1) s ne hd_in_set [of s] by blast
    ultimately have "hd s \<in> hex_digits" by blast
    then have "hd (map dash s) \<noteq> CHR ''x''" using ne dash_hex hex_digits_special(4) by (simp add: hd_map) metis
    moreover have "split_on CHR ''-'' (map dash s) = split_on CHR '':'' s"
      by (rule split_on_dash [where D = hex_digits]) (use sh(1) s dash_hex hex_digits_special in \<open>auto simp: dash_def\<close>)
    ultimately show thesis using v6 e sh(1-3) s by simp
  qed
qed

lemma EscapeIP_inj:
  assumes "canonical_ip s" "canonical_ip t" "EscapeIP s = EscapeIP t"
  shows "s = t"
proof -
  obtain ip iq where p: "parse_ip s = Some ip" "ip_string ip = s" and q: "parse_ip t = Some iq" "ip_string iq = t"
    using assms(1,2) by (auto simp: canonical_ip_def)
  have dot: "dash CHR ''.'' = CHR ''-''" "dash CHR '':'' = CHR ''-''" by (simp_all add: dash_def)
  show ?thesis using p
  proof (cases rule: EscapeIP_cases)
    case v4
    note s = v4
    show ?thesis using q
    proof (cases rule: EscapeIP_cases)
      case v4
      then show ?thesis using s(2,6) undash [of s "CHR ''.''"] undash [of t "CHR ''.''"] assms(3) dot by metis
    next
      case v6
      have "split_on CHR ''.'' s = split_on CHR '':'' t" using s(2,3) v6(1,2) assms(3) by simp
      then show ?thesis using s(4,5) v6(3) by simp
    next
      case hex
      then show ?thesis using s(7) assms(3) by simp
    qed
  next
    case v6
    note s = v6
    show ?thesis using q
    proof (cases rule: EscapeIP_cases)
      case v4
      have "split_on CHR '':'' s = split_on CHR ''.'' t" using s(1,2) v4(2,3) assms(3) by simp
      then show ?thesis using s(3) v4(4,5) by simp
    next
      case v6
      then show ?thesis using s(1,4) undash [of s "CHR '':''"] undash [of t "CHR '':''"] assms(3) dot by metis
    next
      case hex
      then show ?thesis using s(5) assms(3) by simp
    qed
  next
    case hex
    note s = hex
    show ?thesis using q
    proof (cases rule: EscapeIP_cases)
      case v4
      then show ?thesis using s assms(3) by simp
    next
      case v6
      then show ?thesis using s assms(3) by simp
    next
      case hex
      then have "ip = iq" using s assms(3) hex_encode_inj by simp
      then show ?thesis using p q by simp
    qed
  qed
qed

section \<open>Names and claims\<close>

lemma canonical_escape_not_Nil: "canonical_ip s \<Longrightarrow> EscapeIP s \<noteq> []"
proof -
  assume "canonical_ip s"
  then obtain ip where "parse_ip s = Some ip" "ip_string ip = s" by (auto simp: canonical_ip_def)
  then show ?thesis
  proof (cases rule: EscapeIP_cases)
    case v4
    then have "s \<noteq> []" by auto
    then show ?thesis using v4(2) by simp
  next
    case v6
    then show ?thesis by simp
  qed simp
qed

lemma valid_vni_itoa: "ValidVNI vni \<Longrightarrow> itoa_int vni = itoa (nat vni)"
  by (simp add: itoa_int_def ValidVNI_def FirstVNI_def)

lemma valid_vni_parse: "ValidVNI vni \<Longrightarrow> parse_int 32 (itoa (nat vni)) = Some vni"
  using parse_int_itoa [of "nat vni" 32] by (simp add: ValidVNI_def FirstVNI_def LastVNI_def nat_less_iff)

lemma cut_claim: "cut CHR ''.'' (itoa n @ CHR ''.'' # esc) = Some (itoa n, esc)"
  by (intro cut_append itoa_no_special) simp

lemma ParseClaim_name:
  assumes "ValidVNI vni" "esc \<noteq> []"
  shows "ParseClaim pre (pre @ itoa_int vni @ ''.'' @ esc) = Some (vni, esc)"
  using assms(2) valid_vni_parse [OF assms(1)] assms(1)
  by (simp add: ParseClaim_def valid_vni_itoa [OF assms(1)] cut_claim ValidVNI_def)

lemma vniFromPortName_name:
  assumes "ValidVNI vni"
  shows "vniFromPortName (PortName vni ip) = Some (VNI vni)"
proof -
  have "cut CHR ''.'' (''v'' @ itoa (nat vni) @ ''.'' @ EscapeIP ip) = Some (''v'' @ itoa (nat vni), EscapeIP ip)"
    using cut_claim [of "nat vni" "EscapeIP ip"] by simp
  moreover have "parse_uint 32 (itoa (nat vni)) = Some (nat vni)"
    using assms by (intro parse_uint_itoa) (simp add: ValidVNI_def FirstVNI_def LastVNI_def nat_less_iff)
  moreover have "itoa (nat vni) \<noteq> []" by simp
  ultimately show ?thesis
    using assms by (simp add: vniFromPortName_def PortName_def ClaimPrefixPort_def valid_vni_itoa has_prefix_iff VNI_def
        ValidVNI_def FirstVNI_def LastVNI_def)
qed

text \<open>
  (C36) A claim name is the claim: for valid VNIs and canonical addresses the name of a Port determines the VNI
  and the address, both the registry and the agent read the VNI back, and the same holds for the
  name of a ServiceVIP. Two names are equal exactly when VNI and address are.
\<close>

theorem claim_name_exact:
  assumes "ValidVNI v" "ValidVNI w" "canonical_ip s" "canonical_ip t"
  shows "(PortName v s = PortName w t \<longleftrightarrow> v = w \<and> s = t) \<and> (ServiceVIPName v s = ServiceVIPName w t \<longleftrightarrow> v = w \<and> s = t) \<and>
    ParseClaim ClaimPrefixPort (PortName v s) = Some (v, EscapeIP s) \<and>
    ParseClaim ClaimPrefixServiceVIP (ServiceVIPName v s) = Some (v, EscapeIP s) \<and>
    vniFromPortName (PortName v s) = Some (VNI v)"
proof -
  have p: "ParseClaim pre (pre @ itoa_int x @ ''.'' @ EscapeIP z) = Some (x, EscapeIP z)" if "ValidVNI x" "canonical_ip z" for pre x z
    by (rule ParseClaim_name [OF that(1) canonical_escape_not_Nil [OF that(2)]])
  have "v = w \<and> s = t" if "pre @ itoa_int v @ ''.'' @ EscapeIP s = pre @ itoa_int w @ ''.'' @ EscapeIP t" for pre :: string
  proof -
    have "ParseClaim pre (pre @ itoa_int v @ ''.'' @ EscapeIP s) = ParseClaim pre (pre @ itoa_int w @ ''.'' @ EscapeIP t)"
      by (rule arg_cong [OF that])
    then have "v = w \<and> EscapeIP s = EscapeIP t" unfolding p [OF assms(1,3)] p [OF assms(2,4)] by simp
    then show ?thesis using EscapeIP_inj [OF assms(3,4)] by simp
  qed
  then have "PortName v s = PortName w t \<Longrightarrow> v = w \<and> s = t" "ServiceVIPName v s = ServiceVIPName w t \<Longrightarrow> v = w \<and> s = t"
    unfolding PortName_def ServiceVIPName_def by blast+
  then show ?thesis
    using p [OF assms(1,3)] vniFromPortName_name [OF assms(1)] unfolding PortName_def ServiceVIPName_def by blast
qed

subsection \<open>Evaluation on concrete addresses\<close>

lemma print_groups_numeral:
  "print_groups (numeral v) gs zs ze i =
     (if 8 \<le> i then []
      else if i = zs then '':'' @ '':'' @ (if 8 \<le> ze then [] else itox (gs ! ze) @ print_groups (pred_numeral v) gs zs ze (Suc ze))
      else (if 0 < i then '':'' else []) @ itox (gs ! i) @ print_groups (pred_numeral v) gs zs ze (Suc i))"
  by (simp add: numeral_eq_Suc)

lemma hex_char_table: "hex_char 0 = CHR ''0''" "hex_char 7 = CHR ''7''" "hex_char 8 = CHR ''8''" "hex_char 14 = CHR ''e''" "hex_char 15 = CHR ''f''"
  by code_simp+

lemma digit_char_table: "digit_char 0 = CHR ''0''" "digit_char 1 = CHR ''1''" "digit_char 7 = CHR ''7''"
  by code_simp+

lemma canonical_examples: "canonical_ip ''10.0.0.7''" "canonical_ip ''fe80::7''"
proof -
  have "parse_ip ''10.0.0.7'' = Some (v4_in_v6_prefix @ [10, 0, 0, 7])" by (simp add: net_eval)
  moreover have "ip_to4 (v4_in_v6_prefix @ [10, 0, 0, 7]) = Some [10, 0, 0, 7]" by (simp add: ip_to4_def)
  then have "ip_string (v4_in_v6_prefix @ [10, 0, 0, 7]) = ''10.0.0.7''"
    using digit_char_table by (simp add: ip_string_def v4_string_def itoa.simps)
  ultimately show "canonical_ip ''10.0.0.7''" unfolding canonical_ip_def by blast
  let ?ip = "[0xfe, 0x80, 0, 0, 0, 0, 0, 0, 0, 0, 0, 0, 0, 0, 0, 7] :: u8 list"
  have g: "v6_groups ?ip = [0xfe80, 0, 0, 0, 0, 0, 0, 7]" by (simp add: v6_groups_def upt_rec)
  have z: "zero_run [0xfe80, 0, 0, 0, 0, 0, 0, 7] = (1, 7)" by (simp add: zero_run_def upt_rec)
  have "ip_to4 ?ip = None" by (simp add: ip_to4_def v4_in_v6_prefix_def replicate_numeral_Cons)
  then have "ip_string ?ip = ''fe80::7''"
    using hex_char_table by (simp add: ip_string_def v6_string_def g z print_groups_numeral itox.simps)
  moreover have "parse_ip ''fe80::7'' = Some ?ip" by (simp add: net_eval)
  ultimately show "canonical_ip ''fe80::7''" unfolding canonical_ip_def by blast
qed

theorem claim_name_exact_witness:
  "PortName 100 ''10.0.0.7'' = ''v100.10-0-0-7'' \<and> PortName 100 ''10.0.0.7'' \<noteq> PortName 100 ''fe80::7'' \<and>
   ParseClaim ClaimPrefixPort ''v100.10-0-0-7'' = Some (100, ''10-0-0-7'')"
proof -
  have e: "EscapeIP ''10.0.0.7'' = ''10-0-0-7''" by (simp add: EscapeIP_def has_prefix_one has_suffix_one)
  then have "PortName 100 ''10.0.0.7'' = ''v100.10-0-0-7''"
    by (simp add: PortName_def ClaimPrefixPort_def itoa_int_def itoa.simps digit_char_table digit_char_table(2) [simplified])
  moreover have "ValidVNI 100" by (simp add: ValidVNI_def FirstVNI_def LastVNI_def)
  ultimately show ?thesis
    using claim_name_exact [OF _ _ canonical_examples, of 100 100] e by simp
qed

end
