(* ===== verification/Counters.thy ===== *)
theory Counters
  imports KernelMap
begin

text \<open>
  The per-VPC counters, \<^verbatim>\<open>datapath/counters.go\<close>, \<^verbatim>\<open>datapath/counter_lifetime.go\<close> and the drop counters of
  \<^verbatim>\<open>datapath/securitygroup.go\<close>. The packet program only increments rows that exist: the agent seeds a zero row per
  network and retires the rows of networks whose VPC is gone. Besides the operations of a map the code creates a row
  only when it is absent and enumerates keys one by one.
\<close>

section \<open>Data\<close>

record ('w, 'k, 'v) counter_ops =
  co_map :: "('w, 'k, 'v) map_ops"
  co_create :: "'k \<Rightarrow> 'v \<Rightarrow> 'w \<Rightarrow> errno option \<times> 'w"
  co_next :: "'k option \<Rightarrow> 'w \<Rightarrow> (errno + 'k) \<times> 'w"

text \<open>The arrays over the four doors and the two directions are lists.\<close>

record vpc_counter =
  vc_TxPackets :: u64
  vc_TxBytes :: u64
  vc_RxPackets :: u64
  vc_RxBytes :: u64
  vc_NsPackets :: "u64 list list"
  vc_NsBytes :: "u64 list list"
  vc_NsDenied :: "u64 list"

definition nsDoors :: nat where "nsDoors = 4"

definition vpc_counter_zero :: vpc_counter where
  "vpc_counter_zero = \<lparr> vc_TxPackets = 0, vc_TxBytes = 0, vc_RxPackets = 0, vc_RxBytes = 0,
     vc_NsPackets = replicate nsDoors [0, 0], vc_NsBytes = replicate nsDoors [0, 0], vc_NsDenied = replicate nsDoors 0 \<rparr>"

text \<open>The fields of the manager; \<^verbatim>\<open>counterScopes\<close> is nil until the first complete VPC snapshot.\<close>

record counter_state =
  cs_counterScopes :: "u32 set option"
  cs_counterDirty :: bool

record 'w counter_objs =
  VpcCounters :: "('w, u32, vpc_counter list) counter_ops"
  SgDrops :: "('w, u32, u64 list) counter_ops"

section \<open>Seeding and reading\<close>

definition seed_row :: "counter_state \<Rightarrow> ('w, u32, 'v list) counter_ops \<Rightarrow> errno + nat \<Rightarrow> 'v \<Rightarrow> u32 \<Rightarrow> 'w call" where
  "seed_row st m possibleCPU zero net w =
     (if net = 0 \<or> (case cs_counterScopes st of None \<Rightarrow> False | Some scopes \<Rightarrow> net \<notin> scopes) then (None, w)
      else case mo_lookup (co_map m) net w of
        (Inr _, w) \<Rightarrow> (None, w)
      | (Inl e, w) \<Rightarrow>
          if e \<noteq> ENOENT then (Some (Kernel e), w)
          else case possibleCPU of
            Inl e \<Rightarrow> (Some (Kernel e), w)
          | Inr ncpu \<Rightarrow> (case co_create m net (replicate ncpu zero) w of
              (None, w) \<Rightarrow> (None, w)
            | (Some e, w) \<Rightarrow> (if e = EEXIST then None else Some (Kernel e), w)))"

definition EnsureVPCCounter :: "counter_state \<Rightarrow> 'w counter_objs \<Rightarrow> errno + nat \<Rightarrow> u32 \<Rightarrow> 'w call" where
  "EnsureVPCCounter st m possibleCPU net = seed_row st (VpcCounters m) possibleCPU vpc_counter_zero net"

definition EnsureSGDrop :: "counter_state \<Rightarrow> 'w counter_objs \<Rightarrow> errno + nat \<Rightarrow> u32 \<Rightarrow> 'w call" where
  "EnsureSGDrop st m possibleCPU net = seed_row st (SgDrops m) possibleCPU 0 net"

definition NorthSouthBytes :: "vpc_counter \<Rightarrow> u64" where
  "NorthSouthBytes c = foldl (\<lambda>t door. t + (door ! 0 + door ! 1)) 0 (vc_NsBytes c)"

definition add_counter :: "vpc_counter \<Rightarrow> vpc_counter \<Rightarrow> vpc_counter" where
  "add_counter c per = \<lparr>
     vc_TxPackets = vc_TxPackets c + vc_TxPackets per, vc_TxBytes = vc_TxBytes c + vc_TxBytes per,
     vc_RxPackets = vc_RxPackets c + vc_RxPackets per, vc_RxBytes = vc_RxBytes c + vc_RxBytes per,
     vc_NsPackets = map2 (map2 (+)) (vc_NsPackets c) (vc_NsPackets per),
     vc_NsBytes = map2 (map2 (+)) (vc_NsBytes c) (vc_NsBytes per),
     vc_NsDenied = map2 (+) (vc_NsDenied c) (vc_NsDenied per) \<rparr>"

definition read_rows :: "('w, u32, 'v list) counter_ops \<Rightarrow> ('v list \<Rightarrow> 'c) \<Rightarrow> 'w \<Rightarrow> (dp_error + (u32 \<times> 'c) list) \<times> 'w" where
  "read_rows m tally w = (case mo_iterate (co_map m) w of
     (es, None, w) \<Rightarrow> (Inr (fold (\<lambda>(net, per) out. AList.update net (tally per) out) es []), w)
   | (es, Some e, w) \<Rightarrow> (Inl (Kernel e), w))"

definition VPCCounters_read :: "'w counter_objs \<Rightarrow> 'w \<Rightarrow> (dp_error + (u32 \<times> vpc_counter) list) \<times> 'w" where
  "VPCCounters_read m = read_rows (VpcCounters m) (foldl add_counter vpc_counter_zero)"

definition SGDrops_read :: "'w counter_objs \<Rightarrow> 'w \<Rightarrow> (dp_error + (u32 \<times> u64) list) \<times> 'w" where
  "SGDrops_read m = read_rows (SgDrops m) (foldl (+) 0)"

section \<open>Retiring\<close>

function scan_scopes :: "('w, u32, 'v) counter_ops \<Rightarrow> u32 set \<Rightarrow> u32 list \<Rightarrow> u32 list \<Rightarrow> u32 option \<Rightarrow> 'w \<Rightarrow>
    (dp_error + u32 list) \<times> 'w" where
  "scan_scopes m current seen stale previous w = (case co_next m previous w of
     (Inl e, w) \<Rightarrow> if e = ENOENT then (Inr stale, w) else (Inl (Kernel e), w)
   | (Inr key, w) \<Rightarrow>
       if key \<in> set seen \<or> mo_max (co_map m) \<le> length seen then (Inl Incomplete, w)
       else scan_scopes m current (key # seen) (if key \<in> current then stale else stale @ [key]) (Some key) w)"
  by pat_completeness auto
termination by (relation "measure (\<lambda>(m, _, seen, _, _, _). mo_max (co_map m) - length seen)") auto

declare scan_scopes.simps [simp del]

definition retire :: "('w, u32, 'v) counter_ops \<Rightarrow> u32 list \<Rightarrow> 'w call" where
  "retire m stale = do_seq (map (delete_existing (co_map m)) stale)"

definition SyncVPCCounterScopes :: "'w counter_objs \<Rightarrow> u32 list \<Rightarrow> counter_state \<Rightarrow> 'w \<Rightarrow> dp_error option \<times> counter_state \<times> 'w" where
  "SyncVPCCounterScopes m scopes st w =
     (if 65536 < length scopes then (Some InputBudget, st, w)
      else if \<exists>scope \<in> set scopes. scope = 0 \<or> 2 ^ 22 \<le> scope then (Some ScopeRange, st, w)
      else let current = set scopes
      in if cs_counterScopes st = Some current \<and> \<not> cs_counterDirty st then (None, st, w)
      else case scan_scopes (VpcCounters m) current [] [] None w of
        (Inl e, w) \<Rightarrow> (Some e, st, w)
      | (Inr stale0, w) \<Rightarrow> (case scan_scopes (SgDrops m) current [] [] None w of
          (Inl e, w) \<Rightarrow> (Some e, st, w)
        | (Inr stale1, w) \<Rightarrow>
            (case retire (VpcCounters m) stale0 w of
               (Some e, w) \<Rightarrow> (Some e, \<lparr> cs_counterScopes = Some current, cs_counterDirty = True \<rparr>, w)
             | (None, w) \<Rightarrow> (case retire (SgDrops m) stale1 w of
                 (Some e, w) \<Rightarrow> (Some e, \<lparr> cs_counterScopes = Some current, cs_counterDirty = True \<rparr>, w)
               | (None, w) \<Rightarrow> (None, \<lparr> cs_counterScopes = Some current, cs_counterDirty = False \<rparr>, w)))))"

section \<open>The contract of a counter map\<close>

text \<open>Keys are enumerated in an order that only a change of the key set changes; creating a row fails when it exists.\<close>

locale counter_map =
  fixes m :: "('w, u32, 'v) counter_ops"
    and view :: "'w \<Rightarrow> u32 \<rightharpoonup> 'v"
    and keys :: "'w \<Rightarrow> u32 list"
  assumes map_laws: "ebpf_map (co_map m) view"
    and create_view: "co_create m k v w = (e, w') \<Longrightarrow> view w' = (if e = None then (view w)(k \<mapsto> v) else view w)"
    and create_new: "co_create m k v w = (None, w') \<Longrightarrow> view w k = None"
    and create_exists: "co_create m k v w = (Some EEXIST, w') \<Longrightarrow> view w k \<noteq> None"
    and next_view: "co_next m prev w = (r, w') \<Longrightarrow> view w' = view w \<and> keys w' = keys w"
    and next_first: "co_next m None w = (r, w') \<Longrightarrow> r = Inl ENOENT \<and> keys w = [] \<or> (\<exists>e. r = Inl e \<and> e \<noteq> ENOENT) \<or> (\<exists>k ks. r = Inr k \<and> keys w = k # ks)"
    and next_after: "co_next m (Some p) w = (r, w') \<Longrightarrow> keys w = a @ p # b \<Longrightarrow>
      r = Inl ENOENT \<and> b = [] \<or> (\<exists>e. r = Inl e \<and> e \<noteq> ENOENT) \<or> (\<exists>k ks. r = Inr k \<and> b = k # ks)"
    and keys_dom: "set (keys w) = dom (view w)" and keys_distinct: "distinct (keys w)"
begin

lemma scan_scopes_view:
  "scan_scopes m current seen stale previous w = (r, w') \<Longrightarrow> view w' = view w \<and> keys w' = keys w"
proof (induction "mo_max (co_map m) - length seen" arbitrary: seen stale previous w rule: less_induct)
  case less
  obtain x w1 where x: "co_next m previous w = (x, w1)" by (cases "co_next m previous w")
  note n = next_view [OF x]
  show ?case
  proof (cases x)
    case (Inl e)
    then show ?thesis using less(2) x n by (simp add: scan_scopes.simps [of m current seen] split: if_splits)
  next
    case (Inr key)
    show ?thesis
    proof (cases "key \<in> set seen \<or> mo_max (co_map m) \<le> length seen")
      case True
      then show ?thesis using less(2) x n Inr by (simp add: scan_scopes.simps [of m current seen])
    next
      case False
      then have "scan_scopes m current (key # seen) (if key \<in> current then stale else stale @ [key]) (Some key) w1 = (r, w')"
        using less(2) x Inr by (simp add: scan_scopes.simps [of m current seen])
      then have "view w' = view w1 \<and> keys w' = keys w1" by (rule less(1) [rotated]) (use False in auto)
      then show ?thesis using n by simp
    qed
  qed
qed

text \<open>A complete scan has found exactly the keys outside the current scopes.\<close>

lemma scan_scopes_stale:
  "scan_scopes m current seen stale previous w = (Inr result, w') \<Longrightarrow> keys w = done @ rest \<Longrightarrow>
   previous = (if done = [] then None else Some (last done)) \<Longrightarrow>
   result = stale @ filter (\<lambda>k. k \<notin> current) rest"
proof (induction "mo_max (co_map m) - length seen" arbitrary: seen stale previous w "done" rest rule: less_induct)
  case less
  obtain x w1 where x: "co_next m previous w = (x, w1)" by (cases "co_next m previous w")
  note n = next_view [OF x]
  have "x = Inl ENOENT \<and> rest = [] \<or> (\<exists>e. x = Inl e \<and> e \<noteq> ENOENT) \<or> (\<exists>k ks. x = Inr k \<and> rest = k # ks)"
  proof (cases "done = []")
    case True
    then show ?thesis using next_first [of w x w1] x less(3,4) by auto
  next
    case False
    then have "keys w = butlast done @ last done # rest" using less(3) by simp
    then show ?thesis using next_after [of "last done" w x w1] x less(4) False by auto
  qed
  then consider "x = Inl ENOENT" "rest = []" | e where "x = Inl e" "e \<noteq> ENOENT" | k ks where "x = Inr k" "rest = k # ks" by blast
  then show ?case
  proof cases
    case 1
    then show ?thesis using less(2) x by (simp add: scan_scopes.simps [of m current seen])
  next
    case 2
    then show ?thesis using less(2) x by (simp add: scan_scopes.simps [of m current seen])
  next
    case 3
    let ?stale = "if k \<in> current then stale else stale @ [k]"
    have run: "\<not> (k \<in> set seen \<or> mo_max (co_map m) \<le> length seen)" "scan_scopes m current (k # seen) ?stale (Some k) w1 = (Inr result, w')"
      using less(2) x 3 by (simp_all add: scan_scopes.simps [of m current seen] split: if_splits)
    have "result = ?stale @ filter (\<lambda>k. k \<notin> current) ks"
      by (rule less(1) [OF _ run(2), where ?done = "done @ [k]"]) (use run(1) n less(3) 3 in auto)
    then show ?thesis using 3 by simp
  qed
qed

lemma retire_view:
  assumes "retire m stale w = (res, w')"
  shows "(\<forall>k. k \<notin> set stale \<longrightarrow> view w' k = view w k) \<and> dom (view w') \<subseteq> dom (view w) \<and>
    (res = None \<longrightarrow> dom (view w') \<inter> set stale = {})"
  using assms
proof (induction stale arbitrary: w)
  case Nil
  then show ?case by (simp add: retire_def do_seq.simps)
next
  case (Cons k ks)
  obtain e w1 where e: "delete_existing (co_map m) k w = (e, w1)" by (cases "delete_existing (co_map m) k w")
  show ?case
  proof (cases e)
    case None
    have v: "view w1 = (view w)(k := None)"
      by (rule triple_ok [OF ebpf_map.delete_triple [OF map_laws] refl e [unfolded None]])
    have "retire m ks w1 = (res, w')" using Cons(2) e None by (simp add: retire_def do_seq.simps)
    note IH = Cons(1) [OF this]
    have d: "dom (view w1) = dom (view w) - {k}" by (simp add: v)
    have "\<forall>j. j \<notin> set (k # ks) \<longrightarrow> view w' j = view w j" using IH by (simp add: v)
    moreover have "dom (view w') \<subseteq> dom (view w)" "res = None \<longrightarrow> dom (view w') \<inter> set (k # ks) = {}"
      using IH unfolding d by auto
    ultimately show ?thesis by blast
  next
    case (Some err)
    have "view w1 = view w" by (rule triple_error [OF ebpf_map.delete_triple [OF map_laws] refl e [unfolded Some]])
    moreover have "res = Some err" "w' = w1" using Cons(2) e Some by (simp_all add: retire_def do_seq.simps)
    ultimately show ?thesis by simp
  qed
qed

end

section \<open>Rows live as long as their VPC\<close>

lemma scan_frame:
  assumes "\<And>p w r w'. co_next c p w = (r, w') \<Longrightarrow> f w' = f w"
  shows "scan_scopes c current seen stale previous w = (res, w') \<Longrightarrow> f w' = f w"
proof (induction "mo_max (co_map c) - length seen" arbitrary: seen stale previous w rule: less_induct)
  case less
  obtain x w1 where x: "co_next c previous w = (x, w1)" by (cases "co_next c previous w")
  show ?case
  proof (cases "\<exists>key. x = Inr key \<and> \<not> (key \<in> set seen \<or> mo_max (co_map c) \<le> length seen)")
    case True
    then obtain key where key: "x = Inr key" "\<not> (key \<in> set seen \<or> mo_max (co_map c) \<le> length seen)" by blast
    then have "scan_scopes c current (key # seen) (if key \<in> current then stale else stale @ [key]) (Some key) w1 = (res, w')"
      using less(2) x by (simp add: scan_scopes.simps [of c current seen])
    then have "f w' = f w1" by (rule less(1) [rotated]) (use key(2) in auto)
    then show ?thesis using assms [OF x] by simp
  next
    case False
    then have "w' = w1" using less(2) x by (cases x) (auto simp: scan_scopes.simps [of c current seen] split: if_splits)
    then show ?thesis using assms [OF x] by simp
  qed
qed

lemma retire_frame:
  assumes "map_frame (co_map c) f" "retire c stale w = (res, w')"
  shows "f w' = f w"
proof -
  have "triple (\<lambda>u. f u = f w) (retire c stale) (\<lambda>u. f u = f w) (\<lambda>u. f u = f w)"
    unfolding retire_def
    by (rule triple_seq_inv) (auto intro!: delete_keeps frame_keeps [OF assms(1), where P = "\<lambda>x. x = f w"])
  note t = this
  show ?thesis
  proof (cases res)
    case None
    show ?thesis by (rule triple_ok [OF t refl assms(2) [unfolded None]])
  next
    case (Some e)
    show ?thesis by (rule triple_error [OF t refl assms(2) [unfolded Some]])
  qed
qed

text \<open>After a complete synchronisation, and until the next one, only the networks of the snapshot have rows.\<close>

definition counters_live :: "counter_state \<Rightarrow> (u32 \<rightharpoonup> 'a) \<Rightarrow> (u32 \<rightharpoonup> 'b) \<Rightarrow> bool" where
  "counters_live st v d \<longleftrightarrow> \<not> cs_counterDirty st \<longrightarrow> (\<forall>S. cs_counterScopes st = Some S \<longrightarrow> dom v \<union> dom d \<subseteq> S)"

lemma seed_row_view:
  assumes c: "counter_map c view ks" and run: "seed_row st c cpus zero net w = (res, w')"
  shows "(\<forall>k. view w k \<noteq> None \<longrightarrow> view w' k = view w k) \<and>
    (\<forall>k. view w k = None \<and> view w' k \<noteq> None \<longrightarrow> k = net \<and> (\<forall>S. cs_counterScopes st = Some S \<longrightarrow> net \<in> S)) \<and>
    (res = None \<and> net \<noteq> 0 \<and> (\<forall>S. cs_counterScopes st = Some S \<longrightarrow> net \<in> S) \<longrightarrow> view w' net \<noteq> None)"
proof (cases "net = 0 \<or> (case cs_counterScopes st of None \<Rightarrow> False | Some scopes \<Rightarrow> net \<notin> scopes)")
  case True
  then show ?thesis using run by (auto simp: seed_row_def split: option.splits)
next
  case False
  then have allowed: "\<forall>S. cs_counterScopes st = Some S \<longrightarrow> net \<in> S" by auto
  obtain x w1 where x: "mo_lookup (co_map c) net w = (x, w1)" by (cases "mo_lookup (co_map c) net w")
  have same: "view w1 = view w" using ebpf_map.lookup_view [OF counter_map.map_laws [OF c] x] .
  show ?thesis
  proof (cases "x = Inl ENOENT \<and> (\<exists>n. cpus = Inr n)")
    case True
    then obtain n where n: "x = Inl ENOENT" "cpus = Inr n" by blast
    obtain e w2 where e: "co_create c net (replicate n zero) w1 = (e, w2)" by (cases "co_create c net (replicate n zero) w1")
    have out: "w' = w2" "res = None \<longleftrightarrow> e = None \<or> e = Some EEXIST"
      using run False x n e by (auto simp: seed_row_def split: option.splits if_splits)
    show ?thesis
    proof (cases e)
      case None
      then have "view w' = (view w)(net \<mapsto> replicate n zero)" "view w net = None"
        using counter_map.create_view [OF c e] counter_map.create_new [OF c e [unfolded None]] out(1) same by simp_all
      then show ?thesis using allowed by auto
    next
      case (Some err)
      have "err = EEXIST \<longrightarrow> view w net \<noteq> None"
        using counter_map.create_exists [OF c, of net "replicate n zero" w1 w2] e Some same by simp
      moreover have "view w' = view w" using counter_map.create_view [OF c e] Some out(1) same by simp
      ultimately show ?thesis using allowed out(2) Some by auto
    qed
  next
    case other: False
    then have "view w' = view w" "res = None \<longrightarrow> (\<exists>v. x = Inr v)"
      using run False x same by (auto simp: seed_row_def split: option.splits if_splits sum.splits prod.splits)
    then show ?thesis using ebpf_map.lookup_hit [OF counter_map.map_laws [OF c]] x by auto
  qed
qed

lemma seed_row_dom:
  assumes "counter_map c view ks" "seed_row st c cpus zero net w = (res, w')" "cs_counterScopes st = Some S" "dom (view w) \<subseteq> S"
  shows "dom (view w') \<subseteq> S"
proof
  fix k assume "k \<in> dom (view w')"
  then show "k \<in> S" using seed_row_view [OF assms(1,2)] assms(3,4) by (cases "view w k") auto
qed

lemma seed_row_frame:
  assumes "map_frame (co_map c) f" "\<And>k v w e w'. co_create c k v w = (e, w') \<Longrightarrow> f w' = f w"
    and "seed_row st c cpus zero net w = (res, w')"
  shows "f w' = f w"
proof -
  have l: "mo_lookup (co_map c) net w = (x, w1) \<Longrightarrow> f w1 = f w" for x w1
    using assms(1) unfolding map_frame_def by (metis snd_conv)
  show ?thesis using assms(3)
    by (auto simp: seed_row_def split: if_splits prod.splits sum.splits option.splits dest!: l assms(2))
qed

locale counter_kernel =
  fixes m :: "'w counter_objs"
    and vv :: "'w \<Rightarrow> u32 \<rightharpoonup> vpc_counter list" and kv :: "'w \<Rightarrow> u32 list"
    and vd :: "'w \<Rightarrow> u32 \<rightharpoonup> u64 list" and kd :: "'w \<Rightarrow> u32 list"
  assumes vpc_map: "counter_map (VpcCounters m) vv kv" and drop_map: "counter_map (SgDrops m) vd kd"
    and vpc_frame: "map_frame (co_map (VpcCounters m)) (\<lambda>w. (vd w, kd w))"
      "co_create (VpcCounters m) k vc w = (e, w') \<Longrightarrow> (vd w', kd w') = (vd w, kd w)"
      "co_next (VpcCounters m) p w = (r, w') \<Longrightarrow> (vd w', kd w') = (vd w, kd w)"
    and drop_frame: "map_frame (co_map (SgDrops m)) (\<lambda>w. (vv w, kv w))"
      "co_create (SgDrops m) k vs w = (e, w') \<Longrightarrow> (vv w', kv w') = (vv w, kv w)"
      "co_next (SgDrops m) p w = (r, w') \<Longrightarrow> (vv w', kv w') = (vv w, kv w)"
begin

lemma sync_scans:
  assumes "scan_scopes (VpcCounters m) current [] [] None w = (Inr stale0, w1)"
    and "scan_scopes (SgDrops m) current [] [] None w1 = (Inr stale1, w2)"
  shows "set stale0 = dom (vv w) - current" "set stale1 = dom (vd w) - current" "vv w2 = vv w" "vd w2 = vd w"
proof -
  have v1: "vv w1 = vv w" using counter_map.scan_scopes_view [OF vpc_map assms(1)] by simp
  have d1: "(vd w1, kd w1) = (vd w, kd w)" by (rule scan_frame [where f = "\<lambda>w. (vd w, kd w)", OF vpc_frame(3) assms(1)])
  have d2: "vd w2 = vd w1" using counter_map.scan_scopes_view [OF drop_map assms(2)] by simp
  have v2: "(vv w2, kv w2) = (vv w1, kv w1)" by (rule scan_frame [where f = "\<lambda>w. (vv w, kv w)", OF drop_frame(3) assms(2)])
  show "vv w2 = vv w" "vd w2 = vd w" using v1 d1 d2 v2 by simp_all
  show "set stale0 = dom (vv w) - current"
    using counter_map.scan_scopes_stale [OF vpc_map assms(1), of "[]"] counter_map.keys_dom [OF vpc_map, of w] by auto
  show "set stale1 = dom (vd w) - current"
    using counter_map.scan_scopes_stale [OF drop_map assms(2), of "[]"] counter_map.keys_dom [OF drop_map, of w1] d1 by auto
qed

lemma sync_cases:
  assumes run: "SyncVPCCounterScopes m scopes st w = (res, st', w')"
  obtains (early) "st' = st" "vv w' = vv w" "vd w' = vd w" "res = None \<longrightarrow> cs_counterScopes st = Some (set scopes) \<and> \<not> cs_counterDirty st"
  | (scanned) stale0 stale1 w1 w2 r0 w3 where
      "scan_scopes (VpcCounters m) (set scopes) [] [] None w = (Inr stale0, w1)"
      "scan_scopes (SgDrops m) (set scopes) [] [] None w1 = (Inr stale1, w2)"
      "retire (VpcCounters m) stale0 w2 = (r0, w3)"
      "if r0 = None then retire (SgDrops m) stale1 w3 = (res, w') else res = r0 \<and> w' = w3"
      "cs_counterScopes st' = Some (set scopes)" "cs_counterDirty st' \<longleftrightarrow> res \<noteq> None"
proof -
  obtain x0 w1 where x0: "scan_scopes (VpcCounters m) (set scopes) [] [] None w = (x0, w1)"
    by (cases "scan_scopes (VpcCounters m) (set scopes) [] [] None w")
  obtain x1 w2 where x1: "scan_scopes (SgDrops m) (set scopes) [] [] None w1 = (x1, w2)"
    by (cases "scan_scopes (SgDrops m) (set scopes) [] [] None w1")
  have v: "vv w1 = vv w" "vd w1 = vd w" "vv w2 = vv w1" "vd w2 = vd w1"
    using counter_map.scan_scopes_view [OF vpc_map x0] counter_map.scan_scopes_view [OF drop_map x1]
      scan_frame [where f = "\<lambda>w. (vd w, kd w)", OF vpc_frame(3) x0] scan_frame [where f = "\<lambda>w. (vv w, kv w)", OF drop_frame(3) x1] by simp_all
  show thesis
  proof (cases "65536 < length scopes \<or> (\<exists>scope \<in> set scopes. scope = 0 \<or> 2 ^ 22 \<le> scope) \<or>
      (cs_counterScopes st = Some (set scopes) \<and> \<not> cs_counterDirty st)")
    case True
    then show thesis using run early by (auto simp: SyncVPCCounterScopes_def split: if_splits)
  next
    case False
    then have go: "SyncVPCCounterScopes m scopes st w = (case x0 of
        Inl e \<Rightarrow> (Some e, st, w1)
      | Inr stale0 \<Rightarrow> (case x1 of
          Inl e \<Rightarrow> (Some e, st, w2)
        | Inr stale1 \<Rightarrow>
            (case retire (VpcCounters m) stale0 w2 of
               (Some e, w) \<Rightarrow> (Some e, \<lparr> cs_counterScopes = Some (set scopes), cs_counterDirty = True \<rparr>, w)
             | (None, w) \<Rightarrow> (case retire (SgDrops m) stale1 w of
                 (Some e, w) \<Rightarrow> (Some e, \<lparr> cs_counterScopes = Some (set scopes), cs_counterDirty = True \<rparr>, w)
               | (None, w) \<Rightarrow> (None, \<lparr> cs_counterScopes = Some (set scopes), cs_counterDirty = False \<rparr>, w)))))"
      using x0 x1 by (auto simp: SyncVPCCounterScopes_def Let_def split: sum.split)
    show thesis
    proof (cases "\<exists>stale0 stale1. x0 = Inr stale0 \<and> x1 = Inr stale1")
      case False
      then have "st' = st" "(w' = w1 \<or> w' = w2) \<and> res \<noteq> None" using run go by (auto split: sum.splits)
      then show thesis using early v by auto
    next
      case True
      then obtain stale0 stale1 where s: "x0 = Inr stale0" "x1 = Inr stale1" by blast
      obtain r0 w3 where r0: "retire (VpcCounters m) stale0 w2 = (r0, w3)" by (cases "retire (VpcCounters m) stale0 w2")
      show thesis
        by (rule scanned [OF x0 [unfolded s] x1 [unfolded s] r0])
          (use run go s r0 in \<open>auto split: option.splits prod.splits\<close>)
    qed
  qed
qed

lemma sync_outcome:
  assumes run: "SyncVPCCounterScopes m scopes st w = (res, st', w')" and live: "counters_live st (vv w) (vd w)"
  shows "counters_live st' (vv w') (vd w') \<and> (\<forall>k \<in> set scopes. vv w' k = vv w k \<and> vd w' k = vd w k) \<and>
    dom (vv w') \<subseteq> dom (vv w) \<and> dom (vd w') \<subseteq> dom (vd w) \<and>
    (res = None \<longrightarrow> dom (vv w') \<union> dom (vd w') \<subseteq> set scopes)"
  using run
proof (cases rule: sync_cases)
  case early
  then show ?thesis using live by (auto simp: counters_live_def)
next
  case (scanned stale0 stale1 w1 w2 r0 w3)
  note scans = sync_scans [OF scanned(1,2)]
  have v3: "\<forall>k. k \<notin> set stale0 \<longrightarrow> vv w3 k = vv w k" "dom (vv w3) \<subseteq> dom (vv w)" "r0 = None \<longrightarrow> dom (vv w3) \<inter> set stale0 = {}"
    using counter_map.retire_view [OF vpc_map scanned(3)] scans(3) by simp_all
  have d3: "vd w3 = vd w" using retire_frame [OF vpc_frame(1) scanned(3)] scans(4) by simp
  show ?thesis
  proof (cases r0)
    case (Some e)
    then have "w' = w3" "res = Some e" using scanned(4) by simp_all
    then show ?thesis using v3 d3 scans scanned(6) by (auto simp: counters_live_def)
  next
    case None
    then have run': "retire (SgDrops m) stale1 w3 = (res, w')" using scanned(4) by simp
    have d4: "\<forall>k. k \<notin> set stale1 \<longrightarrow> vd w' k = vd w k" "dom (vd w') \<subseteq> dom (vd w)" "res = None \<longrightarrow> dom (vd w') \<inter> set stale1 = {}"
      using counter_map.retire_view [OF drop_map run'] d3 by simp_all
    have v4: "vv w' = vv w3" using retire_frame [OF drop_frame(1) run'] by simp
    have "dom (vv w') \<subseteq> set scopes" using v3(2,3) scans(1) None v4 by auto
    moreover have "res = None \<longrightarrow> dom (vd w') \<subseteq> set scopes" using d4(2,3) scans(2) by auto
    ultimately show ?thesis using v3 d4 v4 scans scanned(5,6) by (auto simp: counters_live_def)
  qed
qed

text \<open>Seeding never overwrites a row and never creates one outside the scopes.\<close>

lemma seeds_live:
  assumes "counters_live st (vv w) (vd w)"
  shows "EnsureVPCCounter st m cpus net w = (res, w') \<Longrightarrow> counters_live st (vv w') (vd w')"
    and "EnsureSGDrop st m cpus net w = (res, w') \<Longrightarrow> counters_live st (vv w') (vd w')"
proof -
  assume "EnsureVPCCounter st m cpus net w = (res, w')"
  then have run: "seed_row st (VpcCounters m) cpus vpc_counter_zero net w = (res, w')" by (simp add: EnsureVPCCounter_def)
  have "(vd w', kd w') = (vd w, kd w)" by (rule seed_row_frame [OF vpc_frame(1,2) run])
  then show "counters_live st (vv w') (vd w')"
    using assms seed_row_dom [OF vpc_map run] by (simp add: counters_live_def)
next
  assume "EnsureSGDrop st m cpus net w = (res, w')"
  then have run: "seed_row st (SgDrops m) cpus 0 net w = (res, w')" by (simp add: EnsureSGDrop_def)
  have "(vv w', kv w') = (vv w, kv w)" by (rule seed_row_frame [OF drop_frame(1,2) run])
  then show "counters_live st (vv w') (vd w')"
    using assms seed_row_dom [OF drop_map run] by (simp add: counters_live_def)
qed

end

section \<open>The life of the counters\<close>

text \<open>What happens to the counters, in any order: the agent seeds rows and synchronises the scopes, and the packet
  programs count, which changes the values of rows and not their keys.\<close>

inductive counter_step :: "'w counter_objs \<Rightarrow> ('w \<Rightarrow> u32 \<rightharpoonup> vpc_counter list) \<Rightarrow> ('w \<Rightarrow> u32 \<rightharpoonup> u64 list) \<Rightarrow>
    counter_state \<times> 'w \<Rightarrow> counter_state \<times> 'w \<Rightarrow> bool"
  for m :: "'w counter_objs" and vv :: "'w \<Rightarrow> u32 \<rightharpoonup> vpc_counter list" and vd :: "'w \<Rightarrow> u32 \<rightharpoonup> u64 list" where
  seed_vpc: "EnsureVPCCounter st m cpus net w = (res, w') \<Longrightarrow> counter_step m vv vd (st, w) (st, w')"
| seed_drop: "EnsureSGDrop st m cpus net w = (res, w') \<Longrightarrow> counter_step m vv vd (st, w) (st, w')"
| sync: "SyncVPCCounterScopes m scopes st w = (res, st', w') \<Longrightarrow> counter_step m vv vd (st, w) (st', w')"
| packets: "dom (vv w') = dom (vv w) \<Longrightarrow> dom (vd w') = dom (vd w) \<Longrightarrow> counter_step m vv vd (st, w) (st, w')"

lemma counter_steps_live:
  assumes "counter_kernel m vv kv vd kd" "(counter_step m vv vd)\<^sup>*\<^sup>* a b" "counters_live (fst a) (vv (snd a)) (vd (snd a))"
  shows "counters_live (fst b) (vv (snd b)) (vd (snd b))"
  using assms(2)
proof (induction rule: rtranclp_induct)
  case (step b c)
  from step(2) show ?case
  proof (cases rule: counter_step.cases)
    case (seed_vpc st cpus net w res w')
    then show ?thesis using counter_kernel.seeds_live(1) [OF assms(1)] step(3) by fastforce
  next
    case (seed_drop st cpus net w res w')
    then show ?thesis using counter_kernel.seeds_live(2) [OF assms(1)] step(3) by fastforce
  next
    case (sync scopes st w res st' w')
    then show ?thesis using counter_kernel.sync_outcome [OF assms(1)] step(3) by fastforce
  next
    case (packets w' w st)
    then show ?thesis using step(3) by (simp add: counters_live_def)
  qed
qed (rule assms(3))

section \<open>A reference kernel\<close>

definition next_key :: "'k list \<Rightarrow> 'k option \<Rightarrow> errno + 'k" where
  "next_key ks p = (case (case p of None \<Rightarrow> ks | Some k \<Rightarrow> tl (dropWhile (\<lambda>j. j \<noteq> k) ks)) of [] \<Rightarrow> Inl ENOENT | k # _ \<Rightarrow> Inr k)"

definition alist_counter :: "nat \<Rightarrow> ('w \<Rightarrow> (u32 \<times> 'v) list) \<Rightarrow> ((u32 \<times> 'v) list \<Rightarrow> 'w \<Rightarrow> 'w) \<Rightarrow> ('w, u32, 'v) counter_ops" where
  "alist_counter cap get upd = \<lparr> co_map = alist_ops cap get upd (Pair None),
     co_create = (\<lambda>k v w. if map_of (get w) k \<noteq> None then (Some EEXIST, w) else (None, upd (AList.update k v (get w)) w)),
     co_next = (\<lambda>p w. (next_key (map fst (AList.clearjunk (get w))) p, w)) \<rparr>"

lemma alist_counter_map:
  assumes "\<And>xs w. get (upd xs w) = xs"
  shows "counter_map (alist_counter cap get upd) (\<lambda>w. map_of (get w)) (\<lambda>w. map fst (AList.clearjunk (get w)))"
proof (rule counter_map.intro)
  show "ebpf_map (co_map (alist_counter cap get upd)) (\<lambda>w. map_of (get w))"
    using alist_ops_ebpf_map [of get upd "Pair None" cap] assms by (simp add: alist_counter_def)
  show "set (map fst (AList.clearjunk (get w))) = dom (map_of (get w))" for w
    by (metis dom_map_of_conv_image_fst map_of_clearjunk set_map)
  show "distinct (map fst (AList.clearjunk (get w)))" for w by (rule distinct_clearjunk)
  show "r = Inl ENOENT \<and> b = [] \<or> (\<exists>e. r = Inl e \<and> e \<noteq> ENOENT) \<or> (\<exists>k ks. r = Inr k \<and> b = k # ks)"
    if "co_next (alist_counter cap get upd) (Some p) w = (r, w')" "map fst (AList.clearjunk (get w)) = a @ p # b" for p w r w' a b
  proof -
    have "p \<notin> set a" using distinct_clearjunk [of "get w"] that(2) by simp
    then have "dropWhile (\<lambda>j. j \<noteq> p) (a @ p # b) = p # b" by (subst dropWhile_append2) auto
    then show ?thesis using that by (auto simp: alist_counter_def next_key_def split: list.splits)
  qed
qed (use assms in \<open>auto simp: alist_counter_def update_conv' next_key_def split: list.splits if_splits\<close>)

type_synonym counter_world = "(u32 \<times> vpc_counter list) list \<times> (u32 \<times> u64 list) list"

definition counter_maps :: "counter_world counter_objs" where
  "counter_maps = \<lparr> VpcCounters = alist_counter 4096 fst (\<lambda>xs (_, d). (xs, d)), SgDrops = alist_counter 4096 snd (\<lambda>xs (v, _). (v, xs)) \<rparr>"

interpretation counter_ref: counter_kernel counter_maps "\<lambda>w. map_of (fst w)" "\<lambda>w. map fst (AList.clearjunk (fst w))"
  "\<lambda>w. map_of (snd w)" "\<lambda>w. map fst (AList.clearjunk (snd w))"
proof (rule counter_kernel.intro)
  show "counter_map (VpcCounters counter_maps) (\<lambda>w. map_of (fst w)) (\<lambda>w. map fst (AList.clearjunk (fst w)))"
    "counter_map (SgDrops counter_maps) (\<lambda>w. map_of (snd w)) (\<lambda>w. map fst (AList.clearjunk (snd w)))"
    unfolding counter_maps_def by (auto intro!: alist_counter_map split: prod.splits)
  show "map_frame (co_map (VpcCounters counter_maps)) (\<lambda>w. (map_of (snd w), map fst (AList.clearjunk (snd w))))"
    "map_frame (co_map (SgDrops counter_maps)) (\<lambda>w. (map_of (fst w), map fst (AList.clearjunk (fst w))))"
    by (auto simp: counter_maps_def alist_counter_def intro!: alist_ops_frame split: prod.splits)
qed (auto simp: counter_maps_def alist_counter_def split: if_splits prod.splits)

section \<open>Properties\<close>



end
