(* ===== verification/SgCompile.thy ===== *)
theory SgCompile
  imports SgRegistry SgApply HfCompile Claims Counters
begin

text \<open>
  The agent's compilation of security groups: the wire membership of \<^verbatim>\<open>internal/sgidentity/membership.go\<close> and
  \<^verbatim>\<open>cmd/agent/securitygroup_members.go\<close>, the rules of \<^verbatim>\<open>watchSecurityGroups\<close> in \<^verbatim>\<open>cmd/agent/main.go\<close> and the
  preflight of \<^verbatim>\<open>cmd/agent/policy_limits.go\<close>. The listers of the informers are arguments, and so is SHA-256.
\<close>

section \<open>Membership\<close>

definition MaxSecurityGroupsPerVPC :: int where "MaxSecurityGroupsPerVPC = 63"
definition LabelPodUID :: string where "LabelPodUID = ''sdn.cozystack.io/pod-uid''"
definition AnnotationContainerID :: string where "AnnotationContainerID = ''sdn.cozystack.io/container-id''"
definition AnnotationCNIIfName :: string where "AnnotationCNIIfName = ''sdn.cozystack.io/cni-ifname''"

definition sg_LocalRef :: "SecurityGroup \<Rightarrow> VPCRef" where
  "sg_LocalRef g = \<lparr> vr_Namespace = om_Namespace (sgo_meta g), vr_Name = lvr_Name (sgs_VPCRef (sgo_Spec g)) \<rparr>"

text \<open>The nested maps of \<^verbatim>\<open>Index\<close> are one map; a lookup of an absent entry is the empty UID.\<close>

type_synonym sg_index = "VPCRef \<times> int \<rightharpoonup> string"

definition sg_current :: "machinery \<Rightarrow> SecurityGroup \<Rightarrow> bool" where
  "sg_current k g = (\<not> (om_Deleting (sgo_meta g) \<or> sgst_ID (sgo_Status g) \<le> 0 \<or> MaxSecurityGroupsPerVPC \<le> sgst_ID (sgo_Status g)) \<and>
     \<not> (\<not> NamespaceName k (om_Namespace (sgo_meta g)) \<or> \<not> ObjectName k (lvr_Name (sgs_VPCRef (sgo_Spec g)))))"

definition index_Add :: "machinery \<Rightarrow> SecurityGroup \<Rightarrow> sg_index \<Rightarrow> sg_index" where
  "index_Add k g idx =
     (if \<not> sg_current k g then idx
      else let key = (sg_LocalRef g, sgst_ID (sgo_Status g))
      in if idx key \<noteq> None then idx(key \<mapsto> []) else idx(key \<mapsto> om_UID (sgo_meta g)))"

definition NewIndex :: "machinery \<Rightarrow> SecurityGroup list \<Rightarrow> sg_index" where
  "NewIndex k groups = fold (index_Add k) groups Map.empty"

definition index_get :: "sg_index \<Rightarrow> VPCRef \<Rightarrow> int \<Rightarrow> string" where
  "index_get idx ref n = (case idx (ref, n) of Some uid \<Rightarrow> uid | None \<Rightarrow> [])"

text \<open>One reference of the Port: what is proven and what was seen so far.\<close>

definition prove_ref :: "sg_index \<Rightarrow> VPCRef \<Rightarrow> SecurityGroupMembership \<Rightarrow> u64 \<times> u64 \<Rightarrow> u64 \<times> u64" where
  "prove_ref idx vpc ref = (\<lambda>(proven, seen).
     if sgm_ID ref \<le> 0 \<or> MaxSecurityGroupsPerVPC \<le> sgm_ID ref then (proven, seen)
     else let bt = push_bit (nat (sgm_ID ref)) 1
     in if seen AND bt \<noteq> 0 then (proven AND NOT bt, seen)
        else (if sgm_UID ref \<noteq> [] \<and> index_get idx vpc (sgm_ID ref) = sgm_UID ref then proven OR bt else proven, seen OR bt))"

definition index_Bitmap :: "sg_index \<Rightarrow> Port \<Rightarrow> u64" where
  "index_Bitmap idx port =
     (let status = port_Status port
      in if ptst_GroupPodUID status \<noteq> label (port_meta port) LabelPodUID then 1
         else if ptst_Groups status = [] then 0
         else if MaxSecurityGroupsPerVPC < int (length (ptst_Groups status)) \<or>
             MaxSecurityGroupsPerVPC \<le> int (length (ptst_GroupRefs status)) then 1
         else let proven = fst (fold (prove_ref idx (pts_VPCRef (port_Spec port))) (ptst_GroupRefs status) (0, 0))
         in foldl (\<lambda>bitmap n. if 0 < n \<and> n < MaxSecurityGroupsPerVPC \<and> proven AND push_bit (nat n) 1 \<noteq> 0
                     then bitmap OR push_bit (nat n) 1 else bitmap OR 1) 0 (ptst_Groups status))"

text \<open>\<^verbatim>\<open>SGEndpointOwner\<close>: the digest of the witness of a Port and its sandbox, as four little-endian words.\<close>

definition le_u64 :: "u8 list \<Rightarrow> u64" where
  "le_u64 bs = foldr (\<lambda>b acc. ucast b OR push_bit 8 acc) bs 0"

definition SGEndpointOwner :: "(string \<Rightarrow> u8 list) \<Rightarrow> string \<Rightarrow> string \<Rightarrow> string \<Rightarrow> sg_owner" where
  "SGEndpointOwner sha256 portUID containerID ifName =
     (if portUID = [] \<or> containerID = [] \<or> ifName = [] then (0, 0, 0, 0)
      else if 255 < length portUID \<or> 255 < length containerID \<or> 255 < length ifName \<or>
          255 < length portUID + length containerID + length ifName + 2 then (0, 0, 0, 0)
      else let digest = sha256 (portUID @ [CHR 0x00] @ containerID @ [CHR 0x00] @ ifName)
      in (le_u64 (take 8 digest), le_u64 (take 8 (drop 8 digest)), le_u64 (take 8 (drop 16 digest)), le_u64 (take 8 (drop 24 digest))))"

definition annotation :: "ObjectMeta \<Rightarrow> string \<Rightarrow> string" where
  "annotation m k = (case om_Annotations m k of Some v \<Rightarrow> v | None \<Rightarrow> [])"

definition sg_member_of_port :: "(string \<Rightarrow> u8 list) \<Rightarrow> sg_index \<Rightarrow> Port \<Rightarrow> SGMember option" where
  "sg_member_of_port sha256 idx p =
     (if pts_IP (port_Spec p) = [] then None
      else case vniFromPortName (om_Name (port_meta p)) of
        None \<Rightarrow> None
      | Some net \<Rightarrow> Some \<lparr> sm_Net = net,
          sm_IP = (case Netip.parse_ip (pts_IP (port_Spec p)) of Some ip \<Rightarrow> ip | None \<Rightarrow> []),
          sm_Groups = index_Bitmap idx p,
          sm_Owner = SGEndpointOwner sha256 (om_UID (port_meta p)) (annotation (port_meta p) AnnotationContainerID)
            (annotation (port_meta p) AnnotationCNIIfName) \<rparr>)"

definition securityGroupMembers :: "machinery \<Rightarrow> (string \<Rightarrow> u8 list) \<Rightarrow> Port list \<Rightarrow> SecurityGroup list \<Rightarrow> SGMember list" where
  "securityGroupMembers k sha256 ports groups = List.map_filter (sg_member_of_port sha256 (NewIndex k groups)) ports"

definition securityGroupPeerReference :: "machinery \<Rightarrow> SecurityGroupPeer \<Rightarrow> bool" where
  "securityGroupPeerReference k peer =
     (case sgp_VPC peer of
        None \<Rightarrow> GroupReference k (sgp_Group peer) [] []
      | Some v \<Rightarrow> NamespaceName k (vr_Namespace v) \<and> GroupReference k (sgp_Group peer) (vr_Namespace v) (vr_Name v))"

definition securityGroupMembership :: "int list \<Rightarrow> u64" where
  "securityGroupMembership ids =
     (if \<exists>n \<in> set ids. \<not> ValidGroup n then 1 else foldl (\<lambda>bitmap n. bitmap OR push_bit (nat n) 1) 0 ids)"

section \<open>Rules\<close>

definition compileSGPort :: "SecurityGroupPort \<Rightarrow> (u8 \<times> u16) option" where
  "compileSGPort pp =
     (if sgpt_Port pp < 0 \<or> 65535 < sgpt_Port pp then None
      else if sgpt_Protocol pp = ''TCP'' then Some (6, of_int (sgpt_Port pp))
      else if sgpt_Protocol pp = ''UDP'' then Some (17, of_int (sgpt_Port pp))
      else None)"

text \<open>The protocols and ports of a rule; the four compilers differ only in the row they build from each.\<close>

definition sg_port_rows :: "SecurityGroupPort list \<Rightarrow> (u8 \<times> u16) list" where
  "sg_port_rows ports = (if ports = [] then [(6, 0), (17, 0)] else List.map_filter compileSGPort ports)"

definition compileRulePorts :: "u32 \<Rightarrow> u32 \<Rightarrow> u16 \<Rightarrow> u64 \<Rightarrow> SecurityGroupPort list \<Rightarrow> SGRule list" where
  "compileRulePorts net srcNet grp allowed ports = map (\<lambda>(proto, port).
     \<lparr> sr_Net = net, sr_SrcNet = srcNet, sr_Group = grp, sr_Proto = proto, sr_Port = port, sr_Allowed = allowed \<rparr>) (sg_port_rows ports)"

definition compileEgressPorts :: "u32 \<Rightarrow> u32 \<Rightarrow> u16 \<Rightarrow> u64 \<Rightarrow> SecurityGroupPort list \<Rightarrow> SGEgress list" where
  "compileEgressPorts srcNet dstNet grp allowedDst ports = map (\<lambda>(proto, port).
     \<lparr> eg_SrcNet = srcNet, eg_DstNet = dstNet, eg_Group = grp, eg_Proto = proto, eg_Port = port, eg_Allowed = allowedDst \<rparr>) (sg_port_rows ports)"

definition compileCidrPorts :: "u32 \<Rightarrow> ipnet \<Rightarrow> u64 \<Rightarrow> SecurityGroupPort list \<Rightarrow> SGCidr list" where
  "compileCidrPorts net cidr allowedGroups ports = map (\<lambda>(proto, port).
     \<lparr> sc_Net = net, sc_Proto = proto, sc_Port = port, sc_CIDR = Some cidr, sc_AllowedGroups = allowedGroups \<rparr>) (sg_port_rows ports)"

definition compileEgressCidrPorts :: "u32 \<Rightarrow> ipnet \<Rightarrow> u64 \<Rightarrow> SecurityGroupPort list \<Rightarrow> SGEgressCidr list" where
  "compileEgressCidrPorts srcNet cidr allowedSrc ports = map (\<lambda>(proto, port).
     \<lparr> sc_Net = srcNet, sc_Proto = proto, sc_Port = port, sc_CIDR = Some cidr, sc_AllowedGroups = allowedSrc \<rparr>) (sg_port_rows ports)"

definition isAnyCIDR :: "string \<Rightarrow> bool" where
  "isAnyCIDR c = (c = ''0.0.0.0/0'' \<or> c = ''::/0'')"

type_synonym vpc_lister = "string \<Rightarrow> string \<Rightarrow> VPC option"

text \<open>The condition under which both loops of the resynchronisation skip a group.\<close>

definition sg_skipped :: "machinery \<Rightarrow> SecurityGroup \<Rightarrow> bool" where
  "sg_skipped k sg = (om_Deleting (sgo_meta sg) \<or> sgst_ID (sgo_Status sg) \<le> 0 \<or> int SGWorldGroup \<le> sgst_ID (sgo_Status sg) \<or>
     \<not> NamespaceName k (om_Namespace (sgo_meta sg)) \<or> \<not> ObjectName k (lvr_Name (sgs_VPCRef (sgo_Spec sg))))"

type_synonym name_ids = "(string \<times> string) \<times> string \<rightharpoonup> u16"

definition vpc_key :: "SecurityGroup \<Rightarrow> string \<times> string" where
  "vpc_key sg = (om_Namespace (sgo_meta sg), lvr_Name (sgs_VPCRef (sgo_Spec sg)))"

definition nameIDs :: "machinery \<Rightarrow> SecurityGroup list \<Rightarrow> name_ids" where
  "nameIDs k groups = fold (\<lambda>sg m. if sg_skipped k sg then m
     else m((vpc_key sg, om_Name (sgo_meta sg)) \<mapsto> Group (sgst_ID (sgo_Status sg)))) groups Map.empty"

definition lister_vni :: "vpc_lister \<Rightarrow> string \<Rightarrow> string \<Rightarrow> u32 option" where
  "lister_vni vpcs ns name =
     (case vpcs ns name of
        None \<Rightarrow> None
      | Some vpc \<Rightarrow> if ValidVNI (vst_VNI (vpc_Status vpc)) then Some (VNI (vst_VNI (vpc_Status vpc))) else None)"

text \<open>The network and the identifier of the group that a peer names.\<close>

definition resolve_group :: "machinery \<Rightarrow> vpc_lister \<Rightarrow> name_ids \<Rightarrow> u32 \<Rightarrow> string \<times> string \<Rightarrow> SecurityGroupPeer \<Rightarrow> (u32 \<times> u16) option" where
  "resolve_group k vpcs ids net vpcKey peer =
     (if \<not> securityGroupPeerReference k peer then None
      else case sgp_VPC peer of
        None \<Rightarrow> map_option (Pair net) (ids (vpcKey, sgp_Group peer))
      | Some v \<Rightarrow> (case lister_vni vpcs (vr_Namespace v) (vr_Name v) of
          None \<Rightarrow> None
        | Some srcNet \<Rightarrow> map_option (Pair srcNet) (ids ((vr_Namespace v, vr_Name v), sgp_Group peer))))"

definition sg_ingress_rule :: "machinery \<Rightarrow> vpc_lister \<Rightarrow> name_ids \<Rightarrow> u32 \<Rightarrow> SecurityGroup \<Rightarrow> SecurityGroupRule \<Rightarrow> SGRule list \<times> SGCidr list" where
  "sg_ingress_rule k vpcs ids net sg ing =
     (let peer = sgr_From ing; gid = Group (sgst_ID (sgo_Status sg))
      in if sgp_Group peer \<noteq> [] then
           (case resolve_group k vpcs ids net (vpc_key sg) peer of
              None \<Rightarrow> ([], [])
            | Some (srcNet, n) \<Rightarrow> (compileRulePorts net srcNet gid (push_bit (unat n) 1) (sgr_Ports ing), []))
         else if isAnyCIDR (sgp_CIDR peer) then (compileRulePorts net net gid (push_bit SGWorldGroup 1) (sgr_Ports ing), [])
         else if sgp_CIDR peer \<noteq> [] then
           (case parse_cidr (sgp_CIDR peer) of
              None \<Rightarrow> ([], [])
            | Some (_, ipnet) \<Rightarrow> ([], compileCidrPorts net ipnet (push_bit (unat gid) 1) (sgr_Ports ing)))
         else ([], []))"

definition sg_egress_rule :: "machinery \<Rightarrow> vpc_lister \<Rightarrow> name_ids \<Rightarrow> u32 \<Rightarrow> SecurityGroup \<Rightarrow> SecurityGroupEgressRule \<Rightarrow> SGEgress list \<times> SGEgressCidr list" where
  "sg_egress_rule k vpcs ids net sg eg =
     (let peer = sge_To eg; gid = Group (sgst_ID (sgo_Status sg))
      in if sgp_CIDR peer \<noteq> [] then
           (case parse_cidr (sgp_CIDR peer) of
              None \<Rightarrow> ([], [])
            | Some (_, ipnet) \<Rightarrow> ([], compileEgressCidrPorts net ipnet (push_bit (unat gid) 1) (sge_Ports eg)))
         else if sgp_Group peer = [] then ([], [])
         else (case resolve_group k vpcs ids net (vpc_key sg) peer of
              None \<Rightarrow> ([], [])
            | Some (dstNet, n) \<Rightarrow> (compileEgressPorts net dstNet gid (push_bit (unat n) 1) (sge_Ports eg), [])))"

record sg_compiled =
  sgc_rules :: "SGRule list"
  sgc_cidrs :: "SGCidr list"
  sgc_egress :: "SGEgress list"
  sgc_egressCidrs :: "SGEgressCidr list"
  sgc_nets :: "u32 list"

definition sg_compile_object :: "machinery \<Rightarrow> vpc_lister \<Rightarrow> name_ids \<Rightarrow> SecurityGroup \<Rightarrow> sg_compiled \<Rightarrow> sg_compiled" where
  "sg_compile_object k vpcs ids sg c =
     (if sg_skipped k sg then c
      else case lister_vni vpcs (om_Namespace (sgo_meta sg)) (lvr_Name (sgs_VPCRef (sgo_Spec sg))) of
        None \<Rightarrow> c
      | Some net \<Rightarrow>
          let ins = map (sg_ingress_rule k vpcs ids net sg) (sgs_Ingress (sgo_Spec sg));
              egs = map (sg_egress_rule k vpcs ids net sg) (sgs_Egress (sgo_Spec sg))
          in \<lparr> sgc_rules = sgc_rules c @ concat (map fst ins), sgc_cidrs = sgc_cidrs c @ concat (map snd ins),
               sgc_egress = sgc_egress c @ concat (map fst egs), sgc_egressCidrs = sgc_egressCidrs c @ concat (map snd egs),
               sgc_nets = List.insert net (sgc_nets c) \<rparr>)"

definition sg_compile :: "machinery \<Rightarrow> vpc_lister \<Rightarrow> SecurityGroup list \<Rightarrow> sg_compiled" where
  "sg_compile k vpcs groups = fold (sg_compile_object k vpcs (nameIDs k groups)) groups
     \<lparr> sgc_rules = [], sgc_cidrs = [], sgc_egress = [], sgc_egressCidrs = [], sgc_nets = [] \<rparr>"

section \<open>Preflight and resynchronisation\<close>

text \<open>The counters of the preflight: ingress rows, egress rows, work.\<close>

definition sg_count :: "SecurityGroup \<Rightarrow> u64 \<times> u64 \<times> u64 \<Rightarrow> u64 \<times> u64 \<times> u64" where
  "sg_count sg = (\<lambda>(ingress, egress, work).
     let ins = map (\<lambda>r. of_nat (max (length (sgr_Ports r)) 2)) (sgs_Ingress (sgo_Spec sg));
         egs = map (\<lambda>r. of_nat (max (length (sge_Ports r)) 2)) (sgs_Egress (sgo_Spec sg))
     in (foldl (+) ingress ins, foldl (+) egress egs, foldl (+) (foldl (+) (work + 1) ins) egs))"

fun sg_preflight :: "SecurityGroup list \<Rightarrow> u64 \<times> u64 \<times> u64 \<Rightarrow> bool" where
  "sg_preflight [] c = True"
| "sg_preflight (sg # sgs) c =
     (case sg_count sg c of (ingress, egress, work) \<Rightarrow>
        if of_nat policyRowLimit < ingress \<or> of_nat policyRowLimit < egress \<or> of_nat policyWorkLimit < work then False
        else sg_preflight sgs (ingress, egress, work))"

definition validateSGCompilation :: "SecurityGroup list \<Rightarrow> Port list \<Rightarrow> bool" where
  "validateSGCompilation groups ports =
     (if policyRowLimit < length groups \<or> policyRowLimit < length ports then False else sg_preflight groups (0, 0, 0))"

text \<open>The body of \<^verbatim>\<open>resync\<close> on the lists of the informers: its errors are logged, so only the error of the
  application of the tables is reported; the drop counters are seeded first and their errors do not stop it.\<close>

definition sg_resync :: "(nat \<Rightarrow> range_order) \<Rightarrow> 'w sg_objs \<Rightarrow> 'w counter_objs \<Rightarrow> counter_state \<Rightarrow> errno + nat \<Rightarrow> (string \<Rightarrow> u8 list) \<Rightarrow>
    machinery \<Rightarrow> vpc_lister \<Rightarrow> SecurityGroup list \<Rightarrow> Port list \<Rightarrow> 'w call" where
  "sg_resync ords m cm st cpus sha256 k vpcs allSGs allPorts w =
     (if \<not> validateSGCompilation allSGs allPorts then (Some InputBudget, snd (BlockSecurityGroups m w))
      else let c = sg_compile k vpcs allSGs;
               w = fold (\<lambda>n w. snd (EnsureSGDrop st cm cpus n w)) (go_range (ords 5) (sgc_nets c)) w
      in ApplySecurityGroups ords m (securityGroupMembers k sha256 allPorts allSGs) (sgc_rules c) (sgc_cidrs c) (sgc_egress c)
           (sgc_egressCidrs c) w)"

end
