(* ===== verification/SgMembership.thy ===== *)
theory SgMembership
  imports SgCompile
begin

text \<open>
  What the membership bitmap of a Port proves (\<^verbatim>\<open>Index.Bitmap\<close>): a group bit is set only for a membership that names
  the one current group with that wire identifier, and a Port with a selected group is never left ungated.
\<close>

section \<open>The index\<close>

definition wire_groups :: "machinery \<Rightarrow> SecurityGroup list \<Rightarrow> VPCRef \<Rightarrow> int \<Rightarrow> SecurityGroup list" where
  "wire_groups k groups ref n = filter (\<lambda>g. sg_current k g \<and> sg_LocalRef g = ref \<and> sgst_ID (sgo_Status g) = n) groups"

lemma NewIndex_lookup:
  "NewIndex k groups (ref, n) =
     (case wire_groups k groups ref n of [] \<Rightarrow> None | [g] \<Rightarrow> Some (om_UID (sgo_meta g)) | _ \<Rightarrow> Some [])"
proof (induction groups rule: rev_induct)
  case (snoc g groups)
  have step: "NewIndex k (groups @ [g]) = index_Add k g (NewIndex k groups)" by (simp add: NewIndex_def)
  show ?case unfolding step index_Add_def
    using snoc.IH by (auto simp: Let_def wire_groups_def split: list.splits)
qed (simp add: NewIndex_def wire_groups_def)

lemma index_get_proves:
  assumes "uid \<noteq> []"
  shows "index_get (NewIndex k groups) ref n = uid \<longleftrightarrow> (\<exists>g. wire_groups k groups ref n = [g] \<and> om_UID (sgo_meta g) = uid)"
  using assms by (auto simp: index_get_def NewIndex_lookup split: list.splits)

section \<open>The bitmap\<close>

definition port_refs :: "SecurityGroupMembership list \<Rightarrow> int \<Rightarrow> SecurityGroupMembership list" where
  "port_refs refs n = filter (\<lambda>r. sgm_ID r = n) refs"

lemma prove_refs:
  fixes idx vpc refs
  defines "acc \<equiv> fold (prove_ref idx vpc) refs (0, 0)"
  shows "(bit (snd acc) i \<longleftrightarrow> 0 < i \<and> i < 63 \<and> port_refs refs (int i) \<noteq> []) \<and>
    (bit (fst acc) i \<longleftrightarrow> 0 < i \<and> i < 63 \<and>
       (\<exists>r. port_refs refs (int i) = [r] \<and> sgm_UID r \<noteq> [] \<and> index_get idx vpc (int i) = sgm_UID r))"
  unfolding acc_def
proof (induction refs rule: rev_induct)
  case (snoc r refs)
  obtain proven seen where acc: "fold (prove_ref idx vpc) refs (0, 0) = (proven, seen)" by force
  have step: "fold (prove_ref idx vpc) (refs @ [r]) (0, 0) = prove_ref idx vpc r (proven, seen)" by (simp add: acc)
  have refs: "port_refs (refs @ [r]) n = port_refs refs n @ (if sgm_ID r = n then [r] else [])" for n by (simp add: port_refs_def)
  note IH = snoc.IH [unfolded acc fst_conv snd_conv]
  consider (out) "sgm_ID r \<le> 0 \<or> 63 \<le> sgm_ID r" | (here) n where "sgm_ID r = int n" "0 < n" "n < 63"
    by (metis leI nat_0_le of_nat_0_less_iff of_nat_less_iff of_nat_numeral order.strict_implies_order)
  then show ?case
  proof cases
    case out
    then have "prove_ref idx vpc r (proven, seen) = (proven, seen)" by (simp add: prove_ref_def MaxSecurityGroupsPerVPC_def)
    then show ?thesis using IH out unfolding step refs by (auto split: if_splits)
  next
    case here
    have "\<not> (sgm_ID r \<le> 0 \<or> MaxSecurityGroupsPerVPC \<le> sgm_ID r)" using here by (simp add: MaxSecurityGroupsPerVPC_def)
    then have run: "prove_ref idx vpc r (proven, seen) = (if bit seen n then (proven AND NOT (push_bit n 1), seen)
        else (if sgm_UID r \<noteq> [] \<and> index_get idx vpc (int n) = sgm_UID r then proven OR push_bit n 1 else proven, seen OR push_bit n 1))"
      using here by (simp add: prove_ref_def Let_def and_exp_eq_0_iff_not_bit)
    have bits: "bit (push_bit n 1 :: u64) i \<longleftrightarrow> i = n" "i = n \<Longrightarrow> i < 64" using here by (auto simp: bit_simps)
    show ?thesis
    proof (cases "i = n")
      case True
      then show ?thesis unfolding step refs run using IH here bits by (auto simp: bit_simps)
    next
      case False
      then show ?thesis unfolding step refs run using IH here bits by (auto simp: bit_simps)
    qed
  qed
qed (simp add: port_refs_def)

text \<open>The last loop, with the test for a proven group as a predicate.\<close>

definition group_union :: "(int \<Rightarrow> bool) \<Rightarrow> int list \<Rightarrow> u64" where
  "group_union P ids = foldl (\<lambda>bitmap n. if P n then bitmap OR push_bit (nat n) 1 else bitmap OR 1) 0 ids"

lemma bit_group_union: "bit (group_union P ids) i \<longleftrightarrow> (\<exists>n \<in> set ids. if P n then i = nat n \<and> i < 64 else i = 0)"
proof -
  have "bit (foldl (\<lambda>bitmap n. if P n then bitmap OR push_bit (nat n) 1 else bitmap OR 1) a ids) i \<longleftrightarrow>
      bit a i \<or> (\<exists>n \<in> set ids. if P n then i = nat n \<and> i < 64 else i = 0)" for a :: u64
    by (induction ids arbitrary: a) (auto simp: bit_simps)
  then show ?thesis by (simp add: group_union_def)
qed

lemma bit_group_union_Suc:
  assumes "\<And>n. P n \<Longrightarrow> n < 63"
  shows "bit (group_union P ids) (Suc j) \<longleftrightarrow> int (Suc j) \<in> set ids \<and> P (int (Suc j))"
proof
  assume "bit (group_union P ids) (Suc j)"
  then obtain n where "n \<in> set ids" "P n" "Suc j = nat n" unfolding bit_group_union by (auto split: if_splits)
  moreover from this have "int (Suc j) = n" by linarith
  ultimately show "int (Suc j) \<in> set ids \<and> P (int (Suc j))" by simp
next
  assume "int (Suc j) \<in> set ids \<and> P (int (Suc j))"
  then show "bit (group_union P ids) (Suc j)"
    unfolding bit_group_union using assms [of "int (Suc j)"] by (intro bexI [of _ "int (Suc j)"]) auto
qed

lemma group_union_nonzero:
  assumes "n \<in> set ids" "\<And>n. P n \<Longrightarrow> n < 63"
  shows "group_union P ids \<noteq> 0"
proof -
  have "bit (group_union P ids) (if P n then nat n else 0)"
    unfolding bit_group_union using assms(1) assms(2) [of n] by (intro bexI [of _ n]) auto
  then show ?thesis by (metis bit_0_eq bot_apply bot_bool_def)
qed

lemma Bitmap_unfold:
  fixes port idx
  defines "st \<equiv> port_Status port"
  defines "proven \<equiv> fst (fold (prove_ref idx (pts_VPCRef (port_Spec port))) (ptst_GroupRefs st) (0, 0))"
  shows "index_Bitmap idx port =
    (if ptst_GroupPodUID st \<noteq> label (port_meta port) LabelPodUID then 1 else if ptst_Groups st = [] then 0
     else if 63 < length (ptst_Groups st) \<or> 63 \<le> length (ptst_GroupRefs st) then 1
     else group_union (\<lambda>n. 0 < n \<and> n < 63 \<and> bit proven (nat n)) (ptst_Groups st))"
  by (simp add: index_Bitmap_def Let_def group_union_def st_def proven_def MaxSecurityGroupsPerVPC_def and_exp_eq_0_iff_not_bit)

section \<open>Properties\<close>

text \<open>
  (C18) The membership bitmap is exactly what the current objects prove. Bit \<open>i > 0\<close> is set iff the Port's status was
  computed for its own Pod, selects group \<open>i\<close>, holds one reference to it, and the UID of that reference is the UID of
  the only current group of the Port's VPC with wire identifier \<open>i\<close>; a reused or ambiguous identifier grants nothing.
  The bitmap is zero (no gating) only when the status belongs to this Pod and selects no group at all.
\<close>

theorem Bitmap_exact:
  "(bit (index_Bitmap (NewIndex k groups) port) (Suc j) \<longleftrightarrow> ptst_GroupPodUID (port_Status port) = label (port_meta port) LabelPodUID \<and> Suc j \<le> 62 \<and> int (Suc j) \<in> set (ptst_Groups (port_Status port)) \<and>
      length (ptst_Groups (port_Status port)) \<le> 63 \<and> length (ptst_GroupRefs (port_Status port)) < 63 \<and>
      (\<exists>r g. filter (\<lambda>r. sgm_ID r = int (Suc j)) (ptst_GroupRefs (port_Status port)) = [r] \<and>
         wire_groups k groups (pts_VPCRef (port_Spec port)) (int (Suc j)) = [g] \<and> om_UID (sgo_meta g) = sgm_UID r \<and> sgm_UID r \<noteq> [])) \<and>
    (index_Bitmap (NewIndex k groups) port = 0 \<longleftrightarrow> ptst_GroupPodUID (port_Status port) = label (port_meta port) LabelPodUID \<and> ptst_Groups (port_Status port) = [])"
proof -
  define st where "st = port_Status port"
  let ?idx = "NewIndex k groups" and ?vpc = "pts_VPCRef (port_Spec port)"
  let ?P = "\<lambda>n. 0 < n \<and> n < 63 \<and> bit (fst (fold (prove_ref ?idx ?vpc) (ptst_GroupRefs st) (0, 0))) (nat n)"
  let ?one = "\<exists>r g. filter (\<lambda>r. sgm_ID r = int (Suc j)) (ptst_GroupRefs st) = [r] \<and>
         wire_groups k groups ?vpc (int (Suc j)) = [g] \<and> om_UID (sgo_meta g) = sgm_UID r \<and> sgm_UID r \<noteq> []"
  note b = Bitmap_unfold [of ?idx port, folded st_def]
  have "bit (group_union ?P (ptst_Groups st)) (Suc j) \<longleftrightarrow> int (Suc j) \<in> set (ptst_Groups st) \<and> ?P (int (Suc j))"
    by (rule bit_group_union_Suc) simp
  also have "?P (int (Suc j)) \<longleftrightarrow> Suc j \<le> 62 \<and> ?one"
    unfolding nat_int prove_refs [THEN conjunct2] port_refs_def using index_get_proves by fastforce
  finally have bit: "bit (group_union ?P (ptst_Groups st)) (Suc j) \<longleftrightarrow> int (Suc j) \<in> set (ptst_Groups st) \<and> Suc j \<le> 62 \<and> ?one" .
  moreover have "group_union ?P (ptst_Groups st) \<noteq> 0" if "ptst_Groups st \<noteq> []"
    using that by (intro group_union_nonzero [where n = "hd (ptst_Groups st)"]) auto
  ultimately show ?thesis unfolding b st_def [symmetric] by (auto simp: bit_1_iff simp del: of_nat_Suc)
qed

end
