(* ===== verification/SgPolicy.thy ===== *)
theory SgPolicy
  imports SgMembership
begin

text \<open>
  Security groups from the API objects to the packet: the policy that the specs of the groups state, and the proof that
  a resynchronisation which reports no error leaves the packet program deciding by it.
\<close>

section \<open>The policy of the objects\<close>

text \<open>A port of a rule names TCP or UDP; port 0 is any port, and no list is every TCP and UDP port.\<close>

definition sg_ports_match :: "SecurityGroupPort list \<Rightarrow> u8 \<Rightarrow> u16 \<Rightarrow> bool" where
  "sg_ports_match ports proto port =
     (ports = [] \<and> (proto = 6 \<or> proto = 17) \<or>
      (\<exists>p \<in> set ports. (sgpt_Protocol p = ''TCP'' \<and> proto = 6 \<or> sgpt_Protocol p = ''UDP'' \<and> proto = 17) \<and>
        (sgpt_Port p = 0 \<or> sgpt_Port p = uint port)))"

definition sg_live :: "machinery \<Rightarrow> vpc_lister \<Rightarrow> u32 \<Rightarrow> SecurityGroup \<Rightarrow> bool" where
  "sg_live k vpcs net sg = (\<not> sg_skipped k sg \<and> lister_vni vpcs (om_Namespace (sgo_meta sg)) (lvr_Name (sgs_VPCRef (sgo_Spec sg))) = Some net)"

definition sg_number :: "SecurityGroup \<Rightarrow> nat" where
  "sg_number sg = nat (sgst_ID (sgo_Status sg))"

text \<open>The endpoint on network \<^term>\<open>other\<close> with membership \<^term>\<open>m\<close> belongs to the group that the peer names.\<close>

definition sg_peer_group :: "machinery \<Rightarrow> vpc_lister \<Rightarrow> SecurityGroup list \<Rightarrow> u32 \<Rightarrow> SecurityGroup \<Rightarrow> SecurityGroupPeer \<Rightarrow> u32 \<Rightarrow> u64 \<Rightarrow> bool" where
  "sg_peer_group k vpcs groups net sg peer other m =
     (sgp_Group peer \<noteq> [] \<and> securityGroupPeerReference k peer \<and>
      (case sgp_VPC peer of None \<Rightarrow> other = net | Some v \<Rightarrow> lister_vni vpcs (vr_Namespace v) (vr_Name v) = Some other) \<and>
      (\<exists>g \<in> set groups. \<not> sg_skipped k g \<and> om_Name (sgo_meta g) = sgp_Group peer \<and> bit m (sg_number g) \<and>
         vpc_key g = (case sgp_VPC peer of None \<Rightarrow> vpc_key sg | Some v \<Rightarrow> (vr_Namespace v, vr_Name v))))"

text \<open>The address is in the range of the peer.\<close>

definition sg_peer_range :: "SecurityGroupPeer \<Rightarrow> addr \<Rightarrow> bool" where
  "sg_peer_range peer a = (\<exists>x. parse_cidr (sgp_CIDR peer) = Some x \<and> cidr_covers (Some (snd x)) a)"

definition sg_ingress_api :: "machinery \<Rightarrow> vpc_lister \<Rightarrow> SecurityGroup list \<Rightarrow> u64 \<Rightarrow> sg_query \<Rightarrow> bool" where
  "sg_ingress_api k vpcs groups dstmap q =
     (dstmap = 0 \<or> (\<exists>sg \<in> set groups. sg_live k vpcs (lk_Net (sq_dst q)) sg \<and> bit dstmap (sg_number sg) \<and>
        (\<exists>r \<in> set (sgs_Ingress (sgo_Spec sg)). sg_ports_match (sgr_Ports r) (sq_proto q) (htons (sq_dport q)) \<and>
           (sg_peer_group k vpcs groups (lk_Net (sq_dst q)) sg (sgr_From r) (sq_src_net q) (sq_srcmap q) \<or>
            sgp_Group (sgr_From r) = [] \<and> isAnyCIDR (sgp_CIDR (sgr_From r)) \<and> sq_src_net q = lk_Net (sq_dst q) \<and>
              bit (sq_srcmap q) SGWorldGroup))))"

definition sg_egress_api :: "machinery \<Rightarrow> vpc_lister \<Rightarrow> SecurityGroup list \<Rightarrow> sg_egress_query \<Rightarrow> bool" where
  "sg_egress_api k vpcs groups q =
     (seq_srcmap q = 0 \<or> (\<exists>sg \<in> set groups. sg_live k vpcs (seq_src_net q) sg \<and> bit (seq_srcmap q) (sg_number sg) \<and>
        (\<exists>r \<in> set (sgs_Egress (sgo_Spec sg)). sgp_CIDR (sge_To r) = [] \<and>
           sg_ports_match (sge_Ports r) (seq_proto q) (htons (seq_dport q)) \<and>
           sg_peer_group k vpcs groups (seq_src_net q) sg (sge_To r) (seq_dst_net q) (seq_dstmap q))))"

definition ns_ingress_api :: "machinery \<Rightarrow> vpc_lister \<Rightarrow> SecurityGroup list \<Rightarrow> u64 \<Rightarrow> u32 \<Rightarrow> addr \<Rightarrow> u8 \<Rightarrow> u16 \<Rightarrow> bool" where
  "ns_ingress_api k vpcs groups dstmap net a proto port =
     (dstmap = 0 \<or> (\<exists>sg \<in> set groups. sg_live k vpcs net sg \<and> bit dstmap (sg_number sg) \<and>
        (\<exists>r \<in> set (sgs_Ingress (sgo_Spec sg)). sgp_Group (sgr_From r) = [] \<and> sg_ports_match (sgr_Ports r) proto port \<and>
           (isAnyCIDR (sgp_CIDR (sgr_From r)) \<or> sgp_CIDR (sgr_From r) \<noteq> [] \<and> sg_peer_range (sgr_From r) a))))"

definition ns_egress_api :: "machinery \<Rightarrow> vpc_lister \<Rightarrow> SecurityGroup list \<Rightarrow> u64 \<Rightarrow> u32 \<Rightarrow> addr \<Rightarrow> u8 \<Rightarrow> u16 option \<Rightarrow> bool" where
  "ns_egress_api k vpcs groups srcmap net a proto l4 =
     (srcmap = 0 \<or> l4 = None \<or> (\<exists>sg \<in> set groups. sg_live k vpcs net sg \<and> bit srcmap (sg_number sg) \<and>
        (\<exists>r \<in> set (sgs_Egress (sgo_Spec sg)). sgp_CIDR (sge_To r) \<noteq> [] \<and> sg_ports_match (sge_Ports r) proto (htons (the l4)) \<and>
           sg_peer_range (sge_To r) a)))"

section \<open>Compilation of ports, names and rules\<close>

lemma port_word_eq:
  fixes port :: u16
  assumes "0 \<le> n" "n \<le> 65535"
  shows "of_int n = port \<longleftrightarrow> n = uint port"
proof -
  have "uint (of_int n :: u16) = n" using assms by (simp add: unsigned_of_int take_bit_int_eq_self)
  then show ?thesis by auto
qed

lemma sg_port_rows_match:
  "sg_ports_match ports proto port \<longleftrightarrow> (proto, port) \<in> set (sg_port_rows ports) \<or> (proto, 0) \<in> set (sg_port_rows ports)"
proof (cases "ports = []")
  case False
  have "compileSGPort p = Some (proto, port) \<or> compileSGPort p = Some (proto, 0) \<longleftrightarrow>
      (sgpt_Protocol p = ''TCP'' \<and> proto = 6 \<or> sgpt_Protocol p = ''UDP'' \<and> proto = 17) \<and> (sgpt_Port p = 0 \<or> sgpt_Port p = uint port)" for p
  proof (cases "sgpt_Port p < 0 \<or> 65535 < sgpt_Port p")
    case True
    have "uint port \<in> {0..65535}" using uint_lt2p [of port] by simp
    then show ?thesis using True by (auto simp: compileSGPort_def)
  next
    case False
    then show ?thesis using port_word_eq [of "sgpt_Port p" port] port_word_eq [of "sgpt_Port p" 0] by (auto simp: compileSGPort_def)
  qed
  moreover have rows: "y \<in> set (sg_port_rows ports) \<longleftrightarrow> (\<exists>p \<in> set ports. compileSGPort p = Some y)" for y
    using False by (force simp: sg_port_rows_def map_filter_def)
  ultimately show ?thesis using False
    unfolding sg_ports_match_def rows bex_disj_distrib [symmetric] by (simp only: simp_thms)
qed (auto simp: sg_port_rows_def sg_ports_match_def)

lemma sg_skipped_number:
  assumes "\<not> sg_skipped k sg"
  shows "unat (Group (sgst_ID (sgo_Status sg))) = sg_number sg" "1 \<le> sg_number sg" "sg_number sg < 63"
proof -
  have v: "ValidGroup (sgst_ID (sgo_Status sg))" using assms by (auto simp: sg_skipped_def SGWorldGroup_def ValidGroup_def LastGroup_def)
  then show "unat (Group (sgst_ID (sgo_Status sg))) = sg_number sg"
    unfolding sg_number_def unat_eq_nat_uint by (simp add: uint_Group)
  show "1 \<le> sg_number sg" "sg_number sg < 63" using v by (auto simp: sg_number_def ValidGroup_def LastGroup_def)
qed

abbreviation distinct_names :: "SecurityGroup list \<Rightarrow> bool" where
  "distinct_names groups \<equiv> distinct (map (\<lambda>g. (om_Namespace (sgo_meta g), om_Name (sgo_meta g))) groups)"

lemma nameIDs_lookup:
  assumes "distinct_names groups"
  shows "nameIDs k groups (vk, name) = Some n \<longleftrightarrow>
    (\<exists>g \<in> set groups. \<not> sg_skipped k g \<and> vpc_key g = vk \<and> om_Name (sgo_meta g) = name \<and> n = Group (sgst_ID (sgo_Status g)))"
  using assms
proof (induction groups rule: rev_induct)
  case (snoc g groups)
  have step: "nameIDs k (groups @ [g]) = (if sg_skipped k g then nameIDs k groups
      else (nameIDs k groups)((vpc_key g, om_Name (sgo_meta g)) \<mapsto> Group (sgst_ID (sgo_Status g))))" by (simp add: nameIDs_def)
  have new: "\<not> (vpc_key h = vpc_key g \<and> om_Name (sgo_meta h) = om_Name (sgo_meta g))" if "h \<in> set groups" for h
    using snoc.prems that by (auto simp: vpc_key_def image_iff)
  have IH: "nameIDs k groups (vk, name) = Some n \<longleftrightarrow>
    (\<exists>g \<in> set groups. \<not> sg_skipped k g \<and> vpc_key g = vk \<and> om_Name (sgo_meta g) = name \<and> n = Group (sgst_ID (sgo_Status g)))"
    using snoc by simp
  show ?case
  proof (cases "\<not> sg_skipped k g \<and> vpc_key g = vk \<and> om_Name (sgo_meta g) = name")
    case True
    then show ?thesis using new unfolding step by auto
  next
    case False
    then have "nameIDs k (groups @ [g]) (vk, name) = nameIDs k groups (vk, name)" unfolding step by auto
    then show ?thesis using IH False by auto
  qed
qed (simp add: nameIDs_def)

lemma resolve_group_iff:
  assumes "distinct_names groups" "sgp_Group peer \<noteq> []"
  shows "(\<exists>n. resolve_group k vpcs (nameIDs k groups) net (vpc_key sg) peer = Some (other, n) \<and> bit m (unat n)) \<longleftrightarrow>
    sg_peer_group k vpcs groups net sg peer other m"
proof (cases "sgp_VPC peer")
  case None
  then show ?thesis using assms sg_skipped_number(1)
    by (auto simp: resolve_group_def sg_peer_group_def nameIDs_lookup)
next
  case (Some v)
  then show ?thesis using assms sg_skipped_number(1)
    by (auto simp: resolve_group_def sg_peer_group_def nameIDs_lookup split: option.splits)
qed

lemma resolve_group_bound:
  assumes "distinct_names groups" "resolve_group k vpcs (nameIDs k groups) net (vpc_key sg) peer = Some (other, n)"
  shows "unat n < 63"
proof -
  have "\<exists>vk name. nameIDs k groups (vk, name) = Some n"
    using assms(2) unfolding resolve_group_def by (cases "vpc_key sg") (auto split: if_splits option.splits)
  then obtain g where "\<not> sg_skipped k g" "n = Group (sgst_ID (sgo_Status g))" using nameIDs_lookup [OF assms(1)] by auto
  then show ?thesis using sg_skipped_number by simp
qed


section \<open>The compiled rows\<close>

definition sg_rows :: "machinery \<Rightarrow> vpc_lister \<Rightarrow> SecurityGroup list \<Rightarrow> (u32 \<Rightarrow> SecurityGroup \<Rightarrow> 'r list) \<Rightarrow> 'r set" where
  "sg_rows k vpcs groups f = {r. \<exists>sg \<in> set groups. \<exists>net. sg_live k vpcs net sg \<and> r \<in> set (f net sg)}"

lemma sg_rows_fold:
  assumes "\<And>sg c. set (F (sg_compile_object k vpcs ids sg c)) = set (F c) \<union> {r. \<exists>net. sg_live k vpcs net sg \<and> r \<in> set (f net sg)}"
  shows "set (F (fold (sg_compile_object k vpcs ids) gs c)) = set (F c) \<union> sg_rows k vpcs gs f"
  by (induction gs arbitrary: c) (auto simp: assms sg_rows_def)

text \<open>Each rule contributes the rows of its compiler.\<close>

abbreviation in_rows :: "machinery \<Rightarrow> vpc_lister \<Rightarrow> name_ids \<Rightarrow> (SGRule list \<times> SGCidr list \<Rightarrow> 'r list) \<Rightarrow> u32 \<Rightarrow> SecurityGroup \<Rightarrow> 'r list" where
  "in_rows k vpcs ids part net sg \<equiv> concat (map (part \<circ> sg_ingress_rule k vpcs ids net sg) (sgs_Ingress (sgo_Spec sg)))"

abbreviation eg_rows :: "machinery \<Rightarrow> vpc_lister \<Rightarrow> name_ids \<Rightarrow> (SGEgress list \<times> SGEgressCidr list \<Rightarrow> 'r list) \<Rightarrow> u32 \<Rightarrow> SecurityGroup \<Rightarrow> 'r list" where
  "eg_rows k vpcs ids part net sg \<equiv> concat (map (part \<circ> sg_egress_rule k vpcs ids net sg) (sgs_Egress (sgo_Spec sg)))"

lemma sg_compile_object_fields:
  fixes k vpcs ids c sg
  defines "c' \<equiv> sg_compile_object k vpcs ids sg c"
  shows "set (sgc_rules c') = set (sgc_rules c) \<union> {r. \<exists>net. sg_live k vpcs net sg \<and> r \<in> set (in_rows k vpcs ids fst net sg)}"
    and "set (sgc_cidrs c') = set (sgc_cidrs c) \<union> {r. \<exists>net. sg_live k vpcs net sg \<and> r \<in> set (in_rows k vpcs ids snd net sg)}"
    and "set (sgc_egress c') = set (sgc_egress c) \<union> {r. \<exists>net. sg_live k vpcs net sg \<and> r \<in> set (eg_rows k vpcs ids fst net sg)}"
    and "set (sgc_egressCidrs c') = set (sgc_egressCidrs c) \<union> {r. \<exists>net. sg_live k vpcs net sg \<and> r \<in> set (eg_rows k vpcs ids snd net sg)}"
  by (auto simp: c'_def sg_compile_object_def sg_live_def Let_def split: option.splits)

lemma sg_compile_rows:
  "set (sgc_rules (sg_compile k vpcs groups)) = sg_rows k vpcs groups (in_rows k vpcs (nameIDs k groups) fst)"
  "set (sgc_cidrs (sg_compile k vpcs groups)) = sg_rows k vpcs groups (in_rows k vpcs (nameIDs k groups) snd)"
  "set (sgc_egress (sg_compile k vpcs groups)) = sg_rows k vpcs groups (eg_rows k vpcs (nameIDs k groups) fst)"
  "set (sgc_egressCidrs (sg_compile k vpcs groups)) = sg_rows k vpcs groups (eg_rows k vpcs (nameIDs k groups) snd)"
  unfolding sg_compile_def by (subst sg_rows_fold [OF sg_compile_object_fields(1)] sg_rows_fold [OF sg_compile_object_fields(2)]
      sg_rows_fold [OF sg_compile_object_fields(3)] sg_rows_fold [OF sg_compile_object_fields(4)], simp)+


lemma bit_and_single: "2 ^ n AND (m :: u64) = 0 \<longleftrightarrow> \<not> bit m n"
  by (simp add: and.commute [of "2 ^ n"] and_exp_eq_0_iff_not_bit)

lemma bex_rows: "(\<exists>x \<in> set (map (\<lambda>(a, b). g a b) rows). Q x) \<longleftrightarrow> (\<exists>a b. (a, b) \<in> set rows \<and> Q (g a b))"
  by force

lemma rule_port_rows:
  assumes "\<not> sg_skipped k sg"
  shows "(\<exists>x \<in> set (compileRulePorts net srcNet (Group (sgst_ID (sgo_Status sg))) (2 ^ n) ports).
      sg_rule_applies x net' src proto port \<and> bit dstmap (unat (sr_Group x)) \<and> sr_Allowed x AND srcmap \<noteq> 0) \<longleftrightarrow>
    net = net' \<and> srcNet = src \<and> bit dstmap (sg_number sg) \<and> bit srcmap n \<and> sg_ports_match ports proto port"
  using sg_skipped_number [OF assms(1)] unfolding compileRulePorts_def bex_rows sg_port_rows_match
  by (auto simp: sg_rule_applies_def SGWorldGroup_def bit_and_single)

lemma egress_port_rows:
  assumes "\<not> sg_skipped k sg"
  shows "(\<exists>x \<in> set (compileEgressPorts net dstNet (Group (sgst_ID (sgo_Status sg))) (2 ^ n) ports).
      sg_egress_applies x net' dst proto port \<and> bit srcmap (unat (eg_Group x)) \<and> eg_Allowed x AND dstmap \<noteq> 0) \<longleftrightarrow>
    net = net' \<and> dstNet = dst \<and> bit srcmap (sg_number sg) \<and> bit dstmap n \<and> sg_ports_match ports proto port"
  using sg_skipped_number [OF assms(1)] unfolding compileEgressPorts_def bex_rows sg_port_rows_match
  by (auto simp: sg_egress_applies_def SGWorldGroup_def bit_and_single)

lemma cidr_port_rows:
  assumes "\<not> sg_skipped k sg"
  shows "sg_cidr_admits (compileCidrPorts net cidr (2 ^ unat (Group (sgst_ID (sgo_Status sg)))) ports) net' proto port a m \<longleftrightarrow>
    net = net' \<and> bit m (sg_number sg) \<and> sg_ports_match ports proto port \<and> cidr_covers (Some cidr) a"
  using sg_skipped_number [OF assms(1)] unfolding sg_cidr_admits_def compileCidrPorts_def bex_rows sg_port_rows_match
  by (auto simp: bit_and_single)

lemma compileEgressCidrPorts_eq: "compileEgressCidrPorts = compileCidrPorts"
  by (simp add: fun_eq_iff compileEgressCidrPorts_def compileCidrPorts_def)

lemma ingress_rule_hits:
  assumes "distinct_names groups" "\<not> sg_skipped k sg"
  shows "(\<exists>x \<in> set (fst (sg_ingress_rule k vpcs (nameIDs k groups) net sg r)).
      sg_rule_applies x net' src proto port \<and> bit dstmap (unat (sr_Group x)) \<and> sr_Allowed x AND srcmap \<noteq> 0) \<longleftrightarrow>
    net = net' \<and> bit dstmap (sg_number sg) \<and> sg_ports_match (sgr_Ports r) proto port \<and>
    (sg_peer_group k vpcs groups net sg (sgr_From r) src srcmap \<or>
     sgp_Group (sgr_From r) = [] \<and> isAnyCIDR (sgp_CIDR (sgr_From r)) \<and> src = net \<and> bit srcmap SGWorldGroup)"
proof (cases "sgp_Group (sgr_From r) = []")
  case True
  have "\<not> sg_peer_group k vpcs groups net sg (sgr_From r) src srcmap" using True by (simp add: sg_peer_group_def)
  then show ?thesis using True
    by (cases "isAnyCIDR (sgp_CIDR (sgr_From r))")
      (simp_all add: sg_ingress_rule_def Let_def rule_port_rows [OF assms(2)] split: option.splits prod.splits, blast)
next
  case False
  show ?thesis
  proof (cases "resolve_group k vpcs (nameIDs k groups) net (vpc_key sg) (sgr_From r)")
    case None
    then show ?thesis using False resolve_group_iff [OF assms(1) False, of k vpcs net sg src srcmap] by (simp add: sg_ingress_rule_def)
  next
    case (Some x)
    obtain srcNet n where x: "x = (srcNet, n)" by force
    show ?thesis using False Some x resolve_group_iff [OF assms(1) False, of k vpcs net sg src srcmap]
      by (simp add: sg_ingress_rule_def Let_def rule_port_rows [OF assms(2)]) blast
  qed
qed

lemma egress_rule_hits:
  assumes "distinct_names groups" "\<not> sg_skipped k sg"
  shows "(\<exists>x \<in> set (fst (sg_egress_rule k vpcs (nameIDs k groups) net sg r)).
      sg_egress_applies x net' dst proto port \<and> bit srcmap (unat (eg_Group x)) \<and> eg_Allowed x AND dstmap \<noteq> 0) \<longleftrightarrow>
    net = net' \<and> bit srcmap (sg_number sg) \<and> sgp_CIDR (sge_To r) = [] \<and> sg_ports_match (sge_Ports r) proto port \<and>
    sg_peer_group k vpcs groups net sg (sge_To r) dst dstmap"
proof (cases "sgp_CIDR (sge_To r) = [] \<and> sgp_Group (sge_To r) \<noteq> []")
  case True
  then have g: "sgp_Group (sge_To r) \<noteq> []" by simp
  show ?thesis
  proof (cases "resolve_group k vpcs (nameIDs k groups) net (vpc_key sg) (sge_To r)")
    case None
    then show ?thesis using True resolve_group_iff [OF assms(1) g, of k vpcs net sg dst dstmap] by (simp add: sg_egress_rule_def)
  next
    case (Some x)
    obtain dstNet n where x: "x = (dstNet, n)" by force
    show ?thesis using True Some x resolve_group_iff [OF assms(1) g, of k vpcs net sg dst dstmap]
      by (simp add: sg_egress_rule_def Let_def egress_port_rows [OF assms(2)]) blast
  qed
qed (auto simp: sg_egress_rule_def sg_peer_group_def Let_def split: option.splits)


lemma bex_sg_rows:
  assumes hit: "\<And>net sg r. \<not> sg_skipped k sg \<Longrightarrow> (\<exists>x \<in> set (f net sg r). Q x) \<longleftrightarrow> net = n \<and> B sg \<and> H net sg r"
  shows "(\<exists>x \<in> sg_rows k vpcs groups (\<lambda>net sg. concat (map (f net sg) (rs sg))). Q x) \<longleftrightarrow>
    (\<exists>sg \<in> set groups. sg_live k vpcs n sg \<and> B sg \<and> (\<exists>r \<in> set (rs sg). H n sg r))"
proof -
  have "(\<exists>x \<in> sg_rows k vpcs groups (\<lambda>net sg. concat (map (f net sg) (rs sg))). Q x) \<longleftrightarrow>
      (\<exists>sg \<in> set groups. \<exists>net. sg_live k vpcs net sg \<and> (\<exists>r \<in> set (rs sg). \<exists>x \<in> set (f net sg r). Q x))"
    by (auto simp: sg_rows_def)
  also have "\<dots> \<longleftrightarrow> (\<exists>sg \<in> set groups. \<exists>net. sg_live k vpcs net sg \<and> (\<exists>r \<in> set (rs sg). net = n \<and> B sg \<and> H net sg r))"
    by (intro bex_cong ex_cong1 conj_cong refl hit) (simp add: sg_live_def)
  finally show ?thesis by blast
qed

lemma sg_policy_api:
  assumes "distinct_names groups"
  shows "sg_policy dstmap (sgc_rules (sg_compile k vpcs groups)) q = sg_ingress_api k vpcs groups dstmap q"
  unfolding sg_policy_def sg_ingress_api_def sg_compile_rows comp_def
  by (intro arg_cong2 [where f = "(\<or>)"] refl bex_sg_rows ingress_rule_hits [OF assms])

lemma sg_egress_policy_api:
  assumes "distinct_names groups"
  shows "sg_egress_policy (sgc_egress (sg_compile k vpcs groups)) q = sg_egress_api k vpcs groups q"
  unfolding sg_egress_policy_def sg_egress_api_def sg_compile_rows comp_def
  by (intro arg_cong2 [where f = "(\<or>)"] refl bex_sg_rows egress_rule_hits [OF assms])


lemma ingress_cidr_hits:
  assumes "\<not> sg_skipped k sg"
  shows "(\<exists>e \<in> set (snd (sg_ingress_rule k vpcs ids net sg r)). sc_Net e = net' \<and> sc_Proto e = proto \<and> (sc_Port e = port \<or> sc_Port e = 0) \<and>
      cidr_covers (sc_CIDR e) a \<and> sc_AllowedGroups e AND m \<noteq> 0) \<longleftrightarrow>
    net = net' \<and> bit m (sg_number sg) \<and> sgp_Group (sgr_From r) = [] \<and> sg_ports_match (sgr_Ports r) proto port \<and>
    \<not> isAnyCIDR (sgp_CIDR (sgr_From r)) \<and> sgp_CIDR (sgr_From r) \<noteq> [] \<and> sg_peer_range (sgr_From r) a"
  using cidr_port_rows [OF assms, unfolded sg_cidr_admits_def]
  by (auto simp: sg_ingress_rule_def sg_peer_range_def Let_def simp del: bex_simps split: option.splits prod.splits)

lemma egress_cidr_hits:
  assumes "\<not> sg_skipped k sg"
  shows "(\<exists>e \<in> set (snd (sg_egress_rule k vpcs ids net sg r)). sc_Net e = net' \<and> sc_Proto e = proto \<and> (sc_Port e = port \<or> sc_Port e = 0) \<and>
      cidr_covers (sc_CIDR e) a \<and> sc_AllowedGroups e AND m \<noteq> 0) \<longleftrightarrow>
    net = net' \<and> bit m (sg_number sg) \<and> sgp_CIDR (sge_To r) \<noteq> [] \<and> sg_ports_match (sge_Ports r) proto port \<and> sg_peer_range (sge_To r) a"
  using cidr_port_rows [OF assms, unfolded sg_cidr_admits_def]
  by (simp add: sg_egress_rule_def sg_peer_range_def Let_def compileEgressCidrPorts_eq split: option.splits prod.splits)

lemma peer_group_world: "\<not> sg_peer_group k vpcs groups net sg peer other (2 ^ SGWorldGroup)"
proof -
  have "\<not> bit (2 ^ SGWorldGroup :: u64) (sg_number g)" if "\<not> sg_skipped k g" for g
    using sg_skipped_number(3) [OF that] by (auto simp: bit_exp_iff) (simp add: SGWorldGroup_def)
  then show ?thesis by (auto simp: sg_peer_group_def)
qed

lemma ns_sg_policy_api:
  assumes "distinct_names groups"
  shows "ns_sg_policy dstmap (sgc_rules (sg_compile k vpcs groups)) (sgc_cidrs (sg_compile k vpcs groups)) net ip a proto dport =
    ns_ingress_api k vpcs groups dstmap net a proto (htons dport)"
proof -
  let ?cidrs = "sgc_cidrs (sg_compile k vpcs groups)"
  have "sg_cidr_admits ?cidrs net proto (htons dport) a dstmap \<longleftrightarrow>
      (\<exists>sg \<in> set groups. sg_live k vpcs net sg \<and> bit dstmap (sg_number sg) \<and>
        (\<exists>r \<in> set (sgs_Ingress (sgo_Spec sg)). sgp_Group (sgr_From r) = [] \<and> sg_ports_match (sgr_Ports r) proto (htons dport) \<and>
          \<not> isAnyCIDR (sgp_CIDR (sgr_From r)) \<and> sgp_CIDR (sgr_From r) \<noteq> [] \<and> sg_peer_range (sgr_From r) a))"
    unfolding sg_cidr_admits_def sg_compile_rows comp_def by (intro bex_sg_rows ingress_cidr_hits)
  moreover have "bit (push_bit SGWorldGroup 1 :: u64) SGWorldGroup" by (simp add: SGWorldGroup_def bit_exp_iff)
  ultimately show ?thesis
    unfolding ns_sg_policy_def sg_policy_api [OF assms] sg_ingress_api_def ns_ingress_api_def by (simp add: peer_group_world) blast
qed

lemma ns_egress_policy_api:
  "ns_egress_policy srcmap (sgc_egressCidrs (sg_compile k vpcs groups)) net a proto l4 = ns_egress_api k vpcs groups srcmap net a proto l4"
proof -
  have "sg_cidr_admits (sgc_egressCidrs (sg_compile k vpcs groups)) net proto port a srcmap \<longleftrightarrow>
      (\<exists>sg \<in> set groups. sg_live k vpcs net sg \<and> bit srcmap (sg_number sg) \<and>
        (\<exists>r \<in> set (sgs_Egress (sgo_Spec sg)). sgp_CIDR (sge_To r) \<noteq> [] \<and> sg_ports_match (sge_Ports r) proto port \<and> sg_peer_range (sge_To r) a))" for port
    unfolding sg_cidr_admits_def sg_compile_rows comp_def by (intro bex_sg_rows egress_cidr_hits)
  then show ?thesis by (cases l4) (simp_all add: ns_egress_policy_def ns_egress_api_def)
qed


lemma sg_resync_applies:
  assumes "sg_resync ords m cm st cpus sha256 k vpcs groups ports w = (None, w')"
  shows "\<exists>w0. ApplySecurityGroups ords m (securityGroupMembers k sha256 ports groups) (sgc_rules (sg_compile k vpcs groups))
    (sgc_cidrs (sg_compile k vpcs groups)) (sgc_egress (sg_compile k vpcs groups)) (sgc_egressCidrs (sg_compile k vpcs groups)) w0 = (None, w')"
  using assms by (auto simp: sg_resync_def Let_def split: if_splits)

section \<open>A concrete pair of groups\<close>

definition any_names :: machinery where
  "any_names = \<lparr> IsDNS1123Subdomain = (\<lambda>_. True), IsDNS1123Label = (\<lambda>_. True), LabelSelectorAsSelector = (\<lambda>_. Some (\<lambda>_. True)) \<rparr>"

definition sg_example :: "string \<Rightarrow> int \<Rightarrow> SecurityGroupEgressRule list \<Rightarrow> SecurityGroup" where
  "sg_example name n eg = \<lparr>
     sgo_meta = \<lparr> om_Name = name, om_Namespace = ''shop'', om_UID = name, om_Labels = Map.empty, om_Annotations = Map.empty,
       om_Finalizers = [], om_Generation = 1, om_Deleting = False, om_Created = 0 \<rparr>,
     sgo_Spec = \<lparr> sgs_VPCRef = \<lparr> lvr_Name = ''prod'' \<rparr>, sgs_PodSelector = \<lparr> ls_MatchLabels = [], ls_MatchExpressions = [] \<rparr>,
       sgs_Ingress = [], sgs_Egress = eg \<rparr>,
     sgo_Status = \<lparr> sgst_ID = n, sgst_Phase = ''Ready'', sgst_Conditions = [] \<rparr> \<rparr>"

definition sg_pair :: "SecurityGroup list" where
  "sg_pair = [sg_example ''web'' 1 [\<lparr> sge_To = \<lparr> sgp_Group = ''db'', sgp_VPC = None, sgp_CIDR = [] \<rparr>,
     sge_Ports = [\<lparr> sgpt_Protocol = ''TCP'', sgpt_Port = 80 \<rparr>] \<rparr>], sg_example ''db'' 2 []]"

definition one_vpc :: vpc_lister where
  "one_vpc ns name = Some \<lparr>
     vpc_meta = \<lparr> om_Name = name, om_Namespace = ns, om_UID = name, om_Labels = Map.empty, om_Annotations = Map.empty,
       om_Finalizers = [], om_Generation = 1, om_Deleting = False, om_Created = 0 \<rparr>,
     vpc_Spec = \<lparr> vs_CIDRs = [], vs_MTU = 0, vs_Boundary = None \<rparr>,
     vpc_Status = \<lparr> vst_VNI = 100, vst_Phase = [], vst_Conditions = [], vst_BoundaryNodes = [] \<rparr> \<rparr>"

definition no_counters :: "sg_world counter_objs" where
  "no_counters = \<lparr> VpcCounters = alist_counter 0 (\<lambda>_. []) (\<lambda>_ w. w), SgDrops = alist_counter 0 (\<lambda>_. []) (\<lambda>_ w. w) \<rparr>"

abbreviation sg_demo_resync :: "sg_world \<Rightarrow> dp_error option \<times> sg_world" where
  "sg_demo_resync \<equiv> sg_resync plain_order (sg_maps sg_tick) no_counters \<lparr> cs_counterScopes = Some {}, cs_counterDirty = False \<rparr> (Inr 1)
     (\<lambda>_. replicate 32 0) any_names one_vpc sg_pair []"

lemmas sg_pair_defs = sg_pair_def sg_example_def one_vpc_def any_names_def

lemma sg_pair_live [simp]: "sg \<in> set sg_pair \<Longrightarrow> \<not> sg_skipped any_names sg"
  "lister_vni one_vpc ns name = Some 100"
  by (auto simp: sg_pair_defs sg_skipped_def SGWorldGroup_def NamespaceName_def ObjectName_def lister_vni_def ValidVNI_def
      FirstVNI_def LastVNI_def VNI_def)

lemma sg_pair_compiled:
  "sg_compile any_names one_vpc sg_pair = \<lparr> sgc_rules = [], sgc_cidrs = [],
     sgc_egress = [\<lparr> eg_SrcNet = 100, eg_DstNet = 100, eg_Group = 1, eg_Proto = 6, eg_Port = 80, eg_Allowed = 4 \<rparr>],
     sgc_egressCidrs = [], sgc_nets = [100] \<rparr>"
proof -
  have [simp]: "\<not> sg_skipped any_names (sg_example n 1 e)" "\<not> sg_skipped any_names (sg_example n 2 e)" for n e
    by (simp_all add: sg_pair_defs sg_skipped_def SGWorldGroup_def NamespaceName_def ObjectName_def)
  define ids where "ids = nameIDs any_names sg_pair"
  have ids: "ids ((''shop'', ''prod''), ''db'') = Some 2"
    by (simp add: ids_def nameIDs_def sg_pair_def) (simp add: vpc_key_def sg_example_def Group_def LastGroup_def)
  have spec [simp]: "sgs_Ingress (sgo_Spec (sg_example n i e)) = []" "sgs_Egress (sgo_Spec (sg_example n i e)) = e" for n i e
    by (simp_all add: sg_example_def)
  have "sg_egress_rule any_names one_vpc ids 100 (sg_example n 1 e) \<lparr> sge_To = \<lparr> sgp_Group = ''db'', sgp_VPC = None, sgp_CIDR = [] \<rparr>,
     sge_Ports = [\<lparr> sgpt_Protocol = ''TCP'', sgpt_Port = 80 \<rparr>] \<rparr> =
     ([\<lparr> eg_SrcNet = 100, eg_DstNet = 100, eg_Group = 1, eg_Proto = 6, eg_Port = 80, eg_Allowed = 4 \<rparr>], [])" for n e
    using ids by (simp add: sg_egress_rule_def resolve_group_def securityGroupPeerReference_def GroupReference_def ObjectName_def
        any_names_def vpc_key_def sg_example_def compileEgressPorts_def sg_port_rows_def map_filter_def compileSGPort_def Group_def LastGroup_def)
  then show ?thesis unfolding sg_compile_def ids_def [symmetric] by (simp add: sg_pair_def sg_compile_object_def)
qed

lemma sg_demo_resync_runs: "\<exists>w'. sg_demo_resync (sg_demo_world []) = (None, w')"
proof -
  have "validateSGCompilation sg_pair []"
    by (simp add: validateSGCompilation_def policyRowLimit_def policyWorkLimit_def sg_pair_def sg_example_def sg_count_def)
  then show ?thesis
    by (simp add: sg_resync_def sg_pair_compiled securityGroupMembers_def map_filter_def EnsureSGDrop_def seed_row_def
      ApplySecurityGroups_def do_seq.simps put_def SyncSGMembers_def SyncSGRules_def SyncSGCidr_def SyncSGEgress_def
      SyncSGEgressCidr_def sync_desired_def sg_demo_world_def sg_cidr_desired_def sg_cidr_items_def unionContaining_def
      putDesired_def sg_maps_def alist_ops_def sg_tick_def sg_touch_def syncMap_def stale_keys_def
      unchanged_keys_def go_range_def plain_order_def)
qed

lemma sg_pair_api:
  "sg_egress_api any_names one_vpc sg_pair \<lparr> seq_src_net = 100, seq_dst_net = 100, seq_srcmap = 2, seq_dstmap = 4,
     seq_dport = htons port, seq_proto = 6 \<rparr> \<longleftrightarrow> port = 80"
proof -
  define web db where sg: "web = sg_pair ! 0" "db = sg_pair ! 1"
  have pair: "set sg_pair = {web, db}" by (simp add: sg sg_pair_def)
  have eg: "sgs_Egress (sgo_Spec db) = []" "sgs_Egress (sgo_Spec web) = [\<lparr> sge_To = \<lparr> sgp_Group = ''db'', sgp_VPC = None, sgp_CIDR = [] \<rparr>,
     sge_Ports = [\<lparr> sgpt_Protocol = ''TCP'', sgpt_Port = 80 \<rparr>] \<rparr>]" by (simp_all add: sg sg_pair_def sg_example_def)
  have number: "sg_number web = 1" "sg_number db = 2" by (simp_all add: sg sg_pair_def sg_example_def sg_number_def)
  have "sg_peer_group any_names one_vpc sg_pair 100 web \<lparr> sgp_Group = ''db'', sgp_VPC = None, sgp_CIDR = [] \<rparr> 100 4"
    unfolding sg_peer_group_def pair
    by (simp add: pair number bit_numeral_rec) (simp add: securityGroupPeerReference_def GroupReference_def ObjectName_def any_names_def vpc_key_def sg sg_pair_def sg_example_def)
  moreover have "sg_live any_names one_vpc 100 web" using pair by (simp add: sg_live_def)
  moreover have "80 = uint port \<longleftrightarrow> port = 80" using port_word_eq [of 80 port] by auto
  ultimately show ?thesis unfolding sg_egress_api_def pair by (simp add: eg number sg_ports_match_def bit_numeral_rec)
qed

section \<open>Properties\<close>

text \<open>
  (C2) From the API objects to the packet: when a resynchronisation of the security groups reports no error, the packet
  program holds exactly the membership the Ports prove and takes its four decisions as the specs of the groups say.
  East-west, a packet to a gated endpoint passes iff a live group of the endpoint has a rule for the port whose peer
  names a group of the sender; north-south, iff a rule's range covers the client. Objects are named uniquely in a
  namespace, and the listers and the digest are arbitrary.
\<close>

theorem sg_policy_enforced:
  assumes "sg_kernel m vp vm vr vc ve vec" and "\<forall>i. valid_order (ords i)"
    and "distinct (map (\<lambda>g. (om_Namespace (sgo_meta g), om_Name (sgo_meta g))) groups)"
    and "sg_resync ords m cm st cpus sha256 k vpcs groups ports w = (None, w')"
    and "sg_reads s (vp w') (vm w') (vr w') (vc w') (ve w') (vec w')"
    and "packet_addr a (if v6 then 6 else 4) x"
  shows "s_members s = sg_member_of (securityGroupMembers k sha256 ports groups) \<and>
    sg_admit s q = sg_ingress_api k vpcs groups (sg_membership s (sq_dst q)) q \<and>
    sg_egress_admit s eq = sg_egress_api k vpcs groups eq \<and>
    ns_sg_admit s net ip x (cidr_proto proto v6) dport =
      ns_ingress_api k vpcs groups (sg_membership s \<lparr>lk_Net = net, lk_Ip = ip\<rparr>) net a proto (htons dport) \<and>
    ns_egress_ok s skb net v6 proto ip x = ns_egress_api k vpcs groups (sg_membership s \<lparr>lk_Net = net, lk_Ip = ip\<rparr>) net a proto
      (sg_l4 skb proto (if v6 then 14 + 40 else 14 + 20))"
proof -
  let ?c = "sg_compile k vpcs groups"
  obtain w0 where run: "ApplySecurityGroups ords m (securityGroupMembers k sha256 ports groups) (sgc_rules ?c) (sgc_cidrs ?c)
      (sgc_egress ?c) (sgc_egressCidrs ?c) w0 = (None, w')" using sg_resync_applies [OF assms(4)] by blast
  have t: "sg_tables (securityGroupMembers k sha256 ports groups) (sgc_rules ?c) (sgc_cidrs ?c) (sgc_egress ?c) (sgc_egressCidrs ?c)
      (vm w') (vr w') (vc w') (ve w') (vec w')" "vp w' cfgSGUpdating = Some 0"
    using triple_ok [OF sg_kernel.apply_triple [OF assms(1)] refl run] assms(2) by blast+
  have "s_members s = sg_member_of (securityGroupMembers k sha256 ports groups)" using t(1) assms(5) by (simp add: sg_tables_def sg_reads_def)
  then show ?thesis
    using sg_decisions [OF assms(5) t(2,1)] assms(6)
    by (simp add: sg_policy_api [OF assms(3)] sg_egress_policy_api [OF assms(3)] ns_sg_policy_api [OF assms(3)] ns_egress_policy_api)
qed


theorem sg_policy_enforced_witness:
  "\<exists>w'. sg_demo_resync (sg_demo_world []) = (None, w') \<and>
    sg_egress_admit (sg_demo_env w') \<lparr> seq_src_net = 100, seq_dst_net = 100, seq_srcmap = 2, seq_dstmap = 4, seq_dport = htons 80, seq_proto = 6 \<rparr> \<and>
    \<not> sg_egress_admit (sg_demo_env w') \<lparr> seq_src_net = 100, seq_dst_net = 100, seq_srcmap = 2, seq_dstmap = 4, seq_dport = htons 81, seq_proto = 6 \<rparr>"
proof -
  obtain w' where w': "sg_demo_resync (sg_demo_world []) = (None, w')" using sg_demo_resync_runs by blast
  have "distinct_names sg_pair" by (simp add: sg_pair_def sg_example_def)
  note enforced = sg_policy_enforced [OF sg_ref.sg_kernel_axioms _ this w' sg_demo_reads sg_demo_packet, THEN conjunct2, THEN conjunct2, THEN conjunct1]
  have "sg_egress_admit (sg_demo_env w') q = sg_egress_api any_names one_vpc sg_pair q" for q by (rule enforced) simp
  moreover have "sg_egress_api any_names one_vpc sg_pair \<lparr> seq_src_net = 100, seq_dst_net = 100, seq_srcmap = 2, seq_dstmap = 4,
      seq_dport = htons port, seq_proto = 6 \<rparr> \<longleftrightarrow> port = 80" for port
    using sg_pair_api [of port] by simp
  ultimately show ?thesis using w' by auto
qed

end
