(* ===== verification/SgLimits.thy ===== *)
theory SgLimits
  imports SgPolicy
begin

text \<open>
  Bounds and well-formedness of the security-group compilation: a snapshot that passes the preflight compiles to tables
  that fit their maps, and every object the API server stores compiles without a rule being dropped.
\<close>

section \<open>Counting\<close>

definition rule_weight :: "'a list \<Rightarrow> nat" where
  "rule_weight ports = max (length ports) 2"

definition ingress_weight :: "SecurityGroup \<Rightarrow> nat" where
  "ingress_weight sg = sum_list (map (rule_weight \<circ> sgr_Ports) (sgs_Ingress (sgo_Spec sg)))"

definition egress_weight :: "SecurityGroup \<Rightarrow> nat" where
  "egress_weight sg = sum_list (map (rule_weight \<circ> sge_Ports) (sgs_Egress (sgo_Spec sg)))"

lemma foldl_of_nat: "foldl (+) a (map of_nat ns) = a + (of_nat (sum_list ns) :: u64)"
  by (induction ns arbitrary: a) (simp_all add: add.assoc)

lemma sg_count_sums:
  "sg_count sg (i, e, w) = (i + of_nat (ingress_weight sg), e + of_nat (egress_weight sg), w + 1 + of_nat (ingress_weight sg) + of_nat (egress_weight sg))"
  using foldl_of_nat [of _ "map (rule_weight \<circ> sgr_Ports) (sgs_Ingress (sgo_Spec sg))"]
    foldl_of_nat [of _ "map (rule_weight \<circ> sge_Ports) (sgs_Egress (sgo_Spec sg))"]
  by (simp add: sg_count_def ingress_weight_def egress_weight_def rule_weight_def comp_def Let_def)

text \<open>No counter wraps: it is within its limit before each group, and a group in memory has fewer than \<open>2 ^ 63\<close> rows.\<close>

lemma unat_add_small:
  fixes a :: u64
  assumes "unat a \<le> 65536" "n < 2 ^ 63"
  shows "unat (a + of_nat n) = unat a + n"
proof -
  have "unat (of_nat n :: u64) = n" using assms(2) by (simp add: unsigned_of_nat take_bit_nat_eq_self_iff)
  moreover from this have "unat a + unat (of_nat n :: u64) < 2 ^ LENGTH(64)" using assms by simp
  ultimately show ?thesis using unat_add_lem [of a "of_nat n"] by simp
qed

lemma sg_preflight_sums:
  assumes "sg_preflight groups (i, e, w)" "unat i \<le> policyRowLimit" "unat e \<le> policyRowLimit"
    "\<forall>g \<in> set groups. ingress_weight g < 2 ^ 63 \<and> egress_weight g < 2 ^ 63"
  shows "unat i + sum_list (map ingress_weight groups) \<le> policyRowLimit" "unat e + sum_list (map egress_weight groups) \<le> policyRowLimit"
proof -
  have "unat i + sum_list (map ingress_weight groups) \<le> policyRowLimit \<and> unat e + sum_list (map egress_weight groups) \<le> policyRowLimit"
    using assms
  proof (induction groups arbitrary: i e w)
    case (Cons sg groups)
    let ?i = "i + of_nat (ingress_weight sg)" and ?e = "e + of_nat (egress_weight sg)"
    have lim: "unat (of_nat policyRowLimit :: u64) = policyRowLimit" by (simp add: policyRowLimit_def)
    have step: "?i \<le> of_nat policyRowLimit" "?e \<le> of_nat policyRowLimit" "sg_preflight groups (?i, ?e, snd (snd (sg_count sg (i, e, w))))"
      using Cons.prems(1) by (auto simp: sg_count_sums split: if_splits)
    have u: "unat ?i = unat i + ingress_weight sg" "unat ?e = unat e + egress_weight sg"
      using Cons.prems by (auto intro!: unat_add_small simp: policyRowLimit_def)
    have "unat ?i \<le> policyRowLimit" "unat ?e \<le> policyRowLimit" using step(1,2) lim unfolding word_le_nat_alt by simp_all
    then show ?case using Cons.IH [OF step(3)] Cons.prems(4) u by simp
  qed simp
  then show "unat i + sum_list (map ingress_weight groups) \<le> policyRowLimit" "unat e + sum_list (map egress_weight groups) \<le> policyRowLimit" by simp_all
qed

lemma length_port_rows: "length (sg_port_rows ports) \<le> rule_weight ports"
  using length_filter_le by (simp add: sg_port_rows_def rule_weight_def map_filter_def le_max_iff_disj)

lemma rule_rows_bound:
  "length (fst (sg_ingress_rule k vpcs ids net sg r)) + length (snd (sg_ingress_rule k vpcs ids net sg r)) \<le> rule_weight (sgr_Ports r)"
  "length (fst (sg_egress_rule k vpcs ids net sg e)) + length (snd (sg_egress_rule k vpcs ids net sg e)) \<le> rule_weight (sge_Ports e)"
  by (auto simp: sg_ingress_rule_def sg_egress_rule_def compileRulePorts_def compileCidrPorts_def compileEgressPorts_def
      compileEgressCidrPorts_def Let_def length_port_rows split: option.splits prod.splits)

lemma sum_rows_bound:
  assumes "\<And>x. length (fst (f x)) + length (snd (f x)) \<le> g x"
  shows "length (concat (map fst (map f xs))) + length (concat (map snd (map f xs))) \<le> sum_list (map g xs)"
proof (induction xs)
  case (Cons x xs)
  then show ?case using assms [of x] by simp
qed simp

lemma sg_compile_object_bound:
  fixes k vpcs ids sg c
  defines "c' \<equiv> sg_compile_object k vpcs ids sg c"
  shows "length (sgc_rules c') + length (sgc_cidrs c') \<le> length (sgc_rules c) + length (sgc_cidrs c) + ingress_weight sg"
    and "length (sgc_egress c') + length (sgc_egressCidrs c') \<le> length (sgc_egress c) + length (sgc_egressCidrs c) + egress_weight sg"
  using sum_rows_bound [where xs = "sgs_Ingress (sgo_Spec sg)", OF rule_rows_bound(1) [of k vpcs ids _ sg]]
    sum_rows_bound [where xs = "sgs_Egress (sgo_Spec sg)", OF rule_rows_bound(2) [of k vpcs ids _ sg]]
  by (auto simp: c'_def sg_compile_object_def ingress_weight_def egress_weight_def comp_def Let_def ac_simps split: option.splits)

lemma sg_compile_bound:
  "length (sgc_rules (sg_compile k vpcs groups)) + length (sgc_cidrs (sg_compile k vpcs groups)) \<le> sum_list (map ingress_weight groups)"
  "length (sgc_egress (sg_compile k vpcs groups)) + length (sgc_egressCidrs (sg_compile k vpcs groups)) \<le> sum_list (map egress_weight groups)"
proof -
  have "length (sgc_rules (fold (sg_compile_object k vpcs ids) gs c)) + length (sgc_cidrs (fold (sg_compile_object k vpcs ids) gs c)) \<le>
        length (sgc_rules c) + length (sgc_cidrs c) + sum_list (map ingress_weight gs) \<and>
      length (sgc_egress (fold (sg_compile_object k vpcs ids) gs c)) + length (sgc_egressCidrs (fold (sg_compile_object k vpcs ids) gs c)) \<le>
        length (sgc_egress c) + length (sgc_egressCidrs c) + sum_list (map egress_weight gs)" for ids gs c
  proof (induction gs arbitrary: c)
    case (Cons sg gs)
    show ?case using Cons.IH [of "sg_compile_object k vpcs ids sg c"] sg_compile_object_bound [of k vpcs ids sg c] by simp
  qed simp
  from this [of "nameIDs k groups" groups "\<lparr> sgc_rules = [], sgc_cidrs = [], sgc_egress = [], sgc_egressCidrs = [], sgc_nets = [] \<rparr>"] show
    "length (sgc_rules (sg_compile k vpcs groups)) + length (sgc_cidrs (sg_compile k vpcs groups)) \<le> sum_list (map ingress_weight groups)"
    "length (sgc_egress (sg_compile k vpcs groups)) + length (sgc_egressCidrs (sg_compile k vpcs groups)) \<le> sum_list (map egress_weight groups)"
    unfolding sg_compile_def by simp_all
qed

section \<open>Properties\<close>

text \<open>
  The preflight bounds the expansion: when it accepts the objects of a snapshot, the compiled ingress rows, the
  compiled egress rows and the members are each at most 65536, the capacity of the rule, egress and member maps, and its
  64-bit counters did not wrap (a slice in memory is shorter than \<open>2 ^ 63\<close>).
\<close>

lemma sg_compile_bounded:
  assumes "validateSGCompilation groups ports" and "\<forall>g \<in> set groups. ingress_weight g < 2 ^ 63 \<and> egress_weight g < 2 ^ 63"
  shows "length (sgc_rules (sg_compile k vpcs groups)) + length (sgc_cidrs (sg_compile k vpcs groups)) \<le> policyRowLimit \<and>
    length (sgc_egress (sg_compile k vpcs groups)) + length (sgc_egressCidrs (sg_compile k vpcs groups)) \<le> policyRowLimit \<and>
    length (securityGroupMembers k sha256 ports groups) \<le> policyRowLimit"
proof -
  have "sg_preflight groups (0, 0, 0)" "length ports \<le> policyRowLimit" using assms(1) by (auto simp: validateSGCompilation_def split: if_splits)
  note sums = sg_preflight_sums [OF this(1) _ _ assms(2)] and ports = this(2)
  have "length (securityGroupMembers k sha256 ports groups) \<le> length ports"
    by (simp add: securityGroupMembers_def map_filter_def)
  then show ?thesis using sums sg_compile_bound [of k vpcs groups] ports by simp
qed




section \<open>Port zero\<close>

text \<open>
  An explicit port 0 is admitted and compiles to the row for every port. The stricter check that the package also
  declares refuses it.
\<close>

lemma sg_zero_port_is_any:
  "validateRulePorts [\<lparr> sgpt_Protocol = ''TCP'', sgpt_Port = 0 \<rparr>] p = [] \<and> sg_validatePorts [\<lparr> sgpt_Protocol = ''TCP'', sgpt_Port = 0 \<rparr>] p \<noteq> [] \<and>
   sg_ports_match [\<lparr> sgpt_Protocol = ''TCP'', sgpt_Port = 0 \<rparr>] 6 port"
  by (simp add: validateRulePorts_Nil sg_port_ok_def sg_validatePorts_def sg_ports_match_def)

end
