(* ===== verification/HfBootstrap.thy ===== *)
theory HfBootstrap
  imports HfApply
begin

text \<open>
  Host isolation across restarts and upgrades (\<^verbatim>\<open>datapath/hostfirewall_bootstrap.go\<close>): the durable modes are
  seeded once and completely, and arming at start never takes isolation away.
\<close>

section \<open>Seeding\<close>

definition seed_value :: "('w \<Rightarrow> u32 \<rightharpoonup> u32) \<Rightarrow> ('w, u32, u32) map_ops option \<Rightarrow> bool \<Rightarrow> 'w \<Rightarrow> u32 \<Rightarrow> u32" where
  "seed_value vl legacy ambiguous w d = (case legacy of
       Some _ \<Rightarrow> (case vl w (cfgHFEnabled + d) of Some v \<Rightarrow> v | None \<Rightarrow> 0)
     | None \<Rightarrow> if ambiguous then 2 else 0)"

definition legacy_ok :: "('w, u32, u32) map_ops \<Rightarrow> ('w \<Rightarrow> u32 \<rightharpoonup> u32) \<Rightarrow> ('w, u32, u32) map_ops option \<Rightarrow> ('w \<Rightarrow> u32 \<rightharpoonup> u32) \<Rightarrow> bool" where
  "legacy_ok modes vm legacy vl = (\<forall>l. legacy = Some l \<longrightarrow> ebpf_map l vl \<and> map_frame l vm \<and> map_frame modes vl)"

lemma seed_mode_cases:
  assumes "ebpf_map modes vm" "legacy_ok modes vm legacy vl" "seed_mode modes d x w = (e, w')"
  shows "(legacy \<noteq> None \<longrightarrow> vl w' = vl w) \<and> (if e = None then x \<le> 2 \<and> vm w' = (vm w)(d \<mapsto> x) else vm w' = vm w)"
proof (cases "x > 2")
  case False
  then obtain e0 where p: "mo_put modes d x w = (e0, w')" "e = map_option Kernel e0"
    using assms(3) by (auto simp: seed_mode_def put_def split: prod.splits)
  have "vl w' = vl w" if "legacy \<noteq> None"
    using that assms(2) p(1) by (auto simp: legacy_ok_def map_frame_def) (metis snd_conv)
  then show ?thesis using ebpf_map.put_view [OF assms(1) p(1)] p(2) False by (auto simp: not_less)
qed (use assms(3) in \<open>auto simp: seed_mode_def\<close>)

lemma seed_direction_cases:
  assumes "ebpf_map modes vm" "legacy_ok modes vm legacy vl" "seed_direction modes legacy ambiguous d w = (e, w')"
  shows "(legacy \<noteq> None \<longrightarrow> vl w' = vl w) \<and> (if e = None then seed_value vl legacy ambiguous w d \<le> 2 \<and>
    vm w' = (vm w)(d \<mapsto> seed_value vl legacy ambiguous w d) else vm w' = vm w)"
proof (cases legacy)
  case None
  then show ?thesis using assms(3) seed_mode_cases [OF assms(1,2)] by (simp add: seed_direction_def seed_value_def)
next
  case (Some l)
  obtain r w1 where l: "mo_lookup l (cfgHFEnabled + d) w = (r, w1)" by (cases "mo_lookup l (cfgHFEnabled + d) w")
  have m: "ebpf_map l vl" "map_frame l vm" using assms(2) Some by (auto simp: legacy_ok_def)
  have w1: "vm w1 = vm w" "vl w1 = vl w"
    using m(2) l ebpf_map.lookup_view [OF m(1) l] by (auto simp: map_frame_def) (metis snd_conv)
  show ?thesis
  proof (cases r)
    case (Inr v)
    then show ?thesis using seed_mode_cases [OF assms(1,2), of d v w1 e w'] assms(3) l Some w1 ebpf_map.lookup_hit [OF m(1) l [unfolded Inr]]
      by (simp add: seed_direction_def seed_value_def)
  next
    case (Inl err)
    then show ?thesis
      using seed_mode_cases [OF assms(1,2), of d 0 w1 e w'] assms(3) l Some w1 ebpf_map.lookup_noent [OF m(1), of "cfgHFEnabled + d" w w1]
      by (auto simp: seed_direction_def seed_value_def split: if_splits)
  qed
qed

text \<open>
  (C31) The durable modes are seeded once and completely. Without an error, either they were seeded before
  and nothing changed, or both modes are now the legacy ones (2 where rules exist without parameters) and
  only then marked as seeded; with an error the mark is what it was.
\<close>

theorem seedHFModeMap_durable:
  fixes w :: 'w and ambiguous :: bool
  assumes "ebpf_map modes vm" and "legacy_ok modes vm legacy vl"
  defines "mode \<equiv> seed_value vl legacy ambiguous w"
  shows "case seedHFModeMap modes legacy ambiguous w of
      (None, w') \<Rightarrow> vm w 2 = Some 1 \<and> vm w' = vm w \<or>
        vm w 2 = Some 0 \<and> mode 0 \<le> 2 \<and> mode 1 \<le> 2 \<and> vm w' = (vm w)(0 \<mapsto> mode 0, 1 \<mapsto> mode 1, 2 \<mapsto> 1)
    | (Some e, w') \<Rightarrow> vm w' 2 = vm w 2"
proof -
  obtain r w1 where l: "mo_lookup modes hfModeInitialized w = (r, w1)" by (cases "mo_lookup modes hfModeInitialized w")
  have w1: "vm w1 = vm w" by (rule ebpf_map.lookup_view [OF assms(1) l])
  have keep: "seed_value vl legacy ambiguous w1 = seed_value vl legacy ambiguous w"
    using assms(2) l by (cases legacy) (auto simp: legacy_ok_def map_frame_def seed_value_def fun_eq_iff, metis snd_conv)
  obtain e2 w2 where s0: "seed_direction modes legacy ambiguous 0 w1 = (e2, w2)" by (cases "seed_direction modes legacy ambiguous 0 w1")
  obtain e3 w3 where s1: "seed_direction modes legacy ambiguous 1 w2 = (e3, w3)" by (cases "seed_direction modes legacy ambiguous 1 w2")
  obtain e4 w4 where s2: "mo_put modes 2 1 w3 = (e4, w4)" by (cases "mo_put modes 2 1 w3")
  note c = seed_direction_cases [OF assms(1,2) s0] seed_direction_cases [OF assms(1,2) s1] ebpf_map.put_view [OF assms(1) s2]
  have "seed_value vl legacy ambiguous w2 = seed_value vl legacy ambiguous w1"
    using c(1) by (cases legacy) (auto simp: seed_value_def fun_eq_iff)
  then have seeded: "case do_seq [seed_direction modes legacy ambiguous 0, seed_direction modes legacy ambiguous 1,
      put modes 2 1] w1 of
      (None, w') \<Rightarrow> mode 0 \<le> 2 \<and> mode 1 \<le> 2 \<and> vm w' = (vm w)(0 \<mapsto> mode 0, 1 \<mapsto> mode 1, 2 \<mapsto> 1)
    | (Some e, w') \<Rightarrow> vm w' 2 = vm w 2"
    using c w1 keep unfolding mode_def
    by (cases e2; cases e3; cases e4) (simp_all add: do_seq.simps s0 s1 s2 put_def)
  show ?thesis
  proof (cases r)
    case (Inl e)
    then show ?thesis using l w1 by (simp add: seedHFModeMap_def)
  next
    case (Inr v)
    have "vm w 2 = Some v" using ebpf_map.lookup_hit [OF assms(1) l [unfolded Inr]] by (simp add: hfModeInitialized_def)
    then show ?thesis using l w1 Inr seeded
      by (auto simp: seedHFModeMap_def hfModeInitialized_def split: prod.splits option.splits)
  qed
qed

theorem seedHFModeMap_durable_witness:
  "\<exists>w'. seedHFModeMap (HfModes hf_maps) (Some (HfParams hf_maps)) False
      ((hf_demo_world [])\<lparr>hw_params := [(9, 1)], hw_modes := [(0, 0), (1, 0), (2, 0)]\<rparr>) = (None, w') \<and>
    map_of (hw_modes w') = [0 \<mapsto> 1, 1 \<mapsto> 0, 2 \<mapsto> 1]"
proof -
  let ?w = "(hf_demo_world [])\<lparr>hw_params := [(9, 1)], hw_modes := [(0, 0), (1, 0), (2, 0)]\<rparr>"
  have ok: "ebpf_map (HfModes hf_maps) (\<lambda>w. map_of (hw_modes w))"
    "legacy_ok (HfModes hf_maps) (\<lambda>w. map_of (hw_modes w)) (Some (HfParams hf_maps)) (\<lambda>w. map_of (hw_params w))"
    by (auto simp: legacy_ok_def hf_maps_def intro!: alist_ops_ebpf_map alist_ops_frame)
  obtain w' where run: "seedHFModeMap (HfModes hf_maps) (Some (HfParams hf_maps)) False ?w = (None, w')"
    by (simp add: seedHFModeMap_def seed_direction_def seed_mode_def do_seq.simps put_def hf_maps_def alist_ops_def hf_tick_def
        hf_demo_world_def hf_consts)
  then show ?thesis
    using seedHFModeMap_durable [OF ok, where ambiguous = False and w = ?w]
    by (auto simp: seed_value_def hf_consts hf_demo_world_def fun_eq_iff)
qed

section \<open>Arming at start\<close>

definition still_isolated :: "(u32 \<rightharpoonup> u32) \<Rightarrow> (u32 \<rightharpoonup> u32) \<Rightarrow> bool" where
  "still_isolated V U = (\<forall>d v. V d = Some v \<and> v \<noteq> 0 \<longrightarrow> U d = Some v \<or> U d = Some 2)"

lemma still_isolated_refl: "still_isolated V V"
  by (simp add: still_isolated_def)

lemma still_isolated_upd:
  assumes "still_isolated V U" "U d = Some v"
  shows "still_isolated V (U(d \<mapsto> if v \<noteq> 0 \<and> b then 2 else v))"
proof -
  have "U d = Some x \<or> U d = Some 2" if "V d = Some x" "x \<noteq> 0" for x using assms(1) that by (simp add: still_isolated_def)
  then show ?thesis using assms by (fastforce simp: still_isolated_def)
qed

lemma set_mode_view:
  assumes "ebpf_map (HfModes m) vm" "map_frame (HfParams m) vm" "setHFMode m (cfgHFEnabled + d) mode w = (e, w')"
  shows "vm w' = vm w \<and> e \<noteq> None \<or> vm w' = (vm w)(d \<mapsto> mode)"
proof -
  obtain e1 w1 where p1: "mo_put (HfModes m) d mode w = (e1, w1)" by (cases "mo_put (HfModes m) d mode w")
  obtain e2 w2 where p2: "mo_put (HfParams m) (cfgHFEnabled + d) mode w1 = (e2, w2)" by (cases "mo_put (HfParams m) (cfgHFEnabled + d) mode w1")
  have "vm w2 = vm w1" using assms(2) p2 by (auto simp: map_frame_def) (metis snd_conv)
  then show ?thesis using ebpf_map.put_view [OF assms(1) p1] p1 p2 assms(3)
    by (auto simp: setHFMode_def do_seq.simps put_def split: option.splits)
qed

lemma arm_direction_view:
  assumes "ebpf_map (HfModes m) vm" "map_frame (HfParams m) vm" "arm_direction m missing d rules active w = (r, w')"
  shows "vm w' = vm w \<and> (\<forall>a. r \<noteq> Inr a) \<or>
    (\<exists>v. vm w d = Some v \<and> v \<le> 2 \<and> vm w' = (vm w)(d \<mapsto> if v \<noteq> 0 \<and> missing rules then 2 else v) \<and> (\<forall>a. r = Inr a \<longrightarrow> (v \<noteq> 0 \<longrightarrow> a) \<and> (active \<longrightarrow> a)))"
proof -
  obtain l w1 where l: "mo_lookup (HfModes m) d w = (l, w1)" by (cases "mo_lookup (HfModes m) d w")
  note w1 = ebpf_map.lookup_view [OF assms(1) l]
  show ?thesis
  proof (cases l)
    case (Inl e)
    then show ?thesis using assms(3) l w1 by (auto simp: arm_direction_def)
  next
    case (Inr v)
    let ?mode = "if v \<noteq> 0 \<and> missing rules then 2 else v"
    obtain e w2 where s: "setHFMode m (cfgHFEnabled + d) ?mode w1 = (e, w2)" by (cases "setHFMode m (cfgHFEnabled + d) ?mode w1")
    have v: "vm w d = Some v" using ebpf_map.lookup_hit [OF assms(1) l [unfolded Inr]] .
    show ?thesis
    proof (cases "v > 2")
      case True
      then show ?thesis using assms(3) l Inr w1 by (auto simp: arm_direction_def)
    next
      case False
      have r: "(r, w') = (case e of Some e \<Rightarrow> (Inl e, w2) | None \<Rightarrow> (Inr (active \<or> ?mode \<noteq> 0), w2))"
        using assms(3) l Inr s False by (simp add: arm_direction_def Let_def)
      then show ?thesis using set_mode_view [OF assms(1,2) s] w1 v False by (auto simp: not_less split: option.splits if_splits)
    qed
  qed
qed

lemma restore_self_keeps:
  assumes "map_frame (HfSelf m) vm" "restore_self ord m addresses w = (e, w')"
  shows "vm w' = vm w"
proof -
  have t: "triple (\<lambda>u. vm u = vm w) (SyncHFSelf ord m ips) (\<lambda>u. vm u = vm w) (\<lambda>u. vm u = vm w)" for ips
    unfolding SyncHFSelf_def by (rule frame_sync [OF assms(1), where R = "\<lambda>x. x = vm w"]) simp
  have "vm w1 = vm w" if "SyncHFSelf ord m ips w = (e1, w1)" for ips e1 w1
    using triple_ok [OF t refl] triple_error [OF t refl] that by (cases e1) auto
  then show ?thesis using assms(2) by (auto simp: restore_self_def Let_def split: sum.splits if_splits)
qed

text \<open>
  (C32) A restart never takes isolation away: whether \<^verbatim>\<open>armHFBootstrap\<close> succeeds or fails, a direction that was
  isolated stays in its mode or goes to the default deny; and when it succeeds, an isolated direction
  whose rule table is missing is in the default deny.
\<close>

theorem armHFBootstrap_isolation:
  assumes "ebpf_map (HfModes m) vm" and "map_frame (HfParams m) vm" and "map_frame (HfSelf m) vm"
    and "armHFBootstrap ord m missing addresses w = (e, w')"
  shows "still_isolated (vm w) (vm w') \<and>
    (e = None \<and> missing ''hf_allow'' \<and> vm w 0 \<noteq> Some 0 \<longrightarrow> vm w' 0 = Some 2) \<and>
    (e = None \<and> missing ''hf_eallow'' \<and> vm w 1 \<noteq> Some 0 \<longrightarrow> vm w' 1 = Some 2)"
proof -
  obtain r1 w1 where a1: "arm_direction m missing 0 ''hf_allow'' False w = (r1, w1)" by (cases "arm_direction m missing 0 ''hf_allow'' False w")
  note v1 = arm_direction_view [OF assms(1,2) a1]
  show ?thesis
  proof (cases r1)
    case (Inl e1)
    then show ?thesis using assms(4) a1 v1 by (auto simp: armHFBootstrap_def still_isolated_def)
  next
    case (Inr act)
    obtain r2 w2 where a2: "arm_direction m missing 1 ''hf_eallow'' act w1 = (r2, w2)" by (cases "arm_direction m missing 1 ''hf_eallow'' act w1")
    note v2 = arm_direction_view [OF assms(1,2) a2]
    obtain v where v: "vm w 0 = Some v" "vm w1 = (vm w)(0 \<mapsto> if v \<noteq> 0 \<and> missing ''hf_allow'' then 2 else v)"
      using v1 Inr by auto
    have i1: "still_isolated (vm w) (vm w1)" unfolding v(2) by (rule still_isolated_upd [OF still_isolated_refl [of "vm w"], of 0, OF v(1)])
    have w2: "still_isolated (vm w) (vm w2) \<and> ((\<exists>a. r2 = Inr a) \<and> missing ''hf_allow'' \<and> vm w 0 \<noteq> Some 0 \<longrightarrow> vm w2 0 = Some 2) \<and>
        ((\<exists>a. r2 = Inr a) \<and> missing ''hf_eallow'' \<and> vm w 1 \<noteq> Some 0 \<longrightarrow> vm w2 1 = Some 2)"
    proof (cases "vm w2 = vm w1 \<and> (\<forall>a. r2 \<noteq> Inr a)")
      case True
      then show ?thesis using i1 by simp
    next
      case False
      then obtain u where u: "vm w1 1 = Some u" "vm w2 = (vm w1)(1 \<mapsto> if u \<noteq> 0 \<and> missing ''hf_eallow'' then 2 else u)"
        using v2 by blast
      have "still_isolated (vm w) (vm w2)" unfolding u(2) by (rule still_isolated_upd [OF i1, of 1, OF u(1)])
      then show ?thesis using u v by simp
    qed
    have "vm w' = vm w2 \<and> (e = None \<longrightarrow> (\<exists>a. r2 = Inr a))"
      using assms(4) a1 a2 Inr restore_self_keeps [OF assms(3), of ord addresses w2 e w']
      by (cases r2) (auto simp: armHFBootstrap_def split: if_splits)
    then show ?thesis using w2 by auto
  qed
qed

theorem armHFBootstrap_isolation_witness:
  "\<exists>w'. armHFBootstrap (plain_order 0) hf_maps (\<lambda>pin. pin = ''hf_allow'') (Inr [])
      ((hf_demo_world [])\<lparr>hw_modes := [(0, 1), (1, 0), (2, 1)]\<rparr>) = (None, w') \<and> map_of (hw_modes w') 0 = Some 2"
proof -
  let ?w = "(hf_demo_world [])\<lparr>hw_modes := [(0, 1), (1, 0), (2, 1)]\<rparr>"
  have ok: "ebpf_map (HfModes hf_maps) (\<lambda>w. map_of (hw_modes w))" "map_frame (HfParams hf_maps) (\<lambda>w. map_of (hw_modes w))"
    "map_frame (HfSelf hf_maps) (\<lambda>w. map_of (hw_modes w))"
    by (auto simp: hf_maps_def intro!: alist_ops_ebpf_map alist_ops_frame)
  obtain w' where run: "armHFBootstrap (plain_order 0) hf_maps (\<lambda>pin. pin = ''hf_allow'') (Inr []) ?w = (None, w')"
    by (simp add: armHFBootstrap_def arm_direction_def setHFMode_def do_seq.simps put_def hf_maps_def alist_ops_def hf_tick_def
        hf_demo_world_def hf_consts)
  show ?thesis using armHFBootstrap_isolation [OF ok run] run by (auto simp: hf_demo_world_def)
qed

end
