(* ===== verification/HfPolicy.thy ===== *)
theory HfPolicy
  imports HfCompile
begin

text \<open>
  What a set of \<^verbatim>\<open>HostFirewall\<close> objects means for a node, and that the whole chain implements it: admission
  (\<^verbatim>\<open>HfRegistry\<close>), compilation (\<^verbatim>\<open>HfCompile\<close>), the agent's resynchronisation, the table writes and the packet
  programs (\<^verbatim>\<open>HfDatapath\<close>).
\<close>

section \<open>The compiler in closed form\<close>

definition hf_item_rows :: "HostFirewallPort \<Rightarrow> hfPortRow list" where
  "hf_item_rows p = fst (hf_port_item p ([], []))"

definition hf_port_rows :: "HostFirewallPort list \<Rightarrow> hfPortRow list" where
  "hf_port_rows ports = fst (hfCompilePorts ports)"

definition hf_peer_entries :: "hfPortRow list \<Rightarrow> HostFirewallPeer \<Rightarrow> HFAllow list" where
  "hf_peer_entries rows peer = fst (hf_peer_item [] rows peer ([], []))"

definition hf_rule_entries :: "HostFirewallPeer list \<times> HostFirewallPort list \<Rightarrow> HFAllow list" where
  "hf_rule_entries = (\<lambda>(peers, ports).
     concat (map (hf_peer_entries (hf_port_rows ports)) (if peers = [] then hfAnyPeers else peers)))"

lemma hf_port_item_rows: "fst (hf_port_item p (out, ws)) = out @ hf_item_rows p"
  by (simp add: hf_item_rows_def hf_port_item_def Let_def split: option.splits)

lemma hf_port_fold: "fst (fold hf_port_item ports acc) = fst acc @ concat (map hf_item_rows ports)"
proof (induction ports arbitrary: acc)
  case (Cons p ports)
  then show ?case using hf_port_item_rows [of p "fst acc" "snd acc"] by simp
qed simp

lemma hf_port_rows_items: "ports \<noteq> [] \<Longrightarrow> hf_port_rows ports = concat (map hf_item_rows ports)"
  by (simp add: hf_port_rows_def hfCompilePorts_def hf_port_fold)

lemma hf_peer_item_entries: "fst (hf_peer_item name rows peer (entries, ws)) = entries @ hf_peer_entries rows peer"
  by (simp add: hf_peer_entries_def hf_peer_item_def split: option.splits sum.splits)

lemma hf_peer_fold: "fst (fold (hf_peer_item name rows) peers acc) = fst acc @ concat (map (hf_peer_entries rows) peers)"
proof (induction peers arbitrary: acc)
  case (Cons p peers)
  then show ?case using hf_peer_item_entries [of name rows p "fst acc" "snd acc"] by simp
qed simp

lemma hfCompileRule_entries:
  "fst (hfCompileRule name peers ports acc) = fst acc @ hf_rule_entries (peers, ports)"
  by (cases acc) (simp add: hfCompileRule_def hf_rule_entries_def hf_port_rows_def hf_peer_fold Let_def split: prod.splits)

lemma hf_compile_rules_entries:
  "fst (hf_compile_rules name rules acc) = fst acc @ concat (map hf_rule_entries rules)"
proof (induction rules arbitrary: acc)
  case (Cons r rules)
  then show ?case
    using hfCompileRule_entries [of name "fst r" "snd r" acc]
    by (cases r) (simp add: hf_compile_rules_def)
qed (simp add: hf_compile_rules_def)

definition hf_dir_entries :: "(HostFirewall \<Rightarrow> bool) \<Rightarrow> (HostFirewall \<Rightarrow> (HostFirewallPeer list \<times> HostFirewallPort list) list) \<Rightarrow>
    HostFirewall list \<Rightarrow> HFAllow list" where
  "hf_dir_entries active rules hfs = concat (map (\<lambda>hf. if active hf then concat (map hf_rule_entries (rules hf)) else []) hfs)"

definition isolates_in :: "machinery \<Rightarrow> (string \<rightharpoonup> string) \<Rightarrow> HostFirewall \<Rightarrow> bool" where
  "isolates_in k nodeLabels hf \<longleftrightarrow> hf_selects k nodeLabels hf \<and> fst (hfIsolation hf)"

definition isolates_eg :: "machinery \<Rightarrow> (string \<rightharpoonup> string) \<Rightarrow> HostFirewall \<Rightarrow> bool" where
  "isolates_eg k nodeLabels hf \<longleftrightarrow> hf_selects k nodeLabels hf \<and> snd (hfIsolation hf)"

lemma hf_compile_object_fields:
  fixes k nodeLabels
  defines "active hf \<equiv> isolates_in k nodeLabels hf" and "eactive hf \<equiv> isolates_eg k nodeLabels hf"
  shows "hc_ingress (hf_compile_object k nodeLabels hf c) = (hc_ingress c \<or> active hf)"
    and "hc_egress (hf_compile_object k nodeLabels hf c) = (hc_egress c \<or> eactive hf)"
    and "hc_in (hf_compile_object k nodeLabels hf c) =
      hc_in c @ (if active hf then concat (map hf_rule_entries (hf_ingress_rules hf)) else [])"
    and "hc_eg (hf_compile_object k nodeLabels hf c) =
      hc_eg c @ (if eactive hf then concat (map hf_rule_entries (hf_egress_rules hf)) else [])"
    and "hc_err (hf_compile_object k nodeLabels hf c) = hc_err c"
proof -
  obtain ing eg where io: "hfIsolation hf = (ing, eg)" by (cases "hfIsolation hf")
  show "hc_ingress (hf_compile_object k nodeLabels hf c) = (hc_ingress c \<or> active hf)"
    "hc_egress (hf_compile_object k nodeLabels hf c) = (hc_egress c \<or> eactive hf)"
    "hc_in (hf_compile_object k nodeLabels hf c) =
      hc_in c @ (if active hf then concat (map hf_rule_entries (hf_ingress_rules hf)) else [])"
    "hc_eg (hf_compile_object k nodeLabels hf c) =
      hc_eg c @ (if eactive hf then concat (map hf_rule_entries (hf_egress_rules hf)) else [])"
    "hc_err (hf_compile_object k nodeLabels hf c) = hc_err c"
    using io
    by (auto simp: hf_compile_object_def case_prod_beta hf_compile_rules_entries active_def eactive_def isolates_in_def isolates_eg_def hf_selects_def Let_def
        split: option.splits)
qed

lemma hf_compile_fold:
  fixes c :: hfCompiled and k nodeLabels
  defines "f \<equiv> hf_compile_object k nodeLabels"
  shows "hc_ingress (fold f hfs c) \<longleftrightarrow> hc_ingress c \<or> (\<exists>hf \<in> set hfs. isolates_in k nodeLabels hf)"
    and "hc_egress (fold f hfs c) \<longleftrightarrow> hc_egress c \<or> (\<exists>hf \<in> set hfs. isolates_eg k nodeLabels hf)"
    and "hc_in (fold f hfs c) = hc_in c @ hf_dir_entries (isolates_in k nodeLabels) hf_ingress_rules hfs"
    and "hc_eg (fold f hfs c) = hc_eg c @ hf_dir_entries (isolates_eg k nodeLabels) hf_egress_rules hfs"
    and "hc_err (fold f hfs c) = hc_err c"
  unfolding f_def
  by (induction hfs arbitrary: c) (auto simp: hf_compile_object_fields hf_dir_entries_def)

lemma compile_ok:
  assumes "hc_err (compileHostFirewalls k hfs nodeLabels) = None"
  shows "validateHFCompilation k hfs nodeLabels = None"
    and "hc_ingress (compileHostFirewalls k hfs nodeLabels) \<longleftrightarrow> (\<exists>hf \<in> set hfs. isolates_in k nodeLabels hf)"
    and "hc_egress (compileHostFirewalls k hfs nodeLabels) \<longleftrightarrow> (\<exists>hf \<in> set hfs. isolates_eg k nodeLabels hf)"
    and "hc_in (compileHostFirewalls k hfs nodeLabels) = hf_dir_entries (isolates_in k nodeLabels) hf_ingress_rules hfs"
    and "hc_eg (compileHostFirewalls k hfs nodeLabels) = hf_dir_entries (isolates_eg k nodeLabels) hf_egress_rules hfs"
  using assms
  by (auto simp: compileHostFirewalls_def hfCompiled_zero_def hf_compile_fold split: option.splits)

section \<open>Budgets\<close>

lemma length_hf_item_rows: "length (hf_item_rows p) \<le> hf_count_port p"
  by (auto simp: hf_item_rows_def hf_port_item_def hf_count_port_def hf_port_range_def Let_def split: option.splits)

lemma length_hf_port_rows: "length (hf_port_rows ports) \<le> (if ports = [] then 2 else sum_list (map hf_count_port ports))"
proof (cases "ports = []")
  case False
  have "length (concat (map hf_item_rows ports)) \<le> sum_list (map hf_count_port ports)"
    by (induction ports) (auto intro: add_mono length_hf_item_rows)
  then show ?thesis using False by (simp add: hf_port_rows_items)
qed (simp add: hf_port_rows_def hfCompilePorts_def)

lemma length_hf_excepts: "hf_excepts exs = Inr nets \<Longrightarrow> length nets = length exs"
  by (induction exs arbitrary: nets) (auto split: option.splits sum.splits)

lemma length_hf_peer_rows: "length (hf_peer_rows rows net exs) = length rows * (length exs + 1)"
  by (induction rows) (auto simp: hf_peer_rows_def)

lemma length_hf_peer_entries: "length (hf_peer_entries rows peer) \<le> length rows * (length (hfp_Except peer) + 1)"
  by (auto simp: hf_peer_entries_def hf_peer_item_def length_hf_peer_rows dest: length_hf_excepts split: option.splits sum.splits)

lemma length_hf_peers: "length (concat (map (hf_peer_entries rows) peers)) \<le>
    length rows * sum_list (map (\<lambda>p. length (hfp_Except p) + 1) peers)"
proof (induction peers)
  case (Cons p peers)
  have "length (concat (map (hf_peer_entries rows) (p # peers))) \<le>
      length rows * (length (hfp_Except p) + 1) + length rows * sum_list (map (\<lambda>p. length (hfp_Except p) + 1) peers)"
    using add_mono [OF length_hf_peer_entries [of rows p] Cons.IH] by simp
  then show ?case by (simp add: distrib_left)
qed simp

lemma length_hf_rule_entries:
  assumes "hf_count peers ports work = (Inr n, work')"
  shows "length (hf_rule_entries (peers, ports)) \<le> n"
proof -
  let ?ps = "if peers = [] then hfAnyPeers else peers"
  let ?rows = "if ports = [] then 2 else sum_list (map hf_count_port ports)"
  have n: "n = ?rows * sum_list (map (\<lambda>p. length (hfp_Except p) + 1) ?ps)"
    using assms by (auto simp: hf_count_def Let_def hfAnyPeers_def split: if_splits)
  have "length (hf_rule_entries (peers, ports)) \<le>
      length (hf_port_rows ports) * sum_list (map (\<lambda>p. length (hfp_Except p) + 1) ?ps)"
    using length_hf_peers [of "hf_port_rows ports" ?ps] by (simp add: hf_rule_entries_def)
  also have "\<dots> \<le> n" unfolding n by (rule mult_right_mono [OF length_hf_port_rows]) simp
  finally show ?thesis .
qed

lemma hf_count_rules_bound:
  "hf_count_rules over rules (rows, work) = Inr (rows', work') \<Longrightarrow> rows \<le> policyRowLimit \<Longrightarrow>
   rows + length (concat (map hf_rule_entries rules)) \<le> rows' \<and> rows' \<le> policyRowLimit"
proof (induction over rules "(rows, work)" arbitrary: rows work rule: hf_count_rules.induct)
  case (2 over peers ports rules rows work)
  obtain n w1 where c: "hf_count peers ports work = (Inr n, w1)"
    using 2(2) by (cases "hf_count peers ports work"; cases "fst (hf_count peers ports work)") auto
  then have le: "rows + n \<le> policyRowLimit" and r: "hf_count_rules over rules (rows + n, w1) = Inr (rows', work')"
    using 2(2) by (auto split: if_splits)
  show ?case using 2(1) [OF c [symmetric] refl _ r le] le length_hf_rule_entries [OF c] by auto
qed simp

lemma hf_preflight_bound:
  "hf_preflight k nodeLabels hfs (ingress, egress, work) = None \<Longrightarrow> ingress \<le> policyRowLimit \<Longrightarrow> egress \<le> policyRowLimit \<Longrightarrow>
   ingress + length (hf_dir_entries (isolates_in k nodeLabels) hf_ingress_rules hfs) \<le> policyRowLimit \<and>
   egress + length (hf_dir_entries (isolates_eg k nodeLabels) hf_egress_rules hfs) \<le> policyRowLimit"
proof (induction hfs arbitrary: ingress egress work)
  case (Cons hf hfs)
  obtain ing eg where io: "hfIsolation hf = (ing, eg)" by (cases "hfIsolation hf")
  show ?case
  proof (cases "hf_selects k nodeLabels hf")
    case False
    then show ?thesis using Cons by (auto simp: Let_def hf_dir_entries_def isolates_in_def isolates_eg_def)
  next
    case True
    obtain i2 w2 where i: "(if ing then hf_count_rules HFIngressRows (hf_ingress_rules hf) (ingress, Suc work)
        else Inr (ingress, Suc work)) = Inr (i2, w2)"
      using Cons.prems(1) True io by (auto simp: Let_def split: sum.splits)
    obtain e2 w3 where e: "(if eg then hf_count_rules HFEgressRows (hf_egress_rules hf) (egress, w2)
        else Inr (egress, w2)) = Inr (e2, w3)"
      using Cons.prems(1) True io i by (auto simp: Let_def split: sum.splits)
    have rest: "hf_preflight k nodeLabels hfs (i2, e2, w3) = None"
      using Cons.prems(1) True io i e by (simp add: Let_def)
    have "ingress + length (if ing then concat (map hf_rule_entries (hf_ingress_rules hf)) else []) \<le> i2 \<and> i2 \<le> policyRowLimit"
      using i Cons.prems(2) hf_count_rules_bound by (auto split: if_splits)
    moreover have "egress + length (if eg then concat (map hf_rule_entries (hf_egress_rules hf)) else []) \<le> e2 \<and> e2 \<le> policyRowLimit"
      using e Cons.prems(3) hf_count_rules_bound by (auto split: if_splits)
    ultimately show ?thesis
      using Cons.IH [OF rest] True io by (simp add: hf_dir_entries_def isolates_in_def isolates_eg_def)
  qed
qed (simp add: hf_dir_entries_def)

section \<open>What the objects mean\<close>

definition text_covers :: "string \<Rightarrow> addr \<Rightarrow> bool" where
  "text_covers s w = (case parse_cidr s of None \<Rightarrow> False | Some (_, net) \<Rightarrow> cidr_covers (Some net) w)"

definition text_bits :: "string \<Rightarrow> int" where
  "text_bits s = (case parse_cidr s of None \<Rightarrow> -1 | Some (_, net) \<Rightarrow> cidr_bits (Some net))"

definition hf_peers_admit :: "HostFirewallPeer list \<Rightarrow> addr \<Rightarrow> bool" where
  "hf_peers_admit peers w \<longleftrightarrow> peers = [] \<or>
     (\<exists>p \<in> set peers. text_covers (hfp_CIDR p) w \<and> \<not> (\<exists>ex \<in> set (hfp_Except p). text_covers ex w))"

definition hf_port_admits :: "HostFirewallPort \<Rightarrow> u8 \<Rightarrow> u16 \<Rightarrow> bool" where
  "hf_port_admits p proto port \<longleftrightarrow> hfProtoNum (hfpt_Protocol p) = Some proto \<and>
     (hfpt_Port p = 0 \<and> hfpt_EndPort p = 0 \<or> hfpt_Port p \<le> uint port \<and> uint port \<le> hf_last_port p)"

definition hf_ports_admit :: "HostFirewallPort list \<Rightarrow> u8 \<Rightarrow> u16 \<Rightarrow> bool" where
  "hf_ports_admit ports proto port \<longleftrightarrow>
     ports = [] \<and> (proto = 6 \<or> proto = 17) \<or> (\<exists>p \<in> set ports. hf_port_admits p proto port)"

text \<open>Some active object has a rule whose peers and ports admit the flow.\<close>

definition hf_spec_admits :: "(HostFirewall \<Rightarrow> bool) \<Rightarrow> (HostFirewall \<Rightarrow> (HostFirewallPeer list \<times> HostFirewallPort list) list) \<Rightarrow>
    HostFirewall list \<Rightarrow> u8 \<Rightarrow> u16 \<Rightarrow> addr \<Rightarrow> bool" where
  "hf_spec_admits active rules hfs proto port w \<longleftrightarrow>
     (\<exists>hf \<in> set hfs. active hf \<and> (\<exists>(peers, ports) \<in> set (rules hf). hf_peers_admit peers w \<and> hf_ports_admit ports proto port))"

text \<open>Exceptions are sub-ranges when they are longer than the range they are taken from.\<close>

definition excepts_inside :: "HostFirewallPeer list \<Rightarrow> bool" where
  "excepts_inside peers \<longleftrightarrow> (\<forall>p \<in> set peers. \<forall>ex \<in> set (hfp_Except p). text_bits (hfp_CIDR p) < text_bits ex)"

definition no_excepts :: "HostFirewallPeer list \<Rightarrow> bool" where
  "no_excepts peers \<longleftrightarrow> (\<forall>p \<in> set peers. hfp_Except p = [])"

subsection \<open>Ports\<close>

lemma hf_item_rows_sound:
  assumes "r \<in> set (hf_item_rows p)"
  shows "pr_port r = 0 \<longrightarrow> hf_port_admits p (pr_proto r) port" and "hf_port_admits p (pr_proto r) (pr_port r)"
proof -
  obtain n where n: "hfProtoNum (hfpt_Protocol p) = Some (pr_proto r)" "hfpt_Port p \<le> n" "n \<le> hf_last_port p"
      "0 \<le> hfpt_Port p" "hf_last_port p \<le> 65535" "hfpt_Port p = 0 \<longrightarrow> hf_last_port p = 0" "pr_port r = of_int n"
    using assms
    by (auto simp: hf_item_rows_def hf_port_item_def hf_port_range_def hf_last_port_def Let_def split: option.splits if_splits)
  then have u: "uint (pr_port r) = n" by (simp add: unsigned_of_int take_bit_int_eq_self)
  show "hf_port_admits p (pr_proto r) (pr_port r)" using n u by (simp add: hf_port_admits_def)
  show "pr_port r = 0 \<longrightarrow> hf_port_admits p (pr_proto r) port"
  proof
    assume "pr_port r = 0"
    then have "n = 0" using u by simp
    then show "hf_port_admits p (pr_proto r) port"
      using n by (auto simp: hf_port_admits_def hf_last_port_def split: if_splits)
  qed
qed

lemma hf_item_rows_complete:
  assumes "hf_port_ok p" "hf_port_admits p proto port"
  shows "\<lparr> pr_proto = proto, pr_port = port \<rparr> \<in> set (hf_item_rows p) \<or> \<lparr> pr_proto = proto, pr_port = 0 \<rparr> \<in> set (hf_item_rows p)"
proof -
  have rows: "set (hf_item_rows p) = (\<lambda>n. \<lparr> pr_proto = proto, pr_port = of_int n \<rparr>) ` {hfpt_Port p .. hf_last_port p}"
    using assms by (auto simp: hf_item_rows_def hf_port_item_def hf_port_range_def hf_port_ok_def hf_port_admits_def
        hf_last_port_def Let_def)
  show ?thesis
  proof (cases "hfpt_Port p = 0")
    case True
    then show ?thesis using rows assms(1) by (auto simp: hf_port_ok_def)
  next
    case False
    then have "uint port \<in> {hfpt_Port p .. hf_last_port p}" using assms(2) by (auto simp: hf_port_admits_def)
    then have "\<lparr> pr_proto = proto, pr_port = of_int (uint port) \<rparr> \<in> set (hf_item_rows p)" unfolding rows by (rule imageI)
    then show ?thesis by simp
  qed
qed

lemma hf_port_rows_sound:
  assumes "r \<in> set (hf_port_rows ports)" "pr_port r = port \<or> pr_port r = 0"
  shows "hf_ports_admit ports (pr_proto r) port"
proof (cases "ports = []")
  case True
  then show ?thesis using assms by (auto simp: hf_port_rows_def hfCompilePorts_def hf_ports_admit_def)
next
  case False
  then obtain p where "p \<in> set ports" "r \<in> set (hf_item_rows p)" using assms(1) by (auto simp: hf_port_rows_items)
  then show ?thesis using hf_item_rows_sound [of r p] assms(2) by (auto simp: hf_ports_admit_def)
qed

lemma hf_port_rows_complete:
  assumes "\<forall>p \<in> set ports. hf_port_ok p" "hf_ports_admit ports proto port"
  shows "\<exists>r \<in> set (hf_port_rows ports). pr_proto r = proto \<and> (pr_port r = port \<or> pr_port r = 0)"
proof (cases "ports = []")
  case True
  then show ?thesis using assms(2) by (auto simp: hf_port_rows_def hfCompilePorts_def hf_ports_admit_def)
next
  case False
  then obtain p where "p \<in> set ports" "hf_port_admits p proto port" using assms(2) by (auto simp: hf_ports_admit_def)
  moreover from this obtain q where "\<lparr> pr_proto = proto, pr_port = q \<rparr> \<in> set (hf_item_rows p)" "q = port \<or> q = 0"
    using hf_item_rows_complete [of p proto port] assms(1) by blast
  ultimately show ?thesis using False
    by (intro bexI [of _ "\<lparr> pr_proto = proto, pr_port = q \<rparr>"]) (auto simp: hf_port_rows_items)
qed

subsection \<open>Peers\<close>

lemma hf_excepts_Inr:
  "hf_excepts exs = Inr nets \<Longrightarrow> ex \<in> set exs \<Longrightarrow> \<exists>ip net. parse_cidr ex = Some (ip, net) \<and> net \<in> set nets"
  by (induction exs arbitrary: nets) (auto split: option.splits sum.splits)

lemma hf_peer_entries_allow:
  assumes "e \<in> set (hf_peer_entries rows peer)" "ha_Allow e"
  obtains r ip net where "r \<in> set rows" "parse_cidr (hfp_CIDR peer) = Some (ip, net)" "e = hf_entry r net True"
    "\<And>ex. ex \<in> set (hfp_Except peer) \<Longrightarrow>
       \<exists>ip xnet. parse_cidr ex = Some (ip, xnet) \<and> hf_entry r xnet False \<in> set (hf_peer_entries rows peer)"
proof -
  obtain ip net xs where p: "parse_cidr (hfp_CIDR peer) = Some (ip, net)" "hf_excepts (hfp_Except peer) = Inr xs"
      "hf_peer_entries rows peer = hf_peer_rows rows net xs"
    using assms(1) by (auto simp: hf_peer_entries_def hf_peer_item_def split: option.splits sum.splits)
  obtain r where r: "r \<in> set rows" "e = hf_entry r net True"
    using assms p(3) by (auto simp: hf_peer_rows_def hf_entry_def)
  show ?thesis
  proof (rule that [OF r(1) p(1) r(2)])
    fix ex assume "ex \<in> set (hfp_Except peer)"
    then show "\<exists>ip xnet. parse_cidr ex = Some (ip, xnet) \<and> hf_entry r xnet False \<in> set (hf_peer_entries rows peer)"
      using hf_excepts_Inr [OF p(2)] r(1) p(3) by (fastforce simp: hf_peer_rows_def)
  qed
qed

lemma hf_dir_entries_rules:
  "e \<in> set (hf_dir_entries active rules hfs) \<longleftrightarrow>
     (\<exists>hf \<in> set hfs. active hf \<and> (\<exists>r \<in> set (rules hf). e \<in> set (hf_rule_entries r)))"
  by (induction hfs) (auto simp: hf_dir_entries_def)

lemma hf_rule_entries_iff:
  "e \<in> set (hf_rule_entries (peers, ports)) \<longleftrightarrow>
     (\<exists>peer \<in> set (if peers = [] then hfAnyPeers else peers). e \<in> set (hf_peer_entries (hf_port_rows ports) peer))"
  by (simp add: hf_rule_entries_def)

lemma any_peer_covers:
  assumes "packet_addr w f a"
  shows "\<exists>peer \<in> set hfAnyPeers. text_covers (hfp_CIDR peer) w"
proof -
  have "\<exists>ip. parse_cidr ''0.0.0.0/0'' = Some (ip, \<lparr> net_ip = [0, 0, 0, 0], net_mask = cidr_mask 0 4 \<rparr>)"
    by (simp add: net_eval)
  moreover have "normalizedCIDR (Some \<lparr> net_ip = [0, 0, 0, 0], net_mask = cidr_mask 0 4 \<rparr>) = Inr (Prefix (Addr4 (keep_top 0 0)) 0)"
    using v4_net_prefix [of "[0, 0, 0, 0]" 0] by (simp add: v4_net_def be_nat_def)
  ultimately have z: "\<exists>ip net. parse_cidr ''0.0.0.0/0'' = Some (ip, net) \<and> normalizedCIDR (Some net) = Inr (Prefix (Addr4 (keep_top 0 0)) 0)"
    by blast
  have "\<exists>ip. parse_cidr ''::/0'' = Some (ip, \<lparr> net_ip = replicate 16 0, net_mask = cidr_mask 0 16 \<rparr>)"
    by (simp add: net_eval)
  moreover have "normalizedCIDR (Some \<lparr> net_ip = replicate 16 0, net_mask = cidr_mask 0 16 \<rparr>) = Inr (Prefix (Addr6 (keep_top 0 0) []) 0)"
    by (simp add: normalizedCIDR_def addr_from_slice_def is4_def masked_def prefix_from_def prefix_valid_def
        replicate_numeral_Cons be_nat_def)
  ultimately have s: "\<exists>ip net. parse_cidr ''::/0'' = Some (ip, net) \<and> normalizedCIDR (Some net) = Inr (Prefix (Addr6 (keep_top 0 0) []) 0)"
    by blast
  have "text_covers ''0.0.0.0/0'' (Addr4 v)" for v
    using z by (auto simp: text_covers_def cidr_covers_def prefix_contains_def prefix_valid_def top_bits_0)
  moreover have "text_covers ''::/0'' (Addr6 v [])" for v
    using s by (auto simp: text_covers_def cidr_covers_def prefix_contains_def prefix_valid_def top_bits_0)
  ultimately show ?thesis using assms by (cases w) (simp_all add: hfAnyPeers_def packet_addr_def)
qed

text \<open>An allow entry that is the longest match for an address comes from a peer that admits it.\<close>

lemma hf_rule_entry_sound:
  assumes "e \<in> set (hf_rule_entries (peers, ports))" "ha_Allow e" "cidr_covers (ha_CIDR e) w" "excepts_inside peers"
    and longest: "\<And>e'. e' \<in> set (hf_rule_entries (peers, ports)) \<Longrightarrow> ha_Proto e' = ha_Proto e \<Longrightarrow> ha_Port e' = ha_Port e \<Longrightarrow>
      cidr_covers (ha_CIDR e') w \<Longrightarrow> cidr_bits (ha_CIDR e') \<le> cidr_bits (ha_CIDR e)"
    and port: "ha_Port e = port \<or> ha_Port e = 0"
  shows "hf_peers_admit peers w \<and> hf_ports_admit ports (ha_Proto e) port"
proof -
  obtain peer where p: "peer \<in> set (if peers = [] then hfAnyPeers else peers)"
      and ep: "e \<in> set (hf_peer_entries (hf_port_rows ports) peer)"
    using assms(1) by (auto simp: hf_rule_entries_iff)
  obtain r ip net where r: "r \<in> set (hf_port_rows ports)" "parse_cidr (hfp_CIDR peer) = Some (ip, net)" "e = hf_entry r net True"
      and ex: "\<And>x. x \<in> set (hfp_Except peer) \<Longrightarrow>
        \<exists>ip xnet. parse_cidr x = Some (ip, xnet) \<and> hf_entry r xnet False \<in> set (hf_peer_entries (hf_port_rows ports) peer)"
    using hf_peer_entries_allow [OF ep assms(2)] by blast
  have "hf_ports_admit ports (ha_Proto e) port"
    using hf_port_rows_sound [OF r(1), of port] port r(3) by (simp add: hf_entry_def)
  moreover have "\<not> text_covers x w" if x: "x \<in> set (hfp_Except peer)" "peers \<noteq> []" for x
  proof
    assume c: "text_covers x w"
    obtain xip xnet where xn: "parse_cidr x = Some (xip, xnet)" "hf_entry r xnet False \<in> set (hf_peer_entries (hf_port_rows ports) peer)"
      using ex [OF x(1)] by blast
    have "text_bits (hfp_CIDR peer) < text_bits x" using p x assms(4) by (auto simp: excepts_inside_def)
    moreover have "hf_entry r xnet False \<in> set (hf_rule_entries (peers, ports))" using xn(2) p by (auto simp: hf_rule_entries_iff)
    then have "cidr_bits (Some xnet) \<le> cidr_bits (Some net)"
      using longest [of "hf_entry r xnet False"] c xn(1) r(3) by (simp add: hf_entry_def text_covers_def)
    ultimately show False using r(2) xn(1) by (simp add: text_bits_def)
  qed
  moreover have "text_covers (hfp_CIDR peer) w" using assms(3) r by (simp add: text_covers_def hf_entry_def)
  ultimately show ?thesis using p by (auto simp: hf_peers_admit_def split: if_splits)
qed

lemma hf_peer_entries_plain:
  assumes "hfp_Except peer = []"
  shows "hf_peer_entries rows peer =
    (case parse_cidr (hfp_CIDR peer) of None \<Rightarrow> [] | Some (_, net) \<Rightarrow> map (\<lambda>r. hf_entry r net True) rows)"
proof -
  have "hf_peer_rows rows net [] = map (\<lambda>r. hf_entry r net True) rows" for net
    by (induction rows) (simp_all add: hf_peer_rows_def)
  then show ?thesis using assms by (simp add: hf_peer_entries_def hf_peer_item_def split: option.splits)
qed

lemma hf_rule_entry_complete:
  assumes "\<forall>p \<in> set ports. hf_port_ok p" "no_excepts peers" "packet_addr w f a"
    and "hf_peers_admit peers w" "hf_ports_admit ports proto port"
  shows "\<exists>e \<in> set (hf_rule_entries (peers, ports)). ha_Proto e = proto \<and> (ha_Port e = port \<or> ha_Port e = 0) \<and> cidr_covers (ha_CIDR e) w"
proof -
  obtain peer where p: "peer \<in> set (if peers = [] then hfAnyPeers else peers)" "text_covers (hfp_CIDR peer) w" "hfp_Except peer = []"
  proof (cases "peers = []")
    case True
    moreover have "\<forall>x \<in> set hfAnyPeers. hfp_Except x = []" by (simp add: hfAnyPeers_def)
    ultimately show ?thesis using any_peer_covers [OF assms(3)] that by auto
  next
    case False
    then obtain x where "x \<in> set peers" "text_covers (hfp_CIDR x) w" using assms(4) by (auto simp: hf_peers_admit_def)
    then show ?thesis using False assms(2) that [of x] by (simp add: no_excepts_def)
  qed
  obtain ip net where net: "parse_cidr (hfp_CIDR peer) = Some (ip, net)" "cidr_covers (Some net) w"
    using p(2) by (auto simp: text_covers_def split: option.splits)
  obtain r where r: "r \<in> set (hf_port_rows ports)" "pr_proto r = proto" "pr_port r = port \<or> pr_port r = 0"
    using hf_port_rows_complete [OF assms(1,5)] by blast
  have "hf_entry r net True \<in> set (hf_peer_entries (hf_port_rows ports) peer)"
    using r(1) by (simp add: hf_peer_entries_plain [OF p(3)] net(1))
  then have "hf_entry r net True \<in> set (hf_rule_entries (peers, ports))"
    using p(1) unfolding hf_rule_entries_iff by blast
  then show ?thesis by (rule bexI [rotated]) (use r net(2) in \<open>simp add: hf_entry_def\<close>)
qed

lemma hf_rule_entries_allow:
  assumes "no_excepts peers" "e \<in> set (hf_rule_entries (peers, ports))"
  shows "ha_Allow e"
proof -
  obtain peer where p: "peer \<in> set (if peers = [] then hfAnyPeers else peers)"
      and e: "e \<in> set (hf_peer_entries (hf_port_rows ports) peer)"
    using assms(2) unfolding hf_rule_entries_iff by blast
  have x: "hfp_Except peer = []" using p assms(1) by (auto simp: no_excepts_def hfAnyPeers_def split: if_splits)
  from e show ?thesis by (auto simp: hf_peer_entries_plain [OF x] hf_entry_def split: option.splits)
qed

section \<open>Compiled rows against the objects\<close>

lemma hf_dir_sound:
  assumes "\<forall>hf \<in> set hfs. active hf \<longrightarrow> (\<forall>(peers, ports) \<in> set (rules hf). excepts_inside peers)"
    and "hf_admits (hf_dir_entries active rules hfs) proto port w"
  shows "hf_spec_admits active rules hfs proto port w"
proof -
  let ?es = "hf_dir_entries active rules hfs"
  obtain q where q: "q = port \<or> q = 0" "longest_allows ha_CIDR ha_Allow (hf_hits ?es proto q w)"
    using assms(2) by (auto simp: hf_admits_def split: if_splits)
  obtain e where e: "e \<in> set ?es" "ha_Proto e = proto" "ha_Port e = q" "cidr_covers (ha_CIDR e) w" "ha_Allow e"
      and longest: "\<And>e'. e' \<in> set ?es \<Longrightarrow> ha_Proto e' = proto \<Longrightarrow> ha_Port e' = q \<Longrightarrow> cidr_covers (ha_CIDR e') w \<Longrightarrow>
        cidr_bits (ha_CIDR e') \<le> cidr_bits (ha_CIDR e)"
    using q(2) by (auto simp: longest_allows_def hf_hits_def)
  obtain hf peers ports where h: "hf \<in> set hfs" "active hf" "(peers, ports) \<in> set (rules hf)" "e \<in> set (hf_rule_entries (peers, ports))"
    using e(1) unfolding hf_dir_entries_rules by auto
  have "hf_peers_admit peers w \<and> hf_ports_admit ports (ha_Proto e) port"
  proof (rule hf_rule_entry_sound [OF h(4) e(5,4)])
    show "excepts_inside peers" using assms(1) h by blast
    show "cidr_bits (ha_CIDR e') \<le> cidr_bits (ha_CIDR e)"
      if "e' \<in> set (hf_rule_entries (peers, ports))" "ha_Proto e' = ha_Proto e" "ha_Port e' = ha_Port e" "cidr_covers (ha_CIDR e') w" for e'
    proof (rule longest)
      show "e' \<in> set ?es" using that(1) h unfolding hf_dir_entries_rules by blast
    qed (use that e in auto)
    show "ha_Port e = port \<or> ha_Port e = 0" using e(3) q(1) by simp
  qed
  then show ?thesis using h e(2) unfolding hf_spec_admits_def by blast
qed

lemma longest_exists:
  assumes "hits \<noteq> []" "\<forall>e \<in> set hits. allow e"
  shows "longest_allows cidr_of allow hits"
proof -
  have "finite ((\<lambda>e. cidr_bits (cidr_of e)) ` set hits)" "(\<lambda>e. cidr_bits (cidr_of e)) ` set hits \<noteq> {}" using assms(1) by auto
  then obtain e where "e \<in> set hits" "cidr_bits (cidr_of e) = Max ((\<lambda>e. cidr_bits (cidr_of e)) ` set hits)"
    using Max_in by (metis (no_types, lifting) imageE)
  then show ?thesis using assms(2) by (auto simp: longest_allows_def intro!: bexI [of _ e])
qed

lemma hf_dir_complete:
  assumes "\<forall>hf \<in> set hfs. active hf \<longrightarrow> (\<forall>(peers, ports) \<in> set (rules hf). no_excepts peers \<and> (\<forall>p \<in> set ports. hf_port_ok p))"
    and "packet_addr w f a" "hf_spec_admits active rules hfs proto port w"
  shows "hf_admits (hf_dir_entries active rules hfs) proto port w"
proof -
  let ?es = "hf_dir_entries active rules hfs"
  obtain hf peers ports where h: "hf \<in> set hfs" "active hf" "(peers, ports) \<in> set (rules hf)"
      "hf_peers_admit peers w" "hf_ports_admit ports proto port"
    using assms(3) unfolding hf_spec_admits_def by blast
  then have "no_excepts peers" "\<forall>p \<in> set ports. hf_port_ok p" using assms(1) by blast+
  then obtain e where e: "e \<in> set (hf_rule_entries (peers, ports))" "ha_Proto e = proto" "ha_Port e = port \<or> ha_Port e = 0"
      "cidr_covers (ha_CIDR e) w"
    using hf_rule_entry_complete [OF _ _ assms(2) h(4,5)] by blast
  then have "e \<in> set ?es" using h unfolding hf_dir_entries_rules by blast
  then have "hf_hits ?es proto port w \<noteq> [] \<or> hf_hits ?es proto 0 w \<noteq> []"
    using e by (auto simp: hf_hits_def filter_empty_conv)
  moreover have "\<forall>x \<in> set (hf_hits ?es proto q w). ha_Allow x" for q
  proof
    fix x assume "x \<in> set (hf_hits ?es proto q w)"
    then have "x \<in> set ?es" by (simp add: hf_hits_def)
    then obtain g peers' ports' where g: "g \<in> set hfs" "active g" "(peers', ports') \<in> set (rules g)" "x \<in> set (hf_rule_entries (peers', ports'))"
      unfolding hf_dir_entries_rules by auto
    then show "ha_Allow x" using assms(1) hf_rule_entries_allow [OF _ g(4)] by blast
  qed
  ultimately show ?thesis by (auto simp: hf_admits_def intro: longest_exists)
qed

lemma no_excepts_inside: "no_excepts peers \<Longrightarrow> excepts_inside peers"
  by (simp add: no_excepts_def excepts_inside_def)

section \<open>The agent's resynchronisation\<close>

text \<open>
  The \<^verbatim>\<open>resync\<close> closure of \<^verbatim>\<open>watchHostFirewalls\<close>: the labels of the node and the listed objects come from the
  caches, absent on a cache error. The result counts the failed applications, as \<^verbatim>\<open>hfSyncErrors\<close> does; the
  second direction is applied whether or not the first one succeeded. Logging is left out.
\<close>

definition hf_resync :: "range_order \<Rightarrow> 'w hf_objs \<Rightarrow> machinery \<Rightarrow> (string \<rightharpoonup> string) option \<Rightarrow> HostFirewall list option \<Rightarrow>
    'w \<Rightarrow> nat \<times> 'w" where
  "hf_resync ord m k self listed w =
     (case self of None \<Rightarrow> (0, w)
      | Some nodeLabels \<Rightarrow>
        (case listed of None \<Rightarrow> (0, w)
         | Some hfs \<Rightarrow>
           let c = compileHostFirewalls k hfs nodeLabels
           in case hc_err c of
                Some e \<Rightarrow> (1, snd (BlockHostFirewall m w))
              | None \<Rightarrow>
                (case ApplyHFIngress ord m (hc_ingress c) (hc_in c) w of
                   (e1, w1) \<Rightarrow>
                   (case ApplyHFEgress ord m (hc_egress c) (hc_eg c) w1 of
                      (e2, w2) \<Rightarrow> ((if e1 = None then 0 else 1) + (if e2 = None then 0 else 1), w2)))))"

text \<open>The egress half writes neither the ingress mode nor the ingress rules.\<close>

lemma egress_keeps_ingress:
  assumes "hf_direction m (HfAllow m) vm vp va" "hf_direction m (HfEallow m) vm vp ve" "map_frame (HfEallow m) va"
  shows "triple (\<lambda>w. vm w 0 = M \<and> va w = R) (ApplyHFEgress ord m on entries) (\<lambda>w. vm w 0 = M \<and> va w = R) (\<lambda>w. vm w 0 = M \<and> va w = R)"
    (is "triple ?P _ _ _")
proof -
  have ix: "cfgHFEgEnabled - cfgHFEnabled = 1" by (simp add: hf_consts)
  have mode: "triple ?P (setHFMode m cfgHFEgEnabled v) ?P ?P" for v
    by (rule triple_by_view [where f = "\<lambda>w. (vm w, va w)"],
        rule triple_conseq [OF hf_direction.set_mode [OF assms(1), where R = "\<lambda>r. r = R"]]) (auto simp: ix)
  have "map_frame (HfEallow m) (\<lambda>w. (vm w, va w))"
    using hf_direction.rules_frame [OF assms(2)] assms(3) by (simp add: map_frame_def)
  from frame_keeps [OF this, of "\<lambda>(x, y). x 0 = M \<and> y = R"] have "map_keeps (HfEallow m) ?P" by simp
  then have sync: "triple ?P (syncHFRules ord (HfEallow m) es) ?P ?P" for es
    unfolding syncHFRules_def by (rule sync_desired_keeps)
  show ?thesis unfolding ApplyHFEgress_def applyHFDirection_def
    by (rule triple_seq_inv) (auto intro: mode sync)
qed

lemma hf_resync_ok:
  assumes "hf_resync ord m k (Some nodeLabels) (Some hfs) w = (0, w')"
  obtains w1 where "hc_err (compileHostFirewalls k hfs nodeLabels) = None"
    "ApplyHFIngress ord m (hc_ingress (compileHostFirewalls k hfs nodeLabels)) (hc_in (compileHostFirewalls k hfs nodeLabels)) w = (None, w1)"
    "ApplyHFEgress ord m (hc_egress (compileHostFirewalls k hfs nodeLabels)) (hc_eg (compileHostFirewalls k hfs nodeLabels)) w1 = (None, w')"
  using assms by (auto simp: hf_resync_def Let_def split: option.splits prod.splits if_splits)



text \<open>
  The preflight is a sound budget: a compilation it lets pass has at most 65536 rows in each direction, and
  one it refuses produces none.
\<close>

lemma hf_compile_bounded:
  "length (hc_in (compileHostFirewalls k hfs nodeLabels)) \<le> 65536 \<and>
   length (hc_eg (compileHostFirewalls k hfs nodeLabels)) \<le> 65536"
proof (cases "hc_err (compileHostFirewalls k hfs nodeLabels)")
  case None
  have "hf_preflight k nodeLabels hfs (0, 0, 0) = None"
    using compile_ok(1) [OF None] by (auto simp: validateHFCompilation_def split: if_splits)
  then show ?thesis using hf_preflight_bound [of k nodeLabels hfs 0 0 0] compile_ok(4,5) [OF None]
    by (simp add: policyRowLimit_def)
next
  case (Some e)
  then show ?thesis
    by (auto simp: compileHostFirewalls_def hfCompiled_zero_def hf_compile_fold split: option.splits)
qed

text \<open>
  (C34) A node selector that does not convert disables its object: the API server stores such a firewall, and no
  agent isolates a node for it, so the nodes it was meant to protect stay open.
\<close>

theorem hf_bad_selector_open:
  assumes "LabelSelectorAsSelector k (hfs_NodeSelector (hfo_Spec hf)) = None" "hf_spec_ok (hfo_Spec hf)"
  shows "(\<exists>stored. rest_create (hostFirewallStrategy ctx) hf = Inr stored \<and> hfo_Spec stored = hfo_Spec hf) \<and>
    \<not> hc_ingress (compileHostFirewalls k [hf] nodeLabels) \<and> \<not> hc_egress (compileHostFirewalls k [hf] nodeLabels)"
proof -
  have "rest_create (hostFirewallStrategy ctx) hf = Inr (hf_PrepareForCreate hf)" "hfo_Spec (hf_PrepareForCreate hf) = hfo_Spec hf"
    using assms(2) by (simp_all add: rest_Inr hostFirewallStrategy_def hf_validateSpec_Nil hf_PrepareForCreate_def)
  moreover have "validateHFCompilation k [hf] nodeLabels = None"
    using assms(1) by (simp add: validateHFCompilation_def policyRowLimit_def hf_selects_def)
  ultimately show ?thesis
    using assms(1) by (simp add: compileHostFirewalls_def hfCompiled_zero_def hf_compile_object_fields isolates_in_def isolates_eg_def
        hf_selects_def)
qed

section \<open>A firewall and its nodes\<close>

definition any_selector :: machinery where
  "any_selector = \<lparr> IsDNS1123Subdomain = (\<lambda>_. True), IsDNS1123Label = (\<lambda>_. True),
     LabelSelectorAsSelector = (\<lambda>s. if ls_MatchExpressions s = [] then Some (\<lambda>labels. \<forall>(k, v) \<in> set (ls_MatchLabels s). labels k = Some v)
       else None) \<rparr>"

definition hf_example :: "string list \<Rightarrow> HostFirewall" where
  "hf_example except = \<lparr> hfo_meta = \<lparr> om_Name = ''ssh'', om_Namespace = [], om_UID = ''1'', om_Labels = Map.empty, om_Annotations = Map.empty, om_Finalizers = [],
       om_Generation = 0, om_Deleting = False, om_Created = 0 \<rparr>,
     hfo_Spec = \<lparr> hfs_NodeSelector = \<lparr> ls_MatchLabels = [], ls_MatchExpressions = [] \<rparr>, hfs_PolicyTypes = [],
       hfs_Ingress = [\<lparr> hfr_From = [\<lparr> hfp_CIDR = ''192.0.2.0/24'', hfp_Except = except \<rparr>],
         hfr_Ports = [\<lparr> hfpt_Protocol = ''TCP'', hfpt_Port = 22, hfpt_EndPort = 0 \<rparr>] \<rparr>], hfs_Egress = [] \<rparr>,
     hfo_Status = HostFirewallStatus_zero \<rparr>"

lemma hf_example_cidr:
  "\<exists>ip. parse_cidr ''192.0.2.0/24'' = Some (ip, \<lparr> net_ip = [192, 0, 2, 0], net_mask = cidr_mask 24 4 \<rparr>)"
  by (simp add: net_eval)

lemma hf_example_ok: "hf_spec_ok (hfo_Spec (hf_example []))" "hf_spec_ok (hfo_Spec (hf_example [''192.0.2.0/24'']))"
  using hf_example_cidr
  by (auto simp: hf_spec_ok_def hf_example_def hf_peer_ok_def hf_cidr_ok_def hf_port_ok_def hf_last_port_def)

lemma hf_example_compiled:
  "compileHostFirewalls any_selector [hf_example []] Map.empty =
     \<lparr> hc_ingress = True, hc_egress = False, hc_in = hf_demo_entries, hc_eg = [], hc_warnings = [], hc_err = None \<rparr>"
  using hf_example_cidr
  by (auto simp: compileHostFirewalls_def validateHFCompilation_def hf_compile_object_def hf_example_def any_selector_def
      hf_selects_def hfIsolation_def hf_ingress_rules_def hf_egress_rules_def hf_count_def hf_count_port_def policyRowLimit_def
      policyWorkLimit_def hf_compile_rules_def hfCompileRule_def hfCompilePorts_def hf_port_item_def hfProtoNum_def hf_port_range_def
      hf_peer_item_def hf_peer_rows_def hf_entry_def hfCompiled_zero_def hf_demo_entries_def v4_net_def Let_def)

lemma hf_demo_resync:
  "\<exists>w'. hf_resync (plain_order 0) hf_maps any_selector (Some Map.empty) (Some [hf_example []]) (hf_demo_world []) = (0, w')"
  unfolding hf_resync_def Let_def option.case hf_example_compiled hfCompiled.simps
    ApplyHFIngress_def ApplyHFEgress_def applyHFDirection_def syncHFRules_def if_True if_False append.simps hf_demo_wants fold_err.simps
  by (simp add: do_seq.simps setHFMode_def put_def sync_desired_def syncMap_def hf_maps_def alist_ops_def hf_tick_def
      hf_demo_world_def hf_consts go_range_def plain_order_def stale_keys_def unchanged_keys_def hf_touch_def)



definition hf_bad_example :: HostFirewall where
  "hf_bad_example = hf_example [] \<lparr> hfo_Spec := (hfo_Spec (hf_example []))
     \<lparr> hfs_NodeSelector := \<lparr> ls_MatchLabels = [], ls_MatchExpressions = [(''role'', ''Matches'', [''edge''])] \<rparr> \<rparr> \<rparr>"

theorem hf_bad_selector_open_witness:
  "LabelSelectorAsSelector any_selector (hfs_NodeSelector (hfo_Spec hf_bad_example)) = None \<and>
   \<not> hc_ingress (compileHostFirewalls any_selector [hf_bad_example] Map.empty)"
proof -
  have "LabelSelectorAsSelector any_selector (hfs_NodeSelector (hfo_Spec hf_bad_example)) = None"
    by (simp add: hf_bad_example_def any_selector_def)
  moreover have "hf_spec_ok (hfo_Spec hf_bad_example)"
    using hf_example_ok(1) by (simp add: hf_bad_example_def hf_spec_ok_def)
  ultimately show ?thesis using hf_bad_selector_open [of any_selector hf_bad_example] by blast
qed

text \<open>
  An exception that is not a proper sub-range is dropped in silence: a firewall that admits a range and
  excepts the same range passes validation, and its compiled rows admit the whole range.
\<close>

lemma hf_except_equal_admits:
  "hf_validateSpec (hf_example [''192.0.2.0/24'']) = [] \<and>
   hf_admits (hc_in (compileHostFirewalls any_selector [hf_example [''192.0.2.0/24'']] Map.empty)) 6 22 (Addr4 0xc0000201)"
proof -
  have c: "hc_in (compileHostFirewalls any_selector [hf_example [''192.0.2.0/24'']] Map.empty) =
      hf_demo_entries @ [(hd hf_demo_entries) \<lparr> ha_Allow := False \<rparr>]"
    using hf_example_cidr
    by (auto simp: compileHostFirewalls_def validateHFCompilation_def hf_compile_object_def hf_example_def any_selector_def
        hf_selects_def hfIsolation_def hf_ingress_rules_def hf_egress_rules_def hf_count_def hf_count_port_def policyRowLimit_def
        policyWorkLimit_def hf_compile_rules_def hfCompileRule_def hfCompilePorts_def hf_port_item_def hfProtoNum_def hf_port_range_def
        hf_peer_item_def hf_peer_rows_def hf_entry_def hfCompiled_zero_def hf_demo_entries_def v4_net_def Let_def)
  have "hf_admits (hf_demo_entries @ [(hd hf_demo_entries) \<lparr> ha_Allow := False \<rparr>]) 6 22 (Addr4 0xc0000201)"
    by (simp add: hf_admits_def hf_hits_def hf_demo_entries_def v4_net_cidr be_nat_def top_bits_def longest_allows_def)
  then show ?thesis using hf_example_ok(2) by (simp add: hf_validateSpec_Nil c)
qed

end
