(* ===== verification/VpcRegistry.thy ===== *)
theory VpcRegistry
  imports ApiStrategy
begin

text \<open>
  Admission of VPCs: \<^verbatim>\<open>pkg/registry/sdn/vpc/strategy.go\<close>, \<^verbatim>\<open>pkg/registry/sdn/vpc/boundary.go\<close> and
  \<^verbatim>\<open>ValidateVPCCIDRs\<close> of \<^verbatim>\<open>api/sdn/v1alpha1/vpc_cidrs.go\<close>. The validators are shown to accept exactly the specs
  they describe; the contract of \<^verbatim>\<open>ApiStrategy\<close> then carries this to every stored VPC.
\<close>

section \<open>Specs\<close>

definition MaxVPCCIDRs :: nat where "MaxVPCCIDRs = 1024"
definition MaxVPCCIDRBytes :: nat where "MaxVPCCIDRBytes = 64"

datatype vpc_cidr_error = VPCTooManyCIDRs | VPCCIDRTooLong nat | VPCCIDRUnparsable nat

fun vpc_cidrs_from :: "nat \<Rightarrow> string list \<Rightarrow> vpc_cidr_error option" where
  "vpc_cidrs_from i [] = None"
| "vpc_cidrs_from i (cidr # cidrs) =
     (if MaxVPCCIDRBytes < length cidr then Some (VPCCIDRTooLong i)
      else if parse_cidr cidr = None then Some (VPCCIDRUnparsable i)
      else vpc_cidrs_from (Suc i) cidrs)"

definition ValidateVPCCIDRs :: "string list \<Rightarrow> vpc_cidr_error option" where
  "ValidateVPCCIDRs cidrs =
     (if MaxVPCCIDRs < length cidrs then Some VPCTooManyCIDRs else vpc_cidrs_from 0 cidrs)"

fun vpc_cidr_error_text :: "vpc_cidr_error \<Rightarrow> string" where
  "vpc_cidr_error_text VPCTooManyCIDRs = ''VPC exceeds '' @ itoa MaxVPCCIDRs @ '' input CIDRs''"
| "vpc_cidr_error_text (VPCCIDRTooLong i) =
     ''VPC CIDR at index '' @ itoa i @ '' exceeds '' @ itoa MaxVPCCIDRBytes @ '' bytes''"
| "vpc_cidr_error_text (VPCCIDRUnparsable i) = ''VPC CIDR at index '' @ itoa i @ '' is not a valid IP CIDR''"

subsection \<open>Boundaries\<close>

fun boundary_ports :: "path \<Rightarrow> int set \<Rightarrow> nat \<Rightarrow> int list \<Rightarrow> field_error list" where
  "boundary_ports p seen j [] = []"
| "boundary_ports p seen j (n # ns) =
     (if n < 1 \<or> 65535 < n \<or> n \<in> seen then [Invalid (index p j) ''must be a distinct port in 1..65535''] else [])
     @ boundary_ports p (insert n seen) (Suc j) ns"

definition icmp_byte :: "int option \<Rightarrow> bool" where
  "icmp_byte v = (case v of None \<Rightarrow> False | Some n \<Rightarrow> \<not> (n < 0 \<or> 255 < n))"

definition boundary_rule :: "VPC \<Rightarrow> path \<Rightarrow> VPCBoundaryRule \<Rightarrow> field_error list" where
  "boundary_rule v q r =
     (if vr_Name (br_PeerRef r) = [] \<or> vr_Namespace (br_PeerRef r) = [] \<or>
         (vr_Name (br_PeerRef r) = om_Name (vpc_meta v) \<and> vr_Namespace (br_PeerRef r) = om_Namespace (vpc_meta v))
      then [Invalid (child q [''peerRef'']) ''must identify another VPC''] else []) @
     (if br_Direction r \<noteq> ''ingress'' \<and> br_Direction r \<noteq> ''egress''
      then [NotSupported (child q [''direction'']) [''ingress'', ''egress'']] else []) @
     (if br_Protocol r = ''TCP'' \<or> br_Protocol r = ''UDP'' then
        (if length (br_Ports r) < 1 \<or> 32 < length (br_Ports r) \<or> br_ICMPType r \<noteq> None \<or> br_ICMPCode r \<noteq> None
         then [Invalid q ''TCP/UDP requires 1..32 ports and no ICMP fields''] else []) @
        boundary_ports (child q [''ports'']) {} 0 (br_Ports r)
      else if br_Protocol r = ''ICMP'' then
        (if length (br_Ports r) \<noteq> 0 \<or> \<not> icmp_byte (br_ICMPType r) \<or> \<not> icmp_byte (br_ICMPCode r)
         then [Invalid q ''ICMP requires type/code in 0..255 and no ports''] else [])
      else [NotSupported (child q [''protocol'']) [''TCP'', ''UDP'', ''ICMP'']])"

definition boundary_entries :: "VPCBoundaryRule \<Rightarrow> nat" where
  "boundary_entries r =
     (if br_Protocol r = ''TCP'' \<or> br_Protocol r = ''UDP'' then length (br_Ports r)
      else if br_Protocol r = ''ICMP'' then 2 else 0)"

definition validateBoundary :: "VPC \<Rightarrow> field_error list" where
  "validateBoundary v =
     (case vs_Boundary (vpc_Spec v) of None \<Rightarrow> []
      | Some b \<Rightarrow>
        let p = newPath [''spec'', ''boundary'']; entries = sum_list (map boundary_entries (b_Peers b))
        in (if b_Revision b < 1 then [Invalid (child p [''revision'']) ''must be positive''] else []) @
           (if 256 < length (b_Peers b) then [TooMany (child p [''peers'']) 256] else []) @
           all_errors (\<lambda>i r. boundary_rule v (index (child p [''peers'']) i) r) 0 (b_Peers b) @
           (if 4096 < entries then [TooMany (child p [''peers'']) 4096] else []))"

definition host_bits :: "path \<Rightarrow> nat \<Rightarrow> string \<Rightarrow> field_error list" where
  "host_bits p i cidr =
     (case parse_cidr cidr of
        Some (ip, net) \<Rightarrow> if \<not> ip_equal ip (net_ip net)
          then [Invalid (index p i) ''must be a network CIDR without host bits''] else []
      | None \<Rightarrow> [])"

definition validateVPCSpec :: "VPC \<Rightarrow> field_error list" where
  "validateVPCSpec vpc =
     (let cidrsPath = newPath [''spec'', ''cidrs'']; cidrs = vs_CIDRs (vpc_Spec vpc); m = vs_MTU (vpc_Spec vpc)
      in case ValidateVPCCIDRs cidrs of
           Some err \<Rightarrow> [Invalid cidrsPath (vpc_cidr_error_text err)]
         | None \<Rightarrow>
           if length cidrs = 0 then [Required cidrsPath ''at least one network CIDR is required'']
           else or_else (first_errors (host_bits cidrsPath) 0 cidrs)
             ((if m \<noteq> 0 \<and> (m < 576 \<or> 65535 < m)
               then [Invalid (newPath [''spec'', ''mtu'']) ''must be 0 (the controller default) or between 576 and 65535'']
               else []) @ validateBoundary vpc))"

section \<open>The strategy\<close>

definition VPCStatus_zero :: VPCStatus where
  "VPCStatus_zero = \<lparr> vst_VNI = 0, vst_Phase = [], vst_Conditions = [], vst_BoundaryNodes = [] \<rparr>"

definition vpc_PrepareForCreate :: "VPC \<Rightarrow> VPC" where
  "vpc_PrepareForCreate vpc =
     vpc \<lparr> vpc_Status := VPCStatus_zero, vpc_meta := (vpc_meta vpc) \<lparr> om_Generation := 1 \<rparr> \<rparr>"

definition vpc_PrepareForUpdate :: "VPC \<Rightarrow> VPC \<Rightarrow> VPC" where
  "vpc_PrepareForUpdate newVPC oldVPC =
     newVPC \<lparr> vpc_Status := vpc_Status oldVPC,
              vpc_meta := (vpc_meta newVPC) \<lparr> om_Generation := om_Generation (vpc_meta oldVPC) +
                            (if vpc_Spec newVPC \<noteq> vpc_Spec oldVPC then 1 else 0) \<rparr> \<rparr>"

definition vpc_Validate :: "authorizer option \<Rightarrow> request_ctx \<Rightarrow> VPC \<Rightarrow> field_error list" where
  "vpc_Validate auth ctx v =
     validateVPCSpec v @
     (if vs_Boundary (vpc_Spec v) \<noteq> None
      then opt_error (CheckVPCVerb ctx auth ''manage-boundary'' (om_Namespace (vpc_meta v)) (om_Name (vpc_meta v))
             (newPath [''spec'', ''boundary'']))
      else [])"

definition vpc_ValidateUpdate :: "authorizer option \<Rightarrow> request_ctx \<Rightarrow> VPC \<Rightarrow> VPC \<Rightarrow> field_error list" where
  "vpc_ValidateUpdate auth ctx newVPC oldVPC =
     (let new = vpc_Spec newVPC; old = vpc_Spec oldVPC;
          boundaryChanged = (vs_Boundary new \<noteq> vs_Boundary old);
          networkChanged = (vs_CIDRs new \<noteq> vs_CIDRs old \<or> vs_MTU new \<noteq> vs_MTU old);
          authErrs = (if boundaryChanged \<or> (vs_Boundary old \<noteq> None \<and> networkChanged)
            then opt_error (CheckVPCVerb ctx auth ''manage-boundary'' (om_Namespace (vpc_meta oldVPC))
                   (om_Name (vpc_meta oldVPC)) (newPath [''spec'']))
            else []);
          revErrs = (if boundaryChanged then
              (case (vs_Boundary new, vs_Boundary old) of
                 (Some nb, Some ob) \<Rightarrow> if b_Revision nb \<le> b_Revision ob
                   then [Invalid (newPath [''spec'', ''boundary'', ''revision'']) ''must increase when boundary changes'']
                   else []
               | _ \<Rightarrow> [])
            else [])
      in if \<not> networkChanged \<and> \<not> boundaryChanged then [] else (authErrs @ revErrs) @ validateVPCSpec newVPC)"

definition vpcStatus_PrepareForUpdate :: "VPC \<Rightarrow> VPC \<Rightarrow> VPC" where
  "vpcStatus_PrepareForUpdate newVPC oldVPC =
     newVPC \<lparr> vpc_Spec := vpc_Spec oldVPC,
              vpc_meta := (vpc_meta newVPC) \<lparr> om_Generation := om_Generation (vpc_meta oldVPC) \<rparr> \<rparr>"

definition vpcStatus_ValidateUpdate :: "VPC \<Rightarrow> VPC \<Rightarrow> field_error list" where
  "vpcStatus_ValidateUpdate obj old =
     (let vni = vst_VNI (vpc_Status obj)
      in if vni \<noteq> 0 \<and> \<not> ValidVNI vni
         then [Invalid (newPath [''status'', ''vni'']) ''must be zero (pending) or between 100 and 4194303''] else [])"

definition vpcStrategy :: "authorizer option \<Rightarrow> request_ctx \<Rightarrow> VPC strategy" where
  "vpcStrategy auth ctx = \<lparr>
     PrepareForCreate = vpc_PrepareForCreate,
     Validate = vpc_Validate auth ctx,
     PrepareForUpdate = vpc_PrepareForUpdate,
     ValidateUpdate = vpc_ValidateUpdate auth ctx,
     StatusPrepareForUpdate = vpcStatus_PrepareForUpdate,
     StatusValidateUpdate = vpcStatus_ValidateUpdate \<rparr>"

interpretation vpc_kind: generation_strategy "vpcStrategy auth" vpc_meta vpc_Spec vpc_Status VPCStatus_zero
  by unfold_locales
    (simp_all add: vpcStrategy_def vpc_PrepareForCreate_def vpc_PrepareForUpdate_def vpcStatus_PrepareForUpdate_def)

section \<open>What the validators accept\<close>

definition network_cidr :: "string \<Rightarrow> bool" where
  "network_cidr s \<longleftrightarrow> length s \<le> 64 \<and> (\<exists>ip net. parse_cidr s = Some (ip, net) \<and> ip_equal ip (net_ip net))"

definition boundary_rule_ok :: "VPC \<Rightarrow> VPCBoundaryRule \<Rightarrow> bool" where
  "boundary_rule_ok v r \<longleftrightarrow>
     vr_Name (br_PeerRef r) \<noteq> [] \<and> vr_Namespace (br_PeerRef r) \<noteq> [] \<and>
     (vr_Namespace (br_PeerRef r), vr_Name (br_PeerRef r)) \<noteq> (om_Namespace (vpc_meta v), om_Name (vpc_meta v)) \<and>
     br_Direction r \<in> {''ingress'', ''egress''} \<and>
     (br_Protocol r \<in> {''TCP'', ''UDP''} \<and> br_Ports r \<noteq> [] \<and> length (br_Ports r) \<le> 32 \<and> distinct (br_Ports r) \<and>
        set (br_Ports r) \<subseteq> {1..65535} \<and> br_ICMPType r = None \<and> br_ICMPCode r = None \<or>
      br_Protocol r = ''ICMP'' \<and> br_Ports r = [] \<and>
        (\<exists>t \<in> {0..255}. br_ICMPType r = Some t) \<and> (\<exists>c \<in> {0..255}. br_ICMPCode r = Some c))"

definition boundary_ok :: "VPC \<Rightarrow> VPCBoundary \<Rightarrow> bool" where
  "boundary_ok v b \<longleftrightarrow>
     1 \<le> b_Revision b \<and> length (b_Peers b) \<le> 256 \<and> (\<forall>r \<in> set (b_Peers b). boundary_rule_ok v r) \<and>
     sum_list (map boundary_entries (b_Peers b)) \<le> 4096"

definition vpc_spec_ok :: "VPC \<Rightarrow> bool" where
  "vpc_spec_ok v \<longleftrightarrow>
     vs_CIDRs (vpc_Spec v) \<noteq> [] \<and> length (vs_CIDRs (vpc_Spec v)) \<le> 1024 \<and>
     (\<forall>c \<in> set (vs_CIDRs (vpc_Spec v)). network_cidr c) \<and>
     (vs_MTU (vpc_Spec v) = 0 \<or> vs_MTU (vpc_Spec v) \<in> {576..65535}) \<and>
     (\<forall>b. vs_Boundary (vpc_Spec v) = Some b \<longrightarrow> boundary_ok v b)"

lemma vpc_cidrs_from_None:
  "vpc_cidrs_from i cidrs = None \<longleftrightarrow> (\<forall>c \<in> set cidrs. length c \<le> 64 \<and> parse_cidr c \<noteq> None)"
  by (induction i cidrs rule: vpc_cidrs_from.induct) (auto simp: MaxVPCCIDRBytes_def)

lemma boundary_ports_Nil:
  "boundary_ports p seen j ns = [] \<longleftrightarrow> distinct ns \<and> set ns \<inter> seen = {} \<and> set ns \<subseteq> {1..65535}"
  by (induction p seen j ns rule: boundary_ports.induct) auto

lemma icmp_byte_iff: "icmp_byte v \<longleftrightarrow> (\<exists>n \<in> {0..255}. v = Some n)"
  by (auto simp: icmp_byte_def split: option.splits)

lemma boundary_rule_Nil: "boundary_rule v q r = [] \<longleftrightarrow> boundary_rule_ok v r"
proof -
  have l: "Suc 0 \<le> length (br_Ports r) \<longleftrightarrow> br_Ports r \<noteq> []" by (cases "br_Ports r") auto
  show ?thesis
    by (cases "br_Protocol r = ''ICMP''")
      (auto simp: boundary_rule_def boundary_rule_ok_def boundary_ports_Nil icmp_byte_iff not_less l)
qed

lemma validateBoundary_Nil [no_errors]:
  "validateBoundary v = [] \<longleftrightarrow> (\<forall>b. vs_Boundary (vpc_Spec v) = Some b \<longrightarrow> boundary_ok v b)"
proof (cases "vs_Boundary (vpc_Spec v)")
  case (Some b)
  have "all_errors (\<lambda>i r. boundary_rule v (index p i) r) 0 (b_Peers b) = [] \<longleftrightarrow>
        (\<forall>r \<in> set (b_Peers b). boundary_rule_ok v r)" for p
    by (rule all_errors_Nil) (rule boundary_rule_Nil)
  then show ?thesis by (auto simp: validateBoundary_def boundary_ok_def Some Let_def not_less)
qed (simp add: validateBoundary_def)

lemma validateVPCSpec_Nil [no_errors]: "validateVPCSpec v = [] \<longleftrightarrow> vpc_spec_ok v"
proof -
  have h: "first_errors (host_bits p) 0 cs = [] \<longleftrightarrow> (\<forall>c \<in> set cs. host_bits p 0 c = [])" for p cs
    by (rule first_errors_Nil) (simp add: host_bits_def split: option.splits)
  have n: "length c \<le> 64 \<and> parse_cidr c \<noteq> None \<and> host_bits p 0 c = [] \<longleftrightarrow> network_cidr c" for p c
    by (auto simp: host_bits_def network_cidr_def split: option.splits if_splits)
  let ?cs = "vs_CIDRs (vpc_Spec v)" and ?p = "newPath [''spec'', ''cidrs'']"
  have c: "ValidateVPCCIDRs ?cs = None \<longleftrightarrow>
      length ?cs \<le> 1024 \<and> (\<forall>c \<in> set ?cs. length c \<le> 64 \<and> parse_cidr c \<noteq> None)"
    by (simp add: ValidateVPCCIDRs_def MaxVPCCIDRs_def vpc_cidrs_from_None)
  have e: "ValidateVPCCIDRs ?cs = None \<and> (\<forall>c \<in> set ?cs. host_bits ?p 0 c = []) \<longleftrightarrow>
      length ?cs \<le> 1024 \<and> (\<forall>c \<in> set ?cs. network_cidr c)"
    unfolding c using n [of _ ?p] by blast
  have m: "(if m \<noteq> 0 \<and> (m < 576 \<or> 65535 < m) then [x] else []) = [] \<longleftrightarrow> m = 0 \<or> m \<in> {576..65535}"
    for m :: int and x :: field_error
    by auto
  show ?thesis
  proof (cases "ValidateVPCCIDRs ?cs")
    case None
    then show ?thesis using e
      by (simp only: validateVPCSpec_def Let_def vpc_spec_ok_def option.case if_False length_0_conv h m
          or_else_Nil append_is_Nil_conv validateBoundary_Nil list.distinct simp_thms split: if_split) blast
  next
    case (Some err)
    then have "\<not> vpc_spec_ok v" using e by (auto simp: vpc_spec_ok_def)
    then show ?thesis by (simp add: validateVPCSpec_def Let_def Some)
  qed
qed

section \<open>Properties\<close>

lemma vpc_spec_ok_meta:
  "vpc_Spec a = vpc_Spec b \<Longrightarrow> om_Name (vpc_meta a) = om_Name (vpc_meta b) \<Longrightarrow>
   om_Namespace (vpc_meta a) = om_Namespace (vpc_meta b) \<Longrightarrow> vpc_spec_ok a = vpc_spec_ok b"
  by (simp add: vpc_spec_ok_def boundary_ok_def boundary_rule_ok_def)

lemma vpc_ValidateUpdate_Nil:
  "vpc_ValidateUpdate auth ctx new old = [] \<longleftrightarrow>
     vpc_Spec new = vpc_Spec old \<or>
     vpc_spec_ok new \<and>
     (vs_Boundary (vpc_Spec new) \<noteq> vs_Boundary (vpc_Spec old) \<or> vs_Boundary (vpc_Spec old) \<noteq> None \<longrightarrow>
        (\<forall>a. auth = Some a \<longrightarrow> authorized ctx a ''manage-boundary'' ''vpcs''
               (om_Namespace (vpc_meta old)) (om_Name (vpc_meta old)))) \<and>
     (\<forall>nb ob. vs_Boundary (vpc_Spec new) = Some nb \<longrightarrow> vs_Boundary (vpc_Spec old) = Some ob \<longrightarrow> nb \<noteq> ob \<longrightarrow>
        b_Revision ob < b_Revision nb)"
proof -
  have eq: "vpc_Spec new = vpc_Spec old \<longleftrightarrow> vs_CIDRs (vpc_Spec new) = vs_CIDRs (vpc_Spec old) \<and>
      vs_MTU (vpc_Spec new) = vs_MTU (vpc_Spec old) \<and> vs_Boundary (vpc_Spec new) = vs_Boundary (vpc_Spec old)"
    by (auto intro: VPCSpec.equality)
  show ?thesis
    by (cases "vs_Boundary (vpc_Spec new)"; cases "vs_Boundary (vpc_Spec old)")
      (auto simp: vpc_ValidateUpdate_def Let_def eq validateVPCSpec_Nil CheckVPCVerb_None not_le)
qed

lemma vpc_history_spec: "history (vpcStrategy auth) vpc_meta vs \<Longrightarrow> list_all vpc_spec_ok vs"
proof (erule history_invariant)
  fix ctx obj old
  assume "vpc_spec_ok old" "same_object (vpc_meta obj) (vpc_meta old)"
    "StatusValidateUpdate (vpcStrategy auth ctx) (StatusPrepareForUpdate (vpcStrategy auth ctx) obj old) old = []"
  then show "vpc_spec_ok (StatusPrepareForUpdate (vpcStrategy auth ctx) obj old)"
    by (subst vpc_spec_ok_meta [of _ old]) (auto simp: vpcStrategy_def vpcStatus_PrepareForUpdate_def same_object_def)
next
  fix ctx obj old
  assume "vpc_spec_ok old" and m: "same_object (vpc_meta obj) (vpc_meta old)"
    and v: "ValidateUpdate (vpcStrategy auth ctx) (PrepareForUpdate (vpcStrategy auth ctx) obj old) old = []"
  moreover have "vpc_spec_ok (PrepareForUpdate (vpcStrategy auth ctx) obj old) = vpc_spec_ok old"
    if "vpc_Spec (vpc_PrepareForUpdate obj old) = vpc_Spec old"
    using that m by (intro vpc_spec_ok_meta) (auto simp: vpcStrategy_def vpc_PrepareForUpdate_def same_object_def)
  ultimately show "vpc_spec_ok (PrepareForUpdate (vpcStrategy auth ctx) obj old)"
    by (auto simp: vpcStrategy_def vpc_ValidateUpdate_Nil)
qed (simp add: vpcStrategy_def vpc_Validate_def validateVPCSpec_Nil)

text \<open>(C10) Every version of a VPC that the store ever holds, whatever the requests and whoever sent them, is a working
  network: at least one and at most 1024 CIDRs, each of them a network address without host bits, an MTU of zero
  or in range, a well-formed boundary, and a VNI that is still pending or fits the tunnel header.\<close>

theorem vpc_stored_sound:
  assumes "history (vpcStrategy auth) vpc_meta vs" "v \<in> set vs"
  shows "vpc_spec_ok v \<and> (vst_VNI (vpc_Status v) = 0 \<or> ValidVNI (vst_VNI (vpc_Status v)))"
proof -
  have "\<forall>v \<in> set vs. vst_VNI (vpc_Status v) = 0 \<or> ValidVNI (vst_VNI (vpc_Status v))"
    using assms(1)
    by (rule vpc_kind.history_status)
      (auto simp: VPCStatus_zero_def vpcStrategy_def vpcStatus_ValidateUpdate_def Let_def split: if_splits)
  then show ?thesis using vpc_history_spec [OF assms(1)] assms(2) by (simp add: list_all_iff)
qed

text \<open>The generation of a VPC names its spec: it never decreases, and two versions of a VPC with the same
  generation have the same spec, so a report about a generation is a report about one spec.\<close>

lemma vpc_generation_names_spec:
  assumes "history (vpcStrategy auth) vpc_meta (newer @ v # older)" "u \<in> set older"
  shows "om_Generation (vpc_meta u) \<le> om_Generation (vpc_meta v) \<and>
    (om_Generation (vpc_meta u) = om_Generation (vpc_meta v) \<longrightarrow> vpc_Spec u = vpc_Spec v)"
  using vpc_kind.history_generation [OF assms(1)] assms(2) by (simp add: sorted_wrt_append)

text \<open>(C11) No request changes the boundary of a VPC, or the network of a VPC that has a boundary, unless the
  authorizer allows its user to manage the boundary of that VPC; and a boundary that replaces another carries a
  larger revision.\<close>

theorem vpc_boundary_authority:
  assumes "rest_update (vpcStrategy (Some authorize) ctx) r old = Inr new"
    and "vpc_Spec new \<noteq> vpc_Spec old"
    and "vs_Boundary (vpc_Spec new) \<noteq> vs_Boundary (vpc_Spec old) \<or> vs_Boundary (vpc_Spec old) \<noteq> None"
  shows "authorized ctx authorize ''manage-boundary'' ''vpcs'' (om_Namespace (vpc_meta old)) (om_Name (vpc_meta old)) \<and>
    (\<forall>nb ob. vs_Boundary (vpc_Spec new) = Some nb \<and> vs_Boundary (vpc_Spec old) = Some ob \<and> nb \<noteq> ob \<longrightarrow>
       b_Revision ob < b_Revision nb)"
proof (cases r)
  case (UpdateMain obj)
  then have "vpc_ValidateUpdate (Some authorize) ctx new old = []"
    using assms(1) by (auto simp: rest_Inr vpcStrategy_def)
  then show ?thesis using assms(2,3) by (auto simp: vpc_ValidateUpdate_Nil)
next
  case (UpdateStatus obj)
  then show ?thesis using vpc_kind.status_request_keeps_spec assms(1,2) by blast
qed

subsection \<open>A VPC and its requests\<close>

definition meta_example :: ObjectMeta where
  "meta_example = \<lparr> om_Name = ''net'', om_Namespace = ''tenant'', om_UID = ''1'', om_Labels = Map.empty, om_Annotations = Map.empty,
     om_Finalizers = [], om_Generation = 0, om_Deleting = False, om_Created = 0 \<rparr>"

definition boundary_example :: "int \<Rightarrow> VPCBoundary" where
  "boundary_example n = \<lparr> b_Revision = n, b_Internet = False, b_Peers =
     [\<lparr> br_PeerRef = \<lparr> vr_Namespace = ''tenant'', vr_Name = ''other'' \<rparr>, br_Direction = ''ingress'', br_Protocol = ''TCP'',
        br_Ports = [443], br_ICMPType = None, br_ICMPCode = None \<rparr>] \<rparr>"

definition vpc_example :: "VPCBoundary option \<Rightarrow> VPC" where
  "vpc_example b = \<lparr> vpc_meta = meta_example,
     vpc_Spec = \<lparr> vs_CIDRs = [''10.0.0.0/8''], vs_MTU = 1400, vs_Boundary = b \<rparr>, vpc_Status = VPCStatus_zero \<rparr>"

definition allow_alice :: authorizer where
  "allow_alice a = (if ar_User a = ''alice'' then (DecisionAllow, [], None) else (DecisionNoOpinion, [], None))"

lemmas vpc_example_defs = vpc_example_def boundary_example_def meta_example_def VPCStatus_zero_def vpcStrategy_def
  vpc_PrepareForCreate_def vpc_PrepareForUpdate_def vpcStatus_PrepareForUpdate_def

lemma network_cidr_example: "network_cidr ''10.0.0.0/8''"
  by (simp add: network_cidr_def net_eval ip_equal_def)

lemma vpc_spec_ok_example: "vpc_spec_ok (vpc_example None)" "1 \<le> n \<Longrightarrow> vpc_spec_ok (vpc_example (Some (boundary_example n)))"
  by (simp_all add: vpc_spec_ok_def vpc_example_def network_cidr_example boundary_example_def boundary_ok_def
      boundary_rule_ok_def boundary_entries_def meta_example_def)

definition vpc_first :: VPC where
  "vpc_first = vpc_PrepareForCreate (vpc_example None)"

definition vpc_second :: VPC where
  "vpc_second = vpc_PrepareForUpdate (vpc_example (Some (boundary_example 1))) vpc_first"

lemma vpc_second_update:
  "rest_update (vpcStrategy (Some allow_alice) (Some ''alice'')) (UpdateMain (vpc_example (Some (boundary_example 1)))) vpc_first
     = Inr vpc_second"
proof -
  have "vpc_spec_ok vpc_second"
    using vpc_spec_ok_example(2) [of 1] vpc_spec_ok_meta [of vpc_second "vpc_example (Some (boundary_example 1))"]
    by (simp add: vpc_second_def vpc_PrepareForUpdate_def)
  moreover have "authorized (Some ''alice'') allow_alice verb resource ns name" for verb resource ns name
    by (simp add: authorized_def allow_alice_def)
  ultimately show ?thesis
    by (simp add: rest_Inr vpcStrategy_def vpc_ValidateUpdate_Nil vpc_second_def) (simp add: vpc_first_def vpc_example_defs)
qed

lemma vpc_history_example: "history (vpcStrategy (Some allow_alice)) vpc_meta [vpc_second, vpc_first]"
proof (rule history.updated)
  have "vpc_spec_ok vpc_first"
    using vpc_spec_ok_example(1) vpc_spec_ok_meta [of vpc_first "vpc_example None"]
    by (simp add: vpc_first_def vpc_PrepareForCreate_def)
  then have "rest_create (vpcStrategy (Some allow_alice) None) (vpc_example None) = Inr vpc_first"
    by (simp add: rest_Inr vpcStrategy_def vpc_Validate_def validateVPCSpec_Nil vpc_first_def)
      (simp add: vpc_example_defs)
  then show "history (vpcStrategy (Some allow_alice)) vpc_meta [vpc_first]" by (rule history.created)
  show "same_object (vpc_meta (submitted (UpdateMain (vpc_example (Some (boundary_example 1)))))) (vpc_meta vpc_first)"
    by (simp add: same_object_def vpc_first_def vpc_example_defs)
qed (rule vpc_second_update)

theorem vpc_stored_sound_witness:
  "history (vpcStrategy (Some allow_alice)) vpc_meta [vpc_second, vpc_first] \<and> vpc_spec_ok vpc_second"
  using vpc_history_example vpc_stored_sound [OF vpc_history_example, of vpc_second] by simp

theorem vpc_boundary_authority_witness:
  "vs_Boundary (vpc_Spec vpc_first) \<noteq> vs_Boundary (vpc_Spec vpc_second) \<and>
   authorized (Some ''alice'') allow_alice ''manage-boundary'' ''vpcs'' ''tenant'' ''net''"
proof -
  have c: "vs_Boundary (vpc_Spec vpc_second) \<noteq> vs_Boundary (vpc_Spec vpc_first)"
    and m: "om_Namespace (vpc_meta vpc_first) = ''tenant''" "om_Name (vpc_meta vpc_first) = ''net''"
    by (simp_all add: vpc_first_def vpc_second_def vpc_example_defs)
  then have "vpc_Spec vpc_second \<noteq> vpc_Spec vpc_first" by auto
  with c show ?thesis using vpc_boundary_authority [OF vpc_second_update] m by simp
qed

end
