(* ===== verification/ClaimRegistry.thy ===== *)
theory ClaimRegistry
  imports ApiStrategy Claims
begin

text \<open>
  Admission of the two kinds that claim addresses, Ports (\<^verbatim>\<open>pkg/registry/sdn/port/strategy.go\<close>) and ServiceVIPs
  (\<^verbatim>\<open>pkg/registry/sdn/servicevip/strategy.go\<close>), with the persistent NIC identity of
  \<^verbatim>\<open>pkg/registry/sdn/claim/persistent.go\<close>. Every stored object of either kind carries the name of its claim.
\<close>

section \<open>Hardware addresses\<close>

text \<open>\<^verbatim>\<open>net.ParseMAC\<close>: six, eight or twenty bytes in the colon, dash or dot notation.\<close>

definition xtoi2 :: "string \<Rightarrow> char option \<Rightarrow> u8 option" where
  "xtoi2 s e =
     (if 2 < length s \<and> Some (s ! 2) \<noteq> e then None
      else case (hex_val (s ! 0), hex_val (s ! 1)) of (Some a, Some b) \<Rightarrow> Some (of_nat (16 * a + b)) | _ \<Rightarrow> None)"

definition parse_mac :: "string \<Rightarrow> u8 list option" where
  "parse_mac s =
     (if length s < 14 then None
      else if s ! 2 = CHR '':'' \<or> s ! 2 = CHR ''-'' then
        (let n = (length s + 1) div 3
         in if (length s + 1) mod 3 \<noteq> 0 \<or> (n \<noteq> 6 \<and> n \<noteq> 8 \<and> n \<noteq> 20) then None
            else those (map (\<lambda>i. xtoi2 (drop (3 * i) s) (Some (s ! 2))) [0..<n]))
      else if s ! 4 = CHR ''.'' then
        (let n = 2 * (length s + 1) div 5
         in if (length s + 1) mod 5 \<noteq> 0 \<or> (n \<noteq> 6 \<and> n \<noteq> 8 \<and> n \<noteq> 20) then None
            else those (map (\<lambda>i. if even i then xtoi2 (take 2 (drop (5 * (i div 2)) s)) None
                                 else xtoi2 (drop (5 * (i div 2) + 2) s) (Some (s ! 4))) [0..<n]))
      else None)"

section \<open>Persistent NICs\<close>

definition LabelVMName :: string where "LabelVMName = ''sdn.cozystack.io/vm-name''"
definition LabelVMNIC :: string where "LabelVMNIC = ''sdn.cozystack.io/vm-nic''"

definition IsPersistent :: "Port \<Rightarrow> bool" where
  "IsPersistent p = (label (port_meta p) LabelVMName \<noteq> [])"

definition SamePersistentNIC :: "Port \<Rightarrow> Port \<Rightarrow> bool" where
  "SamePersistentNIC a b =
     (IsPersistent a \<and> IsPersistent b \<and> pts_PodNamespace (port_Spec a) = pts_PodNamespace (port_Spec b) \<and>
      pts_VPCRef (port_Spec a) = pts_VPCRef (port_Spec b) \<and>
      label (port_meta a) LabelVMName = label (port_meta b) LabelVMName \<and>
      label (port_meta a) LabelVMNIC = label (port_meta b) LabelVMNIC)"

section \<open>Ports\<close>

definition PortStatus_zero :: PortStatus where
  "PortStatus_zero = \<lparr> ptst_Groups = [], ptst_GroupRefs = [], ptst_GroupPodUID = [] \<rparr>"

definition port_PrepareForCreate :: "Port \<Rightarrow> Port" where
  "port_PrepareForCreate port = port \<lparr> port_Status := PortStatus_zero \<rparr>"

definition port_PrepareForUpdate :: "Port \<Rightarrow> Port \<Rightarrow> Port" where
  "port_PrepareForUpdate newPort oldPort = newPort \<lparr> port_Status := port_Status oldPort \<rparr>"

definition persistent_errors :: "Port \<Rightarrow> field_error list" where
  "persistent_errors port =
     (if IsPersistent port then
        concat (map (\<lambda>(p, value). if value = [] then [Required p ''persistent NIC identity must be complete''] else [])
          [(newPath [''spec'', ''podNamespace''], pts_PodNamespace (port_Spec port)),
           (newPath [''spec'', ''vpcRef'', ''namespace''], vr_Namespace (pts_VPCRef (port_Spec port))),
           (newPath [''spec'', ''vpcRef'', ''name''], vr_Name (pts_VPCRef (port_Spec port))),
           (key (newPath [''metadata'', ''labels'']) LabelVMNIC, label (port_meta port) LabelVMNIC)]) @
        (case parse_mac (pts_MAC (port_Spec port)) of
           Some mac \<Rightarrow> if length mac \<noteq> 6 \<or> mac ! 0 AND 1 \<noteq> 0
             then [Invalid (newPath [''spec'', ''mac'']) ''persistent NIC requires a six-byte unicast MAC''] else []
         | None \<Rightarrow> [Invalid (newPath [''spec'', ''mac'']) ''persistent NIC requires a six-byte unicast MAC''])
      else [])"

definition claim_errors :: "string \<Rightarrow> (int \<Rightarrow> string \<Rightarrow> string) \<Rightarrow> string \<Rightarrow> string \<Rightarrow> field_error list" where
  "claim_errors pre name_of name ip =
     (case ParseClaim pre name of
        None \<Rightarrow> [Invalid (newPath [''metadata'', ''name'']) (''must have the form '' @ pre @ ''<vni>.<escaped spec.ip>: the name is the address claim'')]
      | Some (vni, _) \<Rightarrow>
          if name \<noteq> name_of vni ip
          then [Invalid (newPath [''metadata'', ''name'']) (''must be '' @ quoted (name_of vni ip) @ '' ('' @ pre @ ''<vni>.<escaped spec.ip>): the name is the address claim'')]
          else [])"

definition address_errors :: "string \<Rightarrow> (int \<Rightarrow> string \<Rightarrow> string) \<Rightarrow> string \<Rightarrow> string \<Rightarrow> field_error list" where
  "address_errors pre name_of name spec_ip =
     (case parse_ip spec_ip of
        None \<Rightarrow> [Invalid (newPath [''spec'', ''ip'']) ''must be an IP address in canonical form'']
      | Some ip \<Rightarrow>
          if ip_string ip \<noteq> spec_ip then [Invalid (newPath [''spec'', ''ip'']) ''must be an IP address in canonical form'']
          else (if IsReserved ip then [Invalid (newPath [''spec'', ''ip'']) ''reserved platform bridge or hairpin address''] else []) @
               claim_errors pre name_of name spec_ip)"

definition port_Validate :: "Port \<Rightarrow> field_error list" where
  "port_Validate port =
     persistent_errors port @
     address_errors ClaimPrefixPort PortName (om_Name (port_meta port)) (pts_IP (port_Spec port))"

definition validatePersistentUpdate :: "Port \<Rightarrow> Port \<Rightarrow> field_error list" where
  "validatePersistentUpdate new old =
     concat (map (\<lambda>k. if label (port_meta new) k \<noteq> label (port_meta old) k
         then [Forbidden (key (newPath [''metadata'', ''labels'']) k) ''immutable persistent NIC identity''] else [])
       [LabelVMName, LabelVMNIC]) @
     (if IsPersistent old then
        (if pts_PodNamespace (port_Spec new) \<noteq> pts_PodNamespace (port_Spec old)
         then [Forbidden (newPath [''spec'', ''podNamespace'']) ''immutable persistent NIC namespace''] else []) @
        (if pts_MAC (port_Spec new) \<noteq> pts_MAC (port_Spec old)
         then [Forbidden (newPath [''spec'', ''mac'']) ''immutable pinned MAC''] else [])
      else [])"

definition port_ValidateUpdate :: "Port \<Rightarrow> Port \<Rightarrow> field_error list" where
  "port_ValidateUpdate newPort oldPort =
     (if pts_IP (port_Spec newPort) \<noteq> pts_IP (port_Spec oldPort)
      then [Forbidden (newPath [''spec'', ''ip'']) ''immutable: the Port name is the claim on this address''] else []) @
     (if pts_VPCRef (port_Spec newPort) \<noteq> pts_VPCRef (port_Spec oldPort)
      then [Forbidden (newPath [''spec'', ''vpcRef'']) ''immutable: the claim is scoped to the VPC's VNI''] else []) @
     validatePersistentUpdate newPort oldPort"

definition portStatus_PrepareForUpdate :: "Port \<Rightarrow> Port \<Rightarrow> Port" where
  "portStatus_PrepareForUpdate newPort oldPort = newPort \<lparr> port_Spec := port_Spec oldPort \<rparr>"

definition portStatus_ValidateUpdate :: "Port \<Rightarrow> Port \<Rightarrow> field_error list" where
  "portStatus_ValidateUpdate obj old =
     (let groups = ptst_Groups (port_Status obj); p = newPath [''status'', ''groups'']
      in if 63 < length groups then [TooMany p 63]
         else or_else
           (first_errors (\<lambda>i id. if id \<noteq> 0 \<and> \<not> ValidGroup id then [Invalid (index p i) ''must be between 0 and 62''] else []) 0 groups)
           (validatePersistentUpdate obj old))"

definition portStrategy :: "request_ctx \<Rightarrow> Port strategy" where
  "portStrategy ctx = \<lparr>
     PrepareForCreate = port_PrepareForCreate,
     Validate = port_Validate,
     PrepareForUpdate = port_PrepareForUpdate,
     ValidateUpdate = port_ValidateUpdate,
     StatusPrepareForUpdate = portStatus_PrepareForUpdate,
     StatusValidateUpdate = portStatus_ValidateUpdate \<rparr>"

interpretation port_kind: resource_strategy portStrategy port_meta port_Spec port_Status PortStatus_zero
  by unfold_locales
    (simp_all add: portStrategy_def port_PrepareForCreate_def port_PrepareForUpdate_def portStatus_PrepareForUpdate_def)

section \<open>Service VIPs\<close>

definition ServiceVIPStatus_zero :: ServiceVIPStatus where
  "ServiceVIPStatus_zero = \<lparr> svst_Backends = [], svst_Phase = [], svst_Conditions = [] \<rparr>"

definition svip_PrepareForCreate :: "ServiceVIP \<Rightarrow> ServiceVIP" where
  "svip_PrepareForCreate svip = svip \<lparr> sv_Status := ServiceVIPStatus_zero \<rparr>"

definition svip_PrepareForUpdate :: "ServiceVIP \<Rightarrow> ServiceVIP \<Rightarrow> ServiceVIP" where
  "svip_PrepareForUpdate new old = new \<lparr> sv_Status := sv_Status old \<rparr>"

definition svip_validatePort :: "string \<Rightarrow> int \<Rightarrow> path \<Rightarrow> field_error list" where
  "svip_validatePort protocol port p =
     (if protocol \<noteq> ''TCP'' \<and> protocol \<noteq> ''UDP'' then [NotSupported (child p [''protocol'']) [''TCP'', ''UDP'']] else []) @
     (if port < 1 \<or> 65535 < port then [Invalid (child p [''port'']) ''must be between 1 and 65535''] else [])"

definition validateVIPPorts :: "ServiceVIP \<Rightarrow> field_error list" where
  "validateVIPPorts vip =
     all_errors (\<lambda>i port. svip_validatePort (vipp_Protocol port) (vipp_Port port) (index (newPath [''spec'', ''ports'']) i)) 0
       (svs_Ports (sv_Spec vip))"

definition svip_Validate :: "ServiceVIP \<Rightarrow> field_error list" where
  "svip_Validate svip =
     validateVIPPorts svip @
     address_errors ClaimPrefixServiceVIP ServiceVIPName (om_Name (sv_meta svip)) (svs_IP (sv_Spec svip))"

definition svip_ValidateUpdate :: "ServiceVIP \<Rightarrow> ServiceVIP \<Rightarrow> field_error list" where
  "svip_ValidateUpdate newVIP oldVIP =
     validateVIPPorts newVIP @
     (if svs_IP (sv_Spec newVIP) \<noteq> svs_IP (sv_Spec oldVIP)
      then [Forbidden (newPath [''spec'', ''ip'']) ''immutable: the ServiceVIP name is the claim on this address''] else []) @
     (if svs_VPCRef (sv_Spec newVIP) \<noteq> svs_VPCRef (sv_Spec oldVIP)
      then [Forbidden (newPath [''spec'', ''vpcRef'']) ''immutable: the claim is scoped to the VPC's VNI''] else [])"

definition svipStatus_PrepareForUpdate :: "ServiceVIP \<Rightarrow> ServiceVIP \<Rightarrow> ServiceVIP" where
  "svipStatus_PrepareForUpdate new old = new \<lparr> sv_Spec := sv_Spec old \<rparr>"

definition svipStatus_ValidateUpdate :: "ServiceVIP \<Rightarrow> ServiceVIP \<Rightarrow> field_error list" where
  "svipStatus_ValidateUpdate obj old =
     all_errors (\<lambda>i backend. all_errors (\<lambda>j port.
         let p = index (child (index (newPath [''status'', ''backends'']) i) [''ports'']) j
         in svip_validatePort (vbp_Protocol port) (vbp_Port port) p @
            (if vbp_TargetPort port < 1 \<or> 65535 < vbp_TargetPort port
             then [Invalid (child p [''targetPort'']) ''must be between 1 and 65535''] else [])) 0 (vbe_Ports backend)) 0
       (svst_Backends (sv_Status obj))"

definition serviceVIPStrategy :: "request_ctx \<Rightarrow> ServiceVIP strategy" where
  "serviceVIPStrategy ctx = \<lparr>
     PrepareForCreate = svip_PrepareForCreate,
     Validate = svip_Validate,
     PrepareForUpdate = svip_PrepareForUpdate,
     ValidateUpdate = svip_ValidateUpdate,
     StatusPrepareForUpdate = svipStatus_PrepareForUpdate,
     StatusValidateUpdate = svipStatus_ValidateUpdate \<rparr>"

interpretation svip_kind: resource_strategy serviceVIPStrategy sv_meta sv_Spec sv_Status ServiceVIPStatus_zero
  by unfold_locales
    (simp_all add: serviceVIPStrategy_def svip_PrepareForCreate_def svip_PrepareForUpdate_def svipStatus_PrepareForUpdate_def)

section \<open>What a stored claim says\<close>

text \<open>A stored claim is named by the address it holds: a canonical, unreserved address in a VNI of the tunnel header.\<close>

definition holds_claim :: "(int \<Rightarrow> string \<Rightarrow> string) \<Rightarrow> string \<Rightarrow> string \<Rightarrow> int \<Rightarrow> bool" where
  "holds_claim name_of name ip vni \<longleftrightarrow> name = name_of vni ip \<and> ValidVNI vni \<and> canonical_ip ip \<and>
     (\<forall>a. parse_ip ip = Some a \<longrightarrow> \<not> IsReserved a)"

definition port_claims :: "Port \<Rightarrow> int \<Rightarrow> bool" where
  "port_claims p = holds_claim PortName (om_Name (port_meta p)) (pts_IP (port_Spec p))"

definition svip_claims :: "ServiceVIP \<Rightarrow> int \<Rightarrow> bool" where
  "svip_claims v = holds_claim ServiceVIPName (om_Name (sv_meta v)) (svs_IP (sv_Spec v))"

lemma ParseClaim_valid: "ParseClaim pre name = Some (vni, esc) \<Longrightarrow> ValidVNI vni"
  by (auto simp: ParseClaim_def ValidVNI_def Let_def split: if_splits option.splits prod.splits)

lemma address_errors_Nil [no_errors]:
  assumes "\<And>vni ip. ValidVNI vni \<Longrightarrow> canonical_ip ip \<Longrightarrow> ParseClaim pre (name_of vni ip) = Some (vni, EscapeIP ip)"
  shows "address_errors pre name_of name ip = [] \<longleftrightarrow> (\<exists>vni. holds_claim name_of name ip vni)"
proof -
  have c: "claim_errors pre name_of name ip = [] \<longleftrightarrow> (\<exists>vni. ValidVNI vni \<and> name = name_of vni ip)" if "canonical_ip ip"
  proof
    assume "claim_errors pre name_of name ip = []"
    then obtain vni esc where "ParseClaim pre name = Some (vni, esc)" "name = name_of vni ip"
      by (auto simp: claim_errors_def split: option.splits if_splits)
    then show "\<exists>vni. ValidVNI vni \<and> name = name_of vni ip" using ParseClaim_valid by blast
  next
    assume "\<exists>vni. ValidVNI vni \<and> name = name_of vni ip"
    then obtain vni where "ValidVNI vni" "name = name_of vni ip" by blast
    then show "claim_errors pre name_of name ip = []" using assms [OF _ that] by (simp add: claim_errors_def)
  qed
  show ?thesis
  proof (cases "parse_ip ip")
    case None
    then show ?thesis by (simp add: address_errors_def holds_claim_def canonical_ip_def)
  next
    case (Some a)
    show ?thesis
    proof (cases "ip_string a = ip")
      case True
      then have "canonical_ip ip" using Some by (simp add: canonical_ip_def)
      then show ?thesis using c True Some by (auto simp: address_errors_def holds_claim_def)
    qed (use Some in \<open>simp add: address_errors_def holds_claim_def canonical_ip_def\<close>)
  qed
qed

lemma claim_parses:
  assumes "ValidVNI vni" "canonical_ip ip"
  shows "ParseClaim ClaimPrefixPort (PortName vni ip) = Some (vni, EscapeIP ip)"
    and "ParseClaim ClaimPrefixServiceVIP (ServiceVIPName vni ip) = Some (vni, EscapeIP ip)"
  unfolding PortName_def ServiceVIPName_def
  by (rule ParseClaim_name [OF assms(1) canonical_escape_not_Nil [OF assms(2)]])+

lemma port_Validate_claims: "port_Validate p = [] \<Longrightarrow> \<exists>vni. port_claims p vni"
  using address_errors_Nil [where pre = ClaimPrefixPort and name_of = PortName] claim_parses(1)
  by (simp add: port_Validate_def port_claims_def)

lemma svip_Validate_claims: "svip_Validate v = [] \<Longrightarrow> \<exists>vni. svip_claims v vni"
  using address_errors_Nil [where pre = ClaimPrefixServiceVIP and name_of = ServiceVIPName] claim_parses(2)
  by (simp add: svip_Validate_def svip_claims_def)

text \<open>What no request changes of a stored Port: its address, its VPC, and of a persistent NIC its identity.\<close>

definition port_identity :: "Port \<Rightarrow> string \<times> string \<times> VPCRef \<times> string \<times> string" where
  "port_identity p = (om_Name (port_meta p), pts_IP (port_Spec p), pts_VPCRef (port_Spec p),
     label (port_meta p) LabelVMName, label (port_meta p) LabelVMNIC)"

definition pinned :: "Port \<Rightarrow> Port \<Rightarrow> bool" where
  "pinned new old \<longleftrightarrow> port_identity new = port_identity old \<and>
     (IsPersistent old \<longrightarrow> pts_PodNamespace (port_Spec new) = pts_PodNamespace (port_Spec old) \<and>
        pts_MAC (port_Spec new) = pts_MAC (port_Spec old))"

lemma validatePersistentUpdate_Nil [no_errors]:
  "validatePersistentUpdate new old = [] \<longleftrightarrow>
     label (port_meta new) LabelVMName = label (port_meta old) LabelVMName \<and>
     label (port_meta new) LabelVMNIC = label (port_meta old) LabelVMNIC \<and>
     (IsPersistent old \<longrightarrow> pts_PodNamespace (port_Spec new) = pts_PodNamespace (port_Spec old) \<and>
        pts_MAC (port_Spec new) = pts_MAC (port_Spec old))"
  by (auto simp: validatePersistentUpdate_def)

lemma port_update_pinned:
  assumes "rest_update (portStrategy ctx) r old = Inr new" "same_object (port_meta (submitted r)) (port_meta old)"
  shows "pinned new old"
proof (cases r)
  case (UpdateMain obj)
  then show ?thesis using assms
    by (auto simp: rest_Inr portStrategy_def port_ValidateUpdate_def port_PrepareForUpdate_def same_object_def pinned_def
        port_identity_def validatePersistentUpdate_Nil split: if_splits)
next
  case (UpdateStatus obj)
  then show ?thesis using assms
    by (auto simp: rest_Inr portStrategy_def portStatus_ValidateUpdate_def portStatus_PrepareForUpdate_def same_object_def
        pinned_def port_identity_def Let_def validatePersistentUpdate_Nil split: if_splits)
qed

lemma svip_update_pinned:
  assumes "rest_update (serviceVIPStrategy ctx) r old = Inr new" "same_object (sv_meta (submitted r)) (sv_meta old)"
  shows "om_Name (sv_meta new) = om_Name (sv_meta old) \<and> svs_IP (sv_Spec new) = svs_IP (sv_Spec old)"
proof (cases r)
  case (UpdateMain obj)
  then show ?thesis using assms
    by (auto simp: rest_Inr serviceVIPStrategy_def svip_ValidateUpdate_def svip_PrepareForUpdate_def same_object_def split: if_splits)
next
  case (UpdateStatus obj)
  then show ?thesis using assms
    by (auto simp: rest_Inr serviceVIPStrategy_def svipStatus_PrepareForUpdate_def same_object_def)
qed

lemma pinned_claims: "pinned new old \<Longrightarrow> port_claims new vni \<longleftrightarrow> port_claims old vni"
  by (simp add: pinned_def port_identity_def port_claims_def)

lemma pinned_SamePersistentNIC: "pinned new old \<Longrightarrow> SamePersistentNIC p new \<longleftrightarrow> SamePersistentNIC p old"
  by (auto simp: pinned_def port_identity_def SamePersistentNIC_def IsPersistent_def)

lemma SamePersistentNIC_sym: "SamePersistentNIC a b \<longleftrightarrow> SamePersistentNIC b a"
  by (auto simp: SamePersistentNIC_def)

end
