(* ===== verification/ClaimStore.thy ===== *)
theory ClaimStore
  imports ClaimRegistry "HOL-Library.Char_ord" "HOL-Library.List_Lexorder"
begin

text \<open>
  The storage of address claims, \<^verbatim>\<open>pkg/registry/sdn/claim/atomic.go\<close> and \<^verbatim>\<open>persistent.go\<close>, with the cross-kind check
  that the two registries make before it (\<^verbatim>\<open>port/etcd.go\<close>, \<^verbatim>\<open>servicevip/etcd.go\<close>). Everything the code calls
  outside the repository is a field of the record \<^verbatim>\<open>atomicStorage\<close>: the request context, the etcd
  client, the key functions, the codec and the encryption. A call takes and returns the world, which holds the store
  and everybody else who writes to it.
\<close>

section \<open>The storage and what it calls\<close>

datatype claim_obj = PortObj Port | VIPObj ServiceVIP

record 'b kv =
  kv_Key :: string
  kv_Value :: 'b
  kv_ModRevision :: int

text \<open>A page of a range request; the header and each entry may be nil.\<close>

record 'b page =
  pg_Revision :: "int option"
  pg_Kvs :: "'b kv option list"
  pg_More :: bool

datatype cmp = CmpVersionZero string | CmpModRevisionBelow string string int

record 'b txn_response =
  tr_Succeeded :: bool
  tr_Responses :: "'b kv list list"

record ('w, 'b, 'd) atomicStorage =
  st_Err :: "'w \<Rightarrow> string option \<times> 'w"
  st_Get :: "string \<Rightarrow> string \<Rightarrow> nat \<Rightarrow> int \<Rightarrow> 'w \<Rightarrow> (string + 'b page option) \<times> 'w"
  st_Txn :: "cmp list \<Rightarrow> string \<Rightarrow> 'b \<Rightarrow> string list \<Rightarrow> 'w \<Rightarrow> (string + 'b txn_response) \<times> 'w"
  st_RangeEnd :: "string \<Rightarrow> string"
  st_Prefix :: string
  st_PrepareKey :: "string \<Rightarrow> string + string"
  st_twinKey :: "string \<Rightarrow> string + string"
  st_ResourceVersion :: "claim_obj \<Rightarrow> string + nat"
  st_PrepareObject :: "claim_obj \<Rightarrow> string + claim_obj"
  st_Encode :: "claim_obj \<Rightarrow> string + 'd"
  st_ToStorage :: "'d \<Rightarrow> string \<Rightarrow> 'w \<Rightarrow> (string + 'b) \<times> 'w"
  st_FromStorage :: "'b \<Rightarrow> string \<Rightarrow> string + 'd"
  st_Decode :: "'d \<Rightarrow> string + claim_obj"
  st_Len :: "'b \<Rightarrow> nat"

datatype store_error =
  Fault string | ResourceVersionSet | KeyExists string | AlreadyExists string | InvalidClaims string | Contention

definition persistentCreateAttempts :: nat where "persistentCreateAttempts = 8"
definition persistentScanLimit :: nat where "persistentScanLimit = 65536"
definition persistentPageSize :: nat where "persistentPageSize = 128"
definition persistentScanBytes :: nat where "persistentScanBytes = 64 * 2 ^ 20"
definition MaxInt64 :: int where "MaxInt64 = 2 ^ 63 - 1"

section \<open>The scan for a persistent NIC\<close>

record scan =
  sc_match :: string
  sc_seen :: nat
  sc_bytes :: nat

text \<open>\<^verbatim>\<open>prepared[:strings.LastIndex(prepared, "/")+1]\<close>\<close>

definition key_dir :: "string \<Rightarrow> string" where
  "key_dir k = rev (dropWhile (\<lambda>c. c \<noteq> CHR ''/'') (rev k))"

definition guard_entry ::
    "('w, 'b, 'd) atomicStorage \<Rightarrow> string \<Rightarrow> string \<Rightarrow> string \<Rightarrow> Port \<Rightarrow> 'b kv option \<Rightarrow> scan \<Rightarrow> store_error + scan" where
  "guard_entry s dir pre start port entry sc =
     (case entry of
        None \<Rightarrow> Inl (Fault ''persistent NIC snapshot exceeds its byte budget or has a missing entry'')
      | Some e \<Rightarrow>
          if persistentScanBytes - sc_bytes sc < st_Len s (kv_Value e)
          then Inl (Fault ''persistent NIC snapshot exceeds its byte budget or has a missing entry'')
          else let sc = sc \<lparr> sc_bytes := sc_bytes sc + st_Len s (kv_Value e), sc_seen := sc_seen sc + 1 \<rparr>
          in if persistentScanLimit < sc_seen sc \<or> \<not> has_prefix (kv_Key e) pre \<or> kv_Key e < start
          then Inl (Fault ''persistent NIC snapshot exceeds its scope or claim budget'')
          else case st_FromStorage s (kv_Value e) (kv_Key e) of
            Inl err \<Rightarrow> Inl (Fault err)
          | Inr data \<Rightarrow> (case st_Decode s data of
              Inl err \<Rightarrow> Inl (Fault err)
            | Inr (VIPObj _) \<Rightarrow> Inl (Fault ''unable to decode into a Port'')
            | Inr (PortObj stored) \<Rightarrow>
                if kv_Key e \<noteq> dir @ om_Name (port_meta stored)
                then Inl (Fault ''persistent NIC snapshot has inconsistent claim identity'')
                else if SamePersistentNIC port stored
                then (if sc_match sc \<noteq> [] then Inl (InvalidClaims (om_Name (port_meta port)))
                      else Inr (sc \<lparr> sc_match := om_Name (port_meta stored) \<rparr>))
                else Inr sc))"

fun guard_entries ::
    "('w, 'b, 'd) atomicStorage \<Rightarrow> string \<Rightarrow> string \<Rightarrow> string \<Rightarrow> Port \<Rightarrow> 'b kv option list \<Rightarrow> scan \<Rightarrow> 'w \<Rightarrow>
     (store_error + scan) \<times> 'w" where
  "guard_entries s dir pre start port [] sc w = (Inr sc, w)"
| "guard_entries s dir pre start port (e # es) sc w =
     (case st_Err s w of
        (Some err, w) \<Rightarrow> (Inl (Fault err), w)
      | (None, w) \<Rightarrow> (case guard_entry s dir pre start port e sc of
            Inl err \<Rightarrow> (Inl err, w)
          | Inr sc \<Rightarrow> guard_entries s dir pre start port es sc w))"

lemma guard_entry_seen: "guard_entry s dir pre start port e sc = Inr sc' \<Longrightarrow> sc_seen sc' = sc_seen sc + 1"
  by (auto simp: guard_entry_def Let_def split: option.splits if_splits sum.splits claim_obj.splits)

lemma guard_entries_seen:
  "guard_entries s dir pre start port es sc w = (Inr sc', w') \<Longrightarrow> sc_seen sc' = sc_seen sc + length es"
  by (induction s dir pre start port es sc w rule: guard_entries.induct)
    (auto split: option.splits prod.splits sum.splits dest: guard_entry_seen)

text \<open>What the scan finds: the revision of its snapshot and the name of the claim of the same NIC, if there is one.\<close>

function guard_pages ::
    "('w, 'b, 'd) atomicStorage \<Rightarrow> string \<Rightarrow> string \<Rightarrow> Port \<Rightarrow> string \<Rightarrow> int \<Rightarrow> scan \<Rightarrow> 'w \<Rightarrow>
     (store_error + int \<times> string) \<times> 'w" where
  "guard_pages s dir pre port start revision sc w =
     (let end = st_RangeEnd s pre in
      case st_Err s w of
        (Some err, w) \<Rightarrow> (Inl (Fault err), w)
      | (None, w) \<Rightarrow> (case st_Get s start end persistentPageSize revision w of
          (Inl err, w) \<Rightarrow> (Inl (Fault err), w)
        | (Inr None, w) \<Rightarrow> (Inl (Fault ''incomplete persistent NIC snapshot''), w)
        | (Inr (Some page), w) \<Rightarrow> (case pg_Revision page of
            None \<Rightarrow> (Inl (Fault ''incomplete persistent NIC snapshot''), w)
          | Some header \<Rightarrow>
              if header \<le> 0 then (Inl (Fault ''incomplete persistent NIC snapshot''), w)
              else if persistentPageSize < length (pg_Kvs page)
              then (Inl (Fault ''persistent NIC snapshot exceeds its page budget''), w)
              else let revision = (if revision = 0 then header else revision) in
              case guard_entries s dir pre start port (pg_Kvs page) sc w of
                (Inl err, w) \<Rightarrow> (Inl err, w)
              | (Inr sc, w) \<Rightarrow>
                  if \<not> pg_More page then (Inr (revision, sc_match sc), w)
                  else if pg_Kvs page = [] \<or> persistentScanLimit \<le> sc_seen sc
                  then (Inl (Fault ''incomplete or oversized persistent NIC snapshot''), w)
                  else let nxt = kv_Key (the (last (pg_Kvs page))) @ [CHR 0x00] in
                  if nxt \<le> start \<or> end \<le> nxt
                  then (Inl (Fault ''persistent NIC snapshot did not advance''), w)
                  else guard_pages s dir pre port nxt revision sc w)))"
  by pat_completeness auto

termination
proof (relation "measure (\<lambda>(_, _, _, _, _, _, sc, _). persistentScanLimit - sc_seen sc)")
qed (auto dest!: guard_entries_seen [OF sym] simp flip: length_greater_0_conv)

declare guard_pages.simps [simp del]

definition persistentGuard :: "('w, 'b, 'd) atomicStorage \<Rightarrow> string \<Rightarrow> Port \<Rightarrow> 'w \<Rightarrow> (store_error + cmp) \<times> 'w" where
  "persistentGuard s prepared port w =
     (let vni = (case ParseClaim ClaimPrefixPort (om_Name (port_meta port)) of Some (vni, _) \<Rightarrow> vni | None \<Rightarrow> 0);
          pre = key_dir prepared @ ''v'' @ itoa_int vni @ ''.''
      in case guard_pages s (key_dir prepared) pre port pre 0 \<lparr> sc_match = [], sc_seen = 0, sc_bytes = 0 \<rparr> w of
        (Inl err, w) \<Rightarrow> (Inl err, w)
      | (Inr (revision, found), w) \<Rightarrow>
          if found \<noteq> [] then (Inl (AlreadyExists found), w)
          else if revision = MaxInt64 then (Inl Contention, w)
          else (Inr (CmpModRevisionBelow pre (st_RangeEnd s pre) (revision + 1)), w))"

text \<open>The guard never answers that the key exists.\<close>

lemma guard_entry_no_exists: "guard_entry s dir pre start port e sc \<noteq> Inl (KeyExists k)"
  by (auto simp: guard_entry_def Let_def split: option.splits sum.splits claim_obj.splits)

lemma guard_entries_no_exists: "guard_entries s dir pre start port es sc w \<noteq> (Inl (KeyExists k), w')"
  by (induction s dir pre start port es sc w rule: guard_entries.induct)
    (auto simp: guard_entry_no_exists split: option.splits prod.splits sum.splits)

lemma guard_pages_no_exists: "guard_pages s dir pre port start revision sc w \<noteq> (Inl (KeyExists k), w')"
proof (induction s dir pre port start revision sc w rule: guard_pages.induct)
  case (1 s dir pre port start revision sc w)
  show ?case
    by (subst guard_pages.simps)
      (auto simp: Let_def 1 guard_entries_no_exists split: option.splits prod.splits sum.splits)
qed

section \<open>Create\<close>

fun twin_name :: "claim_obj \<Rightarrow> string + string" where
  "twin_name (PortObj p) =
     (case ParseClaim ClaimPrefixPort (om_Name (port_meta p)) of
        None \<Rightarrow> Inl ''invalid Port claim''
      | Some (vni, _) \<Rightarrow> Inr (ServiceVIPName vni (pts_IP (port_Spec p))))"
| "twin_name (VIPObj v) =
     (case ParseClaim ClaimPrefixServiceVIP (om_Name (sv_meta v)) of
        None \<Rightarrow> Inl ''invalid ServiceVIP claim''
      | Some (vni, _) \<Rightarrow> Inr (PortName vni (svs_IP (sv_Spec v))))"

definition claim_guard ::
    "('w, 'b, 'd) atomicStorage \<Rightarrow> string \<Rightarrow> claim_obj \<Rightarrow> 'w \<Rightarrow> (store_error + cmp list) \<times> 'w" where
  "claim_guard s prepared obj w =
     (case obj of
        PortObj port \<Rightarrow>
          if IsPersistent port
          then (case persistentGuard s prepared port w of
                  (Inl err, w) \<Rightarrow> (Inl err, w) | (Inr guard, w) \<Rightarrow> (Inr [guard], w))
          else (Inr [], w)
      | VIPObj _ \<Rightarrow> (Inr [], w))"

lemma claim_guard_no_exists: "claim_guard s prepared obj w \<noteq> (Inl (KeyExists k), w')"
  by (auto simp: claim_guard_def persistentGuard_def Let_def guard_pages_no_exists
      split: claim_obj.splits option.splits prod.splits sum.splits)

text \<open>The attempts that are left; nil is the result \<^const>\<open>None\<close>.\<close>

fun create_attempts ::
    "nat \<Rightarrow> ('w, 'b, 'd) atomicStorage \<Rightarrow> string \<Rightarrow> string \<Rightarrow> claim_obj \<Rightarrow> 'd \<Rightarrow> 'b \<Rightarrow> bool \<Rightarrow> 'w \<Rightarrow> store_error option \<times> 'w" where
  "create_attempts 0 s prepared twin obj data encrypted out w = (Some Contention, w)"
| "create_attempts (Suc n) s prepared twin obj data encrypted out w =
     (case st_Err s w of
        (Some err, w) \<Rightarrow> (Some (Fault err), w)
      | (None, w) \<Rightarrow> (case claim_guard s prepared obj w of
          (Inl err, w) \<Rightarrow> (Some err, w)
        | (Inr guard, w) \<Rightarrow>
            (case st_Txn s ([CmpVersionZero prepared, CmpVersionZero twin] @ guard) prepared encrypted [prepared, twin] w of
               (Inl err, w) \<Rightarrow> (Some (Fault err), w)
             | (Inr response, w) \<Rightarrow>
                 if tr_Succeeded response
                 then (if out then (case st_Decode s data of Inl err \<Rightarrow> (Some (Fault err), w) | Inr _ \<Rightarrow> (None, w))
                       else (None, w))
                 else if \<exists>got \<in> set (tr_Responses response). got \<noteq> [] then (Some (KeyExists prepared), w)
                 else create_attempts n s prepared twin obj data encrypted out w)))"

definition trim_prefix :: "string \<Rightarrow> string \<Rightarrow> string" where
  "trim_prefix s p = (case cut_prefix p s of Some t \<Rightarrow> t | None \<Rightarrow> s)"

definition trim_suffix :: "string \<Rightarrow> string \<Rightarrow> string" where
  "trim_suffix s p = (if has_suffix s p then take (length s - length p) s else s)"

definition physical_key :: "('w, 'b, 'd) atomicStorage \<Rightarrow> string \<Rightarrow> string" where
  "physical_key s k = trim_suffix (st_Prefix s) ''/'' @ ''/'' @ trim_prefix k ''/''"

definition atomic_Create ::
    "('w, 'b, 'd) atomicStorage \<Rightarrow> string \<Rightarrow> claim_obj \<Rightarrow> bool \<Rightarrow> nat \<Rightarrow> 'w \<Rightarrow> store_error option \<times> 'w" where
  "atomic_Create s k obj out ttl w =
     (case twin_name obj of Inl err \<Rightarrow> (Some (Fault err), w) | Inr twinName \<Rightarrow>
      if ttl \<noteq> 0 then (Some (Fault ''address claims cannot expire''), w)
      else case st_PrepareKey s k of Inl err \<Rightarrow> (Some (Fault err), w) | Inr prepared \<Rightarrow>
      (case st_twinKey s twinName of Inl err \<Rightarrow> (Some (Fault err), w) | Inr twin \<Rightarrow>
      (case st_ResourceVersion s obj of Inl err \<Rightarrow> (Some (Fault err), w) | Inr rv \<Rightarrow>
       if rv \<noteq> 0 then (Some ResourceVersionSet, w)
       else case st_PrepareObject s obj of Inl err \<Rightarrow> (Some (Fault err), w) | Inr obj \<Rightarrow>
      (case st_Encode s obj of Inl err \<Rightarrow> (Some (Fault err), w) | Inr data \<Rightarrow>
      (case st_ToStorage s data (physical_key s prepared) w of
         (Inl err, w) \<Rightarrow> (Some (Fault err), w)
       | (Inr encrypted, w) \<Rightarrow>
           create_attempts persistentCreateAttempts s (physical_key s prepared) (physical_key s twin) obj data encrypted out w)))))"

section \<open>The check across kinds before a create\<close>

datatype begin_error = LookupFailed string | Conflict string string

text \<open>\<^verbatim>\<open>StoreExists\<close> turns the lookup of a store into the existence check of its twin; a missing object is the
  answer \<^const>\<open>None\<close> of the lookup.\<close>

definition StoreExists :: "(string \<Rightarrow> string + 'o option) \<Rightarrow> string \<Rightarrow> string + bool" where
  "StoreExists get name = (case get name of Inl err \<Rightarrow> Inl err | Inr None \<Rightarrow> Inr False | Inr (Some _) \<Rightarrow> Inr True)"

definition port_BeginCreate :: "(string \<Rightarrow> string + bool) \<Rightarrow> Port \<Rightarrow> begin_error option" where
  "port_BeginCreate exists port =
     (case ParseClaim ClaimPrefixPort (om_Name (port_meta port)) of
        None \<Rightarrow> None
      | Some (vni, _) \<Rightarrow>
          let twinName = ServiceVIPName vni (pts_IP (port_Spec port))
          in case exists twinName of
               Inl err \<Rightarrow> Some (LookupFailed err)
             | Inr taken \<Rightarrow> if taken
                 then Some (Conflict (om_Name (port_meta port)) (''VPC IP '' @ pts_IP (port_Spec port) @ '' (VNI '' @ itoa_int vni @
                        '') is already held by ServiceVIP '' @ twinName))
                 else None)"

definition svip_BeginCreate :: "(string \<Rightarrow> string + bool) \<Rightarrow> ServiceVIP \<Rightarrow> begin_error option" where
  "svip_BeginCreate exists svip =
     (case ParseClaim ClaimPrefixServiceVIP (om_Name (sv_meta svip)) of
        None \<Rightarrow> None
      | Some (vni, _) \<Rightarrow>
          let twinName = PortName vni (svs_IP (sv_Spec svip))
          in case exists twinName of
               Inl err \<Rightarrow> Some (LookupFailed err)
             | Inr taken \<Rightarrow> if taken
                 then Some (Conflict (om_Name (sv_meta svip)) (''VPC IP '' @ svs_IP (sv_Spec svip) @ '' (VNI '' @ itoa_int vni @
                        '') is already held by Port '' @ twinName))
                 else None)"

text \<open>The check looks for the claim that the storage excludes in its transaction: it never refuses what the storage
  would accept at the same time.\<close>

lemma BeginCreate_twin:
  "port_BeginCreate exists p = None \<longleftrightarrow> (\<forall>twin. twin_name (PortObj p) = Inr twin \<longrightarrow> exists twin = Inr False)"
  "svip_BeginCreate exists v = None \<longleftrightarrow> (\<forall>twin. twin_name (VIPObj v) = Inr twin \<longrightarrow> exists twin = Inr False)"
  by (auto simp: port_BeginCreate_def svip_BeginCreate_def Let_def split: option.splits sum.splits)

end
