(* ===== verification/ClaimSafety.thy ===== *)
theory ClaimSafety
  imports ClaimStore "HOL-Library.AList"
begin

text \<open>
  Why the storage of claims is safe with any number of writers. The store is seen as etcd documents it, a map from
  keys to values that remembers all its revisions (\<^verbatim>\<open>mvcc\<close>). The specification is the relation \<^verbatim>\<open>claim_step\<close>:
  each writer creates, updates or deletes one claim atomically, and creates only what nobody holds. The refinement
  shows that \<^verbatim>\<open>atomic_Create\<close>, which reads page by page and then commits in a transaction while others write, performs
  only such steps; the invariant shows that such steps never give an address, or a persistent NIC, two holders.
\<close>

section \<open>A store that remembers its revisions\<close>

record 'b mvcc =
  mv_rev :: int
  mv_at :: "int \<Rightarrow> string \<rightharpoonup> 'b \<times> int"

definition mv_now :: "'b mvcc \<Rightarrow> string \<rightharpoonup> 'b \<times> int" where
  "mv_now s = mv_at s (mv_rev s)"

definition mv_write :: "'b mvcc \<Rightarrow> string \<Rightarrow> 'b option \<Rightarrow> 'b mvcc" where
  "mv_write s k v = \<lparr> mv_rev = mv_rev s + 1,
     mv_at = (mv_at s)(mv_rev s + 1 := (mv_now s)(k := map_option (\<lambda>v. (v, mv_rev s + 1)) v)) \<rparr>"

abbreviation mv_put :: "'b mvcc \<Rightarrow> string \<Rightarrow> 'b \<Rightarrow> 'b mvcc" where
  "mv_put s k v \<equiv> mv_write s k (Some v)"

text \<open>A row carries the revision of its last change: it has been there, unchanged, since then.\<close>

definition mv_ok :: "'b mvcc \<Rightarrow> bool" where
  "mv_ok s \<longleftrightarrow> (\<forall>r k v m. r \<le> mv_rev s \<longrightarrow> mv_at s r k = Some (v, m) \<longrightarrow>
     m \<le> r \<and> (\<forall>r'. m \<le> r' \<and> r' \<le> r \<longrightarrow> mv_at s r' k = Some (v, m)))"

definition later :: "'b mvcc \<Rightarrow> 'b mvcc \<Rightarrow> bool" where
  "later s t \<longleftrightarrow> mv_rev s \<le> mv_rev t \<and> (\<forall>r \<le> mv_rev s. mv_at t r = mv_at s r)"

lemma mv_rev_write [simp]: "mv_rev (mv_write s k v) = mv_rev s + 1"
  by (simp add: mv_write_def)

lemma mv_now_write [simp]: "mv_now (mv_write s k v) = (mv_now s)(k := map_option (\<lambda>v. (v, mv_rev s + 1)) v)"
  by (simp add: mv_now_def mv_write_def)

lemma mv_at_write_old: "r \<le> mv_rev s \<Longrightarrow> mv_at (mv_write s k v) r = mv_at s r"
  by (simp add: mv_write_def)

lemma mv_okD:
  "mv_ok s \<Longrightarrow> r \<le> mv_rev s \<Longrightarrow> mv_at s r k = Some (v, m) \<Longrightarrow> m \<le> r"
  "mv_ok s \<Longrightarrow> r \<le> mv_rev s \<Longrightarrow> mv_at s r k = Some (v, m) \<Longrightarrow> m \<le> r' \<Longrightarrow> r' \<le> r \<Longrightarrow> mv_at s r' k = Some (v, m)"
  unfolding mv_ok_def by blast+

lemma mv_ok_write:
  assumes "mv_ok s"
  shows "mv_ok (mv_write s k v)"
  unfolding mv_ok_def
proof (intro allI impI)
  fix r l x m
  let ?t = "mv_write s k v"
  assume r: "r \<le> mv_rev ?t" and row: "mv_at ?t r l = Some (x, m)"
  show "m \<le> r \<and> (\<forall>r'. m \<le> r' \<and> r' \<le> r \<longrightarrow> mv_at ?t r' l = Some (x, m))"
  proof (cases "r \<le> mv_rev s")
    case True
    then have old: "mv_at s r l = Some (x, m)" using row by (simp add: mv_at_write_old)
    have "mv_at ?t r' l = Some (x, m)" if "m \<le> r'" "r' \<le> r" for r'
      using mv_okD(2) [OF assms True old that] mv_at_write_old [of r' s] that True by simp
    then show ?thesis using mv_okD(1) [OF assms True old] by blast
  next
    case False
    then have new: "r = mv_rev s + 1" using r by simp
    show ?thesis
    proof (cases "l = k")
      case True
      then have "m = r" using row new by (auto simp: mv_write_def)
      then show ?thesis using row by auto
    next
      case False
      then have now: "mv_at s (mv_rev s) l = Some (x, m)" using row new by (simp add: mv_write_def mv_now_def)
      have "mv_at ?t r' l = Some (x, m)" if "m \<le> r'" "r' \<le> r" for r'
      proof (cases "r' = r")
        case False
        then have "r' \<le> mv_rev s" using that new by simp
        then show ?thesis using mv_okD(2) [OF assms order_refl now that(1)] by (simp add: mv_at_write_old)
      qed (simp add: row)
      moreover have "m \<le> r" using mv_okD(1) [OF assms order_refl now] new by simp
      ultimately show ?thesis by blast
    qed
  qed
qed

lemma later_refl [simp]: "later s s"
  by (simp add: later_def)

lemma later_trans: "later s t \<Longrightarrow> later t u \<Longrightarrow> later s u"
  by (auto simp: later_def)

lemma later_write: "later s (mv_write s k v)"
  by (simp add: later_def mv_at_write_old)

text \<open>The core of the optimistic guard: a row of the store now that has not changed since a revision was already
  there, as it is, at that revision.\<close>

lemma unchanged_row:
  assumes "later s t" "mv_ok t" "mv_now t k = Some (v, m)" "m < mv_rev s + 1"
  shows "mv_now s k = Some (v, m)"
proof -
  have "mv_at t (mv_rev s) k = Some (v, m)"
    by (rule mv_okD(2) [OF assms(2) order_refl assms(3) [unfolded mv_now_def]]) (use assms(1,4) in \<open>simp_all add: later_def\<close>)
  then show ?thesis using assms(1) by (simp add: later_def mv_now_def)
qed

section \<open>The specification: one claim at a time\<close>

fun claim_valid :: "claim_obj \<Rightarrow> bool" where
  "claim_valid (PortObj p) = (port_Validate p = [])"
| "claim_valid (VIPObj v) = (svip_Validate v = [])"

fun claim_key :: "string \<Rightarrow> string \<Rightarrow> claim_obj \<Rightarrow> string" where
  "claim_key pdir vdir (PortObj p) = pdir @ om_Name (port_meta p)"
| "claim_key pdir vdir (VIPObj v) = vdir @ om_Name (sv_meta v)"

fun other_dir :: "string \<Rightarrow> string \<Rightarrow> claim_obj \<Rightarrow> string" where
  "other_dir pdir vdir (PortObj p) = vdir"
| "other_dir pdir vdir (VIPObj v) = pdir"

fun claims_address :: "claim_obj \<Rightarrow> int \<Rightarrow> string \<Rightarrow> bool" where
  "claims_address (PortObj p) vni ip = (port_claims p vni \<and> pts_IP (port_Spec p) = ip)"
| "claims_address (VIPObj v) vni ip = (svip_claims v vni \<and> svs_IP (sv_Spec v) = ip)"

definition stored :: "(string \<Rightarrow> 'b \<Rightarrow> claim_obj option) \<Rightarrow> 'b mvcc \<Rightarrow> string \<Rightarrow> claim_obj \<Rightarrow> bool" where
  "stored load s k obj \<longleftrightarrow> (\<exists>v m. mv_now s k = Some (v, m) \<and> load k v = Some obj)"

text \<open>The registry accepts this version of a stored object.\<close>

inductive accepted :: "claim_obj \<Rightarrow> claim_obj \<Rightarrow> bool" where
  "rest_update (portStrategy ctx) r old = Inr new \<Longrightarrow> same_object (port_meta (submitted r)) (port_meta old) \<Longrightarrow>
     accepted (PortObj old) (PortObj new)"
| "rest_update (serviceVIPStrategy ctx) r' old' = Inr new' \<Longrightarrow> same_object (sv_meta (submitted r')) (sv_meta old') \<Longrightarrow>
     accepted (VIPObj old') (VIPObj new')"

text \<open>Nobody in the VNI holds the persistent NIC of the object.\<close>

definition nic_free :: "(string \<Rightarrow> 'b \<Rightarrow> claim_obj option) \<Rightarrow> string \<Rightarrow> 'b mvcc \<Rightarrow> claim_obj \<Rightarrow> bool" where
  "nic_free load pdir s obj \<longleftrightarrow>
     (\<forall>p vni q. obj = PortObj p \<and> port_claims p vni \<and> stored load s (pdir @ om_Name (port_meta q)) (PortObj q) \<and>
        port_claims q vni \<longrightarrow> \<not> SamePersistentNIC p q)"

inductive claim_step :: "(string \<Rightarrow> 'b \<Rightarrow> claim_obj option) \<Rightarrow> string \<Rightarrow> string \<Rightarrow> 'b mvcc \<Rightarrow> 'b mvcc \<Rightarrow> bool"
  for load :: "string \<Rightarrow> 'b \<Rightarrow> claim_obj option" and pdir vdir :: string where
  create: "claim_valid obj \<Longrightarrow> twin_name obj = Inr twin \<Longrightarrow> mv_now s (claim_key pdir vdir obj) = None \<Longrightarrow>
     mv_now s (other_dir pdir vdir obj @ twin) = None \<Longrightarrow> nic_free load pdir s obj \<Longrightarrow>
     load (claim_key pdir vdir obj) v = Some obj \<Longrightarrow>
     claim_step load pdir vdir s (mv_put s (claim_key pdir vdir obj) v)"
| update: "stored load s k old \<Longrightarrow> accepted old new \<Longrightarrow> load k v = Some new \<Longrightarrow>
     claim_step load pdir vdir s (mv_put s k v)"
| delete: "claim_step load pdir vdir s (mv_write s k None)"
| other: "\<not> has_prefix k pdir \<Longrightarrow> \<not> has_prefix k vdir \<Longrightarrow> claim_step load pdir vdir s (mv_put s k v)"

inductive_cases claim_stepE: "claim_step load pdir vdir s t"
inductive_cases acceptedE: "accepted (PortObj old) new" "accepted (VIPObj old) new" "accepted old (PortObj new)"

lemma claim_step_write: "claim_step load pdir vdir s t \<Longrightarrow> \<exists>k v. t = mv_write s k v"
  by (auto elim!: claim_stepE)

lemma steps_later: "(claim_step load pdir vdir)\<^sup>*\<^sup>* s t \<Longrightarrow> later s t"
proof (induction rule: rtranclp_induct)
  case (step t u)
  then show ?case using claim_step_write later_write later_trans by metis
qed simp

lemma steps_mv_ok: "(claim_step load pdir vdir)\<^sup>*\<^sup>* s t \<Longrightarrow> mv_ok s \<Longrightarrow> mv_ok t"
proof (induction rule: rtranclp_induct)
  case (step t u)
  then show ?case using claim_step_write mv_ok_write by metis
qed simp

section \<open>The invariant: one holder per address, one Port per persistent NIC\<close>

definition dirs_apart :: "string \<Rightarrow> string \<Rightarrow> bool" where
  "dirs_apart pdir vdir \<longleftrightarrow> (\<forall>a b. pdir @ a \<noteq> vdir @ b)"

definition holder :: "(string \<Rightarrow> 'b \<Rightarrow> claim_obj option) \<Rightarrow> string \<Rightarrow> string \<Rightarrow> 'b mvcc \<Rightarrow> string \<Rightarrow> claim_obj \<Rightarrow> bool" where
  "holder load pdir vdir s k obj \<longleftrightarrow> stored load s k obj \<and> claim_key pdir vdir obj = k"

definition well_keyed :: "(string \<Rightarrow> 'b \<Rightarrow> claim_obj option) \<Rightarrow> string \<Rightarrow> string \<Rightarrow> 'b mvcc \<Rightarrow> bool" where
  "well_keyed load pdir vdir s \<longleftrightarrow> (\<forall>k. mv_now s k \<noteq> None \<and> (has_prefix k pdir \<or> has_prefix k vdir) \<longrightarrow>
     (\<exists>obj vni ip. holder load pdir vdir s k obj \<and> claims_address obj vni ip))"

definition one_holder :: "(string \<Rightarrow> 'b \<Rightarrow> claim_obj option) \<Rightarrow> string \<Rightarrow> string \<Rightarrow> 'b mvcc \<Rightarrow> bool" where
  "one_holder load pdir vdir s \<longleftrightarrow> (\<forall>k l a b vni ip. holder load pdir vdir s k a \<longrightarrow> holder load pdir vdir s l b \<longrightarrow>
     claims_address a vni ip \<longrightarrow> claims_address b vni ip \<longrightarrow> k = l)"

definition one_nic :: "(string \<Rightarrow> 'b \<Rightarrow> claim_obj option) \<Rightarrow> string \<Rightarrow> string \<Rightarrow> 'b mvcc \<Rightarrow> bool" where
  "one_nic load pdir vdir s \<longleftrightarrow> (\<forall>k l p q vni. holder load pdir vdir s k (PortObj p) \<longrightarrow> holder load pdir vdir s l (PortObj q) \<longrightarrow>
     port_claims p vni \<longrightarrow> port_claims q vni \<longrightarrow> SamePersistentNIC p q \<longrightarrow> k = l)"

definition claims_inv :: "(string \<Rightarrow> 'b \<Rightarrow> claim_obj option) \<Rightarrow> string \<Rightarrow> string \<Rightarrow> 'b mvcc \<Rightarrow> bool" where
  "claims_inv load pdir vdir s \<longleftrightarrow> well_keyed load pdir vdir s \<and> one_holder load pdir vdir s \<and> one_nic load pdir vdir s"

lemma holder_write:
  "holder load pdir vdir (mv_write s k v) l obj \<longleftrightarrow>
     (if l = k then claim_key pdir vdir obj = k \<and> (\<exists>x. v = Some x \<and> load k x = Some obj) else holder load pdir vdir s l obj)"
  by (auto simp: holder_def stored_def)

lemma one_nicD:
  "claims_inv load pdir vdir s \<Longrightarrow> holder load pdir vdir s k (PortObj p) \<Longrightarrow> holder load pdir vdir s l (PortObj q) \<Longrightarrow>
   port_claims p vni \<Longrightarrow> port_claims q vni \<Longrightarrow> SamePersistentNIC p q \<Longrightarrow> k = l"
  unfolding claims_inv_def one_nic_def by blast

lemma one_holderD:
  "claims_inv load pdir vdir s \<Longrightarrow> holder load pdir vdir s k a \<Longrightarrow> holder load pdir vdir s l b \<Longrightarrow>
   claims_address a vni ip \<Longrightarrow> claims_address b vni ip \<Longrightarrow> k = l"
  unfolding claims_inv_def one_holder_def by blast

lemma holder_unique: "holder load pdir vdir s k a \<Longrightarrow> stored load s k b \<Longrightarrow> a = b"
  by (auto simp: holder_def stored_def)

lemma claim_key_dir: "has_prefix (claim_key pdir vdir obj) pdir \<or> has_prefix (claim_key pdir vdir obj) vdir"
  by (cases obj) (auto simp: has_prefix_iff)

lemma holder_present: "holder load pdir vdir s k obj \<Longrightarrow> mv_now s k \<noteq> None"
  by (auto simp: holder_def stored_def)

lemma claim_valid_claims: "claim_valid obj \<Longrightarrow> \<exists>vni ip. claims_address obj vni ip"
  by (cases obj) (auto dest: port_Validate_claims svip_Validate_claims)

lemma accepted_keeps:
  assumes "accepted old new"
  shows "claim_key pdir vdir new = claim_key pdir vdir old" "claims_address new vni ip = claims_address old vni ip"
  using assms
  by (cases rule: accepted.cases; auto dest!: port_update_pinned svip_update_pinned
      simp: pinned_def port_identity_def port_claims_def svip_claims_def)+

lemma accepted_port:
  assumes "accepted old (PortObj q)"
  obtains p where "old = PortObj p" "pinned q p"
  using assms by (auto elim: acceptedE dest: port_update_pinned)

text \<open>Two claims on one address have the same key, or each of them is the twin of the other.\<close>

lemma same_address:
  assumes "claims_address a vni ip" "claims_address b vni ip" "twin_name a = Inr twin"
  shows "claim_key pdir vdir b = claim_key pdir vdir a \<or> claim_key pdir vdir b = other_dir pdir vdir a @ twin"
  using assms claim_parses
  by (cases a; cases b) (auto simp: port_claims_def svip_claims_def holds_claim_def)

lemma inv_create:
  assumes "claims_inv load pdir vdir s" "claim_valid obj" "twin_name obj = Inr twin"
    and "mv_now s (claim_key pdir vdir obj) = None" "mv_now s (other_dir pdir vdir obj @ twin) = None"
    and "nic_free load pdir s obj" "load (claim_key pdir vdir obj) v = Some obj"
  shows "claims_inv load pdir vdir (mv_put s (claim_key pdir vdir obj) v)"
proof -
  let ?k = "claim_key pdir vdir obj" and ?h = "holder load pdir vdir s"
  let ?t = "mv_put s ?k v"
  have h: "holder load pdir vdir ?t l b \<longleftrightarrow> (if l = ?k then b = obj else ?h l b)" for l b
    using assms(7) by (auto simp: holder_write)
  have absent: "claim_key pdir vdir b = ?k" if "?h l b" "claims_address obj vni ip" "claims_address b vni ip" for l b vni ip
    using same_address [OF that(2,3) assms(3), of pdir vdir] holder_present [OF that(1)] assms(5) that(1)
    by (auto simp: holder_def)
  have new: "l = ?k" if "?h l b" "claims_address obj vni ip" "claims_address b vni ip" for l b vni ip
    using absent [OF that] that(1) by (simp add: holder_def)
  have "well_keyed load pdir vdir ?t"
    using assms(1) claim_valid_claims [OF assms(2)] by (auto simp: claims_inv_def well_keyed_def h)
  moreover have "one_holder load pdir vdir ?t"
    unfolding one_holder_def h using assms(1) new by (auto simp: claims_inv_def one_holder_def split: if_splits)
  moreover have "one_nic load pdir vdir ?t"
  proof -
    have free: "\<not> SamePersistentNIC p q \<and> \<not> SamePersistentNIC q p" if "obj = PortObj p" "?h l (PortObj q)" "port_claims p vni" "port_claims q vni" for p q l vni
      using assms(6) that SamePersistentNIC_sym [of q p] by (auto simp: nic_free_def holder_def)
    show ?thesis
      unfolding one_nic_def h using assms(1) free
      by (auto simp: claims_inv_def one_nic_def split: if_splits)
  qed
  ultimately show ?thesis by (simp add: claims_inv_def)
qed

lemma inv_update:
  assumes "claims_inv load pdir vdir s" "stored load s k old" "accepted old new" "load k v = Some new"
  shows "claims_inv load pdir vdir (mv_put s k v)"
proof -
  let ?h = "holder load pdir vdir s" and ?t = "mv_put s k v"
  have "claim_key pdir vdir new = claim_key pdir vdir old" using assms(3) by (rule accepted_keeps)
  then have h: "holder load pdir vdir ?t l b \<longleftrightarrow> (if l = k then b = new \<and> ?h k old else ?h l b)" for l b
    using assms(2,4) unfolding holder_write by (auto simp: holder_def)
  have old: "a = old" if "?h k a" for a using holder_unique [OF that assms(2)] .
  have "well_keyed load pdir vdir ?t"
  proof -
    have "\<exists>obj vni ip. holder load pdir vdir ?t l obj \<and> claims_address obj vni ip"
      if present: "mv_now ?t l \<noteq> None" and dir: "has_prefix l pdir \<or> has_prefix l vdir" for l
    proof -
      have "mv_now s l \<noteq> None" using present assms(2) by (auto simp: stored_def split: if_splits)
      then obtain obj vni ip where "?h l obj" "claims_address obj vni ip"
        using dir assms(1) unfolding claims_inv_def well_keyed_def by blast
      then show ?thesis using accepted_keeps(2) [OF assms(3)] old by (cases "l = k") (auto simp: h)
    qed
    then show ?thesis by (simp add: well_keyed_def)
  qed
  moreover have "one_holder load pdir vdir ?t"
    unfolding one_holder_def h
  proof (intro allI impI)
    fix i j a b vni ip
    assume "if i = k then a = new \<and> ?h k old else ?h i a" "if j = k then b = new \<and> ?h k old else ?h j b"
      "claims_address a vni ip" "claims_address b vni ip"
    then show "i = j"
      using one_holderD [OF assms(1), of i "if i = k then old else a" j "if j = k then old else b" vni ip]
      by (simp add: accepted_keeps(2) [OF assms(3)] split: if_splits)
  qed
  moreover have "one_nic load pdir vdir ?t"
  proof -
    have new: "\<exists>p. ?h k (PortObj p) \<and> pinned q p" if "new = PortObj q" "?h k old" for q
      using that assms(3) by (auto elim: accepted_port)
    have nic: "l = k" if q: "new = PortObj q" "?h k old" and r: "?h l (PortObj r)"
      and c: "port_claims q vni" "port_claims r vni" "SamePersistentNIC q r" for l q r vni
    proof -
      obtain p where p: "?h k (PortObj p)" "pinned q p" using new [OF q] by blast
      then have "port_claims p vni" "SamePersistentNIC p r"
        using c pinned_claims [OF p(2)] pinned_SamePersistentNIC [OF p(2), of r]
        by (simp, simp only: SamePersistentNIC_sym [of p r] SamePersistentNIC_sym [of q r])
      then show ?thesis using one_nicD [OF assms(1) p(1) r _ c(2)] by simp
    qed
    have nic': "l = k" if "new = PortObj q" "?h k old" "?h l (PortObj r)" "port_claims q vni" "port_claims r vni" "SamePersistentNIC r q"
      for l q r vni
      by (rule nic [OF that(1-5)]) (subst SamePersistentNIC_sym, rule that(6))
    show ?thesis
      unfolding one_nic_def h
    proof (intro allI impI)
      fix i j a b vni
      assume A: "if i = k then PortObj a = new \<and> ?h k old else ?h i (PortObj a)"
        "if j = k then PortObj b = new \<and> ?h k old else ?h j (PortObj b)"
        "port_claims a vni" "port_claims b vni" "SamePersistentNIC a b"
      consider "i = k" "j = k" | "i = k" "j \<noteq> k" | "i \<noteq> k" "j = k" | "i \<noteq> k" "j \<noteq> k" by blast
      then show "i = j"
      proof cases
        case 2
        then have n: "PortObj a = new" "?h k old" "?h j (PortObj b)" using A(1,2) by (simp_all only: if_True if_False)
        show ?thesis using 2 nic [OF n(1) [symmetric] n(2,3) A(3-5)] by blast
      next
        case 3
        then have n: "PortObj b = new" "?h k old" "?h i (PortObj a)" using A(1,2) by (simp_all only: if_True if_False)
        show ?thesis using 3 nic' [OF n(1) [symmetric] n(2,3) A(4,3,5)] by blast
      next
        case 4
        then have "?h i (PortObj a)" "?h j (PortObj b)" using A(1,2) by (simp_all only: if_False)
        then show ?thesis by (rule one_nicD [OF assms(1) _ _ A(3-5)])
      qed simp
    qed
  qed
  ultimately show ?thesis by (simp add: claims_inv_def)
qed

lemma inv_delete:
  assumes "claims_inv load pdir vdir s"
  shows "claims_inv load pdir vdir (mv_write s k None)"
proof -
  have h: "holder load pdir vdir (mv_write s k None) l obj \<longleftrightarrow> l \<noteq> k \<and> holder load pdir vdir s l obj" for l obj
    by (simp add: holder_write)
  have "well_keyed load pdir vdir (mv_write s k None)"
    using assms unfolding claims_inv_def well_keyed_def h by simp
  moreover have "one_holder load pdir vdir (mv_write s k None)"
    unfolding one_holder_def h using one_holderD [OF assms] by blast
  moreover have "one_nic load pdir vdir (mv_write s k None)"
    unfolding one_nic_def h using one_nicD [OF assms] by blast
  ultimately show ?thesis by (simp add: claims_inv_def)
qed

lemma inv_other:
  assumes "claims_inv load pdir vdir s" "\<not> has_prefix k pdir" "\<not> has_prefix k vdir"
  shows "claims_inv load pdir vdir (mv_put s k v)"
proof -
  have h: "holder load pdir vdir (mv_put s k v) l obj \<longleftrightarrow> holder load pdir vdir s l obj" for l obj
    using assms(2,3) claim_key_dir [of pdir vdir obj] unfolding holder_write by (auto simp: holder_def)
  have "(mv_now (mv_put s k v) l \<noteq> None \<and> (has_prefix l pdir \<or> has_prefix l vdir)) =
        (mv_now s l \<noteq> None \<and> (has_prefix l pdir \<or> has_prefix l vdir))" for l
    using assms(2,3) by (cases "l = k") simp_all
  then have "well_keyed load pdir vdir (mv_put s k v) = well_keyed load pdir vdir s"
    by (simp only: well_keyed_def h)
  moreover have "one_holder load pdir vdir (mv_put s k v) = one_holder load pdir vdir s"
    "one_nic load pdir vdir (mv_put s k v) = one_nic load pdir vdir s"
    by (simp_all only: one_holder_def one_nic_def h)
  ultimately show ?thesis using assms(1) by (simp add: claims_inv_def)
qed

lemma step_inv:
  assumes "claim_step load pdir vdir s t" "claims_inv load pdir vdir s"
  shows "claims_inv load pdir vdir t"
  using assms(1)
proof (cases rule: claim_step.cases)
  case (create obj twin v)
  show ?thesis unfolding create(1) by (rule inv_create [OF assms(2) create(2-7)])
next
  case (update k old new v)
  show ?thesis unfolding update(1) by (rule inv_update [OF assms(2) update(2-4)])
next
  case (delete k)
  show ?thesis unfolding delete by (rule inv_delete [OF assms(2)])
next
  case (other k v)
  show ?thesis unfolding other(1) by (rule inv_other [OF assms(2) other(2,3)])
qed

lemma steps_inv:
  assumes "(claim_step load pdir vdir)\<^sup>*\<^sup>* s t" "claims_inv load pdir vdir s"
  shows "claims_inv load pdir vdir t"
  using assms(1)
proof (induction rule: rtranclp_induct)
  case base
  show ?case by (rule assms(2))
next
  case (step t u)
  show ?case by (rule step_inv [OF step(2,3)])
qed

end
