(* ===== verification/ClaimRefine.thy ===== *)
theory ClaimRefine
  imports ClaimSafety
begin

text \<open>
  The refinement of the claim storage: what the code relies on in the etcd client, the codec and the key functions,
  as a locale; that \<^verbatim>\<open>atomic_Create\<close> performs only atomic claim steps, whatever the other writers do between its
  calls.
\<close>

section \<open>Names and keys\<close>

lemma hex_encode_digits: "set (hex_encode bs) \<subseteq> hex_digits"
proof -
  have "set (hex_byte b) \<subseteq> hex_digits" for b
    using hex_char_digit [of "unat b div 16"] hex_char_digit [of "unat b mod 16"] unat_less_power [of b]
    by (simp add: hex_byte_def)
  then show ?thesis by (auto simp: hex_encode_def)
qed

lemma canonical_escape_chars:
  assumes "canonical_ip ip"
  shows "set (EscapeIP ip) \<subseteq> hex_digits \<union> {CHR ''-'', CHR ''x''}"
proof -
  obtain a where a: "parse_ip ip = Some a" "ip_string a = ip" using assms by (auto simp: canonical_ip_def)
  have d: "set (map dash t) \<subseteq> hex_digits \<union> {CHR ''-'', CHR ''x''}" if "set t \<subseteq> hex_digits \<union> {CHR ''.'', CHR '':''}" for t
    using that dash_hex by (auto simp: dash_def)
  from a show ?thesis
  proof (cases rule: EscapeIP_cases)
    case v4
    show ?thesis unfolding v4(2) by (rule d) (use v4(6) in auto)
  next
    case v6
    show ?thesis unfolding v6(1) by (rule d) (use v6(4) in auto)
  next
    case hex
    then show ?thesis using hex_encode_digits by auto
  qed
qed

lemma PortName_no_slash:
  assumes "ValidVNI vni" "canonical_ip ip"
  shows "CHR ''/'' \<notin> set (PortName vni ip)"
proof -
  have "CHR ''/'' \<notin> hex_digits \<union> {CHR ''-'', CHR ''x''}" by (simp add: hex_digits_def)
  then have "CHR ''/'' \<notin> set (EscapeIP ip)" using canonical_escape_chars [OF assms(2)] by blast
  moreover have "CHR ''/'' \<notin> set (itoa_int vni)"
    using itoa_digits [of "CHR ''/''" "nat vni"] by (auto simp: valid_vni_itoa [OF assms(1)] is_digit_def)
  ultimately show ?thesis by (simp add: PortName_def ClaimPrefixPort_def)
qed

lemma key_dir_append:
  assumes "CHR ''/'' \<notin> set name"
  shows "key_dir (d @ ''/'' @ name) = d @ ''/''"
proof -
  have "dropWhile (\<lambda>c. c \<noteq> CHR ''/'') (rev name @ CHR ''/'' # rev d) = CHR ''/'' # rev d"
    using assms by (subst dropWhile_append2) auto
  then show ?thesis by (simp add: key_dir_def)
qed

text \<open>The VNI of a claim is read back from its name, and every claim of a VNI is in the range that the guard scans.\<close>

lemma port_claims_parse: "port_claims p vni \<Longrightarrow> ParseClaim ClaimPrefixPort (om_Name (port_meta p)) = Some (vni, EscapeIP (pts_IP (port_Spec p)))"
  using claim_parses(1) by (auto simp: port_claims_def holds_claim_def)

lemma port_claims_name:
  "port_claims p vni \<Longrightarrow> om_Name (port_meta p) = (''v'' @ itoa_int vni @ ''.'') @ EscapeIP (pts_IP (port_Spec p))"
  by (simp add: port_claims_def holds_claim_def PortName_def ClaimPrefixPort_def)

section \<open>What the code relies on\<close>

abbreviation claim_steps :: "(string \<Rightarrow> 'b \<Rightarrow> claim_obj option) \<Rightarrow> string \<Rightarrow> string \<Rightarrow> 'b mvcc \<Rightarrow> 'b mvcc \<Rightarrow> bool" where
  "claim_steps load pdir vdir \<equiv> (claim_step load pdir vdir)\<^sup>*\<^sup>*"

fun cmp_holds :: "'b mvcc \<Rightarrow> cmp \<Rightarrow> bool" where
  "cmp_holds t (CmpVersionZero k) \<longleftrightarrow> mv_now t k = None"
| "cmp_holds t (CmpModRevisionBelow a b r) \<longleftrightarrow> (\<forall>k v m. a \<le> k \<and> k < b \<and> mv_now t k = Some (v, m) \<longrightarrow> m < r)"

text \<open>A page has every row of the range up to its last entry, or up to the end of the range when there is no more.\<close>

definition page_of :: "(string \<rightharpoonup> 'b \<times> int) \<Rightarrow> string \<Rightarrow> string \<Rightarrow> 'b page \<Rightarrow> bool" where
  "page_of rows a b page \<longleftrightarrow> (\<forall>k v m. a \<le> k \<and> k < b \<and> rows k = Some (v, m) \<and>
     (pg_More page \<longrightarrow> pg_Kvs page \<noteq> [] \<and> k \<le> kv_Key (the (last (pg_Kvs page)))) \<longrightarrow>
     (\<exists>e. Some e \<in> set (pg_Kvs page) \<and> kv_Key e = k \<and> kv_Value e = v))"

definition txn_result :: "'b mvcc \<Rightarrow> cmp list \<Rightarrow> string list \<Rightarrow> 'b txn_response \<Rightarrow> bool" where
  "txn_result t cs gets r \<longleftrightarrow> (tr_Succeeded r \<longleftrightarrow> (\<forall>c \<in> set cs. cmp_holds t c)) \<and>
     (\<not> tr_Succeeded r \<longrightarrow> list_all2 (\<lambda>k got. got = [] \<longleftrightarrow> mv_now t k = None) gets (tr_Responses r))"

text \<open>
  The laws. Whatever happens during a call happens in atomic claim steps of the other writers: before and after the
  moment at which the store serves the call. A transaction that reports an error may have been applied or not.
\<close>

text \<open>A row that holds the Port of another NIC.\<close>

definition foreign :: "(string \<Rightarrow> 'b \<Rightarrow> claim_obj option) \<Rightarrow> Port \<Rightarrow> string \<Rightarrow> 'b \<Rightarrow> bool" where
  "foreign load port k v \<longleftrightarrow> (\<exists>q. load k v = Some (PortObj q) \<and> \<not> SamePersistentNIC port q)"

lemma le_snoc_null: "(k :: string) \<le> x \<or> x @ [CHR 0x00] \<le> k"
proof (induction k arbitrary: x)
  case (Cons c k)
  then show ?case by (cases x) (auto simp: less_le less_eq_char_def)
qed simp

text \<open>
  What a Create may do to the store, by its result. It succeeds when it wrote the claim in one atomic step, at a time
  when nobody held it; it answers that the key exists only when the claim or its twin was held while it ran; and
  in every other case it did nothing but, possibly, that step.
\<close>

fun create_outcome ::
    "(string \<Rightarrow> 'b \<Rightarrow> claim_obj option) \<Rightarrow> string \<Rightarrow> string \<Rightarrow> claim_obj \<Rightarrow> store_error option \<Rightarrow> 'b mvcc \<Rightarrow> 'b mvcc \<Rightarrow> bool" where
  "create_outcome load pdir vdir obj None a b \<longleftrightarrow>
     (\<exists>t v. claim_steps load pdir vdir a t \<and> mv_now t (claim_key pdir vdir obj) = None \<and> load (claim_key pdir vdir obj) v = Some obj \<and>
        claim_step load pdir vdir t (mv_put t (claim_key pdir vdir obj) v) \<and>
        claim_steps load pdir vdir (mv_put t (claim_key pdir vdir obj) v) b)"
| "create_outcome load pdir vdir obj (Some (KeyExists k)) a b \<longleftrightarrow>
     (\<exists>t. claim_steps load pdir vdir a t \<and> claim_steps load pdir vdir t b \<and>
        (mv_now t (claim_key pdir vdir obj) \<noteq> None \<or>
         (\<exists>twin. twin_name obj = Inr twin \<and> mv_now t (other_dir pdir vdir obj @ twin) \<noteq> None)))"
| "create_outcome load pdir vdir obj (Some e) a b \<longleftrightarrow> claim_steps load pdir vdir a b"

lemma create_outcome_steps: "create_outcome load pdir vdir obj res a b \<Longrightarrow> claim_steps load pdir vdir a b"
  by (induction load pdir vdir obj res a b rule: create_outcome.induct) (auto intro: rtranclp_trans rtranclp.rtrancl_into_rtrancl)

lemma create_outcome_before:
  "claim_steps load pdir vdir a a' \<Longrightarrow> create_outcome load pdir vdir obj res a' b \<Longrightarrow> create_outcome load pdir vdir obj res a b"
  by (induction load pdir vdir obj res a' b rule: create_outcome.induct) (auto intro: rtranclp_trans)

lemma create_outcome_error:
  "\<forall>k. e \<noteq> KeyExists k \<Longrightarrow> create_outcome load pdir vdir obj (Some e) a b \<longleftrightarrow> claim_steps load pdir vdir a b"
  by (cases e) auto

text \<open>The key functions put a claim, and the twin that the storage looks for, in the directories of their kinds.\<close>

definition claim_keys :: "('w, 'b, 'd) atomicStorage \<Rightarrow> string \<Rightarrow> string \<Rightarrow> string \<Rightarrow> claim_obj \<Rightarrow> bool" where
  "claim_keys s pdir vdir k obj \<longleftrightarrow>
     (\<forall>p. st_PrepareKey s k = Inr p \<longrightarrow> physical_key s p = claim_key pdir vdir obj) \<and>
     (\<forall>n t. st_twinKey s n = Inr t \<longrightarrow> physical_key s t = other_dir pdir vdir obj @ n)"

text \<open>One page of the scan: how it ends well, and the worlds it goes through.\<close>

lemma guard_page_cases:
  assumes "guard_pages s dir pre port start revision sc w = (Inr (rev', []), w')"
  obtains page header w1 w2 sc' w3 where "st_Err s w = (None, w1)"
    "st_Get s start (st_RangeEnd s pre) persistentPageSize revision w1 = (Inr (Some page), w2)"
    "pg_Revision page = Some header" "0 < header"
    "guard_entries s dir pre start port (pg_Kvs page) sc w2 = (Inr sc', w3)"
    "if pg_More page
     then pg_Kvs page \<noteq> [] \<and> sc_seen sc' < persistentScanLimit \<and> guard_pages s dir pre port (kv_Key (the (last (pg_Kvs page))) @ [CHR 0x00])
            (if revision = 0 then header else revision) sc' w3 = (Inr (rev', []), w')
     else rev' = (if revision = 0 then header else revision) \<and> sc_match sc' = [] \<and> w' = w3"
  using assms
  by (subst (asm) guard_pages.simps) (auto simp: Let_def not_le split: prod.splits option.splits sum.splits if_splits)

lemma guard_page_worlds:
  assumes "guard_pages s dir pre port start revision sc w = (res, w')"
  obtains x w1 where "st_Err s w = (x, w1)" "w' = w1"
  | x w1 y w2 where "st_Err s w = (x, w1)" "st_Get s start (st_RangeEnd s pre) persistentPageSize revision w1 = (y, w2)" "w' = w2"
  | x w1 y w2 es z w3 where "st_Err s w = (x, w1)" "st_Get s start (st_RangeEnd s pre) persistentPageSize revision w1 = (y, w2)"
      "guard_entries s dir pre start port es sc w2 = (z, w3)" "w' = w3"
  | x w1 y w2 es sc' w3 nxt rv where "st_Err s w = (x, w1)" "st_Get s start (st_RangeEnd s pre) persistentPageSize revision w1 = (y, w2)"
      "guard_entries s dir pre start port es sc w2 = (Inr sc', w3)" "es \<noteq> []" "sc_seen sc' < persistentScanLimit"
      "guard_pages s dir pre port nxt rv sc' w3 = (res, w')"
  using assms
  by (subst (asm) guard_pages.simps) (auto simp: Let_def not_le split: prod.splits option.splits sum.splits if_splits)

locale etcd_claims =
  fixes s :: "('w, 'b, 'd) atomicStorage"
    and view :: "'w \<Rightarrow> 'b mvcc"
    and load :: "string \<Rightarrow> 'b \<Rightarrow> claim_obj option"
    and pdir vdir :: string
  assumes err_law: "st_Err s w = (e, w') \<Longrightarrow> claim_steps load pdir vdir (view w) (view w')"
    and get_law: "st_Get s a b n r w = (res, w') \<Longrightarrow> \<exists>t. claim_steps load pdir vdir (view w) t \<and> claim_steps load pdir vdir t (view w') \<and>
        (\<forall>page rev. res = Inr (Some page) \<and> pg_Revision page = Some rev \<longrightarrow>
           rev = mv_rev t \<and> page_of (if r = 0 then mv_now t else mv_at t r) a b page)"
    and txn_law: "st_Txn s cs k v gets w = (tres, w') \<Longrightarrow> \<exists>t. claim_steps load pdir vdir (view w) t \<and>
        (case tres of
           Inl _ \<Rightarrow> claim_steps load pdir vdir t (view w') \<or>
             (\<forall>c \<in> set cs. cmp_holds t c) \<and> claim_steps load pdir vdir (mv_put t k v) (view w')
         | Inr r \<Rightarrow> txn_result t cs gets r \<and>
             claim_steps load pdir vdir (if tr_Succeeded r then mv_put t k v else t) (view w'))"
    and range_law: "has_suffix p ''.'' \<Longrightarrow> p \<le> k \<and> k < st_RangeEnd s p \<longleftrightarrow> has_prefix k p"
    and seal_world: "st_ToStorage s d k w = (sres, w') \<Longrightarrow> claim_steps load pdir vdir (view w) (view w')"
    and seal_law: "st_Encode s obj = Inr d \<Longrightarrow> st_ToStorage s d k w = (Inr v, w') \<Longrightarrow> load k v = Some obj"
    and open_law: "st_FromStorage s v k = Inr d \<Longrightarrow> st_Decode s d = Inr obj \<Longrightarrow> load k v = Some obj"
    and prepare_law: "st_PrepareObject s obj = Inr obj' \<Longrightarrow> obj' = obj"
    and pdir_slash: "has_suffix pdir ''/''"
begin

lemma guard_entry_scanned:
  assumes "guard_entry s dir pre start port e sc = Inr sc'" "pre = dir @ t" "t \<noteq> []"
  obtains r q where "e = Some r" "load (kv_Key r) (kv_Value r) = Some (PortObj q)"
    "SamePersistentNIC port q \<Longrightarrow> sc_match sc' \<noteq> []" "sc_match sc \<noteq> [] \<Longrightarrow> sc_match sc' \<noteq> []"
proof -
  obtain r where r: "e = Some r" using assms(1) by (auto simp: guard_entry_def split: option.splits)
  have key: "has_prefix (kv_Key r) (dir @ t)" using assms(1,2) r by (auto simp: guard_entry_def Let_def split: if_splits)
  obtain d q where d: "st_FromStorage s (kv_Value r) (kv_Key r) = Inr d" "st_Decode s d = Inr (PortObj q)"
    using assms(1) r by (auto simp: guard_entry_def Let_def split: if_splits sum.splits claim_obj.splits)
  then have name: "kv_Key r = dir @ om_Name (port_meta q)"
    using assms(1) r by (auto simp: guard_entry_def Let_def split: if_splits)
  then have "om_Name (port_meta q) \<noteq> []" using key assms(3) by (auto simp: has_prefix_iff)
  then have "SamePersistentNIC port q \<Longrightarrow> sc_match sc' \<noteq> []" "sc_match sc \<noteq> [] \<Longrightarrow> sc_match sc' \<noteq> []"
    using assms(1) r d by (auto simp: guard_entry_def Let_def split: if_splits)
  then show thesis using that r open_law [OF d] by blast
qed

lemma guard_entries_steps:
  "guard_entries s dir pre start port es sc w = (res, w') \<Longrightarrow> claim_steps load pdir vdir (view w) (view w')"
proof (induction es arbitrary: sc w)
  case (Cons e es)
  obtain x w1 where x: "st_Err s w = (x, w1)" by (cases "st_Err s w")
  have "claim_steps load pdir vdir (view w1) (view w')"
    using Cons x by (cases x; cases "guard_entry s dir pre start port e sc") auto
  then show ?case by (rule rtranclp_trans [OF err_law [OF x]])
qed simp

lemma guard_entries_scanned:
  assumes "guard_entries s dir pre start port es sc w = (Inr sc', w')" "pre = dir @ t" "t \<noteq> []" "sc_match sc' = []"
  shows "sc_match sc = [] \<and> (\<forall>e \<in> set es. \<exists>r. e = Some r \<and> foreign load port (kv_Key r) (kv_Value r))"
  using assms(1)
proof (induction es arbitrary: sc w)
  case Nil
  then show ?case using assms(4) by simp
next
  case (Cons e es)
  obtain w1 sc1 where 1: "guard_entry s dir pre start port e sc = Inr sc1" "guard_entries s dir pre start port es sc1 w1 = (Inr sc', w')"
    using Cons(2) by (auto split: option.splits prod.splits sum.splits)
  note IH = Cons(1) [OF 1(2)]
  from 1(1) assms(2,3) show ?case
    by (rule guard_entry_scanned) (use IH in \<open>auto simp: foreign_def\<close>)
qed

lemma page_scanned:
  assumes "guard_entries s dir pre start port (pg_Kvs page) sc w = (Inr sc', w')" "pre = dir @ t" "t \<noteq> []" "sc_match sc' = []"
    and "page_of rows start fin page" "pg_More page \<Longrightarrow> pg_Kvs page \<noteq> []"
    and "pg_More page \<Longrightarrow> \<forall>k v m. kv_Key (the (last (pg_Kvs page))) @ [CHR 0x00] \<le> k \<and> k < fin \<and> rows k = Some (v, m) \<longrightarrow>
           foreign load port k v"
  shows "sc_match sc = [] \<and> (\<forall>k v m. start \<le> k \<and> k < fin \<and> rows k = Some (v, m) \<longrightarrow> foreign load port k v)"
proof -
  note scanned = guard_entries_scanned [OF assms(1-4)]
  have "foreign load port k v" if row: "start \<le> k" "k < fin" "rows k = Some (v, m)" for k v m
  proof (cases "pg_More page \<and> \<not> k \<le> kv_Key (the (last (pg_Kvs page)))")
    case True
    then show ?thesis using assms(7) row le_snoc_null [of k "kv_Key (the (last (pg_Kvs page)))"] by blast
  next
    case False
    then have "\<exists>e. Some e \<in> set (pg_Kvs page) \<and> kv_Key e = k \<and> kv_Value e = v"
      using assms(5,6) row unfolding page_of_def by simp
    then show ?thesis using scanned by auto
  qed
  then show ?thesis using scanned by blast
qed

text \<open>A page that continues a scan reads the snapshot the scan started with, however much has changed since.\<close>

lemma get_steps:
  "st_Get s a b n r w = (res, w') \<Longrightarrow> claim_steps load pdir vdir (view w) (view w')"
  using get_law rtranclp_trans by metis

lemma guard_pages_steps:
  "guard_pages s dir pre port start revision sc w = (res, w') \<Longrightarrow> claim_steps load pdir vdir (view w) (view w')"
proof (induction "persistentScanLimit - sc_seen sc" arbitrary: start revision sc w rule: less_induct)
  case less
  note steps = rtranclp_trans [OF err_law rtranclp_trans [OF get_steps]]
  from less(2) show ?case
  proof (cases rule: guard_page_worlds)
    case (1 x w1)
    then show ?thesis using err_law by blast
  next
    case (2 x w1 y w2)
    then show ?thesis using steps [OF 2(1,2)] by blast
  next
    case (3 x w1 y w2 es z w3)
    then show ?thesis using steps [OF 3(1,2) guard_entries_steps [OF 3(3)]] by blast
  next
    case (4 x w1 y w2 es sc' w3 nxt rv)
    have "persistentScanLimit - sc_seen sc' < persistentScanLimit - sc_seen sc"
      using guard_entries_seen [OF 4(3)] 4(4,5) by (cases es) auto
    then have "claim_steps load pdir vdir (view w3) (view w')" using less(1) 4(6) by blast
    then show ?thesis using steps [OF 4(1,2) rtranclp_trans [OF guard_entries_steps [OF 4(3)]]] by blast
  qed
qed

text \<open>A scan that continues at a known revision and finds no claim of the NIC has seen every row of that revision.\<close>

lemma guard_pages_continued:
  assumes "pre = dir @ t" "t \<noteq> []"
  shows "guard_pages s dir pre port start revision sc w = (Inr (rev', []), w') \<Longrightarrow> revision \<noteq> 0 \<Longrightarrow>
    later t0 (view w) \<Longrightarrow> mv_rev t0 = revision \<Longrightarrow>
    rev' = revision \<and> sc_match sc = [] \<and>
    (\<forall>k v m. start \<le> k \<and> k < st_RangeEnd s pre \<and> mv_now t0 k = Some (v, m) \<longrightarrow> foreign load port k v)"
proof (induction "persistentScanLimit - sc_seen sc" arbitrary: start sc w rule: less_induct)
  case less
  from less(2) show ?case
  proof (cases rule: guard_page_cases)
    case (1 page header w1 w2 sc' w3)
    obtain u where u: "claim_steps load pdir vdir (view w1) u" "claim_steps load pdir vdir u (view w2)"
        "page_of (mv_at u revision) start (st_RangeEnd s pre) page"
      using get_law [OF 1(2)] 1(3) less(3) by auto
    have "later t0 u" using less(4) steps_later [OF err_law [OF 1(1)]] steps_later [OF u(1)] later_trans by blast
    then have rows: "mv_at u revision = mv_now t0" using less(5) by (auto simp: later_def mv_now_def)
    have "later t0 (view w3)"
      using \<open>later t0 u\<close> steps_later [OF u(2)] steps_later [OF guard_entries_steps [OF 1(5)]] later_trans by blast
    then have more: "rev' = revision \<and> sc_match sc' = [] \<and>
        (\<forall>k v m. kv_Key (the (last (pg_Kvs page))) @ [CHR 0x00] \<le> k \<and> k < st_RangeEnd s pre \<and> mv_now t0 k = Some (v, m) \<longrightarrow>
           foreign load port k v)" if "pg_More page"
    proof (intro less(1) [of sc' _ w3])
      show "persistentScanLimit - sc_seen sc' < persistentScanLimit - sc_seen sc"
        using guard_entries_seen [OF 1(5)] 1(6) that by (cases "pg_Kvs page") auto
    qed (use 1(6) that less(3,5) in simp_all)
    have match: "sc_match sc' = []" "rev' = revision" using 1(6) more less(3) by (auto split: if_splits)
    have "sc_match sc = [] \<and>
        (\<forall>k v m. start \<le> k \<and> k < st_RangeEnd s pre \<and> mv_now t0 k = Some (v, m) \<longrightarrow> foreign load port k v)"
      by (rule page_scanned [OF 1(5) assms match(1) u(3) [unfolded rows]]) (use 1(6) more in simp_all)
    then show ?thesis using match(2) by blast
  qed
qed

text \<open>A scan that finds no claim of the NIC has seen every row of one revision of the store.\<close>

lemma guard_pages_fresh:
  assumes "pre = dir @ t" "t \<noteq> []" "guard_pages s dir pre port start 0 sc w = (Inr (rev', []), w')"
  obtains u where "claim_steps load pdir vdir (view w) u" "claim_steps load pdir vdir u (view w')" "rev' = mv_rev u"
    "\<And>k v m. start \<le> k \<Longrightarrow> k < st_RangeEnd s pre \<Longrightarrow> mv_now u k = Some (v, m) \<Longrightarrow> foreign load port k v"
  using assms(3)
proof (cases rule: guard_page_cases)
  case (1 page header w1 w2 sc' w3)
  obtain u where u: "claim_steps load pdir vdir (view w1) u" "claim_steps load pdir vdir u (view w2)"
      "header = mv_rev u" "page_of (mv_now u) start (st_RangeEnd s pre) page"
    using get_law [OF 1(2)] 1(3) by auto
  have w3: "claim_steps load pdir vdir u (view w3)"
    using rtranclp_trans [OF u(2) guard_entries_steps [OF 1(5)]] .
  have next_page: "guard_pages s dir pre port (kv_Key (the (last (pg_Kvs page))) @ [CHR 0x00]) header sc' w3 = (Inr (rev', []), w')"
    if "pg_More page" using that 1(6) by simp
  have more: "rev' = header \<and> sc_match sc' = [] \<and>
      (\<forall>k v m. kv_Key (the (last (pg_Kvs page))) @ [CHR 0x00] \<le> k \<and> k < st_RangeEnd s pre \<and> mv_now u k = Some (v, m) \<longrightarrow>
         foreign load port k v)" if "pg_More page"
    by (rule guard_pages_continued [OF assms(1,2) next_page [OF that] _ steps_later [OF w3]]) (use 1(4) u(3) in auto)
  have match: "sc_match sc' = []" "rev' = header" using 1(6) more by (auto split: if_splits)
  have "claim_steps load pdir vdir u (view w')"
    using w3 rtranclp_trans [OF w3 guard_pages_steps [OF next_page]] 1(6) by (cases "pg_More page") auto
  moreover have "claim_steps load pdir vdir (view w) u" using rtranclp_trans [OF err_law [OF 1(1)] u(1)] .
  moreover have "sc_match sc = [] \<and>
      (\<forall>k v m. start \<le> k \<and> k < st_RangeEnd s pre \<and> mv_now u k = Some (v, m) \<longrightarrow> foreign load port k v)"
    by (rule page_scanned [OF 1(5) assms(1,2) match(1) u(4)]) (use 1(6) more in simp_all)
  ultimately show thesis using that [of u] match(2) u(3) by blast
qed

lemma persistentGuard_steps:
  "persistentGuard s prepared port w = (res, w') \<Longrightarrow> claim_steps load pdir vdir (view w) (view w')"
  by (auto simp: persistentGuard_def Let_def split: prod.splits sum.splits if_splits dest: guard_pages_steps)

lemma claim_guard_steps:
  "claim_guard s prepared obj w = (res, w') \<Longrightarrow> claim_steps load pdir vdir (view w) (view w')"
  by (auto simp: claim_guard_def split: claim_obj.splits prod.splits sum.splits if_splits dest: persistentGuard_steps)

lemma key_dir_port:
  assumes "port_claims p vni"
  shows "key_dir (pdir @ om_Name (port_meta p)) = pdir"
proof -
  have "CHR ''/'' \<notin> set (om_Name (port_meta p))"
    using assms PortName_no_slash by (auto simp: port_claims_def holds_claim_def)
  moreover obtain d where "pdir = d @ ''/''" using pdir_slash by (auto simp: has_suffix_def)
  ultimately show ?thesis using key_dir_append [of "om_Name (port_meta p)" d] by simp
qed

text \<open>When the guard of a persistent Port still holds at the time of the transaction, its NIC is free.\<close>

lemma persistentGuard_free:
  assumes g: "persistentGuard s (pdir @ om_Name (port_meta p)) p w = (Inr guard, w')" and c: "port_claims p vni"
    and t: "claim_steps load pdir vdir (view w') t" "mv_ok t" "cmp_holds t guard"
  shows "nic_free load pdir t (PortObj p)"
proof -
  define sc0 where "sc0 = \<lparr> sc_match = [], sc_seen = 0, sc_bytes = 0 \<rparr>"
  define pre where "pre = pdir @ ''v'' @ itoa_int vni @ ''.''"
  obtain rev' where r: "guard_pages s pdir pre p pre 0 sc0 w = (Inr (rev', []), w')"
    and guard: "guard = CmpModRevisionBelow pre (st_RangeEnd s pre) (rev' + 1)"
    using g by (auto simp: persistentGuard_def Let_def port_claims_parse [OF c] key_dir_port [OF c] pre_def sc0_def
        split: prod.splits sum.splits if_splits)
  from guard_pages_fresh [OF pre_def _ r] obtain u where u: "claim_steps load pdir vdir u (view w')" "rev' = mv_rev u"
    and free: "\<And>k v m. pre \<le> k \<Longrightarrow> k < st_RangeEnd s pre \<Longrightarrow> mv_now u k = Some (v, m) \<Longrightarrow> foreign load p k v" by auto
  have "later u t" using steps_later [OF rtranclp_trans [OF u(1) t(1)]] .
  have "\<not> SamePersistentNIC p q"
    if q: "stored load t (pdir @ om_Name (port_meta q)) (PortObj q)" "port_claims q vni'" "port_claims p vni'" for q vni'
  proof -
    let ?k = "pdir @ om_Name (port_meta q)"
    have "vni' = vni" using port_claims_parse [OF c] port_claims_parse [OF q(3)] by simp
    then have "has_prefix ?k pre" unfolding pre_def port_claims_name [OF q(2)] has_prefix_iff by simp
    then have range: "pre \<le> ?k" "?k < st_RangeEnd s pre"
      using range_law [of pre ?k] by (auto simp: pre_def has_suffix_def)
    obtain v m where row: "mv_now t ?k = Some (v, m)" "load ?k v = Some (PortObj q)" using q(1) by (auto simp: stored_def)
    have "m < mv_rev u + 1" using t(3) range row(1) unfolding guard u(2) by auto
    then have "mv_now u ?k = Some (v, m)" by (rule unchanged_row [OF \<open>later u t\<close> t(2) row(1)])
    then show ?thesis using free [OF range] row(2) by (auto simp: foreign_def)
  qed
  then show ?thesis by (auto simp: nic_free_def)
qed

lemma claim_guard_free:
  assumes "claim_guard s (claim_key pdir vdir obj) obj w = (Inr guard, w')" "claim_valid obj"
    and "claim_steps load pdir vdir (view w') t" "mv_ok t" "\<forall>c \<in> set guard. cmp_holds t c"
  shows "nic_free load pdir t obj"
proof (cases obj)
  case (PortObj p)
  show ?thesis
  proof (cases "IsPersistent p")
    case True
    then obtain g where "persistentGuard s (pdir @ om_Name (port_meta p)) p w = (Inr g, w')" "guard = [g]"
      using assms(1) PortObj by (auto simp: claim_guard_def split: prod.splits sum.splits)
    moreover obtain vni where "port_claims p vni" using assms(2) PortObj port_Validate_claims by auto
    ultimately show ?thesis using persistentGuard_free assms(3-5) PortObj by auto
  qed (simp add: PortObj nic_free_def SamePersistentNIC_def)
qed (simp add: nic_free_def)

lemma commit_step:
  assumes "claim_guard s (claim_key pdir vdir obj) obj w = (Inr guard, w')" "claim_valid obj" "twin_name obj = Inr twin"
    and "claim_steps load pdir vdir (view w') t" "mv_ok t" "load (claim_key pdir vdir obj) v = Some obj"
    and "\<forall>c \<in> set ([CmpVersionZero (claim_key pdir vdir obj), CmpVersionZero (other_dir pdir vdir obj @ twin)] @ guard). cmp_holds t c"
  shows "claim_step load pdir vdir t (mv_put t (claim_key pdir vdir obj) v)"
  using assms(2,3) _ _ _ assms(6)
  by (rule claim_step.create) (use assms(7) claim_guard_free [OF assms(1,2,4,5)] in auto)

text \<open>One transaction, by its answer.\<close>

lemma txn_outcome:
  assumes "claim_guard s (claim_key pdir vdir obj) obj w = (Inr guard, w2)" "claim_valid obj" "twin_name obj = Inr twin"
    and "load (claim_key pdir vdir obj) v = Some obj" "mv_ok (view w2)"
    and tr: "st_Txn s ([CmpVersionZero (claim_key pdir vdir obj), CmpVersionZero (other_dir pdir vdir obj @ twin)] @ guard)
      (claim_key pdir vdir obj) v [claim_key pdir vdir obj, other_dir pdir vdir obj @ twin] w2 = (tr, w3)"
  shows "claim_steps load pdir vdir (view w2) (view w3)"
    and "tr = Inr r \<Longrightarrow> tr_Succeeded r \<Longrightarrow> create_outcome load pdir vdir obj None (view w2) (view w3)"
    and "tr = Inr r \<Longrightarrow> \<not> tr_Succeeded r \<Longrightarrow> \<exists>got \<in> set (tr_Responses r). got \<noteq> [] \<Longrightarrow>
           create_outcome load pdir vdir obj (Some (KeyExists k)) (view w2) (view w3)"
proof -
  let ?k = "claim_key pdir vdir obj" and ?l = "other_dir pdir vdir obj @ twin" and ?R = "claim_steps load pdir vdir"
  let ?cs = "[CmpVersionZero ?k, CmpVersionZero ?l] @ guard"
  obtain t where t: "?R (view w2) t" and case_tr: "case tr of
      Inl _ \<Rightarrow> ?R t (view w3) \<or> (\<forall>c \<in> set ?cs. cmp_holds t c) \<and> ?R (mv_put t ?k v) (view w3)
    | Inr r \<Rightarrow> txn_result t ?cs [?k, ?l] r \<and> ?R (if tr_Succeeded r then mv_put t ?k v else t) (view w3)"
    using txn_law [OF tr] by blast
  have commit: "claim_step load pdir vdir t (mv_put t ?k v)" if "\<forall>c \<in> set ?cs. cmp_holds t c"
    by (rule commit_step [OF assms(1-3) t steps_mv_ok [OF t assms(5)] assms(4) that])
  then have put: "?R t (mv_put t ?k v)" if "\<forall>c \<in> set ?cs. cmp_holds t c" using that by blast
  have held: "\<forall>c \<in> set ?cs. cmp_holds t c" if "tr = Inr r" "tr_Succeeded r" for r
    using case_tr that by (simp add: txn_result_def)
  show "?R (view w2) (view w3)"
    using t case_tr put held by (auto split: sum.splits if_splits intro: rtranclp_trans)
  show "create_outcome load pdir vdir obj None (view w2) (view w3)" if "tr = Inr r" "tr_Succeeded r"
    using t commit [OF held [OF that]] held [OF that] case_tr that assms(4) by auto
  show "create_outcome load pdir vdir obj (Some (KeyExists k)) (view w2) (view w3)"
    if "tr = Inr r" "\<not> tr_Succeeded r" "\<exists>got \<in> set (tr_Responses r). got \<noteq> []"
  proof -
    have "list_all2 (\<lambda>k got. got = [] \<longleftrightarrow> mv_now t k = None) [?k, ?l] (tr_Responses r)" "?R t (view w3)"
      using case_tr that by (simp_all add: txn_result_def)
    then show ?thesis using t that(3) assms(3) by (auto simp: list_all2_Cons1)
  qed
qed

lemma create_attempts_outcome:
  assumes "claim_valid obj" "twin_name obj = Inr twin" "load (claim_key pdir vdir obj) v = Some obj"
  shows "create_attempts n s (claim_key pdir vdir obj) (other_dir pdir vdir obj @ twin) obj d v out w = (res, w') \<Longrightarrow>
    mv_ok (view w) \<Longrightarrow> create_outcome load pdir vdir obj res (view w) (view w')"
proof (induction n arbitrary: w)
  case (Suc n)
  let ?k = "claim_key pdir vdir obj" and ?l = "other_dir pdir vdir obj @ twin"
  obtain e w1 where e: "st_Err s w = (e, w1)" by (cases "st_Err s w")
  obtain g w2 where g: "claim_guard s ?k obj w1 = (g, w2)" by (cases "claim_guard s ?k obj w1")
  note 2 = rtranclp_trans [OF err_law [OF e] claim_guard_steps [OF g]]
  show ?case
  proof (cases "e = None \<and> (\<exists>guard. g = Inr guard)")
    case False
    have "\<forall>k. err \<noteq> KeyExists k" if "g = Inl err" for err using claim_guard_no_exists g that by metis
    then show ?thesis using False Suc(2) e g err_law [OF e] 2 by (cases e; cases g) (auto simp: create_outcome_error)
  next
    case True
    then obtain guard where guard: "e = None" "g = Inr guard" by blast
    obtain tr w3 where tr: "st_Txn s ([CmpVersionZero ?k, CmpVersionZero ?l] @ guard) ?k v [?k, ?l] w2 = (tr, w3)"
      by (cases "st_Txn s ([CmpVersionZero ?k, CmpVersionZero ?l] @ guard) ?k v [?k, ?l] w2")
    note out = txn_outcome [OF g [unfolded guard] assms steps_mv_ok [OF 2 Suc(3)] tr]
    have "create_outcome load pdir vdir obj res (view w2) (view w')"
    proof (cases tr)
      case (Inl err)
      then show ?thesis using Suc(2) e g guard tr out(1) by (auto simp: create_outcome_error)
    next
      case (Inr r)
      consider "tr_Succeeded r" | "\<not> tr_Succeeded r" "\<exists>got \<in> set (tr_Responses r). got \<noteq> []"
        | "\<not> tr_Succeeded r" "\<not> (\<exists>got \<in> set (tr_Responses r). got \<noteq> [])" by blast
      then show ?thesis
      proof cases
        case 1
        then have "w' = w3" "res = None \<or> (\<exists>err. res = Some (Fault err))"
          using Suc(2) e g guard tr Inr by (auto split: if_splits sum.splits)
        then show ?thesis using out(1) out(2) [OF Inr 1] by (auto simp: create_outcome_error simp del: create_outcome.simps)
      next
        case 2
        then have "w' = w3" "res = Some (KeyExists ?k)" using Suc(2) e g guard tr Inr by auto
        then show ?thesis using out(3) [OF Inr 2] by simp
      next
        case 3
        then have "create_attempts n s ?k ?l obj d v out w3 = (res, w')" using Suc(2) e g guard tr Inr by auto
        then have "create_outcome load pdir vdir obj res (view w3) (view w')"
          using Suc(1) steps_mv_ok [OF rtranclp_trans [OF 2 out(1)] Suc(3)] by blast
        then show ?thesis by (rule create_outcome_before [OF out(1)])
      qed
    qed
    then show ?thesis by (rule create_outcome_before [OF 2])
  qed
qed (auto simp: create_outcome_error)

lemma atomic_Create_outcome:
  assumes "claim_valid obj" "claim_keys s pdir vdir k obj" "mv_ok (view w)" "atomic_Create s k obj out ttl w = (res, w')"
  shows "create_outcome load pdir vdir obj res (view w) (view w')"
proof (cases "\<exists>e. res = Some (Fault e) \<and> w' = w \<or> res = Some ResourceVersionSet \<and> w' = w")
  case True
  then show ?thesis by auto
next
  case False
  then obtain twin prepared tw obj' d sealed w1 where 1: "twin_name obj = Inr twin" "st_PrepareKey s k = Inr prepared"
      "st_twinKey s twin = Inr tw" "st_PrepareObject s obj = Inr obj'" "st_Encode s obj' = Inr d"
      "st_ToStorage s d (physical_key s prepared) w = (sealed, w1)"
    and 2: "case sealed of
        Inl err \<Rightarrow> res = Some (Fault err) \<and> w' = w1
      | Inr v \<Rightarrow> create_attempts persistentCreateAttempts s (physical_key s prepared) (physical_key s tw) obj' d v out w1 = (res, w')"
    using assms(4) by (auto simp: atomic_Create_def split: sum.splits if_splits prod.splits)
  have same: "obj' = obj" using 1(4) by (rule prepare_law)
  have keys: "physical_key s prepared = claim_key pdir vdir obj" "physical_key s tw = other_dir pdir vdir obj @ twin"
    using assms(2) 1(2,3) by (auto simp: claim_keys_def)
  note w1 = seal_world [OF 1(6)]
  show ?thesis
  proof (cases sealed)
    case (Inl err)
    then show ?thesis using 2 w1 by simp
  next
    case (Inr v)
    have "load (claim_key pdir vdir obj) v = Some obj" using seal_law [OF 1(5)] 1(6) Inr keys(1) same by simp
    then have "create_outcome load pdir vdir obj res (view w1) (view w')"
      using create_attempts_outcome [OF assms(1) 1(1)] 2 steps_mv_ok [OF w1 assms(3)] unfolding keys Inr same by simp
    then show ?thesis by (rule create_outcome_before [OF w1])
  qed
qed

end

end
