(* ===== verification/ClaimReference.thy ===== *)
theory ClaimReference
  imports ClaimRefine
begin

text \<open>
  A store that meets the laws of the claim storage, the number of requests that a Create makes, and the properties of
  address claims with their instances.
\<close>

section \<open>A reference store\<close>

text \<open>The log of all revisions, the newest first, with the objects themselves as the stored values.\<close>

type_synonym log = "(string \<times> claim_obj \<times> int) list list"

definition log_at :: "log \<Rightarrow> int \<Rightarrow> (string \<times> claim_obj \<times> int) list" where
  "log_at l r = (if 1 \<le> r \<and> r \<le> int (length l) then l ! (length l - nat r) else [])"

definition log_view :: "log \<Rightarrow> claim_obj mvcc" where
  "log_view l = \<lparr> mv_rev = int (length l), mv_at = (\<lambda>r. map_of (log_at l r)) \<rparr>"

definition log_rows :: "log \<Rightarrow> int \<Rightarrow> string \<Rightarrow> string \<Rightarrow> (string \<times> claim_obj \<times> int) list" where
  "log_rows l r a b = sort_key fst (filter (\<lambda>(k, _). a \<le> k \<and> k < b) (AList.clearjunk (log_at l r)))"

definition log_entry :: "string \<times> claim_obj \<times> int \<Rightarrow> claim_obj kv" where
  "log_entry = (\<lambda>(k, v, m). \<lparr> kv_Key = k, kv_Value = v, kv_ModRevision = m \<rparr>)"

definition log_get :: "string \<Rightarrow> string \<Rightarrow> nat \<Rightarrow> int \<Rightarrow> log \<Rightarrow> (string + claim_obj page option) \<times> log" where
  "log_get a b n r l =
     (let rows = log_rows l (if r = 0 then int (length l) else r) a b
      in (Inr (Some \<lparr> pg_Revision = Some (int (length l)), pg_Kvs = map (Some \<circ> log_entry) (take n rows), pg_More = n < length rows \<rparr>), l))"

fun log_cmp :: "log \<Rightarrow> cmp \<Rightarrow> bool" where
  "log_cmp l (CmpVersionZero k) = (map_of (log_at l (int (length l))) k = None)"
| "log_cmp l (CmpModRevisionBelow a b r) = list_all (\<lambda>(k, v, m). m < r) (log_rows l (int (length l)) a b)"

definition log_txn :: "cmp list \<Rightarrow> string \<Rightarrow> claim_obj \<Rightarrow> string list \<Rightarrow> log \<Rightarrow> (string + claim_obj txn_response) \<times> log" where
  "log_txn cs k v gets l =
     (if list_all (log_cmp l) cs
      then (Inr \<lparr> tr_Succeeded = True, tr_Responses = [] \<rparr>,
            AList.update k (v, int (length l) + 1) (log_at l (int (length l))) # l)
      else (Inr \<lparr> tr_Succeeded = False, tr_Responses = map (\<lambda>k. case map_of (log_at l (int (length l))) k of
              None \<Rightarrow> [] | Some (v, m) \<Rightarrow> [log_entry (k, v, m)]) gets \<rparr>, l))"

definition log_load :: "string \<Rightarrow> claim_obj \<Rightarrow> claim_obj option" where
  "log_load k v = Some v"

definition log_storage :: "(log, claim_obj, claim_obj) atomicStorage" where
  "log_storage = \<lparr> st_Err = (\<lambda>l. (None, l)), st_Get = log_get, st_Txn = log_txn, st_RangeEnd = (\<lambda>p. butlast p @ ''/''),
     st_Prefix = ''/registry'', st_PrepareKey = Inr, st_twinKey = (\<lambda>n. Inr (''/servicevips/'' @ n)),
     st_ResourceVersion = (\<lambda>_. Inr 0), st_PrepareObject = Inr, st_Encode = Inr, st_ToStorage = (\<lambda>d k l. (Inr d, l)),
     st_FromStorage = (\<lambda>v k. Inr v), st_Decode = Inr, st_Len = (\<lambda>_. 100) \<rparr>"

lemma log_fields:
  "st_Err log_storage = (\<lambda>l. (None, l))" "st_Get log_storage = log_get" "st_Txn log_storage = log_txn"
  "st_PrepareKey log_storage = Inr" "st_twinKey log_storage = (\<lambda>n. Inr (''/servicevips/'' @ n))"
  "st_ResourceVersion log_storage = (\<lambda>_. Inr 0)" "st_PrepareObject log_storage = Inr" "st_Encode log_storage = Inr"
  "st_ToStorage log_storage = (\<lambda>d k l. (Inr d, l))"
  by (simp_all add: log_storage_def)

lemma range_end_dot: "q @ ''.'' \<le> k \<and> k < q @ ''/'' \<longleftrightarrow> has_prefix k (q @ ''.'')"
proof (induction q arbitrary: k)
  case Nil
  have "CHR ''.'' < c \<Longrightarrow> \<not> c < CHR ''/''" for c
    by (simp add: less_char_def)
  then show ?case by (cases k) (auto simp: has_prefix_iff less_le)
next
  case (Cons c q)
  then show ?case by (cases k) (auto simp: has_prefix_iff)
qed

lemma log_now: "mv_now (log_view l) = map_of (log_at l (int (length l)))"
  by (simp add: mv_now_def log_view_def)

lemma log_at_Cons: "log_at (x # l) r = (if r = int (length l) + 1 then x else log_at l r)"
proof -
  have "Suc (length l) - nat r = Suc (length l - nat r)" if "1 \<le> r" "r \<le> int (length l)" using that by linarith
  then show ?thesis by (auto simp: log_at_def)
qed

lemma log_put: "log_view (AList.update k (v, int (length l) + 1) (log_at l (int (length l))) # l) = mv_put (log_view l) k v"
proof -
  have "map_of (log_at (AList.update k (v, int (length l) + 1) (log_at l (int (length l))) # l) r) =
      mv_at (mv_put (log_view l) k v) r" for r
    unfolding log_at_Cons mv_write_def log_now by (simp add: log_view_def update_conv')
  then show ?thesis unfolding log_view_def mv_write_def by (simp add: fun_eq_iff)
qed

lemma log_rows_iff: "(k, v, m) \<in> set (log_rows l r a b) \<longleftrightarrow> a \<le> k \<and> k < b \<and> map_of (log_at l r) k = Some (v, m)"
proof -
  have "map_of (AList.clearjunk (log_at l r)) k = Some (v, m) \<longleftrightarrow> (k, v, m) \<in> set (AList.clearjunk (log_at l r))"
    by (rule map_of_eq_Some_iff) (rule distinct_clearjunk)
  then show ?thesis by (auto simp: log_rows_def map_of_clearjunk)
qed

lemma log_page:
  assumes "log_get a b n r l = (Inr (Some page), l')"
  shows "pg_Revision page = Some (mv_rev (log_view l)) \<and>
    page_of (if r = 0 then mv_now (log_view l) else mv_at (log_view l) r) a b page"
proof -
  define r' where "r' = (if r = 0 then int (length l) else r)"
  define rows where "rows = log_rows l r' a b"
  have page: "page = \<lparr> pg_Revision = Some (int (length l)), pg_Kvs = map (Some \<circ> log_entry) (take n rows), pg_More = n < length rows \<rparr>"
    using assms by (auto simp: log_get_def rows_def r'_def Let_def)
  have "sorted (map fst (take n rows @ drop n rows))" by (simp add: rows_def log_rows_def)
  then have sorted: "fst x \<le> fst y" if "x \<in> set (take n rows)" "y \<in> set (drop n rows)" for x y
    using that unfolding map_append sorted_append by auto
  have "\<exists>e. Some e \<in> set (pg_Kvs page) \<and> kv_Key e = k \<and> kv_Value e = v"
    if row: "a \<le> k \<and> k < b \<and> map_of (log_at l r') k = Some (v, m)"
      and upto: "pg_More page \<longrightarrow> pg_Kvs page \<noteq> [] \<and> k \<le> kv_Key (the (last (pg_Kvs page)))" for k v m
  proof -
    have member: "(k, v, m) \<in> set (take n rows @ drop n rows)" using row by (simp add: rows_def log_rows_iff)
    have "(k, v, m) \<in> set (take n rows)"
    proof (rule ccontr)
      assume "(k, v, m) \<notin> set (take n rows)"
      then have drop: "(k, v, m) \<in> set (drop n rows)" using member by (simp only: set_append Un_iff simp_thms)
      then have "n < length rows" by (cases "n < length rows") simp_all
      then have last: "take n rows \<noteq> []" "k \<le> fst (last (take n rows))" using upto by (auto simp: page last_map log_entry_def split: prod.splits)
      obtain v' m' where x: "last (take n rows) = (fst (last (take n rows)), v', m')" by (metis surjective_pairing)
      have in_take: "last (take n rows) \<in> set (take n rows)" using last(1) by simp
      then have "fst (last (take n rows)) = k" using sorted [OF _ drop] last(2) by fastforce
      then have "(k, v', m') \<in> set (take n rows)" using x in_take by metis
      moreover from this have "map_of (log_at l r') k = Some (v', m')"
        using set_take_subset [of n rows] unfolding rows_def log_rows_iff [symmetric] by (auto simp: log_rows_iff)
      ultimately show False using row \<open>(k, v, m) \<notin> set (take n rows)\<close> by simp
    qed
    then show ?thesis by (force simp: page log_entry_def)
  qed
  moreover have "(if r = 0 then mv_now (log_view l) else mv_at (log_view l) r) = map_of (log_at l r')"
    by (simp add: r'_def mv_now_def log_view_def)
  ultimately show ?thesis unfolding page_of_def by (simp add: page log_view_def)
qed

lemma log_cmp_iff: "log_cmp l c \<longleftrightarrow> cmp_holds (log_view l) c"
proof (cases c)
  case (CmpModRevisionBelow a b r)
  have "list_all (\<lambda>(k, v, m). m < r) (log_rows l (int (length l)) a b) \<longleftrightarrow>
      (\<forall>k v m. (k, v, m) \<in> set (log_rows l (int (length l)) a b) \<longrightarrow> m < r)"
    by (auto simp: list_all_iff)
  then show ?thesis by (simp add: CmpModRevisionBelow log_rows_iff log_now)
qed (simp add: log_now)

lemma log_txn_result:
  assumes "log_txn cs k v gets l = (Inr r, l')"
  shows "txn_result (log_view l) cs gets r \<and> log_view l' = (if tr_Succeeded r then mv_put (log_view l) k v else log_view l)"
  using assms
  by (auto simp: log_txn_def txn_result_def log_cmp_iff list_all_iff log_put log_now list_all2_map2 list_all2_same split: if_splits option.splits)

interpretation reference: etcd_claims log_storage log_view log_load "''/registry/ports/''" "''/registry/servicevips/''"
proof unfold_locales
  fix cs k v gets l tres l'
  assume t: "st_Txn log_storage cs k v gets l = (tres, l')"
  then obtain r where r: "tres = Inr r" by (auto simp: log_storage_def log_txn_def split: if_splits)
  then have "txn_result (log_view l) cs gets r \<and> log_view l' = (if tr_Succeeded r then mv_put (log_view l) k v else log_view l)"
    using t by (intro log_txn_result) (simp add: log_storage_def)
  then show "\<exists>t. claim_steps log_load ''/registry/ports/'' ''/registry/servicevips/'' (log_view l) t \<and>
      (case tres of
         Inl _ \<Rightarrow> claim_steps log_load ''/registry/ports/'' ''/registry/servicevips/'' t (log_view l') \<or>
           (\<forall>c \<in> set cs. cmp_holds t c) \<and> claim_steps log_load ''/registry/ports/'' ''/registry/servicevips/'' (mv_put t k v) (log_view l')
       | Inr r \<Rightarrow> txn_result t cs gets r \<and>
           claim_steps log_load ''/registry/ports/'' ''/registry/servicevips/'' (if tr_Succeeded r then mv_put t k v else t) (log_view l'))"
    using r by (intro exI [of _ "log_view l"]) simp
next
  fix p k :: string
  assume "has_suffix p ''.''"
  then obtain q where "p = q @ ''.''" by (auto simp: has_suffix_def)
  then show "p \<le> k \<and> k < st_RangeEnd log_storage p \<longleftrightarrow> has_prefix k p"
    using range_end_dot [of q k] by (simp add: log_storage_def)
next
  fix a b n r l pres l'
  assume g: "st_Get log_storage a b n r l = (pres, l')"
  then have "l' = l" by (simp add: log_storage_def log_get_def Let_def)
  then show "\<exists>t. claim_steps log_load ''/registry/ports/'' ''/registry/servicevips/'' (log_view l) t \<and>
      claim_steps log_load ''/registry/ports/'' ''/registry/servicevips/'' t (log_view l') \<and>
      (\<forall>page rev. pres = Inr (Some page) \<and> pg_Revision page = Some rev \<longrightarrow>
         rev = mv_rev t \<and> page_of (if r = 0 then mv_now t else mv_at t r) a b page)"
    using g log_page [of a b n r l] by (intro exI [of _ "log_view l"]) (auto simp: log_storage_def)
qed (auto simp: log_storage_def log_load_def has_suffix_def)

section \<open>The requests that a Create makes\<close>

text \<open>The same storage, counting its requests to etcd.\<close>

definition counted :: "('w, 'b, 'd) atomicStorage \<Rightarrow> ('w \<times> nat, 'b, 'd) atomicStorage" where
  "counted s = \<lparr>
     st_Err = (\<lambda>(w, n). case st_Err s w of (e, w) \<Rightarrow> (e, w, n)),
     st_Get = (\<lambda>a b limit r (w, n). case st_Get s a b limit r w of (x, w) \<Rightarrow> (x, w, Suc n)),
     st_Txn = (\<lambda>cs k v gets (w, n). case st_Txn s cs k v gets w of (x, w) \<Rightarrow> (x, w, Suc n)),
     st_RangeEnd = st_RangeEnd s, st_Prefix = st_Prefix s, st_PrepareKey = st_PrepareKey s, st_twinKey = st_twinKey s,
     st_ResourceVersion = st_ResourceVersion s, st_PrepareObject = st_PrepareObject s, st_Encode = st_Encode s,
     st_ToStorage = (\<lambda>d k (w, n). case st_ToStorage s d k w of (x, w) \<Rightarrow> (x, w, n)),
     st_FromStorage = st_FromStorage s, st_Decode = st_Decode s, st_Len = st_Len s \<rparr>"

lemma counted_Err: "st_Err (counted s) w = (e, w') \<Longrightarrow> snd w' = snd w"
  by (auto simp: counted_def split: prod.splits)

lemma counted_Get: "st_Get (counted s) a b n r w = (x, w') \<Longrightarrow> snd w' = Suc (snd w)"
  by (auto simp: counted_def split: prod.splits)

lemma counted_Txn: "st_Txn (counted s) cs k v gets w = (x, w') \<Longrightarrow> snd w' = Suc (snd w)"
  by (auto simp: counted_def split: prod.splits)

lemma counted_ToStorage: "st_ToStorage (counted s) d k w = (x, w') \<Longrightarrow> snd w' = snd w"
  by (auto simp: counted_def split: prod.splits)

lemma counted_entries: "guard_entries (counted s) dir pre start port es sc w = (res, w') \<Longrightarrow> snd w' = snd w"
proof (induction es arbitrary: sc w)
  case (Cons e es)
  then show ?case by (auto split: prod.splits option.splits sum.splits dest!: counted_Err)
qed simp

lemma counted_pages:
  "guard_pages (counted s) dir pre port start revision sc w = (res, w') \<Longrightarrow> snd w' \<le> snd w + 1 + (65535 - sc_seen sc)"
proof (induction "persistentScanLimit - sc_seen sc" arbitrary: start revision sc w rule: less_induct)
  case less
  from less(2) show ?case
  proof (cases rule: guard_page_worlds)
    case (1 x w1)
    then show ?thesis using counted_Err [OF 1(1)] by simp
  next
    case (2 x w1 y w2)
    then show ?thesis using counted_Err [OF 2(1)] counted_Get [OF 2(2)] by simp
  next
    case (3 x w1 y w2 es z w3)
    then show ?thesis using counted_Err [OF 3(1)] counted_Get [OF 3(2)] counted_entries [OF 3(3)] by simp
  next
    case (4 x w1 y w2 es sc' w3 nxt rv)
    have seen: "sc_seen sc < sc_seen sc'" "sc_seen sc' < 65536"
      using guard_entries_seen [OF 4(3)] 4(4,5) by (cases es; simp add: persistentScanLimit_def)+
    then have "snd w' \<le> snd w3 + 1 + (65535 - sc_seen sc')"
      using less(1) [OF _ 4(6)] by (simp add: persistentScanLimit_def)
    then show ?thesis using seen counted_Err [OF 4(1)] counted_Get [OF 4(2)] counted_entries [OF 4(3)] by simp
  qed
qed

lemma counted_guard: "claim_guard (counted s) prepared obj w = (res, w') \<Longrightarrow> snd w' \<le> snd w + 65536"
  by (auto simp: claim_guard_def persistentGuard_def Let_def split: claim_obj.splits option.splits prod.splits sum.splits if_splits
      dest!: counted_pages)

lemma counted_attempts:
  "create_attempts n (counted s) prepared twin obj d v out w = (res, w') \<Longrightarrow> snd w' \<le> snd w + n * 65537"
proof (induction n arbitrary: w)
  case (Suc n)
  obtain e w1 where e: "st_Err (counted s) w = (e, w1)" by (cases "st_Err (counted s) w")
  obtain g w2 where g: "claim_guard (counted s) prepared obj w1 = (g, w2)" by (cases "claim_guard (counted s) prepared obj w1")
  note 2 = counted_Err [OF e] counted_guard [OF g]
  show ?case
  proof (cases "e = None \<and> (\<exists>guard. g = Inr guard)")
    case False
    then show ?thesis using Suc(2) e g 2 by (cases e; cases g) auto
  next
    case True
    then obtain guard where guard: "e = None" "g = Inr guard" by blast
    obtain tr w3 where tr: "st_Txn (counted s) ([CmpVersionZero prepared, CmpVersionZero twin] @ guard) prepared v [prepared, twin] w2 = (tr, w3)"
      by (cases "st_Txn (counted s) ([CmpVersionZero prepared, CmpVersionZero twin] @ guard) prepared v [prepared, twin] w2")
    have "w' = w3 \<or> create_attempts n (counted s) prepared twin obj d v out w3 = (res, w')"
      using Suc(2) e g guard tr by (cases tr) (auto split: if_splits sum.splits)
    then show ?thesis using 2 counted_Txn [OF tr] Suc(1) [of w3] by auto
  qed
qed simp

lemma counted_Create: "atomic_Create (counted s) k obj out ttl w = (res, w') \<Longrightarrow> snd w' \<le> snd w + 8 * 65537"
  by (auto simp: atomic_Create_def persistentCreateAttempts_def split: sum.splits if_splits prod.splits
      dest!: counted_ToStorage counted_attempts)

section \<open>The claim of a persistent NIC\<close>

definition port_example :: Port where
  "port_example = \<lparr> port_meta = \<lparr> om_Name = ''v100.10-0-0-7'', om_Namespace = [], om_UID = ''1'',
       om_Labels = [LabelVMName \<mapsto> ''vm'', LabelVMNIC \<mapsto> ''eth0''], om_Annotations = Map.empty, om_Finalizers = [], om_Generation = 0, om_Deleting = False, om_Created = 0 \<rparr>,
     port_Spec = \<lparr> pts_VPCRef = \<lparr> vr_Namespace = ''tenant'', vr_Name = ''net'' \<rparr>, pts_IP = ''10.0.0.7'', pts_MAC = ''02:00:00:00:00:01'',
       pts_Node = ''n1'', pts_NodeIP = ''192.0.2.1'', pts_PodNamespace = ''tenant'', pts_PodName = ''virt-launcher'',
       pts_Gateway = False, pts_Forwarding = False, pts_Primary = True \<rparr>,
     port_Status = PortStatus_zero \<rparr>"

lemma port_example_name: "PortName 100 ''10.0.0.7'' = ''v100.10-0-0-7''"
proof -
  have "EscapeIP ''10.0.0.7'' = ''10-0-0-7''" by (simp add: EscapeIP_def has_prefix_one has_suffix_one)
  then show ?thesis
    by (simp add: PortName_def ClaimPrefixPort_def itoa_int_def itoa.simps digit_char_table digit_char_table(2) [simplified])
qed

lemma port_example_mac: "parse_mac ''02:00:00:00:00:01'' = Some [2, 0, 0, 0, 0, 1]"
  by code_simp

lemma port_example_claims: "port_claims port_example 100"
proof -
  have ip: "parse_ip ''10.0.0.7'' = Some (v4_in_v6_prefix @ [10, 0, 0, 7])" by (simp add: net_eval)
  have "\<not> IsReserved (v4_in_v6_prefix @ [10, 0, 0, 7])"
    by (simp add: IsReserved_def net_eval reserved_def addr_from_slice_def unmap_def)
  then show ?thesis
    using canonical_examples(1) ip
    by (simp add: port_claims_def holds_claim_def port_example_def port_example_name ValidVNI_def FirstVNI_def LastVNI_def)
qed

lemma port_example_valid: "claim_valid (PortObj port_example)"
proof -
  have "persistent_errors port_example = []"
    by (simp add: persistent_errors_def port_example_def IsPersistent_def label_def LabelVMName_def LabelVMNIC_def port_example_mac)
  moreover have "address_errors ClaimPrefixPort PortName (om_Name (port_meta port_example)) (pts_IP (port_Spec port_example)) = []"
    using port_example_claims address_errors_Nil [where pre = ClaimPrefixPort and name_of = PortName] claim_parses(1)
    by (auto simp: port_claims_def)
  ultimately show ?thesis by (simp add: port_Validate_def)
qed

abbreviation example_key :: string where "example_key \<equiv> ''/ports/v100.10-0-0-7''"

lemma port_example_keys: "claim_keys log_storage ''/registry/ports/'' ''/registry/servicevips/'' example_key (PortObj port_example)"
  by (simp add: claim_keys_def log_storage_def physical_key_def trim_suffix_def trim_prefix_def has_suffix_def port_example_def)

lemma port_example_parse: "ParseClaim ClaimPrefixPort ''v100.10-0-0-7'' = Some (100, EscapeIP ''10.0.0.7'')"
  using port_claims_parse [OF port_example_claims] by (simp add: port_example_def)

lemma port_example_created:
  "atomic_Create log_storage example_key (PortObj port_example) False 0 [[]] =
     (None, [[(''/registry/ports/v100.10-0-0-7'', PortObj port_example, 2)], []])"
proof -
  have g: "guard_pages log_storage dir pre port_example start 0 sc [[]] = (Inr (1, sc_match sc), [[]])" for dir pre start sc
    by (subst guard_pages.simps) (simp add: log_storage_def log_get_def log_rows_def log_at_def)
  have name: "om_Name (port_meta port_example) = ''v100.10-0-0-7''" by (simp add: port_example_def)
  have twin: "twin_name (PortObj port_example) = Inr (ServiceVIPName 100 ''10.0.0.7'')"
    by (simp add: name port_example_parse) (simp add: port_example_def)
  have k: "physical_key log_storage example_key = ''/registry/ports/v100.10-0-0-7''"
    by (simp add: log_storage_def physical_key_def trim_suffix_def trim_prefix_def has_suffix_def)
  have "IsPersistent port_example" by (simp add: port_example_def IsPersistent_def label_def)
  then obtain pre where guard: "claim_guard log_storage p (PortObj port_example) [[]] =
      (Inr [CmpModRevisionBelow (pre p) (st_RangeEnd log_storage (pre p)) 2], [[]])" for p
    by (simp add: claim_guard_def persistentGuard_def Let_def g MaxInt64_def)
  have "log_txn ([CmpVersionZero p, CmpVersionZero l] @ [CmpModRevisionBelow a b 2]) p v gets [[]] =
      (Inr \<lparr> tr_Succeeded = True, tr_Responses = [] \<rparr>, [[(p, v, 2)], []])" for p l a b v gets
    by (simp add: log_txn_def log_at_def log_rows_def)
  then have "create_attempts (Suc n) log_storage p l (PortObj port_example) d v False [[]] = (None, [[(p, v, 2)], []])" for n p l d v
    using guard [of p] by (simp add: log_fields)
  then have "create_attempts persistentCreateAttempts log_storage p l (PortObj port_example) d v False [[]] = (None, [[(p, v, 2)], []])"
    for p l d v unfolding persistentCreateAttempts_def by (simp only: numeral_eq_Suc)
  then show ?thesis
    using twin k by (simp add: atomic_Create_def log_fields del: twin_name.simps create_attempts.simps)
qed

lemma mv_ok_empty: "mv_ok (log_view [[]])"
  by (auto simp: mv_ok_def log_view_def log_at_def)

section \<open>Properties\<close>

text \<open>(C6) Creating a claim is atomic, with any number of writers. However the other writers' requests fall between
  the page reads and the transaction of a Create, everything that happens to the store, this Create included, is a
  sequence of atomic claim steps; when the Create reports success its claim was written in one step, when nobody held
  it; and it answers that the key exists only when the claim or its twin was held while it ran.\<close>

theorem claim_create_atomic:
  assumes "etcd_claims s view load pdir vdir" "claim_valid obj" "claim_keys s pdir vdir k obj" "mv_ok (view w)"
    and "atomic_Create s k obj out ttl w = (res, w')"
  shows "claim_steps load pdir vdir (view w) (view w') \<and> create_outcome load pdir vdir obj res (view w) (view w')"
  using etcd_claims.atomic_Create_outcome [OF assms] create_outcome_steps by blast

theorem claim_create_atomic_witness:
  "fst (atomic_Create log_storage example_key (PortObj port_example) False 0 [[]]) = None \<and>
   create_outcome log_load ''/registry/ports/'' ''/registry/servicevips/'' (PortObj port_example) None (log_view [[]])
     (log_view [[(''/registry/ports/v100.10-0-0-7'', PortObj port_example, 2)], []])"
  using claim_create_atomic [OF reference.etcd_claims_axioms port_example_valid port_example_keys mv_ok_empty port_example_created]
    port_example_created by simp

text \<open>(C4) No address is given out twice. In a store that started without claims, whatever steps its writers took, two
  stored claims on the same address in the same VNI, be they Ports or ServiceVIPs, are one and the same; and two
  stored Ports of the same persistent NIC in a VNI are one and the same.\<close>

theorem claims_exclusive:
  assumes "claim_steps load pdir vdir s t" "\<forall>k. has_prefix k pdir \<or> has_prefix k vdir \<longrightarrow> mv_now s k = None"
    and "holder load pdir vdir t k a" "holder load pdir vdir t l b"
    and "claims_address a vni ip" "claims_address b vni ip' "
    and "ip = ip' \<or> (\<exists>p q. a = PortObj p \<and> b = PortObj q \<and> SamePersistentNIC p q)"
  shows "k = l \<and> a = b"
proof -
  have "\<not> holder load pdir vdir s j obj" for j obj
    using assms(2) claim_key_dir [of pdir vdir obj] by (auto simp: holder_def stored_def)
  then have "claims_inv load pdir vdir s"
    using assms(2) by (auto simp: claims_inv_def well_keyed_def one_holder_def one_nic_def)
  then have inv: "claims_inv load pdir vdir t" by (rule steps_inv [OF assms(1)])
  have "k = l"
    using assms(7) one_holderD [OF inv assms(3,4,5)] assms(6) one_nicD [OF inv, of k _ l _ vni] assms(3-5) by auto
  then show ?thesis using holder_unique [OF assms(3)] assms(4) by (auto simp: holder_def)
qed

theorem claims_exclusive_witness:
  "\<forall>l v. \<not> (holder log_load ''/registry/ports/'' ''/registry/servicevips/''
     (log_view [[(''/registry/ports/v100.10-0-0-7'', PortObj port_example, 2)], []]) l (VIPObj v) \<and>
     claims_address (VIPObj v) 100 ''10.0.0.7'')"
proof -
  let ?t = "log_view [[(''/registry/ports/v100.10-0-0-7'', PortObj port_example, 2)], []]"
  let ?h = "holder log_load ''/registry/ports/'' ''/registry/servicevips/'' ?t ''/registry/ports/v100.10-0-0-7'' (PortObj port_example)"
  have h: ?h by (simp add: holder_def stored_def log_now log_at_def log_load_def) (simp add: port_example_def)
  have c: "claims_address (PortObj port_example) 100 ''10.0.0.7''"
    using port_example_claims by (simp add: port_example_def)
  have steps: "claim_steps log_load ''/registry/ports/'' ''/registry/servicevips/'' (log_view [[]]) ?t"
    by (rule create_outcome_steps [OF reference.atomic_Create_outcome
          [OF port_example_valid port_example_keys mv_ok_empty port_example_created]])
  have "\<forall>k. has_prefix k ''/registry/ports/'' \<or> has_prefix k ''/registry/servicevips/'' \<longrightarrow> mv_now (log_view [[]]) k = None"
    by (simp add: log_now log_at_def)
  from claims_exclusive [OF steps this h _ c] show ?thesis by blast
qed

text \<open>(C35) A Create ends, whatever etcd answers: it makes at most eight times 65537 requests.\<close>

theorem claim_create_terminates:
  "snd (snd (atomic_Create (counted s) k obj out ttl (w, 0))) \<le> 8 * 65537"
  using counted_Create [of s k obj out ttl "(w, 0)"] by (cases "atomic_Create (counted s) k obj out ttl (w, 0)") auto

end
