(* ===== verification/ClaimWalk.thy ===== *)
theory ClaimWalk
  imports Prelude
begin

text \<open>
  The bounded live scan that every allocator makes before it publishes an identifier: \<^verbatim>\<open>internal/ipam/claims.go\<close>. A
  controller sees the API server through calls that take and return the state of the world; other writers may act
  during every call. The context is such a call too, since a deadline may pass at any time.
\<close>

section \<open>Calls\<close>

datatype ctl_error =
    NotFound | WriteConflict | AlreadyExists | ContextDone | ApiFailure
  | ScanBudget | ScanStalled | ScanPages
  | CounterDeleting | CounterInvalid | VniExhausted | VniUnconfirmed
  | SelectorInvalid | ReferenceInvalid | MembershipBudget

type_synonym ('w, 'a) api_call = "'w \<Rightarrow> (ctl_error + 'a) \<times> 'w"

text \<open>A paged list: the page limit and the continuation token give items and the next token, empty at the end.\<close>

type_synonym ('w, 't) list_call = "nat \<Rightarrow> string \<Rightarrow> ('w, 't list \<times> string) api_call"

definition give :: "'a \<Rightarrow> ('w, 'a) api_call" where
  "give a w = (Inr a, w)"

definition fail :: "ctl_error \<Rightarrow> ('w, 'a) api_call" where
  "fail e w = (Inl e, w)"

text \<open>The next statement after a call whose error returns.\<close>

definition andThen :: "('w, 'a) api_call \<Rightarrow> ('a \<Rightarrow> ('w, 'b) api_call) \<Rightarrow> ('w, 'b) api_call" where
  "andThen call f w = (case call w of (Inl e, w) \<Rightarrow> (Inl e, w) | (Inr a, w) \<Rightarrow> f a w)"

text \<open>A call whose error the caller looks at.\<close>

definition handle :: "('w, 'a) api_call \<Rightarrow> (ctl_error + 'a \<Rightarrow> ('w, 'b) api_call) \<Rightarrow> ('w, 'b) api_call" where
  "handle call f w = (case call w of (r, w) \<Rightarrow> f r w)"

named_theorems call_ok \<open>when a sequence of calls succeeds\<close>

lemma give_ok [call_ok]: "give a w = (Inr b, w') \<longleftrightarrow> b = a \<and> w' = w"
  by (auto simp: give_def)

lemma fail_ok [call_ok]: "fail e w = (Inr b, w') \<longleftrightarrow> False"
  by (simp add: fail_def)

lemma andThen_ok [call_ok]: "andThen call f w = (Inr b, w') \<longleftrightarrow> (\<exists>a v. call w = (Inr a, v) \<and> f a v = (Inr b, w'))"
  by (auto simp: andThen_def split: prod.splits sum.splits)

lemma handle_eq [call_ok]: "handle call f w = (r, w') \<longleftrightarrow> (\<exists>x v. call w = (x, v) \<and> f x v = (r, w'))"
  by (auto simp: handle_def split: prod.splits)

section \<open>The scan\<close>

definition ClaimPageSize :: nat where "ClaimPageSize = 128"
definition MaxClaimScan :: nat where "MaxClaimScan = 65536"
definition maxClaimPages :: nat where "maxClaimPages = MaxClaimScan div ClaimPageSize"

fun visit_items :: "('w, unit) api_call \<Rightarrow> ('t \<Rightarrow> 's \<Rightarrow> 's) \<Rightarrow> 't list \<Rightarrow> 's \<Rightarrow> ('w, 's) api_call" where
  "visit_items ctx visit [] s = give s"
| "visit_items ctx visit (x # xs) s = andThen ctx (\<lambda>_. visit_items ctx visit xs (visit x s))"

text \<open>The loop over the pages that are left; the visitor builds the temporary state \<^term>\<open>s\<close>.\<close>

fun walk_pages :: "('w, unit) api_call \<Rightarrow> ('w, 't) list_call \<Rightarrow> ('t \<Rightarrow> 's \<Rightarrow> 's) \<Rightarrow> nat \<Rightarrow> string \<Rightarrow> nat \<Rightarrow> 's \<Rightarrow> ('w, 's) api_call" where
  "walk_pages ctx list visit 0 token tally s = fail ScanPages"
| "walk_pages ctx list visit (Suc pages) token tally s =
     andThen ctx (\<lambda>_. andThen (list ClaimPageSize token) (\<lambda>(items, more).
       if ClaimPageSize < length items \<or> int MaxClaimScan - int tally < int (length items) then fail ScanBudget
       else andThen (visit_items ctx visit items s) (\<lambda>s. andThen ctx (\<lambda>_.
         if more = [] then give s
         else if more = token then fail ScanStalled
         else walk_pages ctx list visit pages more (tally + length items) s))))"

definition WalkClaims :: "('w, unit) api_call \<Rightarrow> ('w, 't) list_call \<Rightarrow> ('t \<Rightarrow> 's \<Rightarrow> 's) \<Rightarrow> 's \<Rightarrow> ('w, 's) api_call" where
  "WalkClaims ctx list visit s = walk_pages ctx list visit maxClaimPages [] 0 s"

section \<open>Interference\<close>

text \<open>What other writers may do to the world while a call runs.\<close>

locale interference =
  fixes env :: "'w \<Rightarrow> 'w \<Rightarrow> bool"
  assumes env_refl [intro]: "env w w"
    and env_trans: "env u v \<Longrightarrow> env v w \<Longrightarrow> env u w"
begin

text \<open>A call that itself writes nothing.\<close>

definition quiet :: "('w, 'a) api_call \<Rightarrow> bool" where
  "quiet call \<longleftrightarrow> (\<forall>w r w'. call w = (r, w') \<longrightarrow> env w w')"

lemma quietD: "quiet call \<Longrightarrow> call w = (r, w') \<Longrightarrow> env w w'"
  by (simp add: quiet_def)

lemma quiet_give [simp]: "quiet (give a)" and quiet_fail [simp]: "quiet (fail e)"
  by (simp_all add: quiet_def give_def fail_def env_refl)

lemma quiet_andThen: "quiet call \<Longrightarrow> (\<And>a. quiet (f a)) \<Longrightarrow> quiet (andThen call f)"
  unfolding quiet_def andThen_def by (auto split: prod.splits sum.splits) (meson env_trans)

lemma quiet_handle: "quiet call \<Longrightarrow> (\<And>r. quiet (f r)) \<Longrightarrow> quiet (handle call f)"
  unfolding quiet_def handle_def by (auto split: prod.splits) (meson env_trans)

lemma visit_items_quiet: "quiet ctx \<Longrightarrow> quiet (visit_items ctx visit xs s)"
  by (induction xs arbitrary: s) (auto intro: quiet_andThen)

lemma visit_items_ok: "visit_items ctx visit xs s w = (Inr s', w') \<Longrightarrow> s' = fold visit xs s"
  by (induction xs arbitrary: s w) (auto simp: call_ok)

end

text \<open>
  A paged list of the API server reads one snapshot: the first page takes it, and a token stands for the items that the
  snapshot still holds, whatever happens to the objects in between.
\<close>

locale paged_list = interference env
  for env :: "'w \<Rightarrow> 'w \<Rightarrow> bool" +
  fixes ctx :: "('w, unit) api_call" and list :: "('w, 't) list_call" and view :: "'w \<Rightarrow> 't list" and rest :: "string \<Rightarrow> 't list"
  assumes ctx_quiet: "quiet ctx" and list_quiet: "quiet (list n token)"
    and list_first: "list n [] w = (Inr (items, more), w') \<Longrightarrow>
      \<exists>v. env w v \<and> env v w' \<and> view v = items @ (if more = [] then [] else rest more)"
    and list_next: "token \<noteq> [] \<Longrightarrow> list n token w = (Inr (items, more), w') \<Longrightarrow>
      rest token = items @ (if more = [] then [] else rest more)"
begin

lemma walk_pages_quiet: "quiet (walk_pages ctx list visit pages token tally s)"
  by (induction pages arbitrary: token tally s)
    (auto intro!: quiet_andThen ctx_quiet list_quiet visit_items_quiet split: prod.splits)

lemma walk_pages_step:
  assumes "walk_pages ctx list visit (Suc pages) token tally s w = (Inr s', w')"
  shows "\<exists>u v items more w1. env w u \<and> list ClaimPageSize token u = (Inr (items, more), v) \<and> tally + length items \<le> MaxClaimScan \<and> env v w1 \<and>
    (if more = [] then w1 = w' \<and> s' = fold visit items s
     else walk_pages ctx list visit pages more (tally + length items) (fold visit items s) w1 = (Inr s', w'))"
proof -
  obtain u items more v where 1: "ctx w = (Inr (), u)" "list ClaimPageSize token u = (Inr (items, more), v)"
    and fits: "\<not> (ClaimPageSize < length items \<or> int MaxClaimScan - int tally < int (length items))"
    and tail: "andThen (visit_items ctx visit items s) (\<lambda>s. andThen ctx (\<lambda>_. if more = [] then give s
      else if more = token then fail ScanStalled else walk_pages ctx list visit pages more (tally + length items) s)) v = (Inr s', w')"
    using assms by (auto simp: call_ok split: if_splits)
  obtain t v1 w1 where 2: "visit_items ctx visit items s v = (Inr t, v1)" "ctx v1 = (Inr (), w1)"
    "(if more = [] then give t else if more = token then fail ScanStalled
      else walk_pages ctx list visit pages more (tally + length items) t) w1 = (Inr s', w')"
    using tail unfolding andThen_ok by auto
  have t: "t = fold visit items s" using visit_items_ok 2(1) .
  have "env v w1" using quietD [OF visit_items_quiet [OF ctx_quiet] 2(1)] quietD [OF ctx_quiet 2(2)] env_trans by blast
  moreover have "env w u" using quietD [OF ctx_quiet 1(1)] .
  ultimately show ?thesis using 1(2) 2(3) fits t by (intro exI [of _ u] exI [of _ v] exI [of _ items] exI [of _ more] exI [of _ w1])
      (auto simp: call_ok split: if_splits)
qed

lemma walk_rest:
  "walk_pages ctx list visit pages token tally s w = (Inr s', w') \<Longrightarrow> token \<noteq> [] \<Longrightarrow>
    s' = fold visit (rest token) s \<and> tally + length (rest token) \<le> MaxClaimScan"
proof (induction pages arbitrary: token tally s w)
  case (Suc pages)
  obtain u v items more w1 where step: "list ClaimPageSize token u = (Inr (items, more), v)" "tally + length items \<le> MaxClaimScan"
    "if more = [] then w1 = w' \<and> s' = fold visit items s
     else walk_pages ctx list visit pages more (tally + length items) (fold visit items s) w1 = (Inr s', w')"
    using walk_pages_step [OF Suc.prems(1)] by blast
  note rest = list_next [OF Suc.prems(2) step(1)]
  show ?case
  proof (cases "more = []")
    case False
    then show ?thesis using Suc.IH [of more "tally + length items" "fold visit items s" w1] step(3) rest by simp
  qed (use step rest in simp)
qed (simp add: call_ok)

text \<open>A scan that succeeds has visited every object of one snapshot, in its order.\<close>

lemma WalkClaims_snapshot:
  assumes "WalkClaims ctx list visit s w = (Inr s', w')"
  shows "\<exists>v. env w v \<and> env v w' \<and> s' = fold visit (view v) s \<and> length (view v) \<le> MaxClaimScan"
proof -
  have "maxClaimPages = Suc 511" by (simp add: maxClaimPages_def MaxClaimScan_def ClaimPageSize_def)
  then have "walk_pages ctx list visit (Suc 511) [] 0 s w = (Inr s', w')" using assms by (simp only: WalkClaims_def)
  then obtain u v items more w1 where step: "env w u" "list ClaimPageSize [] u = (Inr (items, more), v)" "length items \<le> MaxClaimScan"
    "env v w1" "if more = [] then w1 = w' \<and> s' = fold visit items s
     else walk_pages ctx list visit 511 more (length items) (fold visit items s) w1 = (Inr s', w')"
    using walk_pages_step [of visit 511 "[]" 0 s w s' w'] unfolding add_0 by blast
  obtain x where x: "env u x" "env x v" "view x = items @ (if more = [] then [] else rest more)"
    using list_first [OF step(2)] by blast
  have "env w1 w'" using step(5) quietD [OF walk_pages_quiet] by (auto split: if_splits)
  then have env: "env w x" "env x w'" using x step(1,4) env_trans by blast+
  show ?thesis
  proof (cases "more = []")
    case False
    then show ?thesis using walk_rest [of visit 511 more "length items" "fold visit items s" w1 s' w'] step(5) x env by (intro exI [of _ x]) simp
  qed (use step x env in auto)
qed

lemma WalkClaims_quiet: "quiet (WalkClaims ctx list visit s)"
  unfolding WalkClaims_def by (rule walk_pages_quiet)

end

end
