(* ===== verification/VniAllocator.thy ===== *)
theory VniAllocator
  imports ClaimWalk Claims "HOL-Library.List_Lexorder" "HOL-Library.Char_ord"
begin

text \<open>
  Allocation of network identifiers, \<^verbatim>\<open>internal/controller/sdn/vpc_controller.go\<close>. The allocator reserves the next
  number in a counter object with an optimistic write before any status shows it, so that a number is never handed out
  twice, whatever other replicas do and whichever errors the calls return. The first reservation starts above every
  number that a VPC, a Port or a ServiceVIP holds.
\<close>

section \<open>The API as the allocator uses it\<close>

text \<open>The counter object: its resource version, whether it is being deleted, and its annotations.\<close>

record Lease =
  le_Version :: nat
  le_Deleting :: bool
  le_Annotations :: "string \<rightharpoonup> string"

record 'w vni_api =
  va_ctx :: "('w, unit) api_call"
  va_get :: "('w, Lease) api_call"
  va_create :: "Lease \<Rightarrow> ('w, unit) api_call"
  va_update :: "Lease \<Rightarrow> ('w, unit) api_call"
  va_vpcs :: "('w, VPC) list_call"
  va_ports :: "('w, Port) list_call"
  va_vips :: "('w, ServiceVIP) list_call"

definition vniCounterAnnotation :: string where "vniCounterAnnotation = ''sdn.cozystack.io/last-vni''"

section \<open>The first reservation\<close>

definition vpc_high :: "VPC \<Rightarrow> int \<Rightarrow> int" where
  "vpc_high vpc high = (if ValidVNI (vst_VNI (vpc_Status vpc)) then max high (vst_VNI (vpc_Status vpc)) else high)"

definition claim_high :: "string \<Rightarrow> ('o \<Rightarrow> ObjectMeta) \<Rightarrow> 'o \<Rightarrow> int \<Rightarrow> int" where
  "claim_high pre meta obj high = (case ParseClaim pre (om_Name (meta obj)) of Some (vni, _) \<Rightarrow> max high vni | None \<Rightarrow> high)"

definition initialVNIHighWater :: "'w vni_api \<Rightarrow> ('w, int) api_call" where
  "initialVNIHighWater api =
     andThen (WalkClaims (va_ctx api) (va_vpcs api) vpc_high (FirstVNI - 1)) (\<lambda>high.
     andThen (WalkClaims (va_ctx api) (va_ports api) (claim_high ClaimPrefixPort port_meta) high) (\<lambda>high.
     WalkClaims (va_ctx api) (va_vips api) (claim_high ClaimPrefixServiceVIP sv_meta) high))"

section \<open>Reservation\<close>

text \<open>An attempt without a counter, and one that found it.\<close>

definition vni_bootstrap :: "'w vni_api \<Rightarrow> ('w, int) api_call" where
  "vni_bootstrap api = andThen (initialVNIHighWater api) (\<lambda>high.
     if LastVNI \<le> high then fail VniExhausted
     else let candidate = high + 1 in
       andThen (va_create api \<lparr> le_Version = 0, le_Deleting = False, le_Annotations = [vniCounterAnnotation \<mapsto> itoa_int candidate] \<rparr>)
         (\<lambda>_. give candidate))"

definition vni_increment :: "'w vni_api \<Rightarrow> Lease \<Rightarrow> ('w, int) api_call" where
  "vni_increment api counter =
     (if le_Deleting counter then fail CounterDeleting
      else case parse_int 32 (case le_Annotations counter vniCounterAnnotation of Some s \<Rightarrow> s | None \<Rightarrow> []) of
        None \<Rightarrow> fail CounterInvalid
      | Some high \<Rightarrow>
          if high < FirstVNI - 1 \<or> LastVNI < high then fail CounterInvalid
          else if high = LastVNI then fail VniExhausted
          else let candidate = high + 1 in
            andThen (va_update api (counter \<lparr> le_Annotations := (le_Annotations counter)(vniCounterAnnotation \<mapsto> itoa_int candidate) \<rparr>))
              (\<lambda>_. give candidate))"

definition vni_attempt :: "'w vni_api \<Rightarrow> ('w, int) api_call" where
  "vni_attempt api = andThen (va_ctx api) (\<lambda>_. handle (va_get api) (\<lambda>r. case r of
     Inr counter \<Rightarrow> vni_increment api counter
   | Inl e \<Rightarrow> if e = NotFound then vni_bootstrap api else fail e))"

text \<open>\<^verbatim>\<open>retry.OnError\<close> of client-go with \<^verbatim>\<open>retry.DefaultRetry\<close>: five attempts, again only after an error that the test accepts;
  the last error is the result. Zero stands for an \<^verbatim>\<open>allocated\<close> that no attempt set.\<close>

fun retry_OnError :: "nat \<Rightarrow> (ctl_error \<Rightarrow> bool) \<Rightarrow> ('w, int) api_call \<Rightarrow> ('w, int) api_call" where
  "retry_OnError 0 retriable attempt = give 0"
| "retry_OnError (Suc steps) retriable attempt = handle attempt (\<lambda>r. case r of
     Inr a \<Rightarrow> give a
   | Inl e \<Rightarrow> if retriable e \<and> steps \<noteq> 0 then retry_OnError steps retriable attempt else fail e)"

definition allocateVNI :: "'w vni_api \<Rightarrow> ('w, int) api_call" where
  "allocateVNI api =
     handle (retry_OnError 5 (\<lambda>e. e = WriteConflict \<or> e = AlreadyExists) (vni_attempt api)) (\<lambda>r.
     andThen (va_ctx api) (\<lambda>_. case r of
       Inl e \<Rightarrow> fail e
     | Inr allocated \<Rightarrow> if allocated < FirstVNI \<or> LastVNI < allocated then fail VniUnconfirmed else give allocated))"

section \<open>Duplicates of older clusters\<close>

text \<open>Strings compare by bytes, times as seconds.\<close>

record vpcClaim =
  vcl_created :: int
  vcl_name :: string

definition vpcClaimKey :: "VPC \<Rightarrow> vpcClaim" where
  "vpcClaimKey v = \<lparr> vcl_created = om_Created (vpc_meta v), vcl_name = om_Namespace (vpc_meta v) @ ''/'' @ om_Name (vpc_meta v) \<rparr>"

definition vpcClaimOlder :: "vpcClaim \<Rightarrow> vpcClaim \<Rightarrow> bool" where
  "vpcClaimOlder a b = (if vcl_created a \<noteq> vcl_created b then vcl_created a < vcl_created b else vcl_name a < vcl_name b)"

definition lostVNIToDuplicate :: "'w vni_api \<Rightarrow> VPC \<Rightarrow> ('w, bool) api_call" where
  "lostVNIToDuplicate api vpc =
     WalkClaims (va_ctx api) (va_vpcs api) (\<lambda>other lost.
       if vst_VNI (vpc_Status other) \<noteq> vst_VNI (vpc_Status vpc) \<or>
          (om_Namespace (vpc_meta other) = om_Namespace (vpc_meta vpc) \<and> om_Name (vpc_meta other) = om_Name (vpc_meta vpc)) then lost
       else if vpcClaimOlder (vpcClaimKey other) (vpcClaimKey vpc) then True else lost) False"

section \<open>The numbers in use\<close>

definition vpc_vnis :: "VPC list \<Rightarrow> int set" where
  "vpc_vnis vpcs = {n. ValidVNI n \<and> (\<exists>v \<in> set vpcs. vst_VNI (vpc_Status v) = n)}"

definition claim_vnis :: "string \<Rightarrow> ('o \<Rightarrow> ObjectMeta) \<Rightarrow> 'o list \<Rightarrow> int set" where
  "claim_vnis pre meta objs = {n. \<exists>x \<in> set objs. \<exists>esc. ParseClaim pre (om_Name (meta x)) = Some (n, esc)}"

lemma fold_vpc_high: "a \<le> fold vpc_high vpcs a \<and> (\<forall>n \<in> vpc_vnis vpcs. n \<le> fold vpc_high vpcs a)"
proof (induction vpcs arbitrary: a)
  case (Cons v vpcs)
  have "a \<le> vpc_high v a" "ValidVNI (vst_VNI (vpc_Status v)) \<Longrightarrow> vst_VNI (vpc_Status v) \<le> vpc_high v a" by (simp_all add: vpc_high_def)
  then show ?case using Cons.IH [of "vpc_high v a"] by (auto simp: vpc_vnis_def intro: order_trans)
qed (simp add: vpc_vnis_def)

lemma fold_claim_high: "a \<le> fold (claim_high pre meta) objs a \<and> (\<forall>n \<in> claim_vnis pre meta objs. n \<le> fold (claim_high pre meta) objs a)"
proof (induction objs arbitrary: a)
  case (Cons x objs)
  have "a \<le> claim_high pre meta x a" "ParseClaim pre (om_Name (meta x)) = Some (n, esc) \<Longrightarrow> n \<le> claim_high pre meta x a" for n esc
    by (auto simp: claim_high_def split: option.splits)
  then show ?case using Cons.IH [of "claim_high pre meta x a"] by (auto simp: claim_vnis_def intro: order_trans)
qed (simp add: claim_vnis_def)

lemma counter_roundtrip:
  assumes "FirstVNI - 1 \<le> n" "n \<le> LastVNI"
  shows "parse_int 32 (itoa_int n) = Some n"
  using parse_int_itoa [of "nat n" 32] assms by (simp add: itoa_int_def FirstVNI_def LastVNI_def nat_less_iff)

section \<open>The contract of the API server\<close>

text \<open>
  A reserved number is a successful write of the counter; \<^term>\<open>issued\<close> is the list of all of them, the newest first.
\<close>

definition counter_inv :: "Lease option \<Rightarrow> int list \<Rightarrow> int set \<Rightarrow> bool" where
  "counter_inv cur issued used \<longleftrightarrow>
     (case cur of
        None \<Rightarrow> issued = []
      | Some l \<Rightarrow> issued \<noteq> [] \<and> le_Annotations l vniCounterAnnotation = Some (itoa_int (hd issued)) \<and> (\<forall>n \<in> used. n \<le> hd issued)) \<and>
     sorted_wrt (>) issued \<and> (\<forall>n \<in> set issued. ValidVNI n)"

lemma counter_inv_extend:
  assumes "counter_inv cur issued used" "ValidVNI n" "\<forall>m \<in> used. m < n" "issued \<noteq> [] \<longrightarrow> hd issued < n"
    "le_Annotations l vniCounterAnnotation = Some (itoa_int n)"
  shows "counter_inv (Some l) (n # issued) used"
proof -
  have "m < n" if "m \<in> set issued" for m
    using assms(1,4) that by (cases issued) (auto simp: counter_inv_def split: option.splits)
  then show ?thesis using assms by (auto simp: counter_inv_def intro: less_imp_le split: option.splits)
qed

lemma decreasing_distinct: "sorted_wrt (>) (xs :: int list) \<Longrightarrow> distinct xs"
  by (induction xs) auto

definition vnis_in_use :: "VPC list \<Rightarrow> Port list \<Rightarrow> ServiceVIP list \<Rightarrow> int set" where
  "vnis_in_use vpcs ports vips = vpc_vnis vpcs \<union> claim_vnis ClaimPrefixPort port_meta ports \<union> claim_vnis ClaimPrefixServiceVIP sv_meta vips"

text \<open>
  Reads and writes happen at some moment of their call. A write of the counter may take effect although the call reports
  an error. An update takes effect only on the version that was read. Other writers keep the counter, advance it by the
  same protocol, and while there is none, publish no new number: a claim names the number of a VPC.
\<close>

locale vni_server =
  vpcs: paged_list env "va_ctx api" "va_vpcs api" vpcs_of vrest + ports: paged_list env "va_ctx api" "va_ports api" ports_of prest +
  vips: paged_list env "va_ctx api" "va_vips api" vips_of srest
  for env :: "'w \<Rightarrow> 'w \<Rightarrow> bool" and api :: "'w vni_api" and vpcs_of vrest ports_of prest vips_of srest +
  fixes cur :: "'w \<Rightarrow> Lease option" and issued :: "'w \<Rightarrow> int list"
  assumes get_reads: "va_get api w = (g, w') \<Longrightarrow> \<exists>v. env w v \<and> env v w' \<and>
      (case g of Inr l \<Rightarrow> cur v = Some l | Inl e \<Rightarrow> e = NotFound \<longrightarrow> cur v = None)"
    and create_writes: "va_create api l w = (r, w') \<Longrightarrow> le_Annotations l vniCounterAnnotation = Some (itoa_int n) \<Longrightarrow> ValidVNI n \<Longrightarrow>
      r \<noteq> Inr () \<and> env w w' \<or>
      (\<exists>u v l'. env w u \<and> cur u = None \<and> cur v = Some l' \<and> le_Annotations l' = le_Annotations l \<and> issued v = n # issued u \<and>
        (vpcs_of v, ports_of v, vips_of v) = (vpcs_of u, ports_of u, vips_of u) \<and> env v w')"
    and update_writes: "va_update api l w = (r, w') \<Longrightarrow> le_Annotations l vniCounterAnnotation = Some (itoa_int n) \<Longrightarrow> ValidVNI n \<Longrightarrow>
      r \<noteq> Inr () \<and> env w w' \<or>
      (\<exists>u v l0 l'. env w u \<and> cur u = Some l0 \<and> le_Version l0 = le_Version l \<and> cur v = Some l' \<and> le_Annotations l' = le_Annotations l \<and>
        issued v = n # issued u \<and> (vpcs_of v, ports_of v, vips_of v) = (vpcs_of u, ports_of u, vips_of u) \<and> env v w')"
    and env_inv: "env w w' \<Longrightarrow> counter_inv (cur w) (issued w) (vnis_in_use (vpcs_of w) (ports_of w) (vips_of w)) \<Longrightarrow>
      counter_inv (cur w') (issued w') (vnis_in_use (vpcs_of w') (ports_of w') (vips_of w'))"
    and env_issued: "env w w' \<Longrightarrow> \<exists>xs. issued w' = xs @ issued w"
    and env_version: "env w w' \<Longrightarrow> cur w = Some l \<Longrightarrow> cur w' = Some l' \<Longrightarrow> le_Version l' = le_Version l \<Longrightarrow> l' = l \<and> issued w' = issued w"
    and env_durable: "env w w' \<Longrightarrow> cur w' = None \<Longrightarrow> cur w = None"
    and env_unissued: "env w w' \<Longrightarrow> cur w' = None \<Longrightarrow> vpc_vnis (vpcs_of w') \<subseteq> vpc_vnis (vpcs_of w) \<and>
      claim_vnis ClaimPrefixPort port_meta (ports_of w') \<subseteq> claim_vnis ClaimPrefixPort port_meta (ports_of w) \<union> vpc_vnis (vpcs_of w) \<and>
      claim_vnis ClaimPrefixServiceVIP sv_meta (vips_of w') \<subseteq> claim_vnis ClaimPrefixServiceVIP sv_meta (vips_of w) \<union> vpc_vnis (vpcs_of w)"
begin

definition used :: "'w \<Rightarrow> int set" where
  "used w = vnis_in_use (vpcs_of w) (ports_of w) (vips_of w)"

definition inv :: "'w \<Rightarrow> bool" where
  "inv w \<longleftrightarrow> counter_inv (cur w) (issued w) (used w)"

text \<open>A write of number \<^term>\<open>n\<close> that took effect at \<^term>\<open>u\<close>.\<close>

definition reserves :: "int \<Rightarrow> 'w \<Rightarrow> 'w \<Rightarrow> bool" where
  "reserves n w w' \<longleftrightarrow> (\<exists>u v. env w u \<and> inv u \<and> inv v \<and> ValidVNI n \<and> n \<notin> used u \<and> issued v = n # issued u \<and> env v w')"

lemma env_keeps: "env w w' \<Longrightarrow> inv w \<Longrightarrow> inv w'"
  using env_inv unfolding inv_def used_def by blast

lemma get_env: "va_get api w = (g, w') \<Longrightarrow> env w w'"
  using get_reads vpcs.env_trans by blast

lemma high_water_quiet: "vpcs.quiet (initialVNIHighWater api)"
  unfolding initialVNIHighWater_def
  by (intro vpcs.quiet_andThen vpcs.WalkClaims_quiet ports.WalkClaims_quiet vips.WalkClaims_quiet)

lemma high_water_least:
  assumes "initialVNIHighWater api w = (Inr high, w')"
  shows "FirstVNI - 1 \<le> high"
  using assms vpcs.WalkClaims_snapshot ports.WalkClaims_snapshot vips.WalkClaims_snapshot fold_vpc_high fold_claim_high
  unfolding initialVNIHighWater_def andThen_ok by (metis order_trans)

text \<open>The first reservation starts above everything in use when it takes effect.\<close>

lemma high_water:
  assumes "initialVNIHighWater api w = (Inr high, w')" "env w' u" "cur u = None"
  shows "\<forall>n \<in> used u. n \<le> high"
proof -
  obtain h1 w1 h2 w2 where walk: "WalkClaims (va_ctx api) (va_vpcs api) vpc_high (FirstVNI - 1) w = (Inr h1, w1)"
    "WalkClaims (va_ctx api) (va_ports api) (claim_high ClaimPrefixPort port_meta) h1 w1 = (Inr h2, w2)"
    "WalkClaims (va_ctx api) (va_vips api) (claim_high ClaimPrefixServiceVIP sv_meta) h2 w2 = (Inr high, w')"
    using assms(1) by (auto simp: initialVNIHighWater_def call_ok)
  obtain x1 where 1: "env w x1" "env x1 w1" "h1 = fold vpc_high (vpcs_of x1) (FirstVNI - 1)"
    using vpcs.WalkClaims_snapshot [OF walk(1)] by blast
  obtain x2 where 2: "env w1 x2" "env x2 w2" "h2 = fold (claim_high ClaimPrefixPort port_meta) (ports_of x2) h1"
    using ports.WalkClaims_snapshot [OF walk(2)] by blast
  obtain x3 where 3: "env w2 x3" "env x3 w'" "high = fold (claim_high ClaimPrefixServiceVIP sv_meta) (vips_of x3) h2"
    using vips.WalkClaims_snapshot [OF walk(3)] by blast
  have high: "FirstVNI - 1 \<le> h1" "h1 \<le> h2" "h2 \<le> high" "\<forall>n \<in> vpc_vnis (vpcs_of x1). n \<le> h1"
    "\<forall>n \<in> claim_vnis ClaimPrefixPort port_meta (ports_of x2). n \<le> h2"
    "\<forall>n \<in> claim_vnis ClaimPrefixServiceVIP sv_meta (vips_of x3). n \<le> high"
    using fold_vpc_high fold_claim_high 1(3) 2(3) 3(3) by blast+
  have env: "env x1 x2" "env x2 x3" "env x1 u" "env x2 u" "env x3 u"
    using 1 2 3 assms(2) vpcs.env_trans by meson+
  have none: "cur x2 = None" "cur x3 = None" using env assms(3) env_durable by blast+
  have "used u \<subseteq> vpc_vnis (vpcs_of x1) \<union> claim_vnis ClaimPrefixPort port_meta (ports_of x2) \<union> claim_vnis ClaimPrefixServiceVIP sv_meta (vips_of x3)"
    using env_unissued [OF env(3) assms(3)] env_unissued [OF env(4) assms(3)] env_unissued [OF env(5) assms(3)]
      env_unissued [OF env(1) none(1)] env_unissued [OF env(2) none(2)]
    unfolding used_def vnis_in_use_def by blast
  then show ?thesis using high(2-6) by fastforce
qed

lemma reserves_first:
  assumes "inv w" "env w u" "cur u = None" "ValidVNI n" "\<forall>m \<in> used u. m < n" "env v w'"
    "cur v = Some l'" "le_Annotations l' vniCounterAnnotation = Some (itoa_int n)" "issued v = n # issued u"
    "(vpcs_of v, ports_of v, vips_of v) = (vpcs_of u, ports_of u, vips_of u)"
  shows "reserves n w w'"
proof -
  have u: "inv u" using env_keeps assms(1,2) by blast
  then have none: "issued u = []" using assms(3) by (simp add: inv_def counter_inv_def)
  have same: "used v = used u" using assms(10) by (simp add: used_def)
  have "counter_inv (Some l') (n # issued u) (used u)"
    by (rule counter_inv_extend [OF u [unfolded inv_def] assms(4,5) _ assms(8)]) (simp add: none)
  then have "inv v" using assms(7,9) same by (simp add: inv_def)
  moreover have "n \<notin> used u" using assms(5) by blast
  ultimately show ?thesis using u assms unfolding reserves_def by blast
qed

lemma reserves_next:
  assumes "inv w" "env w x" "cur x = Some l" "env x u" "cur u = Some l0" "le_Version l0 = le_Version l"
    "parse_int 32 (case le_Annotations l vniCounterAnnotation of Some s \<Rightarrow> s | None \<Rightarrow> []) = Some high" "high < LastVNI"
    "env v w'" "cur v = Some l'" "le_Annotations l' vniCounterAnnotation = Some (itoa_int (high + 1))" "issued v = (high + 1) # issued u"
    "(vpcs_of v, ports_of v, vips_of v) = (vpcs_of u, ports_of u, vips_of u)"
  shows "reserves (high + 1) w w'"
proof -
  have u: "inv u" using env_keeps assms(1,2,4) by blast
  have l: "l0 = l" using env_version [OF assms(4,3,5,6)] by simp
  have hd: "issued u \<noteq> []" "le_Annotations l vniCounterAnnotation = Some (itoa_int (hd (issued u)))" "\<forall>m \<in> used u. m \<le> hd (issued u)"
    "ValidVNI (hd (issued u))"
    using u assms(5) l by (auto simp: inv_def counter_inv_def)
  have "parse_int 32 (itoa_int (hd (issued u))) = Some (hd (issued u))"
    using hd(4) by (intro counter_roundtrip) (simp_all add: ValidVNI_def)
  then have high: "hd (issued u) = high" using assms(7) hd(2) by simp
  have valid: "ValidVNI (high + 1)" using hd(4) high assms(8) by (simp add: ValidVNI_def)
  have below: "\<forall>m \<in> used u. m < high + 1" using hd(3) high by auto
  have "counter_inv (Some l') ((high + 1) # issued u) (used u)"
    by (rule counter_inv_extend [OF u [unfolded inv_def] valid below _ assms(11)]) (simp add: high)
  moreover have same: "used v = used u" using assms(13) by (simp add: used_def)
  ultimately have "inv v" using assms(10,12) by (simp add: inv_def)
  moreover have "high + 1 \<notin> used u" using below by blast
  moreover have "env w u" using assms(2,4) vpcs.env_trans by blast
  ultimately show ?thesis using u valid assms(9,12) unfolding reserves_def by blast
qed

definition outcome :: "ctl_error + int \<Rightarrow> 'w \<Rightarrow> 'w \<Rightarrow> bool" where
  "outcome r w w' \<longleftrightarrow> (case r of Inr n \<Rightarrow> reserves n w w' | Inl e \<Rightarrow> env w w' \<or> (\<exists>n. reserves n w w'))"

lemma outcome_env: "env w u \<Longrightarrow> outcome r u w' \<Longrightarrow> outcome r w w'"
  unfolding outcome_def reserves_def by (auto split: sum.splits intro: vpcs.env_trans)

lemma outcome_written:
  assumes "env w w' \<and> c \<noteq> Inr () \<or> reserves n w w'" "r = (case c of Inl e \<Rightarrow> Inl e | Inr _ \<Rightarrow> Inr n)"
  shows "outcome r w w'"
  using assms by (cases c) (auto simp: outcome_def)

lemma bootstrap_outcome:
  assumes "inv w" "vni_bootstrap api w = (r, w')"
  shows "outcome r w w'"
proof -
  obtain hw w1 where hw: "initialVNIHighWater api w = (hw, w1)" by force
  have w1: "env w w1" using vpcs.quietD [OF high_water_quiet hw] .
  show ?thesis
  proof (cases "\<exists>high. hw = Inr high \<and> high < LastVNI")
    case False
    then show ?thesis using assms(2) hw w1 by (auto simp: vni_bootstrap_def andThen_def fail_def outcome_def split: sum.splits if_splits)
  next
    case True
    then obtain high where high: "hw = Inr high" "high < LastVNI" by blast
    let ?l = "\<lparr> le_Version = 0, le_Deleting = False, le_Annotations = [vniCounterAnnotation \<mapsto> itoa_int (high + 1)] \<rparr>"
    obtain c where c: "va_create api ?l w1 = (c, w')" and r: "r = (case c of Inl e \<Rightarrow> Inl e | Inr _ \<Rightarrow> Inr (high + 1))"
      using assms(2) hw high by (auto simp: vni_bootstrap_def andThen_def give_def Let_def split: sum.splits prod.splits)
    have valid: "ValidVNI (high + 1)" using high_water_least [OF hw [unfolded high(1)]] high(2) by (simp add: ValidVNI_def)
    consider (error) "c \<noteq> Inr ()" "env w1 w'" | (written) u v l' where "env w1 u" "cur u = None" "cur v = Some l'"
        "le_Annotations l' vniCounterAnnotation = Some (itoa_int (high + 1))" "issued v = (high + 1) # issued u"
        "(vpcs_of v, ports_of v, vips_of v) = (vpcs_of u, ports_of u, vips_of u)" "env v w'"
      using create_writes [OF c, of "high + 1"] valid by auto
    then have "env w w' \<and> c \<noteq> Inr () \<or> reserves (high + 1) w w'"
    proof cases
      case written
      have h: "\<forall>n \<in> used u. n \<le> high" using high_water [OF hw [unfolded high(1)] written(1,2)] by blast
      have "reserves (high + 1) w w'"
        by (rule reserves_first [OF assms(1) vpcs.env_trans [OF w1 written(1)] written(2) valid _ written(7,3,4,5,6)]) (use h in auto)
      then show ?thesis ..
    qed (use w1 vpcs.env_trans in blast)
    then show ?thesis using r by (rule outcome_written)
  qed
qed

lemma increment_outcome:
  assumes "inv w" "env w x" "cur x = Some l" "env x w1" "vni_increment api l w1 = (r, w')"
  shows "outcome r w w'"
proof (cases "\<not> le_Deleting l \<and> (\<exists>high. parse_int 32 (case le_Annotations l vniCounterAnnotation of Some s \<Rightarrow> s | None \<Rightarrow> []) = Some high \<and>
    FirstVNI - 1 \<le> high \<and> high < LastVNI)")
  case False
  then have "w' = w1 \<and> (\<exists>e. r = Inl e)" using assms(5) by (auto simp: vni_increment_def fail_def split: option.splits if_splits)
  then show ?thesis using vpcs.env_trans [OF assms(2,4)] by (auto simp: outcome_def)
next
  case True
  then obtain high where high: "parse_int 32 (case le_Annotations l vniCounterAnnotation of Some s \<Rightarrow> s | None \<Rightarrow> []) = Some high"
    "FirstVNI - 1 \<le> high" "high < LastVNI" "\<not> le_Deleting l" by blast
  let ?l = "l \<lparr> le_Annotations := (le_Annotations l)(vniCounterAnnotation \<mapsto> itoa_int (high + 1)) \<rparr>"
  obtain c where c: "va_update api ?l w1 = (c, w')" and r: "r = (case c of Inl e \<Rightarrow> Inl e | Inr _ \<Rightarrow> Inr (high + 1))"
    using assms(5) high by (auto simp: vni_increment_def andThen_def give_def Let_def split: sum.splits prod.splits)
  consider (error) "c \<noteq> Inr ()" "env w1 w'" | (written) u v l0 l' where "env w1 u" "cur u = Some l0" "le_Version l0 = le_Version l" "cur v = Some l'"
      "le_Annotations l' vniCounterAnnotation = Some (itoa_int (high + 1))" "issued v = (high + 1) # issued u"
      "(vpcs_of v, ports_of v, vips_of v) = (vpcs_of u, ports_of u, vips_of u)" "env v w'"
    using update_writes [OF c, of "high + 1"] high(2,3) by (auto simp: ValidVNI_def)
  then have "env w w' \<and> c \<noteq> Inr () \<or> reserves (high + 1) w w'"
  proof cases
    case written
    have "reserves (high + 1) w w'"
      by (rule reserves_next [OF assms(1-3) vpcs.env_trans [OF assms(4) written(1)] written(2,3) high(1,3) written(8,4,5,6,7)])
    then show ?thesis ..
  qed (use vpcs.env_trans [OF assms(2,4)] vpcs.env_trans in blast)
  then show ?thesis using r by (rule outcome_written)
qed

lemma attempt_outcome:
  assumes "inv w" "vni_attempt api w = (r, w')"
  shows "outcome r w w'"
proof -
  obtain c w0 where c: "va_ctx api w = (c, w0)" by force
  then have w0: "env w w0" using vpcs.quietD [OF vpcs.ctx_quiet] by blast
  obtain g w1 where g: "va_get api w0 = (g, w1)" by force
  obtain x where x: "env w0 x" "env x w1" "case g of Inr l \<Rightarrow> cur x = Some l | Inl e \<Rightarrow> e = NotFound \<longrightarrow> cur x = None"
    using get_reads [OF g] by blast
  have w1: "env w w1" "env w x" using w0 x vpcs.env_trans by blast+
  have inv1: "inv w1" using env_keeps w1(1) assms(1) by blast
  note run = assms(2) [unfolded vni_attempt_def andThen_def handle_def c g fst_conv snd_conv prod.case]
  consider (ctx) e where "c = Inl e" | (none) y where "c = Inr y" "g = Inl NotFound" | (error) y e where "c = Inr y" "g = Inl e" "e \<noteq> NotFound"
    | (counter) y l where "c = Inr y" "g = Inr l" by (cases c; cases g) auto
  then show ?thesis
  proof cases
    case none
    then show ?thesis using bootstrap_outcome [OF inv1] run outcome_env [OF w1(1)] by simp
  next
    case counter
    then show ?thesis using increment_outcome [OF assms(1) w1(2) _ x(2)] run x(3) by simp
  qed (use run w0 w1 in \<open>auto simp: outcome_def fail_def\<close>)
qed

text \<open>Any number of attempts only adds reservations, and a number that they return is one of them.\<close>

definition evolves :: "'w \<Rightarrow> 'w \<Rightarrow> bool" where
  "evolves w w' \<longleftrightarrow> inv w' \<and> (\<exists>xs. issued w' = xs @ issued w)"

lemma outcome_evolves: "inv w \<Longrightarrow> outcome r w w' \<Longrightarrow> evolves w w'"
proof -
  have env: "evolves w w'" if "env w w'" "inv w" for w w' using env_keeps env_issued that unfolding evolves_def by blast
  have "evolves w w'" if "reserves n w w'" "inv w" for n
  proof -
    obtain u v where uv: "env w u" "inv v" "issued v = n # issued u" "env v w'" using \<open>reserves n w w'\<close> unfolding reserves_def by blast
    then show ?thesis using env [OF uv(1) \<open>inv w\<close>] env [OF uv(4,2)] unfolding evolves_def by (metis append.assoc append_Cons)
  qed
  then show "inv w \<Longrightarrow> outcome r w w' \<Longrightarrow> evolves w w'" using env unfolding outcome_def by (auto split: sum.splits)
qed

lemma evolves_trans: "evolves u v \<Longrightarrow> evolves v w \<Longrightarrow> evolves u w"
  unfolding evolves_def by auto

lemma retry_outcome:
  assumes "inv w" "retry_OnError steps p (vni_attempt api) w = (r, w')"
  shows "(evolves w w' \<or> w' = w) \<and> (\<forall>n. r = Inr n \<longrightarrow> n = 0 \<or> (\<exists>v. (v = w \<or> evolves w v) \<and> inv v \<and> reserves n v w'))"
  using assms
proof (induction steps arbitrary: w)
  case (Suc steps)
  obtain a v where a: "vni_attempt api w = (a, v)" by force
  have out: "outcome a w v" using attempt_outcome [OF Suc.prems(1) a] .
  then have v: "evolves w v" using outcome_evolves Suc.prems(1) by blast
  show ?case
  proof (cases "\<exists>e. a = Inl e \<and> p e \<and> steps \<noteq> 0")
    case True
    then have "retry_OnError steps p (vni_attempt api) v = (r, w')" using Suc.prems(2) a by (auto simp: handle_def split: sum.splits)
    moreover have "inv v" using v by (simp add: evolves_def)
    ultimately show ?thesis using Suc.IH [of v] v evolves_trans by blast
  next
    case False
    then have "r = a" "w' = v" using Suc.prems(2) a by (auto simp: handle_def give_def fail_def split: sum.splits)
    then show ?thesis using v out Suc.prems(1) by (auto simp: outcome_def)
  qed
qed (auto simp: give_def)

lemma allocate_outcome:
  assumes "inv w" "allocateVNI api w = (r, w')"
  shows "(evolves w w') \<and> (\<forall>n. r = Inr n \<longrightarrow> (\<exists>v. (v = w \<or> evolves w v) \<and> inv v \<and> reserves n v w'))"
proof -
  obtain a v where a: "retry_OnError 5 (\<lambda>e. e = WriteConflict \<or> e = AlreadyExists) (vni_attempt api) w = (a, v)" by force
  obtain c u where c: "va_ctx api v = (c, u)" by force
  have env: "env v u" using vpcs.quietD [OF vpcs.ctx_quiet c] .
  have u: "w' = u" "\<forall>n. r = Inr n \<longrightarrow> a = Inr n \<and> n \<noteq> 0"
    using assms(2) a c by (auto simp: allocateVNI_def handle_def andThen_def give_def fail_def FirstVNI_def split: sum.splits if_splits)
  note retry = retry_outcome [OF assms(1) a]
  have "inv v" using retry assms(1) by (auto simp: evolves_def)
  then have "evolves v u" using env env_keeps env_issued by (simp add: evolves_def)
  moreover have "evolves w w" using assms(1) by (simp add: evolves_def)
  ultimately have "evolves w w'" using retry u(1) evolves_trans by blast
  moreover have "reserves n x w'" if "reserves n x v" for n x
    using that env u(1) vpcs.env_trans unfolding reserves_def by blast
  ultimately show ?thesis using retry u(2) by blast
qed

text \<open>The number is new: it was in nobody's hands when it was reserved, and no reservation before or after has it.\<close>

lemma allocated_fresh:
  assumes "inv w" "allocateVNI api w = (Inr n, w')"
  shows "ValidVNI n \<and> n \<notin> set (issued w) \<and> n \<in> set (issued w') \<and> distinct (issued w') \<and> inv w' \<and>
    (\<exists>u xs. issued w' = xs @ n # issued u \<and> n \<notin> used u)"
proof -
  obtain v where v: "v = w \<or> evolves w v" "inv v" "reserves n v w'" "evolves w w'" using allocate_outcome [OF assms] by blast
  obtain u x where u: "env v u" "inv x" "ValidVNI n" "n \<notin> used u" "issued x = n # issued u" "env x w'"
    using v(3) unfolding reserves_def by blast
  obtain xs where xs: "issued w' = xs @ n # issued u" using env_issued [OF u(6)] u(5) by auto
  obtain ys where ys: "issued u = ys @ issued w" using env_issued [OF u(1)] v(1) unfolding evolves_def by auto
  have "inv w'" using v(4) by (simp add: evolves_def)
  then have "sorted_wrt (>) (issued w')" by (simp add: inv_def counter_inv_def)
  then have d: "distinct (issued w')" by (rule decreasing_distinct)
  have "n \<notin> set (issued w)" using d xs ys by auto
  then show ?thesis using xs u(3,4) \<open>inv w'\<close> d by auto
qed

end

end
