(* ===== verification/VniReference.thy ===== *)
theory VniReference
  imports VniAllocator
begin

text \<open>
  A reference API server for the allocator of network identifiers: other replicas reserve numbers during any call, as a
  script says. It shows that the contract can be met and carries the property.
\<close>

section \<open>The server\<close>

record vni_world =
  nw_script :: "bool list"
  nw_lease :: "Lease option"
  nw_issued :: "int list"
  nw_vpcs :: "VPC list"
  nw_ports :: "Port list"
  nw_vips :: "ServiceVIP list"

text \<open>The next step of the script: another replica reserves the next number, or nothing happens.\<close>

definition foreign :: "vni_world \<Rightarrow> vni_world" where
  "foreign w = (case (nw_script w, nw_lease w, nw_issued w) of
     (True # s, Some l, n # ns) \<Rightarrow>
       if n < LastVNI
       then w \<lparr> nw_script := s, nw_issued := (n + 1) # n # ns,
         nw_lease := Some (l \<lparr> le_Version := le_Version l + 1, le_Annotations := (le_Annotations l)(vniCounterAnnotation \<mapsto> itoa_int (n + 1)) \<rparr>) \<rparr>
       else w \<lparr> nw_script := s \<rparr>
   | (_ # s, _, _) \<Rightarrow> w \<lparr> nw_script := s \<rparr>
   | ([], _, _) \<Rightarrow> w)"

definition others :: "vni_world \<Rightarrow> vni_world \<Rightarrow> bool" where
  "others w w' \<longleftrightarrow> (\<exists>n. w' = (foreign ^^ n) w)"

definition stored_value :: "Lease \<Rightarrow> int option" where
  "stored_value l = (case le_Annotations l vniCounterAnnotation of None \<Rightarrow> None | Some s \<Rightarrow> parse_int 32 s)"

definition one_page :: "(vni_world \<Rightarrow> 't list) \<Rightarrow> (vni_world, 't) list_call" where
  "one_page items n token w = (let w = foreign w in
     if token = [] \<and> length (items w) \<le> n then (Inr (items w, []), w) else (Inl ApiFailure, w))"

definition vni_reference :: "vni_world vni_api" where
  "vni_reference = \<lparr>
     va_ctx = (\<lambda>w. (Inr (), foreign w)),
     va_get = (\<lambda>w. let w = foreign w in (case nw_lease w of None \<Rightarrow> Inl NotFound | Some l \<Rightarrow> Inr l, w)),
     va_create = (\<lambda>l w. let w = foreign w in case (nw_lease w, stored_value l) of
        (None, Some n) \<Rightarrow> (Inr (), w \<lparr> nw_lease := Some (l \<lparr> le_Version := 1 \<rparr>), nw_issued := n # nw_issued w \<rparr>)
      | (None, None) \<Rightarrow> (Inl ApiFailure, w)
      | (Some _, _) \<Rightarrow> (Inl AlreadyExists, w)),
     va_update = (\<lambda>l w. let w = foreign w in case (nw_lease w, stored_value l) of
        (Some l0, Some n) \<Rightarrow>
          if le_Version l0 = le_Version l
          then (Inr (), w \<lparr> nw_lease := Some (l \<lparr> le_Version := le_Version l + 1 \<rparr>), nw_issued := n # nw_issued w \<rparr>)
          else (Inl WriteConflict, w)
      | (None, _) \<Rightarrow> (Inl NotFound, w)
      | (Some _, None) \<Rightarrow> (Inl ApiFailure, w)),
     va_vpcs = one_page nw_vpcs, va_ports = one_page nw_ports, va_vips = one_page nw_vips \<rparr>"

section \<open>It meets the contract\<close>

lemma foreign_objects [simp]: "nw_vpcs (foreign w) = nw_vpcs w" "nw_ports (foreign w) = nw_ports w" "nw_vips (foreign w) = nw_vips w"
  "nw_lease (foreign w) = None \<longleftrightarrow> nw_lease w = None"
  by (simp_all add: foreign_def split: list.splits bool.splits option.splits)

lemma foreign_issued: "\<exists>xs. nw_issued (foreign w) = xs @ nw_issued w"
  by (simp add: foreign_def split: list.splits bool.splits option.splits)

lemma foreign_inv:
  assumes "counter_inv (nw_lease w) (nw_issued w) U"
  shows "counter_inv (nw_lease (foreign w)) (nw_issued (foreign w)) U"
proof (cases "\<exists>s l n ns. nw_script w = True # s \<and> nw_lease w = Some l \<and> nw_issued w = n # ns \<and> n < LastVNI")
  case True
  then obtain s l n ns where e: "nw_script w = True # s" "nw_lease w = Some l" "nw_issued w = n # ns" "n < LastVNI" by blast
  then have "counter_inv (Some (l \<lparr> le_Version := le_Version l + 1, le_Annotations := (le_Annotations l)(vniCounterAnnotation \<mapsto> itoa_int (n + 1)) \<rparr>))
      ((n + 1) # nw_issued w) U"
    using assms by (intro counter_inv_extend [of "nw_lease w"]) (auto simp: counter_inv_def ValidVNI_def)
  then show ?thesis using e by (simp add: foreign_def)
next
  case False
  then show ?thesis using assms by (auto simp: foreign_def split: list.splits bool.splits option.splits)
qed

lemma foreign_version:
  assumes "nw_lease w = Some l"
  shows "\<exists>l'. nw_lease (foreign w) = Some l' \<and> (le_Version l < le_Version l' \<or> l' = l \<and> nw_issued (foreign w) = nw_issued w)"
  using assms by (auto simp: foreign_def split: list.splits bool.splits)

lemma others_induct:
  assumes "others w w'" "P w" "\<And>v. P v \<Longrightarrow> P (foreign v)"
  shows "P w'"
proof -
  have "P ((foreign ^^ n) w)" for n by (induction n) (auto intro: assms)
  then show ?thesis using assms(1) by (auto simp: others_def)
qed

lemma others_step: "others w (foreign w)"
  unfolding others_def by (rule exI [of _ 1]) simp

lemma others_refl: "others w w"
  unfolding others_def by (rule exI [of _ 0]) simp

lemma others_trans: "others u v \<Longrightarrow> others v w \<Longrightarrow> others u w"
  unfolding others_def by (metis funpow_add comp_apply)

lemma others_objects:
  assumes "others w w'"
  shows "nw_vpcs w' = nw_vpcs w" "nw_ports w' = nw_ports w" "nw_vips w' = nw_vips w" "nw_lease w' = None \<longleftrightarrow> nw_lease w = None"
    "\<exists>xs. nw_issued w' = xs @ nw_issued w"
proof -
  let ?P = "\<lambda>v. nw_vpcs v = nw_vpcs w \<and> nw_ports v = nw_ports w \<and> nw_vips v = nw_vips w \<and> (nw_lease v = None \<longleftrightarrow> nw_lease w = None) \<and>
    (\<exists>xs. nw_issued v = xs @ nw_issued w)"
  have "?P (foreign v)" if "?P v" for v using that foreign_issued [of v] by auto
  then have "?P w'" using others_induct [of w w' ?P] assms by simp
  then show "nw_vpcs w' = nw_vpcs w" "nw_ports w' = nw_ports w" "nw_vips w' = nw_vips w" "nw_lease w' = None \<longleftrightarrow> nw_lease w = None"
    "\<exists>xs. nw_issued w' = xs @ nw_issued w" by simp_all
qed

lemma others_version:
  assumes "others w w'" "nw_lease w = Some l" "nw_lease w' = Some l'" "le_Version l' = le_Version l"
  shows "l' = l \<and> nw_issued w' = nw_issued w"
proof -
  let ?P = "\<lambda>v. \<exists>m. nw_lease v = Some m \<and> (le_Version l < le_Version m \<or> m = l \<and> nw_issued v = nw_issued w)"
  have "?P (foreign v)" if "?P v" for v using that foreign_version [of v] by fastforce
  then have "?P w'" using others_induct [of w w' ?P] assms(1,2) by simp
  then show ?thesis using assms by auto
qed

lemma stored_value_itoa: "le_Annotations l vniCounterAnnotation = Some (itoa_int n) \<Longrightarrow> ValidVNI n \<Longrightarrow> stored_value l = Some n"
  using counter_roundtrip [of n] by (simp add: stored_value_def ValidVNI_def)

interpretation others: interference others
  by unfold_locales (auto intro: others_refl others_trans)

lemma one_page_list: "paged_list others (va_ctx vni_reference) (one_page items) items (\<lambda>_. [])"
proof (unfold_locales, goal_cases)
  case (1)
  show ?case by (auto simp: others.quiet_def vni_reference_def intro: others_step)
next
  case (2 n token)
  show ?case by (auto simp: others.quiet_def one_page_def Let_def intro: others_step split: if_splits)
next
  case (3 n w xs more w')
  then show ?case using others_step others_refl by (auto simp: one_page_def Let_def split: if_splits)
next
  case (4 token n w xs more w')
  then show ?case by (auto simp: one_page_def Let_def split: if_splits)
qed

interpretation vni_ref: vni_server others vni_reference nw_vpcs "\<lambda>_. []" nw_ports "\<lambda>_. []" nw_vips "\<lambda>_. []" nw_lease nw_issued
proof (intro vni_server.intro vni_server_axioms.intro, goal_cases)
  case 1
  show ?case using one_page_list [of nw_vpcs] by (simp add: vni_reference_def)
next
  case 2
  show ?case using one_page_list [of nw_ports] by (simp add: vni_reference_def)
next
  case 3
  show ?case using one_page_list [of nw_vips] by (simp add: vni_reference_def)
next
  case (4 w g w')
  then show ?case using others_step [of w] others_refl [of "foreign w"]
    by (intro exI [of _ "foreign w"]) (auto simp: vni_reference_def Let_def split: option.splits)
next
  case (5 l w r w' n)
  have v: "stored_value l = Some n" using stored_value_itoa 5(2,3) by blast
  show ?case
  proof (cases "nw_lease (foreign w)")
    case None
    then have "w' = (foreign w)\<lparr> nw_lease := Some (l \<lparr> le_Version := 1 \<rparr>), nw_issued := n # nw_issued (foreign w) \<rparr>"
      using 5(1) v by (simp add: vni_reference_def Let_def del: foreign_objects)
    then show ?thesis using None others_step [of w] others_refl [of w'] by (intro disjI2 exI [of _ "foreign w"] exI [of _ w']) auto
  next
    case (Some m)
    then show ?thesis using 5(1) others_step [of w] by (auto simp: vni_reference_def Let_def)
  qed
next
  case (6 l w r w' n)
  have v: "stored_value l = Some n" using stored_value_itoa 6(2,3) by blast
  show ?case
  proof (cases "\<exists>m. nw_lease (foreign w) = Some m \<and> le_Version m = le_Version l")
    case True
    then obtain m where m: "nw_lease (foreign w) = Some m" "le_Version m = le_Version l" by blast
    then have "w' = (foreign w)\<lparr> nw_lease := Some (l \<lparr> le_Version := le_Version l + 1 \<rparr>), nw_issued := n # nw_issued (foreign w) \<rparr>"
      using 6(1) v by (simp add: vni_reference_def Let_def)
    then show ?thesis using m others_step [of w] others_refl [of w'] by (intro disjI2 exI [of _ "foreign w"] exI [of _ w']) auto
  next
    case False
    then show ?thesis using 6(1) v others_step [of w] by (auto simp: vni_reference_def Let_def split: option.splits)
  qed
next
  case (7 w w')
  let ?P = "\<lambda>v. counter_inv (nw_lease v) (nw_issued v) (vnis_in_use (nw_vpcs v) (nw_ports v) (nw_vips v))"
  have "?P (foreign v)" if "?P v" for v using foreign_inv [OF that] by simp
  then show ?case using others_induct [of w w' ?P] 7 by blast
qed (auto simp: others_objects others_version)

section \<open>Properties\<close>

text \<open>
  (C5) A network identifier is never handed out twice, and never while somebody holds it. Whatever other writers do
  during every call of the allocator, and even when a write takes effect although its call reports an error, a number
  that \<^verbatim>\<open>allocateVNI\<close> returns is a valid identifier, was reserved by a write of its own in a log of pairwise distinct
  reservations, was not in that log before, and at the moment of the reservation no VPC status, Port name or ServiceVIP
  name carried it.
\<close>

theorem vni_never_reused:
  assumes "vni_server env api vpcs_of vrest ports_of prest vips_of srest cur issued"
    and "counter_inv (cur w) (issued w) (vnis_in_use (vpcs_of w) (ports_of w) (vips_of w))"
    and "allocateVNI api w = (Inr n, w')"
  shows "ValidVNI n \<and> n \<notin> set (issued w) \<and> n \<in> set (issued w') \<and> distinct (issued w') \<and>
    counter_inv (cur w') (issued w') (vnis_in_use (vpcs_of w') (ports_of w') (vips_of w')) \<and>
    (\<exists>u xs. issued w' = xs @ n # issued u \<and> n \<notin> vnis_in_use (vpcs_of u) (ports_of u) (vips_of u))"
  using vni_server.allocated_fresh [OF assms(1), of w n w'] assms(2,3)
  unfolding vni_server.inv_def [OF assms(1)] vni_server.used_def [OF assms(1)] by blast

text \<open>Another replica takes number 101 between the read and the write, and the second attempt reserves 102.\<close>

definition vni_demo :: vni_world where
  "vni_demo = \<lparr> nw_script = [False, False, True],
     nw_lease = Some \<lparr> le_Version = 1, le_Deleting = False, le_Annotations = [vniCounterAnnotation \<mapsto> itoa_int 100] \<rparr>,
     nw_issued = [100], nw_vpcs = [], nw_ports = [], nw_vips = [] \<rparr>"

theorem vni_never_reused_witness:
  "\<exists>w'. allocateVNI vni_reference vni_demo = (Inr 102, w') \<and> nw_issued w' = [102, 101, 100] \<and> distinct (nw_issued w')"
proof -
  have parse: "parse_int 32 (itoa_int 100) = Some 100" "parse_int 32 (itoa_int 101) = Some 101" "parse_int 32 (itoa_int 102) = Some 102"
    by (rule counter_roundtrip; simp add: FirstVNI_def LastVNI_def)+
  have retry: "retry_OnError 5 p a = handle a (\<lambda>r. case r of Inr x \<Rightarrow> give x | Inl e \<Rightarrow> if p e then retry_OnError 4 p a else fail e)"
    "retry_OnError 4 p a = handle a (\<lambda>r. case r of Inr x \<Rightarrow> give x | Inl e \<Rightarrow> if p e then retry_OnError 3 p a else fail e)"
    for p and a :: "(vni_world, int) api_call"
    using retry_OnError.simps(2) [of 4 p a] retry_OnError.simps(2) [of 3 p a] by simp_all
  have "\<exists>w'. allocateVNI vni_reference vni_demo = (Inr 102, w') \<and> nw_issued w' = [102, 101, 100]"
    by (simp add: allocateVNI_def retry vni_attempt_def vni_increment_def handle_def andThen_def
        give_def fail_def vni_reference_def vni_demo_def foreign_def stored_value_def parse FirstVNI_def LastVNI_def Let_def)
  then obtain w' where w': "allocateVNI vni_reference vni_demo = (Inr 102, w')" "nw_issued w' = [102, 101, 100]" by blast
  have "counter_inv (nw_lease vni_demo) (nw_issued vni_demo) (vnis_in_use (nw_vpcs vni_demo) (nw_ports vni_demo) (nw_vips vni_demo))"
    by (simp add: vni_demo_def counter_inv_def vnis_in_use_def vpc_vnis_def claim_vnis_def ValidVNI_def FirstVNI_def LastVNI_def)
  from vni_never_reused [OF vni_ref.vni_server_axioms this w'(1)] show ?thesis using w' by blast
qed

end
