(* ===== verification/SgController.thy ===== *)
theory SgController
  imports ClaimWalk SgMembership "HOL-Library.List_Lexorder" "HOL-Library.Char_ord"
begin

text \<open>
  The identifier of a security group, \<^verbatim>\<open>SecurityGroupReconciler\<close> of \<^verbatim>\<open>internal/controller/sdn/securitygroup_controller.go\<close>:
  each group gets the lowest free number of its VPC, and of two groups with the same number the younger yields.
\<close>

section \<open>The reconciler\<close>

type_synonym object_key = "string \<times> string"

definition sg_key :: "SecurityGroup \<Rightarrow> object_key" where
  "sg_key g = (om_Namespace (sgo_meta g), om_Name (sgo_meta g))"

record 'w sg_api =
  sa_ctx :: "('w, unit) api_call"
  sa_get :: "object_key \<Rightarrow> ('w, SecurityGroup) api_call"
  sa_list :: "string \<Rightarrow> ('w, SecurityGroup) list_call"
  sa_update_status :: "SecurityGroup \<Rightarrow> ('w, unit) api_call"

datatype ctrl_result = Done | Requeue | RequeueAfter nat

definition walkSecurityGroupClaims :: "'w sg_api \<Rightarrow> string \<Rightarrow> (SecurityGroup \<Rightarrow> 's \<Rightarrow> 's) \<Rightarrow> 's \<Rightarrow> ('w, 's) api_call" where
  "walkSecurityGroupClaims api namespace visit s = WalkClaims (sa_ctx api) (sa_list api namespace) visit s"

definition use_id :: "SecurityGroup \<Rightarrow> SecurityGroup \<Rightarrow> int set \<Rightarrow> int set" where
  "use_id sg other ids =
     (if om_Name (sgo_meta other) = om_Name (sgo_meta sg) \<or> sgs_VPCRef (sgo_Spec other) \<noteq> sgs_VPCRef (sgo_Spec sg) then ids
      else if 0 < sgst_ID (sgo_Status other) \<and> sgst_ID (sgo_Status other) < MaxSecurityGroupsPerVPC
      then insert (sgst_ID (sgo_Status other)) ids else ids)"

definition usedIDs :: "'w sg_api \<Rightarrow> SecurityGroup \<Rightarrow> ('w, int set) api_call" where
  "usedIDs api sg = walkSecurityGroupClaims api (om_Namespace (sgo_meta sg)) (use_id sg) {}"

definition lowest_id :: "int set \<Rightarrow> int" where
  "lowest_id ids = (case filter (\<lambda>n. n \<notin> ids) [1..MaxSecurityGroupsPerVPC - 1] of n # _ \<Rightarrow> n | [] \<Rightarrow> 0)"

definition allocateID :: "'w sg_api \<Rightarrow> SecurityGroup \<Rightarrow> ('w, int) api_call" where
  "allocateID api sg = andThen (usedIDs api sg) (\<lambda>ids. give (lowest_id ids))"

definition sgClaimOlder :: "SecurityGroup \<Rightarrow> SecurityGroup \<Rightarrow> bool" where
  "sgClaimOlder a b =
     (if om_Created (sgo_meta a) \<noteq> om_Created (sgo_meta b) then om_Created (sgo_meta a) < om_Created (sgo_meta b)
      else om_Name (sgo_meta a) < om_Name (sgo_meta b))"

definition loses_to :: "SecurityGroup \<Rightarrow> SecurityGroup \<Rightarrow> bool \<Rightarrow> bool" where
  "loses_to sg other lost =
     (if om_Name (sgo_meta other) = om_Name (sgo_meta sg) \<or> sgs_VPCRef (sgo_Spec other) \<noteq> sgs_VPCRef (sgo_Spec sg) \<or>
        sgst_ID (sgo_Status other) \<noteq> sgst_ID (sgo_Status sg) then lost
      else if sgClaimOlder other sg then True else lost)"

definition lostIDToDuplicate :: "'w sg_api \<Rightarrow> SecurityGroup \<Rightarrow> ('w, bool) api_call" where
  "lostIDToDuplicate api sg = walkSecurityGroupClaims api (om_Namespace (sgo_meta sg)) (loses_to sg) False"

text \<open>The number that a pass gives the group.\<close>

definition next_id :: "machinery \<Rightarrow> 'w sg_api \<Rightarrow> SecurityGroup \<Rightarrow> ('w, int) api_call" where
  "next_id k api sg =
     (let n = sgst_ID (sgo_Status sg)
      in if \<not> ObjectName k (lvr_Name (sgs_VPCRef (sgo_Spec sg))) then give 0
         else if n \<le> 0 \<or> MaxSecurityGroupsPerVPC \<le> n then allocateID api sg
         else andThen (lostIDToDuplicate api sg) (\<lambda>lost. give (if lost then 0 else n)))"

definition sg_with_id :: "int \<Rightarrow> SecurityGroup \<Rightarrow> SecurityGroup" where
  "sg_with_id n sg = sg \<lparr> sgo_Status := (sgo_Status sg) \<lparr> sgst_ID := n, sgst_Phase := if n \<noteq> 0 then ''Ready'' else ''Pending'' \<rparr> \<rparr>"

definition sg_Reconcile :: "machinery \<Rightarrow> 'w sg_api \<Rightarrow> object_key \<Rightarrow> ('w, ctrl_result) api_call" where
  "sg_Reconcile k api req = handle (sa_get api req) (\<lambda>r. case r of
     Inl e \<Rightarrow> if e = NotFound then give Done else fail e
   | Inr sg \<Rightarrow>
       if om_Deleting (sgo_meta sg) then give Done
       else andThen (next_id k api sg) (\<lambda>n.
         let sg' = sg_with_id n sg; result = (if n = 0 then RequeueAfter 10 else Done)
         in if sgst_ID (sgo_Status sg) \<noteq> n \<or> sgst_Phase (sgo_Status sg) \<noteq> sgst_Phase (sgo_Status sg')
            then handle (sa_update_status api sg') (\<lambda>u. case u of
                Inl e \<Rightarrow> if e = WriteConflict then give Requeue else fail e
              | Inr _ \<Rightarrow> give result)
            else give result))"

section \<open>One pass on the stored groups\<close>

definition sg_vpc :: "SecurityGroup \<Rightarrow> string \<times> LocalVPCRef" where
  "sg_vpc g = (om_Namespace (sgo_meta g), sgs_VPCRef (sgo_Spec g))"

text \<open>The other groups of the same VPC.\<close>

definition rivals :: "SecurityGroup list \<Rightarrow> SecurityGroup \<Rightarrow> SecurityGroup set" where
  "rivals gs sg = {h \<in> set gs. sg_vpc h = sg_vpc sg \<and> om_Name (sgo_meta h) \<noteq> om_Name (sgo_meta sg)}"

definition valid_id :: "int \<Rightarrow> bool" where
  "valid_id n \<longleftrightarrow> 0 < n \<and> n < MaxSecurityGroupsPerVPC"

definition pass_id :: "machinery \<Rightarrow> SecurityGroup list \<Rightarrow> SecurityGroup \<Rightarrow> int" where
  "pass_id k gs sg =
     (let n = sgst_ID (sgo_Status sg)
      in if \<not> ObjectName k (lvr_Name (sgs_VPCRef (sgo_Spec sg))) then 0
         else if \<not> valid_id n then lowest_id {m. valid_id m \<and> (\<exists>h \<in> rivals gs sg. sgst_ID (sgo_Status h) = m)}
         else if \<exists>h \<in> rivals gs sg. sgst_ID (sgo_Status h) = n \<and> sgClaimOlder h sg then 0 else n)"

definition pass :: "machinery \<Rightarrow> object_key \<Rightarrow> SecurityGroup list \<Rightarrow> SecurityGroup list" where
  "pass k req gs = map (\<lambda>g. if sg_key g = req \<and> \<not> om_Deleting (sgo_meta g) then sg_with_id (pass_id k gs g) g else g) gs"

lemma valid_id_range: "valid_id n \<longleftrightarrow> n \<in> {1..62}"
  by (auto simp: valid_id_def MaxSecurityGroupsPerVPC_def)

lemma fold_use_id:
  "fold (use_id sg) gs ids = ids \<union> {m. valid_id m \<and> (\<exists>h \<in> set gs. om_Name (sgo_meta h) \<noteq> om_Name (sgo_meta sg) \<and>
     sgs_VPCRef (sgo_Spec h) = sgs_VPCRef (sgo_Spec sg) \<and> sgst_ID (sgo_Status h) = m)}"
  by (induction gs arbitrary: ids) (auto simp: use_id_def valid_id_def)

lemma fold_loses_to:
  "fold (loses_to sg) gs lost \<longleftrightarrow> lost \<or> (\<exists>h \<in> set gs. om_Name (sgo_meta h) \<noteq> om_Name (sgo_meta sg) \<and>
     sgs_VPCRef (sgo_Spec h) = sgs_VPCRef (sgo_Spec sg) \<and> sgst_ID (sgo_Status h) = sgst_ID (sgo_Status sg) \<and> sgClaimOlder h sg)"
  by (induction gs arbitrary: lost) (auto simp: loses_to_def)

section \<open>Passes converge\<close>

abbreviation id_of :: "SecurityGroup \<Rightarrow> int" where
  "id_of g \<equiv> sgst_ID (sgo_Status g)"

abbreviation rival :: "SecurityGroup \<Rightarrow> SecurityGroup \<Rightarrow> bool" where
  "rival h g \<equiv> sg_vpc h = sg_vpc g \<and> om_Name (sgo_meta h) \<noteq> om_Name (sgo_meta g)"

text \<open>No group with an older claim has the number of this one.\<close>

definition settled :: "SecurityGroup list \<Rightarrow> SecurityGroup \<Rightarrow> bool" where
  "settled gs g \<longleftrightarrow> \<not> valid_id (id_of g) \<or> (\<forall>h \<in> set gs. rival h g \<and> id_of h = id_of g \<longrightarrow> \<not> sgClaimOlder h g)"

definition pass_one :: "machinery \<Rightarrow> object_key \<Rightarrow> SecurityGroup list \<Rightarrow> SecurityGroup \<Rightarrow> SecurityGroup" where
  "pass_one k req gs g = (if sg_key g = req \<and> \<not> om_Deleting (sgo_meta g) then sg_with_id (pass_id k gs g) g else g)"

lemma pass_map: "pass k req gs = map (pass_one k req gs) gs"
  by (simp add: pass_def pass_one_def)

lemma sg_with_id_fields [simp]: "sgo_meta (sg_with_id n g) = sgo_meta g" "sgo_Spec (sg_with_id n g) = sgo_Spec g" "id_of (sg_with_id n g) = n"
  "sg_key (sg_with_id n g) = sg_key g" "sg_vpc (sg_with_id n g) = sg_vpc g"
  by (simp_all add: sg_with_id_def sg_key_def sg_vpc_def)

lemma pass_one_fields [simp]: "sgo_meta (pass_one k req gs g) = sgo_meta g" "sgo_Spec (pass_one k req gs g) = sgo_Spec g"
  "sg_key (pass_one k req gs g) = sg_key g" "sg_vpc (pass_one k req gs g) = sg_vpc g"
  by (simp_all add: pass_one_def)

lemma older_fields [simp]: "sgClaimOlder (pass_one k req gs h) g = sgClaimOlder h g" "sgClaimOlder h (pass_one k req gs g) = sgClaimOlder h g"
  by (simp_all add: sgClaimOlder_def)

lemma rival_key: "rival h g \<Longrightarrow> sg_key h \<noteq> sg_key g"
  by (simp add: sg_key_def)

lemma filter_hd:
  assumes "filter P xs = y # ys"
  shows "y \<in> set xs \<and> P y"
proof -
  have "y \<in> set (filter P xs)" unfolding assms by simp
  then show ?thesis by simp
qed

lemma lowest_id_free: "lowest_id ids = 0 \<or> valid_id (lowest_id ids) \<and> lowest_id ids \<notin> ids"
proof (cases "filter (\<lambda>n. n \<notin> ids) [1..MaxSecurityGroupsPerVPC - 1]")
  case (Cons n ns)
  then show ?thesis using filter_hd [OF Cons] by (simp add: lowest_id_def valid_id_def)
qed (simp add: lowest_id_def)

lemma lowest_id_exists:
  assumes "card ids < 62" "finite ids"
  shows "lowest_id ids \<noteq> 0"
proof (cases "filter (\<lambda>n. n \<notin> ids) [1..MaxSecurityGroupsPerVPC - 1]")
  case Nil
  then have "{1..62} \<subseteq> ids" by (auto simp: filter_empty_conv MaxSecurityGroupsPerVPC_def)
  then have "card {1..62 :: int} \<le> card ids" by (rule card_mono [OF assms(2)])
  then show ?thesis using assms(1) by simp
next
  case (Cons n ns)
  then show ?thesis using filter_hd [OF Cons] by (simp add: lowest_id_def)
qed

text \<open>A pass gives the group a number that no rival has, no number, or the one it had.\<close>

lemma pass_id_cases:
  "\<not> valid_id (pass_id k gs g) \<or> (\<forall>h \<in> set gs. rival h g \<longrightarrow> id_of h \<noteq> pass_id k gs g) \<or>
   pass_id k gs g = id_of g \<and> (\<forall>h \<in> set gs. rival h g \<and> id_of h = id_of g \<longrightarrow> \<not> sgClaimOlder h g)"
proof -
  let ?ids = "{m. valid_id m \<and> (\<exists>h \<in> rivals gs g. id_of h = m)}"
  have zero: "\<not> valid_id 0" by (simp add: valid_id_def)
  have "lowest_id ?ids = 0 \<or> (\<forall>h \<in> set gs. rival h g \<longrightarrow> id_of h \<noteq> lowest_id ?ids)"
    using lowest_id_free [of ?ids] by (auto simp: rivals_def)
  then show ?thesis using zero unfolding pass_id_def Let_def by (auto simp: rivals_def)
qed

lemma pass_settles:
  assumes "g \<in> set gs" "sg_key g = req" "\<not> om_Deleting (sgo_meta g)"
  shows "settled (pass k req gs) (pass_one k req gs g)"
proof -
  have g: "pass_one k req gs g = sg_with_id (pass_id k gs g) g" using assms by (simp add: pass_one_def)
  have other: "pass_one k req gs h = h" if "rival h g" for h using rival_key [OF that] assms(2) by (simp add: pass_one_def)
  show ?thesis using pass_id_cases [of k gs g] other unfolding settled_def pass_map g by (auto simp: sgClaimOlder_def)
qed

lemma pass_keeps_settled:
  assumes "settled gs g" "g \<in> set gs"
  shows "settled (pass k req gs) (pass_one k req gs g)"
proof (cases "sg_key g = req \<and> \<not> om_Deleting (sgo_meta g)")
  case True
  then show ?thesis using pass_settles assms(2) by blast
next
  case False
  then have g: "pass_one k req gs g = g" by (auto simp: pass_one_def)
  have "\<not> sgClaimOlder h g" if h: "h \<in> set gs" "rival h g" "id_of (pass_one k req gs h) = id_of g" "valid_id (id_of g)" for h
  proof (cases "pass_one k req gs h = h")
    case True
    then show ?thesis using assms h unfolding settled_def by auto
  next
    case False
    then have n: "id_of (pass_one k req gs h) = pass_id k gs h" by (auto simp: pass_one_def split: if_splits)
    then have "pass_id k gs h = id_of h" using pass_id_cases [of k gs h] h assms(2) by auto
    then show ?thesis using assms h n unfolding settled_def by auto
  qed
  then show ?thesis unfolding settled_def pass_map g by auto
qed

text \<open>What a group becomes in a sequence of passes.\<close>

fun evolve :: "machinery \<Rightarrow> object_key list \<Rightarrow> SecurityGroup list \<Rightarrow> SecurityGroup \<Rightarrow> SecurityGroup" where
  "evolve k [] gs g = g"
| "evolve k (req # reqs) gs g = evolve k reqs (pass k req gs) (pass_one k req gs g)"

lemma passes_map: "fold (pass k) reqs gs = map (evolve k reqs gs) gs"
proof (induction reqs arbitrary: gs)
  case Nil
  show ?case by (simp add: map_idI)
next
  case (Cons req reqs)
  show ?case unfolding fold_simps Cons.IH evolve.simps by (simp add: pass_map comp_def)
qed

lemma evolve_fields [simp]: "sgo_meta (evolve k reqs gs g) = sgo_meta g" "sgo_Spec (evolve k reqs gs g) = sgo_Spec g"
  by (induction reqs arbitrary: gs g) simp_all

lemma evolve_key [simp]: "sg_key (evolve k reqs gs g) = sg_key g" "sg_vpc (evolve k reqs gs g) = sg_vpc g"
  by (simp_all add: sg_key_def sg_vpc_def)

lemma evolve_append: "evolve k (reqs @ reqs') gs g = evolve k reqs' (fold (pass k) reqs gs) (evolve k reqs gs g)"
  by (induction reqs arbitrary: gs g) simp_all

lemma evolve_settled:
  assumes "g \<in> set gs" "settled gs g \<or> sg_key g \<in> set reqs \<and> \<not> om_Deleting (sgo_meta g)"
  shows "settled (fold (pass k) reqs gs) (evolve k reqs gs g)"
  using assms
proof (induction reqs arbitrary: gs g)
  case (Cons req reqs)
  have "pass_one k req gs g \<in> set (pass k req gs)" using Cons.prems(1) by (simp add: pass_map)
  moreover have "settled (pass k req gs) (pass_one k req gs g) \<or> sg_key (pass_one k req gs g) \<in> set reqs \<and> \<not> om_Deleting (sgo_meta (pass_one k req gs g))"
    using Cons.prems pass_settles pass_keeps_settled by (cases "settled gs g"; cases "sg_key g = req") auto
  ultimately show ?case using Cons.IH by simp
qed simp

lemma settled_distinct:
  assumes "settled gs g" "settled gs h" "g \<in> set gs" "h \<in> set gs" "rival h g" "valid_id (id_of g)"
  shows "id_of h \<noteq> id_of g"
proof
  assume same: "id_of h = id_of g"
  have "sgClaimOlder h g \<or> sgClaimOlder g h" using assms(5) by (auto simp: sgClaimOlder_def)
  then show False using assms same unfolding settled_def by auto
qed

definition crowd :: "SecurityGroup list \<Rightarrow> SecurityGroup \<Rightarrow> nat" where
  "crowd gs g = length (filter (\<lambda>h. sg_vpc h = sg_vpc g) gs)"

lemma crowd_pass [simp]: "crowd (pass k req gs) (pass_one k req' gs' g) = crowd gs g"
  by (simp add: crowd_def pass_map filter_map comp_def)

lemma rivals_card:
  assumes "g \<in> set gs" "crowd gs g \<le> 62"
  shows "finite (rivals gs g)" "card (rivals gs g) < 62"
proof -
  have sub: "insert g (rivals gs g) \<subseteq> set (filter (\<lambda>h. sg_vpc h = sg_vpc g) gs)" using assms(1) by (auto simp: rivals_def)
  then show fin: "finite (rivals gs g)" by (meson finite_insert finite_subset List.finite_set)
  have "card (insert g (rivals gs g)) \<le> 62"
    using card_mono [OF List.finite_set sub] card_length [of "filter (\<lambda>h. sg_vpc h = sg_vpc g) gs"] assms(2) by (simp add: crowd_def)
  moreover have "g \<notin> rivals gs g" by (simp add: rivals_def)
  ultimately show "card (rivals gs g) < 62" using fin by simp
qed

lemma pass_numbers:
  assumes "g \<in> set gs" "settled gs g" "crowd gs g \<le> 62" "ObjectName k (lvr_Name (sgs_VPCRef (sgo_Spec g)))" "\<not> om_Deleting (sgo_meta g)"
    "valid_id (id_of g) \<or> sg_key g = req"
  shows "valid_id (id_of (pass_one k req gs g))"
proof (cases "sg_key g = req")
  case True
  let ?ids = "{m. valid_id m \<and> (\<exists>h \<in> rivals gs g. id_of h = m)}"
  have "?ids \<subseteq> id_of ` rivals gs g" by auto
  then have "finite ?ids" "card ?ids < 62"
    using rivals_card [OF assms(1,3)] by (meson finite_imageI finite_subset, meson card_image_le card_mono finite_imageI le_less_trans)
  then have "valid_id (lowest_id ?ids)" using lowest_id_exists lowest_id_free by blast
  moreover have "\<not> (\<exists>h \<in> rivals gs g. id_of h = id_of g \<and> sgClaimOlder h g)" if "valid_id (id_of g)"
    using assms(2) that by (auto simp: settled_def rivals_def)
  ultimately show ?thesis using True assms(4,5) by (auto simp: pass_one_def pass_id_def Let_def)
qed (use assms(6) in \<open>simp add: pass_one_def\<close>)

lemma evolve_numbers:
  assumes "g \<in> set gs" "settled gs g" "crowd gs g \<le> 62" "ObjectName k (lvr_Name (sgs_VPCRef (sgo_Spec g)))" "\<not> om_Deleting (sgo_meta g)"
    "valid_id (id_of g) \<or> sg_key g \<in> set reqs"
  shows "valid_id (id_of (evolve k reqs gs g))"
  using assms
proof (induction reqs arbitrary: gs g)
  case (Cons req reqs)
  have "valid_id (id_of (pass_one k req gs g)) \<or> sg_key (pass_one k req gs g) \<in> set reqs"
    using pass_numbers [OF Cons.prems(1-5), of req] Cons.prems(6) by auto
  moreover have "pass_one k req gs g \<in> set (pass k req gs)" using Cons.prems(1) by (simp add: pass_map)
  moreover have "settled (pass k req gs) (pass_one k req gs g)" using pass_keeps_settled Cons.prems(1,2) by blast
  ultimately show ?case using Cons.IH [of "pass_one k req gs g" "pass k req gs"] Cons.prems(3-5) by simp
qed simp

section \<open>The contract of the API server\<close>

text \<open>One controller owns the numbers, and it reads up to date: a call changes the groups only by its own status write.\<close>

locale sg_server =
  fixes api :: "'w sg_api" and view :: "'w \<Rightarrow> SecurityGroup list" and rest :: "string \<Rightarrow> string \<Rightarrow> SecurityGroup list"
  assumes lists: "paged_list (\<lambda>w w'. view w' = view w) (sa_ctx api) (sa_list api ns)
      (\<lambda>w. filter (\<lambda>g. om_Namespace (sgo_meta g) = ns) (view w)) (rest ns)"
    and get_reads: "sa_get api req w = (g, w') \<Longrightarrow> view w' = view w \<and>
      (case g of Inr sg \<Rightarrow> sg \<in> set (view w) \<and> sg_key sg = req | Inl e \<Rightarrow> e = NotFound \<longrightarrow> req \<notin> sg_key ` set (view w))"
    and update_writes: "sa_update_status api sg w = (u, w') \<Longrightarrow>
      view w' = map (\<lambda>g. if sg_key g = sg_key sg then g \<lparr> sgo_Status := sgo_Status sg \<rparr> else g) (view w) \<or> u \<noteq> Inr () \<and> view w' = view w"
begin

lemma walk_ok:
  assumes "walkSecurityGroupClaims api ns visit s w = (Inr s', w')"
  shows "view w' = view w \<and> s' = fold visit (filter (\<lambda>g. om_Namespace (sgo_meta g) = ns) (view w)) s"
  using paged_list.WalkClaims_snapshot [OF lists assms [unfolded walkSecurityGroupClaims_def]] by auto

lemma next_id_ok:
  assumes "next_id k api sg w = (Inr n, w')"
  shows "view w' = view w \<and> n = pass_id k (view w) sg"
proof -
  let ?ns = "om_Namespace (sgo_meta sg)"
  let ?gs = "filter (\<lambda>g. om_Namespace (sgo_meta g) = ?ns) (view w)"
  have riv: "rivals (view w) sg = {h \<in> set ?gs. om_Name (sgo_meta h) \<noteq> om_Name (sgo_meta sg) \<and> sgs_VPCRef (sgo_Spec h) = sgs_VPCRef (sgo_Spec sg)}"
    by (auto simp: rivals_def sg_vpc_def)
  have ids: "fold (use_id sg) ?gs {} = {m. valid_id m \<and> (\<exists>h \<in> rivals (view w) sg. id_of h = m)}"
    unfolding fold_use_id riv by auto
  have lost: "fold (loses_to sg) ?gs False \<longleftrightarrow> (\<exists>h \<in> rivals (view w) sg. id_of h = id_of sg \<and> sgClaimOlder h sg)"
    unfolding fold_loses_to riv by auto
  consider (name) "\<not> ObjectName k (lvr_Name (sgs_VPCRef (sgo_Spec sg)))" "n = 0" "w' = w"
    | (alloc) "ObjectName k (lvr_Name (sgs_VPCRef (sgo_Spec sg)))" "\<not> valid_id (id_of sg)" "allocateID api sg w = (Inr n, w')"
    | (dup) lost where "ObjectName k (lvr_Name (sgs_VPCRef (sgo_Spec sg)))" "valid_id (id_of sg)"
        "lostIDToDuplicate api sg w = (Inr lost, w')" "n = (if lost then 0 else id_of sg)"
    using assms by (auto simp: next_id_def Let_def valid_id_def call_ok split: if_splits)
  then show ?thesis
  proof cases
    case alloc
    then obtain ids' where "walkSecurityGroupClaims api ?ns (use_id sg) {} w = (Inr ids', w')" "n = lowest_id ids'"
      by (auto simp: allocateID_def usedIDs_def call_ok)
    then show ?thesis using walk_ok [of ?ns "use_id sg" "{}" w ids' w'] alloc ids by (simp add: pass_id_def Let_def)
  next
    case dup
    then show ?thesis using walk_ok [of ?ns "loses_to sg" False w lost w'] lost by (auto simp: pass_id_def lostIDToDuplicate_def Let_def)
  qed (simp add: pass_id_def)
qed

lemma Reconcile_idle:
  assumes "sg_Reconcile k api req w = (Inr r, w')" "sa_get api req w = (g, w1)" "distinct (map sg_key (view w))"
    "\<not> (\<exists>sg. g = Inr sg \<and> \<not> om_Deleting (sgo_meta sg))"
  shows "view w' = pass k req (view w)"
proof -
  note get = get_reads [OF assms(2)]
  have "om_Deleting (sgo_meta h)" if h: "h \<in> set (view w)" "sg_key h = req" for h
  proof (cases g)
    case (Inr sg)
    then have "h = sg" using h get assms(3) by (auto simp: distinct_map inj_on_def)
    then show ?thesis using assms(4) Inr by simp
  next
    case (Inl e)
    then show ?thesis using h get assms(1,2) by (auto simp: sg_Reconcile_def call_ok split: if_splits)
  qed
  then have "pass k req (view w) = view w" unfolding pass_def by (intro map_idI) auto
  moreover have "w' = w1" using assms(1,2,4) by (auto simp: sg_Reconcile_def call_ok split: sum.splits if_splits)
  ultimately show ?thesis using get by simp
qed

text \<open>A reconciliation that is not to be repeated is a pass.\<close>

lemma Reconcile_pass:
  assumes "sg_Reconcile k api req w = (Inr r, w')" "r \<noteq> Requeue" "distinct (map sg_key (view w))"
  shows "view w' = pass k req (view w)"
proof -
  obtain g w1 where g: "sa_get api req w = (g, w1)" by force
  show ?thesis
  proof (cases "\<exists>sg. g = Inr sg \<and> \<not> om_Deleting (sgo_meta sg)")
    case True
    then obtain sg where sg: "g = Inr sg" "\<not> om_Deleting (sgo_meta sg)" by blast
    then have mem: "sg \<in> set (view w)" "sg_key sg = req" and w1: "view w1 = view w" using get_reads [OF g] by auto
    obtain n w2 where n: "next_id k api sg w1 = (Inr n, w2)" using assms(1) g sg by (auto simp: sg_Reconcile_def call_ok)
    have n': "n = pass_id k (view w) sg" "view w2 = view w" using next_id_ok [OF n] w1 by simp_all
    have only: "h = sg" if "h \<in> set (view w)" "sg_key h = req" for h using that mem assms(3) by (auto simp: distinct_map inj_on_def)
    have pass: "pass k req (view w) = map (\<lambda>g. if sg_key g = req then g \<lparr> sgo_Status := sgo_Status (sg_with_id n sg) \<rparr> else g) (view w)"
      using only sg(2) n'(1) by (auto simp: pass_def sg_with_id_def)
    show ?thesis
    proof (cases "id_of sg = n \<and> sgst_Phase (sgo_Status sg) = sgst_Phase (sgo_Status (sg_with_id n sg))")
      case True
      then have "w' = w2" using assms(1) g sg n by (auto simp: sg_Reconcile_def call_ok Let_def)
      moreover have "sg_with_id n sg = sg" using True by (simp add: sg_with_id_def)
      ultimately show ?thesis using pass n'(2) only by (auto intro!: map_idI [symmetric])
    next
      case False
      obtain u w3 where u: "sa_update_status api (sg_with_id n sg) w2 = (u, w3)" by force
      have "u = Inr ()" "w' = w3" using assms(1,2) g sg n u False by (auto simp: sg_Reconcile_def call_ok Let_def split: sum.splits if_splits)
      then show ?thesis using update_writes [OF u] pass n'(2) mem by simp
    qed
  qed (rule Reconcile_idle [OF assms(1) g assms(3)])
qed

end

section \<open>Rounds\<close>

text \<open>The work queue runs requests one after the other; a request that asks to be repeated at once is queued again.\<close>

inductive sg_round :: "machinery \<Rightarrow> 'w sg_api \<Rightarrow> object_key list \<Rightarrow> 'w \<Rightarrow> 'w \<Rightarrow> bool"
  for k :: machinery and api :: "'w sg_api" where
  round_end: "sg_round k api [] w w"
| round_step: "sg_Reconcile k api req w = (Inr r, v) \<Longrightarrow> r \<noteq> Requeue \<Longrightarrow> sg_round k api reqs v w' \<Longrightarrow> sg_round k api (req # reqs) w w'"

inductive_simps sg_round_Nil: "sg_round k api [] w w'"
inductive_cases sg_round_ConsE: "sg_round k api (req # reqs) w w'"

lemma pass_keys: "map sg_key (pass k req gs) = map sg_key gs"
  by (simp add: pass_map comp_def)

lemma round_passes:
  assumes "sg_server api view rest" "sg_round k api reqs w w'" "distinct (map sg_key (view w))"
  shows "view w' = fold (pass k) reqs (view w)"
  using assms(2,3)
proof (induction rule: sg_round.induct)
  case (round_step req w r v reqs w')
  have "view v = pass k req (view w)" using sg_server.Reconcile_pass [OF assms(1)] round_step by blast
  then show ?case using round_step by (simp add: pass_keys)
qed simp

end
