(* ===== verification/SgNumbering.thy ===== *)
theory SgNumbering
  imports SgController SgPolicy
begin

text \<open>
  A reference API server for the controller of security-group numbers, and the convergence of the numbering.
\<close>

section \<open>A reference server\<close>

definition sg_reference :: "SecurityGroup list sg_api" where
  "sg_reference = \<lparr>
     sa_ctx = (\<lambda>w. (Inr (), w)),
     sa_get = (\<lambda>req w. (case find (\<lambda>g. sg_key g = req) w of Some g \<Rightarrow> Inr g | None \<Rightarrow> Inl NotFound, w)),
     sa_list = (\<lambda>ns n token w. let items = filter (\<lambda>g. om_Namespace (sgo_meta g) = ns) w
        in if token = [] \<and> length items \<le> n then (Inr (items, []), w) else (Inl ApiFailure, w)),
     sa_update_status = (\<lambda>sg w. (Inr (), map (\<lambda>g. if sg_key g = sg_key sg then g \<lparr> sgo_Status := sgo_Status sg \<rparr> else g) w)) \<rparr>"

interpretation sg_store: sg_server sg_reference "\<lambda>w. w" "\<lambda>_ _. []"
proof (rule sg_server.intro, goal_cases)
  case (1 ns)
  have i: "interference (\<lambda>w w' :: SecurityGroup list. w' = w)" by unfold_locales auto
  show ?case
    by (intro paged_list.intro [OF i] paged_list_axioms.intro)
      (auto simp: interference.quiet_def [OF i] sg_reference_def Let_def split: if_splits)
next
  case (2 req w g w')
  then show ?case by (auto simp: sg_reference_def find_None_iff find_Some_iff split: option.splits)
next
  case (3 sg w u w')
  then show ?case by (simp add: sg_reference_def)
qed

lemma reference_walk:
  assumes "length w \<le> ClaimPageSize"
  shows "walkSecurityGroupClaims sg_reference ns visit s w = (Inr (fold visit (filter (\<lambda>g. om_Namespace (sgo_meta g) = ns) w) s), w)"
proof -
  have pages: "maxClaimPages = Suc 511" by (simp add: maxClaimPages_def MaxClaimScan_def ClaimPageSize_def)
  have items: "visit_items (sa_ctx sg_reference) visit xs s = give (fold visit xs s)" for xs s
    by (induction xs arbitrary: s) (auto simp: sg_reference_def andThen_def fun_eq_iff)
  have "length (filter (\<lambda>g. om_Namespace (sgo_meta g) = ns) w) \<le> ClaimPageSize"
    using length_filter_le assms le_trans by blast
  then show ?thesis unfolding walkSecurityGroupClaims_def WalkClaims_def pages walk_pages.simps items
    by (simp add: andThen_def give_def sg_reference_def Let_def MaxClaimScan_def ClaimPageSize_def)
qed

text \<open>Reconciliation never asks this server to repeat a request, so rounds of any length run.\<close>

lemma reference_reconciles:
  assumes "length w \<le> ClaimPageSize"
  shows "\<exists>r w'. sg_Reconcile k sg_reference req w = (Inr r, w') \<and> r \<noteq> Requeue \<and> length w' = length w"
proof -
  have get: "sa_get sg_reference req w = (case find (\<lambda>g. sg_key g = req) w of Some g \<Rightarrow> Inr g | None \<Rightarrow> Inl NotFound, w)"
    by (simp add: sg_reference_def)
  have put: "sa_update_status sg_reference sg w = (Inr (), map (\<lambda>g. if sg_key g = sg_key sg then g \<lparr> sgo_Status := sgo_Status sg \<rparr> else g) w)" for sg
    by (simp add: sg_reference_def)
  show ?thesis
  proof (cases "find (\<lambda>g. sg_key g = req) w")
    case None
    then show ?thesis by (simp add: sg_Reconcile_def handle_def give_def get)
  next
    case (Some sg)
    have "\<exists>n. next_id k sg_reference sg w = (Inr n, w)"
      by (cases "ObjectName k (lvr_Name (sgs_VPCRef (sgo_Spec sg)))"; cases "id_of sg \<le> 0 \<or> MaxSecurityGroupsPerVPC \<le> id_of sg")
        (simp_all add: next_id_def allocateID_def usedIDs_def lostIDToDuplicate_def reference_walk [OF assms] andThen_def give_def)
    then obtain n where n: "next_id k sg_reference sg w = (Inr n, w)" ..
    show ?thesis
      by (simp add: sg_Reconcile_def handle_def andThen_def give_def get Some n put Let_def)
  qed
qed

lemma reference_round: "length w \<le> ClaimPageSize \<Longrightarrow> \<exists>w'. sg_round k sg_reference reqs w w' \<and> length w' = length w"
proof (induction reqs arbitrary: w)
  case (Cons req reqs)
  obtain r v where v: "sg_Reconcile k sg_reference req w = (Inr r, v)" "r \<noteq> Requeue" "length v = length w"
    using reference_reconciles Cons.prems by metis
  then show ?case using Cons.IH [of v] Cons.prems sg_round.round_step [OF v(1,2)] by metis
qed (auto intro: sg_round.round_end)

section \<open>Properties\<close>

text \<open>
  (C9) The numbering of security groups converges. From any stored state, duplicates included, two rounds of
  reconciliation that each visit every live group (in any order, any number of times) leave every live group of a VPC
  of at most 62 groups with a number from 1 to 62 that no other live group of the VPC has; nothing but the status of the
  groups has changed.
\<close>

theorem sg_numbers_converge:
  assumes "sg_server api view rest" and "distinct (map sg_key (view w))"
    and "sg_round k api reqs w v" and "sg_round k api reqs' v w'"
    and "\<forall>g \<in> set (view w). om_Deleting (sgo_meta g) \<or> sg_key g \<in> set reqs \<and> sg_key g \<in> set reqs'"
    and "\<forall>g \<in> set (view w). length (filter (\<lambda>h. sg_vpc h = sg_vpc g) (view w)) \<le> 62 \<and> ObjectName k (lvr_Name (sgs_VPCRef (sgo_Spec g)))"
  shows "map sgo_meta (view w') = map sgo_meta (view w) \<and> map sgo_Spec (view w') = map sgo_Spec (view w) \<and>
    (\<forall>g \<in> set (view w'). om_Deleting (sgo_meta g) \<or> sgst_ID (sgo_Status g) \<in> {1..62} \<and>
      (\<forall>h \<in> set (view w'). om_Deleting (sgo_meta h) \<or> sg_vpc h \<noteq> sg_vpc g \<or> sg_key h = sg_key g \<or> sgst_ID (sgo_Status h) \<noteq> sgst_ID (sgo_Status g)))"
proof -
  let ?gs = "view w" and ?mid = "view v" and ?last = "view w'"
  have mid: "?mid = map (evolve k reqs ?gs) ?gs" using round_passes [OF assms(1,3,2)] passes_map by simp
  have keys: "distinct (map sg_key ?mid)" using assms(2) mid by (simp add: comp_def)
  have out: "?last = map (evolve k reqs' ?mid) ?mid" using round_passes [OF assms(1,4) keys] passes_map by simp
  have settled: "settled ?last (evolve k reqs' ?mid m) \<and> valid_id (id_of (evolve k reqs' ?mid m))"
    if m: "m \<in> set ?mid" "\<not> om_Deleting (sgo_meta m)" for m
  proof -
    obtain g where g: "g \<in> set ?gs" "m = evolve k reqs ?gs g" using m(1) mid by auto
    then have live: "\<not> om_Deleting (sgo_meta g)" using m(2) by simp
    then have sm: "settled ?mid m"
      using evolve_settled [of g ?gs reqs k] assms(5) g round_passes [OF assms(1,3,2)] by auto
    have crowd: "crowd ?mid m \<le> 62" using assms(6) g unfolding crowd_def mid by (simp add: filter_map comp_def sg_vpc_def)
    have key: "sg_key m \<in> set reqs'" using assms(5) g live by (auto simp: sg_key_def)
    have "settled ?last (evolve k reqs' ?mid m)"
      using evolve_settled [OF m(1)] sm round_passes [OF assms(1,4) keys] by simp
    moreover have "valid_id (id_of (evolve k reqs' ?mid m))"
      by (rule evolve_numbers [OF m(1) sm crowd]) (use assms(6) g m(2) key in auto)
    ultimately show ?thesis ..
  qed
  have distinct: "id_of h \<noteq> id_of g"
    if gh: "g \<in> set ?last" "h \<in> set ?last" "\<not> om_Deleting (sgo_meta g)" "\<not> om_Deleting (sgo_meta h)" "sg_vpc h = sg_vpc g" "sg_key h \<noteq> sg_key g" for g h
  proof -
    have s: "settled ?last x \<and> valid_id (id_of x)" if "x \<in> set ?last" "\<not> om_Deleting (sgo_meta x)" for x
      using settled that out by auto
    have "rival h g" using gh(5,6) by (auto simp: sg_vpc_def sg_key_def)
    then show ?thesis using settled_distinct s gh by blast
  qed
  have "om_Deleting (sgo_meta g) \<or> id_of g \<in> {1..62}" if "g \<in> set ?last" for g
    using settled that out unfolding valid_id_range by auto
  moreover have "map sgo_meta ?last = map sgo_meta ?gs" "map sgo_Spec ?last = map sgo_Spec ?gs" by (simp_all add: out mid comp_def)
  ultimately show ?thesis using distinct by blast
qed


text \<open>Two groups that both have number 1.\<close>

definition sg_twins :: "SecurityGroup list" where
  "sg_twins = [sg_example ''web'' 1 [], sg_example ''db'' 1 []]"

theorem sg_numbers_converge_witness:
  "\<exists>v w'. sg_round any_names sg_reference (map sg_key sg_twins) sg_twins v \<and> sg_round any_names sg_reference (map sg_key sg_twins) v w' \<and>
    length w' = 2 \<and> sgst_ID (sgo_Status (w' ! 0)) \<in> {1..62} \<and> sgst_ID (sgo_Status (w' ! 1)) \<noteq> sgst_ID (sgo_Status (w' ! 0))"
proof -
  have len: "length sg_twins \<le> ClaimPageSize" by (simp add: sg_twins_def ClaimPageSize_def)
  obtain v where v: "sg_round any_names sg_reference (map sg_key sg_twins) sg_twins v" "length v = length sg_twins"
    using reference_round [OF len] by blast
  obtain w' where w': "sg_round any_names sg_reference (map sg_key sg_twins) v w'" "length w' = length v"
    using reference_round [of v] v(2) len by metis
  have keys: "distinct (map sg_key sg_twins)" by (simp add: sg_twins_def sg_example_def sg_key_def)
  have conv: "map sgo_meta w' = map sgo_meta sg_twins \<and> map sgo_Spec w' = map sgo_Spec sg_twins \<and>
    (\<forall>g \<in> set w'. om_Deleting (sgo_meta g) \<or> sgst_ID (sgo_Status g) \<in> {1..62} \<and>
      (\<forall>h \<in> set w'. om_Deleting (sgo_meta h) \<or> sg_vpc h \<noteq> sg_vpc g \<or> sg_key h = sg_key g \<or> sgst_ID (sgo_Status h) \<noteq> sgst_ID (sgo_Status g)))"
    by (rule sg_numbers_converge [OF sg_store.sg_server_axioms keys v(1) w'(1)])
      (simp_all add: sg_twins_def sg_example_def sg_vpc_def any_names_def ObjectName_def)
  have len2: "length w' = 2" using v(2) w'(2) by (simp add: sg_twins_def)
  then obtain a b where ab: "w' = [a, b]" by (auto simp: length_Suc_conv numeral_2_eq_2)
  have fields: "sgo_meta a = sgo_meta (sg_example ''web'' 1 [])" "sgo_meta b = sgo_meta (sg_example ''db'' 1 [])"
    "sgo_Spec a = sgo_Spec (sg_example ''web'' 1 [])" "sgo_Spec b = sgo_Spec (sg_example ''db'' 1 [])"
    using conv ab by (simp_all add: sg_twins_def)
  have "\<not> om_Deleting (sgo_meta a)" "\<not> om_Deleting (sgo_meta b)" "sg_vpc b = sg_vpc a" "sg_key b \<noteq> sg_key a"
    by (simp_all add: fields sg_vpc_def sg_key_def) (simp_all add: sg_example_def)
  then show ?thesis using conv ab v(1) w'(1) by (intro exI [of _ v] exI [of _ w']) simp
qed

end
