(* ===== verification/Json.thy ===== *)
theory Json
  imports GoStd
begin

text \<open>
  What the octet uses of \<^verbatim>\<open>encoding/json\<close>: a map of strings read from text, and strings written into text. Texts are lists
  of bytes; invalid UTF-8 becomes the replacement character in both directions.
\<close>

section \<open>UTF-8\<close>

definition chr :: "nat \<Rightarrow> char" where
  "chr n = char_of n"

definition octet :: "char \<Rightarrow> nat" where
  "octet c = of_char c"

definition starts :: "(nat \<times> nat) list \<Rightarrow> string \<Rightarrow> bool" where
  "starts ranges s = (length ranges \<le> length s \<and> list_all2 (\<lambda>(lo, hi) c. lo \<le> octet c \<and> octet c \<le> hi) ranges (take (length ranges) s))"

text \<open>The length of the multi-byte character at the front, zero when there is none.\<close>

definition utf8_size :: "string \<Rightarrow> nat" where
  "utf8_size s =
     (if starts [(0xC2, 0xDF), (0x80, 0xBF)] s then 2
      else if starts [(0xE0, 0xE0), (0xA0, 0xBF), (0x80, 0xBF)] s \<or> starts [(0xE1, 0xEC), (0x80, 0xBF), (0x80, 0xBF)] s \<or>
        starts [(0xED, 0xED), (0x80, 0x9F), (0x80, 0xBF)] s \<or> starts [(0xEE, 0xEF), (0x80, 0xBF), (0x80, 0xBF)] s then 3
      else if starts [(0xF0, 0xF0), (0x90, 0xBF), (0x80, 0xBF), (0x80, 0xBF)] s \<or>
        starts [(0xF1, 0xF3), (0x80, 0xBF), (0x80, 0xBF), (0x80, 0xBF)] s \<or>
        starts [(0xF4, 0xF4), (0x80, 0x8F), (0x80, 0xBF), (0x80, 0xBF)] s then 4
      else 0)"

definition encode_rune :: "nat \<Rightarrow> string" where
  "encode_rune r =
     (if r < 0x80 then [chr r]
      else if r < 0x800 then [chr (0xC0 + r div 64), chr (0x80 + r mod 64)]
      else if r < 0x10000 then [chr (0xE0 + r div 4096), chr (0x80 + r div 64 mod 64), chr (0x80 + r mod 64)]
      else [chr (0xF0 + r div 262144), chr (0x80 + r div 4096 mod 64), chr (0x80 + r div 64 mod 64), chr (0x80 + r mod 64)])"

definition replacement :: string where
  "replacement = encode_rune 0xFFFD"

section \<open>Reading\<close>

definition json_space :: "char \<Rightarrow> bool" where
  "json_space c = (octet c \<in> {0x20, 0x09, 0x0A, 0x0D})"

definition hex_digit :: "char \<Rightarrow> nat option" where
  "hex_digit c =
     (let n = octet c
      in if 0x30 \<le> n \<and> n \<le> 0x39 then Some (n - 0x30)
         else if 0x61 \<le> n \<and> n \<le> 0x66 then Some (n - 0x57)
         else if 0x41 \<le> n \<and> n \<le> 0x46 then Some (n - 0x37) else None)"

fun hex4 :: "string \<Rightarrow> (nat \<times> string) option" where
  "hex4 (a # b # c # d # s) = (case (hex_digit a, hex_digit b, hex_digit c, hex_digit d) of
     (Some a, Some b, Some c, Some d) \<Rightarrow> Some (((a * 16 + b) * 16 + c) * 16 + d, s) | _ \<Rightarrow> None)"
| "hex4 s = None"

text \<open>The second half of a surrogate pair, when the text continues with one.\<close>

definition low_surrogate :: "string \<Rightarrow> (nat \<times> string) option" where
  "low_surrogate s = (case s of
     a # b # r \<Rightarrow> if octet a = 0x5C \<and> octet b = 0x75 then (case hex4 r of
        Some (v, r') \<Rightarrow> if 0xDC00 \<le> v \<and> v \<le> 0xDFFF then Some (v, r') else None | None \<Rightarrow> None) else None
   | _ \<Rightarrow> None)"

definition simple_escape :: "char \<Rightarrow> char option" where
  "simple_escape c = map_of [(chr 0x22, chr 0x22), (chr 0x5C, chr 0x5C), (chr 0x2F, chr 0x2F), (chr 0x62, chr 0x08),
     (chr 0x66, chr 0x0C), (chr 0x6E, chr 0x0A), (chr 0x72, chr 0x0D), (chr 0x74, chr 0x09)] c"

text \<open>What an escape stands for and the text after it; the text starts after the backslash.\<close>

definition escape :: "string \<Rightarrow> (string \<times> string) option" where
  "escape s = (case s of
     [] \<Rightarrow> None
   | c # r \<Rightarrow> (case simple_escape c of
       Some d \<Rightarrow> Some ([d], r)
     | None \<Rightarrow>
         if octet c \<noteq> 0x75 then None
         else case hex4 r of
           None \<Rightarrow> None
         | Some (v, r') \<Rightarrow>
             if 0xD800 \<le> v \<and> v \<le> 0xDFFF
             then (case low_surrogate r' of
                 Some (l, r'') \<Rightarrow> if v \<le> 0xDBFF then Some (encode_rune (0x10000 + (v - 0xD800) * 1024 + (l - 0xDC00)), r'')
                   else Some (replacement, r')
               | None \<Rightarrow> Some (replacement, r'))
             else Some (encode_rune v, r')))"

lemma hex4_shorter: "hex4 s = Some (v, r) \<Longrightarrow> length r < length s"
  by (induction s rule: hex4.induct) (auto split: option.splits)

lemma low_surrogate_shorter: "low_surrogate s = Some (v, r) \<Longrightarrow> length r < length s"
  by (auto simp: low_surrogate_def split: list.splits if_splits option.splits dest: hex4_shorter)

lemma escape_shorter: "escape s = Some (x, r) \<Longrightarrow> length r < length s"
  by (auto simp: escape_def split: list.splits if_splits option.splits dest!: hex4_shorter low_surrogate_shorter)

text \<open>A string after its opening quote, and the text after the closing one.\<close>

function json_chars :: "string \<Rightarrow> (string \<times> string) option" where
  "json_chars s = (case s of
     [] \<Rightarrow> None
   | c # r \<Rightarrow>
       if octet c = 0x22 then Some ([], r)
       else if octet c < 0x20 then None
       else if octet c = 0x5C then (case escape r of
           None \<Rightarrow> None
         | Some (x, r') \<Rightarrow> map_option (map_prod (append x) (\<lambda>y. y)) (json_chars r'))
       else if octet c < 0x80 then map_option (map_prod (Cons c) (\<lambda>y. y)) (json_chars r)
       else if utf8_size s = 0 then map_option (map_prod (append replacement) (\<lambda>y. y)) (json_chars r)
       else map_option (map_prod (append (take (utf8_size s) s)) (\<lambda>y. y)) (json_chars (drop (utf8_size s) s)))"
  by pat_completeness auto
termination by (relation "measure length") (auto dest: escape_shorter)

declare json_chars.simps [simp del]

definition skip_space :: "string \<Rightarrow> string" where
  "skip_space s = dropWhile json_space s"

text \<open>A value that fits a string: a string, or null, which leaves the empty one.\<close>

definition json_value :: "string \<Rightarrow> (string \<times> string) option" where
  "json_value s = (case skip_space s of
     [] \<Rightarrow> None
   | c # r \<Rightarrow> if octet c = 0x22 then json_chars r
       else case cut_prefix ''null'' (c # r) of Some r' \<Rightarrow> Some ([], r') | None \<Rightarrow> None)"

lemma json_chars_shorter: "json_chars s = Some (x, r) \<Longrightarrow> length r < length s"
proof (induction "length s" arbitrary: s x rule: less_induct)
  case less
  have ih: "length r < length s" if "json_chars t = Some (y, r)" "length t < length s" for t y
    using less(1)[OF that(2,1)] that(2) by simp
  show ?case
  proof (cases s)
    case (Cons c t)
    have short: "length (drop n s) < length s" if "n \<noteq> 0" for n using that Cons by simp
    show ?thesis using less(2) ih[of t] ih[of "drop (utf8_size s) s"] short[of "utf8_size s"]
      by (subst (asm) json_chars.simps)
        (auto simp: Cons split: if_splits option.splits dest!: escape_shorter intro: ih[unfolded Cons length_Cons])
  qed (use less(2) in \<open>simp add: json_chars.simps\<close>)
qed

text \<open>The members of an object after its opening brace; a repeated name keeps its last value.\<close>

definition json_member :: "string \<Rightarrow> ((string \<times> string) \<times> string) option" where
  "json_member s = (case skip_space s of
     [] \<Rightarrow> None
   | c # r \<Rightarrow> if octet c \<noteq> 0x22 then None
       else case json_chars r of
         None \<Rightarrow> None
       | Some (name, r1) \<Rightarrow> (case skip_space r1 of
           [] \<Rightarrow> None
         | d # r2 \<Rightarrow> if octet d \<noteq> 0x3A then None else map_option (\<lambda>(v, r3). ((name, v), r3)) (json_value r2)))"

lemma skip_space_shorter: "length (skip_space s) \<le> length s"
  by (simp add: skip_space_def length_dropWhile_le)

lemma skip_space_Cons: "skip_space s = c # r \<Longrightarrow> length r < length s"
  using skip_space_shorter [of s] by simp

lemma json_value_shorter: "json_value s = Some (x, r) \<Longrightarrow> length r < length s"
  by (auto simp: json_value_def split: list.splits if_splits option.splits dest!: skip_space_Cons json_chars_shorter)

lemma json_member_shorter: "json_member s = Some (x, r) \<Longrightarrow> length r < length s"
  by (auto simp: json_member_def split: list.splits if_splits option.splits
      dest!: skip_space_Cons json_chars_shorter json_value_shorter)

function json_members :: "string \<Rightarrow> ((string \<times> string) list \<times> string) option" where
  "json_members s = (case json_member s of
     None \<Rightarrow> None
   | Some (m, r) \<Rightarrow> (case skip_space r of
       [] \<Rightarrow> None
     | c # r' \<Rightarrow> if octet c = 0x7D then Some ([m], r')
         else if octet c = 0x2C then map_option (map_prod (Cons m) (\<lambda>y. y)) (json_members r') else None))"
  by pat_completeness auto
termination by (relation "measure length") (auto dest!: json_member_shorter skip_space_Cons)

declare json_members.simps [simp del]

text \<open>\<^verbatim>\<open>json.Unmarshal\<close> into a \<^verbatim>\<open>map[string]string\<close>; a value of another type is an error.\<close>

definition unmarshal_map :: "string \<Rightarrow> (string \<rightharpoonup> string) option" where
  "unmarshal_map s = (case skip_space s of
     [] \<Rightarrow> None
   | c # r \<Rightarrow>
       if octet c = 0x7B then
         (case (case skip_space r of [] \<Rightarrow> None | d # r' \<Rightarrow> if octet d = 0x7D then Some ([], r') else json_members r) of
            Some (ms, r') \<Rightarrow> if skip_space r' = [] then Some (map_of (rev ms)) else None
          | None \<Rightarrow> None)
       else case cut_prefix ''null'' (c # r) of
         Some r' \<Rightarrow> if skip_space r' = [] then Some Map.empty else None
       | None \<Rightarrow> None)"

section \<open>Writing\<close>

definition html_safe :: "char \<Rightarrow> bool" where
  "html_safe c = (0x20 \<le> octet c \<and> octet c \<notin> {0x22, 0x5C, 0x3C, 0x3E, 0x26})"

definition json_escape :: "char \<Rightarrow> string" where
  "json_escape c =
     (case map_of [(0x22, chr 0x22), (0x5C, chr 0x5C), (0x08, chr 0x62), (0x0C, chr 0x66), (0x0A, chr 0x6E), (0x0D, chr 0x72), (0x09, chr 0x74)] (octet c) of
        Some e \<Rightarrow> [chr 0x5C, e]
      | None \<Rightarrow> [chr 0x5C, chr 0x75, chr 0x30, chr 0x30, hex_char (octet c div 16), hex_char (octet c mod 16)])"

function json_text :: "string \<Rightarrow> string" where
  "json_text s = (case s of
     [] \<Rightarrow> []
   | c # r \<Rightarrow>
       if octet c < 0x80 then (if html_safe c then [c] else json_escape c) @ json_text r
       else if utf8_size s = 0 then [chr 0x5C, chr 0x75] @ ''fffd'' @ json_text r
       else if take 3 s = encode_rune 0x2028 then [chr 0x5C, chr 0x75] @ ''2028'' @ json_text (drop 3 s)
       else if take 3 s = encode_rune 0x2029 then [chr 0x5C, chr 0x75] @ ''2029'' @ json_text (drop 3 s)
       else take (utf8_size s) s @ json_text (drop (utf8_size s) s))"
  by pat_completeness auto
termination by (relation "measure length") auto

declare json_text.simps [simp del]

definition json_string :: "string \<Rightarrow> string" where
  "json_string s = chr 0x22 # json_text s @ [chr 0x22]"

definition member_text :: "string \<times> string \<Rightarrow> string" where
  "member_text = (\<lambda>(k, v). json_string k @ '':'' @ json_string v)"

text \<open>\<^verbatim>\<open>json.Marshal\<close> of a map from strings to strings: the members in the order of their names.\<close>

definition marshal_map :: "(string \<times> string) list \<Rightarrow> string" where
  "marshal_map m = ''{'' @ join_with (CHR '','') (map member_text (sort_key fst m)) @ ''}''"

section \<open>Round trip\<close>

function valid_utf8 :: "string \<Rightarrow> bool" where
  "valid_utf8 s = (case s of
     [] \<Rightarrow> True
   | c # r \<Rightarrow> if octet c < 0x80 then valid_utf8 r
       else if utf8_size s = 0 then False else valid_utf8 (drop (utf8_size s) s))"
  by pat_completeness auto
termination by (relation "measure length") auto

declare valid_utf8.simps [simp del]

lemma octet_chr [simp]: "n < 256 \<Longrightarrow> octet (chr n) = n"
  by (simp add: octet_def chr_def)

lemma chr_octet [simp]: "chr (octet c) = c"
  by (simp add: octet_def chr_def)

lemma octet_less: "octet c < 256"
  by (simp add: octet_def)

lemma octet_hex_char: "d < 16 \<Longrightarrow> octet (hex_char d) = (if d < 10 then 48 + d else 87 + d)"
  by (simp add: octet_def hex_char_def)

lemma hex_digit_hex_char [simp]: "d < 16 \<Longrightarrow> hex_digit (hex_char d) = Some d"
  by (simp add: hex_digit_def octet_hex_char Let_def)

lemma starts_front:
  assumes "length ranges \<le> n" "n \<le> length s"
  shows "starts ranges (take n s @ u) = starts ranges s"
  using assms by (simp add: starts_def min_def)

lemma starts_length: "starts ranges s \<Longrightarrow> length ranges \<le> length s"
  by (simp add: starts_def)

lemma utf8_size_front:
  assumes "utf8_size s = n" "n \<noteq> 0"
  shows "n \<le> length s \<and> utf8_size (take n s @ u) = n"
proof -
  have len: "n \<le> length s" "n \<in> {2, 3, 4}" using assms
    by (auto simp: utf8_size_def split: if_splits dest!: starts_length)
  have front: "starts ranges (take n s @ u) = starts ranges s" if "length ranges \<le> n" for ranges
    using starts_front [OF that len(1)] .
  have "utf8_size (take n s @ u) = n"
  proof -
    consider "n = 2" | "n = 3" | "n = 4" using len(2) by auto
    then show ?thesis using assms(1) front unfolding utf8_size_def by cases (auto split: if_splits)
  qed
  then show ?thesis using len by simp
qed

lemma json_chars_end: "json_chars (chr 0x22 # t) = Some ([], t)"
  by (subst json_chars.simps) simp

lemma json_chars_safe:
  assumes "octet c < 0x80" "html_safe c"
  shows "json_chars (c # u) = map_option (map_prod (Cons c) (\<lambda>y. y)) (json_chars u)"
  using assms by (subst json_chars.simps) (auto simp: html_safe_def)

lemma json_chars_escape:
  assumes "escape r = Some (x, u)"
  shows "json_chars (chr 0x5C # r) = map_option (map_prod (append x) (\<lambda>y. y)) (json_chars u)"
  using assms by (subst json_chars.simps) simp

lemma json_chars_multi:
  assumes "s = c # r" "\<not> octet c < 0x80" "utf8_size s \<noteq> 0"
  shows "json_chars (take (utf8_size s) s @ u) = map_option (map_prod (append (take (utf8_size s) s)) (\<lambda>y. y)) (json_chars u)"
proof -
  note size = utf8_size_front [OF refl assms(3), of u]
  obtain n where n: "utf8_size s = Suc n" using assms(3) not0_implies_Suc by blast
  have front: "take (utf8_size s) s @ u = c # take n r @ u" using assms(1) n by simp
  have "take (utf8_size s) (take (utf8_size s) s @ u) = take (utf8_size s) s" "drop (utf8_size s) (take (utf8_size s) s @ u) = u"
    using size by simp_all
  then show ?thesis using size assms(2,3) unfolding front by (subst json_chars.simps) simp
qed

lemma chr_eq [simp]: "m < 256 \<Longrightarrow> n < 256 \<Longrightarrow> chr m = chr n \<longleftrightarrow> m = n"
  by (metis octet_chr)

lemma encode_ascii [simp]: "octet c < 0x80 \<Longrightarrow> encode_rune (octet c) = [c]"
  by (simp add: encode_rune_def)

lemma escape_unicode:
  assumes "hex4 r = Some (v, u)" "v < 0xD800"
  shows "escape (chr 0x75 # r) = Some (encode_rune v, u)"
  using assms by (simp add: escape_def simple_escape_def)

lemma escape_json_escape:
  assumes "octet c < 0x80" "\<not> html_safe c"
  shows "\<exists>r. json_escape c @ u = chr 0x5C # r \<and> escape r = Some ([c], u)"
proof -
  consider n where "octet c = n" "n \<in> {0x22, 0x5C, 0x08, 0x0C, 0x0A, 0x0D, 0x09}"
    | (other) "octet c \<notin> {0x22, 0x5C, 0x08, 0x0C, 0x0A, 0x0D, 0x09}" by blast
  then show ?thesis
  proof cases
    case (1 n)
    moreover have "c = chr n" using 1(1) by (metis chr_octet)
    ultimately show ?thesis by (auto simp: json_escape_def escape_def simple_escape_def)
  next
    case other
    define h where "h = [chr 0x30, chr 0x30, hex_char (octet c div 16), hex_char (octet c mod 16)] @ u"
    have digits: "hex_digit (chr 0x30) = Some 0" by (simp add: hex_digit_def)
    have "hex4 h = Some (octet c, u)" using assms(1) digits by (simp add: h_def)
    then have "escape (chr 0x75 # h) = Some ([c], u)" using escape_unicode [of h "octet c" u] assms(1) by simp
    moreover have "json_escape c @ u = chr 0x5C # chr 0x75 # h" using other by (simp add: json_escape_def h_def)
    ultimately show ?thesis by blast
  qed
qed

lemma hex4_separators: "hex4 (''2028'' @ u) = Some (0x2028, u)" "hex4 (''2029'' @ u) = Some (0x2029, u)"
  by (simp_all add: hex_digit_def octet_def)

lemma separator_size:
  assumes "take 3 s = encode_rune v" "v \<in> {0x2028, 0x2029}"
  shows "utf8_size s = 3"
proof -
  obtain a b c r where s: "s = a # b # c # r" "[a, b, c] = encode_rune v" using assms
    by (cases s; cases "tl s"; cases "tl (tl s)") (auto simp: encode_rune_def)
  then have "octet a = 0xE2" "octet b = 0x80" "octet c \<in> {0xA8, 0xA9}" using assms(2) by (auto simp: encode_rune_def)
  then show ?thesis by (auto simp: s(1) utf8_size_def starts_def)
qed

lemma json_chars_unicode:
  assumes "hex4 (h @ u) = Some (v, u)" "v < 0xD800"
  shows "json_chars (chr 0x5C # chr 0x75 # h @ u) = map_option (map_prod (append (encode_rune v)) (\<lambda>y. y)) (json_chars u)"
  by (rule json_chars_escape, rule escape_unicode) (use assms in auto)

lemma json_chars_separator:
  assumes "take 3 s = encode_rune v" "v < 0xD800" "\<And>u. hex4 (h @ u) = Some (v, u)"
    "json_text s = chr 0x5C # chr 0x75 # h @ json_text (drop 3 s)" "json_chars (json_text (drop 3 s) @ q) = Some (drop 3 s, t)"
  shows "json_chars (json_text s @ q) = Some (s, t)"
proof -
  have "encode_rune v @ drop 3 s = s" using append_take_drop_id [of 3 s] assms(1) by simp
  then show ?thesis using json_chars_unicode [OF assms(3,2), of "json_text (drop 3 s) @ q"] assms(4,5) by simp
qed

text \<open>A reader gets back every valid UTF-8 string that was written.\<close>

lemma json_chars_text: "valid_utf8 s \<Longrightarrow> json_chars (json_text s @ chr 0x22 # t) = Some (s, t)"
proof (induction s rule: json_text.induct)
  case (1 s)
  show ?case
  proof (cases s)
    case Nil
    then show ?thesis using json_chars_end by (simp add: json_text.simps)
  next
    case (Cons c r)
    note txt_eq = json_text.simps [of s, unfolded Cons list.case, folded Cons]
    note valid = "1.prems" [unfolded valid_utf8.simps [of s, unfolded Cons list.case, folded Cons]]
    show ?thesis
    proof (cases "octet c < 0x80")
      case True
      then have ih: "json_chars (json_text r @ chr 0x22 # t) = Some (r, t)" using "1.IH"(1) [OF Cons True] valid by simp
      have here: "json_text s = (if html_safe c then [c] else json_escape c) @ json_text r" using txt_eq True by simp
      show ?thesis
      proof (cases "html_safe c")
        case safe: True
        then show ?thesis using here json_chars_safe [OF True safe] ih Cons by simp
      next
        case esc: False
        obtain q where q: "json_escape c @ json_text r @ chr 0x22 # t = chr 0x5C # q" "escape q = Some ([c], json_text r @ chr 0x22 # t)"
          using escape_json_escape [OF True esc] by blast
        then show ?thesis using here json_chars_escape [OF q(2)] esc ih Cons by simp
      qed
    next
      case False
      then have size: "utf8_size s \<noteq> 0" and rest: "valid_utf8 (drop (utf8_size s) s)" using valid by (auto split: if_splits)
      have three: "valid_utf8 (drop 3 s)" if "take 3 s = encode_rune v" "v \<in> {0x2028, 0x2029}" for v
        using rest separator_size [OF that] by simp
      have ne: "encode_rune 0x2029 \<noteq> encode_rune 0x2028" by (simp add: encode_rune_def)
      consider (one) "take 3 s = encode_rune 0x2028" | (two) "take 3 s = encode_rune 0x2029"
        | (multi) "take 3 s \<noteq> encode_rune 0x2028" "take 3 s \<noteq> encode_rune 0x2029" by blast
      then show ?thesis
      proof cases
        case one
        have "json_text s = chr 0x5C # chr 0x75 # ''2028'' @ json_text (drop 3 s)" using txt_eq False size one by simp
        from json_chars_separator [OF one _ hex4_separators(1) this "1.IH"(3)] show ?thesis using Cons False size one three by simp
      next
        case two
        then have other: "take 3 s \<noteq> encode_rune 0x2028" using ne by simp
        have "json_text s = chr 0x5C # chr 0x75 # ''2029'' @ json_text (drop 3 s)" using txt_eq False size two other by simp
        from json_chars_separator [OF two _ hex4_separators(2) this "1.IH"(4)] show ?thesis using Cons False size two other three by simp
      next
        case multi
        then show ?thesis using "1.IH"(5) [OF Cons False size multi rest] json_chars_multi [OF Cons False size] txt_eq False size by simp
      qed
    qed
  qed
qed

lemma skip_space_id: "\<not> json_space c \<Longrightarrow> skip_space (c # s) = c # s"
  by (simp add: skip_space_def)

lemma not_space: "n < 256 \<Longrightarrow> n \<notin> {0x20, 0x09, 0x0A, 0x0D} \<Longrightarrow> \<not> json_space (chr n)"
  by (simp add: json_space_def)

lemma json_value_string: "valid_utf8 v \<Longrightarrow> json_value (json_string v @ u) = Some (v, u)"
  using json_chars_text [of v u] by (simp add: json_value_def json_string_def skip_space_id not_space)

lemma json_punctuation: "CHR '':'' = chr 0x3A" "CHR '','' = chr 0x2C" "CHR ''{'' = chr 0x7B" "CHR ''}'' = chr 0x7D"
  by code_simp+

lemma json_member_text:
  assumes "valid_utf8 name" "valid_utf8 v"
  shows "json_member (json_string name @ '':'' @ json_string v @ u) = Some ((name, v), u)"
proof -
  have "json_chars (json_text name @ chr 0x22 # chr 0x3A # json_string v @ u) = Some (name, chr 0x3A # json_string v @ u)"
    using json_chars_text [OF assms(1)] .
  then show ?thesis using json_value_string [OF assms(2), of u]
    by (simp add: json_member_def json_string_def [of name] skip_space_id not_space json_punctuation)
qed

lemma json_members_text:
  assumes "\<forall>(k, v) \<in> set (m # ms). valid_utf8 k \<and> valid_utf8 v"
  shows "json_members (join_with (CHR '','') (map member_text (m # ms)) @ ''}'' @ u) = Some (m # ms, u)"
  using assms
proof (induction ms arbitrary: m)
  case Nil
  show ?case using Nil json_member_text [of "fst m" "snd m" "''}'' @ u"]
    by (subst json_members.simps) (auto simp: member_text_def json_punctuation skip_space_id not_space split: prod.splits)
next
  case (Cons m' ms)
  let ?rest = "join_with (CHR '','') (map member_text (m' # ms)) @ ''}'' @ u"
  have "json_member (member_text m @ chr 0x2C # ?rest) = Some (m, chr 0x2C # ?rest)"
    using Cons.prems json_member_text [of "fst m" "snd m" "chr 0x2C # ?rest"] by (auto simp: member_text_def split: prod.splits)
  moreover have "json_members ?rest = Some (m' # ms, u)" using Cons.IH [of m'] Cons.prems by simp
  moreover have "join_with (CHR '','') (map member_text (m # m' # ms)) @ ''}'' @ u = member_text m @ chr 0x2C # ?rest"
    by (simp add: json_punctuation)
  ultimately show ?case by (subst json_members.simps) (simp add: skip_space_id not_space)
qed

lemma unmarshal_marshal:
  assumes "distinct (map fst m)" "\<forall>(k, v) \<in> set m. valid_utf8 k \<and> valid_utf8 v"
  shows "unmarshal_map (marshal_map m) = Some (map_of m)"
proof -
  let ?s = "sort_key fst m"
  have "distinct (map fst ?s)" using assms(1) by (simp add: distinct_map)
  then have same: "map_of (rev ?s) = map_of m"
    using assms(1) by (intro map_of_inject_set [THEN iffD2]) (simp_all add: rev_map [symmetric])
  show ?thesis
  proof (cases ?s)
    case Nil
    then show ?thesis using same
      by (simp add: unmarshal_map_def marshal_map_def json_punctuation skip_space_id not_space) (simp add: skip_space_def)
  next
    case (Cons x xs)
    define t where "t = join_with (CHR '','') (map member_text (x # xs)) @ ''}''"
    have valid: "\<forall>(k, v) \<in> set (x # xs). valid_utf8 k \<and> valid_utf8 v" using assms(2) Cons [symmetric] by simp
    have whole: "marshal_map m = chr 0x7B # t" by (simp add: marshal_map_def Cons t_def json_punctuation)
    obtain r where r: "t = chr 0x22 # r" by (cases x; cases xs) (auto simp: t_def member_text_def json_string_def)
    have members: "json_members t = Some (x # xs, [])" using json_members_text [OF valid, of "[]"] by (simp add: t_def)
    have "skip_space t = chr 0x22 # r" "skip_space [] = []" using r by (simp_all add: skip_space_id not_space) (simp add: skip_space_def)
    then show ?thesis using same members unfolding Cons whole unmarshal_map_def
      by (simp add: skip_space_id not_space del: rev.simps)
  qed
qed

end
