(* ===== verification/PodLabels.thy ===== *)
theory PodLabels
  imports Json "HOL-Library.Multiset"
begin

text \<open>
  The copy of a Pod's labels on its Port: written by the CNI plugin through \<^verbatim>\<open>internal/podlabels/snapshot.go\<close>, read by the
  membership controller (\<^verbatim>\<open>decodePodLabels\<close>) and by the VM identity check (\<^verbatim>\<open>internal/vmidentity/launcher.go\<close>). The labels
  are a list in the order in which the Go map is traversed.
\<close>

definition MaxLabels :: nat where "MaxLabels = 4096"
definition MaxBytes :: int where "MaxBytes = 128 * 1024"

datatype snapshot_error = TooManyLabels | TooManyBytes | TooManyEncoded

fun label_bytes :: "(string \<times> string) list \<Rightarrow> int \<Rightarrow> snapshot_error + int" where
  "label_bytes [] bytes = Inr bytes"
| "label_bytes ((k, v) # labels) bytes =
     (if MaxBytes - bytes - 6 < int (length k) \<or> MaxBytes - bytes - 6 - int (length k) < int (length v) then Inl TooManyBytes
      else label_bytes labels (bytes + (int (length k) + int (length v) + 6)))"

definition labels_Encode :: "(string \<times> string) list \<Rightarrow> snapshot_error + string" where
  "labels_Encode labels =
     (if MaxLabels < length labels then Inl TooManyLabels
      else if labels = [] then Inr []
      else case label_bytes labels 1 of
        Inl e \<Rightarrow> Inl e
      | Inr _ \<Rightarrow>
          let encoded = marshal_map labels
          in if MaxBytes < int (length encoded) then Inl TooManyEncoded else Inr encoded)"

definition decodePodLabels :: "string \<Rightarrow> (string \<rightharpoonup> string)" where
  "decodePodLabels s =
     (if s = [] then Map.empty
      else case unmarshal_map s of Some m \<Rightarrow> m | None \<Rightarrow> Map.empty)"

definition CreatedByLabel :: string where "CreatedByLabel = ''kubevirt.io/created-by''"

definition SnapshotUID :: "string \<Rightarrow> string" where
  "SnapshotUID raw = (case unmarshal_map raw of None \<Rightarrow> [] | Some labels \<Rightarrow> (case labels CreatedByLabel of Some uid \<Rightarrow> uid | None \<Rightarrow> []))"

section \<open>Sizes\<close>

definition label_weight :: "(string \<times> string) list \<Rightarrow> nat" where
  "label_weight labels = sum_list (map (\<lambda>(k, v). length k + length v + 6) labels)"

lemma label_bytes_fits: "(\<exists>n. label_bytes labels bytes = Inr n) \<longleftrightarrow> labels = [] \<or> bytes + int (label_weight labels) \<le> MaxBytes"
proof (induction labels arbitrary: bytes)
  case (Cons l labels)
  obtain k v where l: "l = (k, v)" by force
  show ?case
  proof (cases "labels = []")
    case True
    then show ?thesis by (auto simp: l label_weight_def)
  next
    case False
    then show ?thesis using Cons.IH [of "bytes + (int (length k) + int (length v) + 6)"] by (auto simp: l label_weight_def)
  qed
qed simp

definition plain :: "string \<Rightarrow> bool" where
  "plain s \<longleftrightarrow> (\<forall>c \<in> set s. octet c < 0x80 \<and> html_safe c)"

lemma plain_text: "plain s \<Longrightarrow> json_text s = s"
  by (induction s) (subst json_text.simps, simp add: plain_def)+

lemma join_length: "length (join_with c (x # xs)) = length x + sum_list (map (\<lambda>y. Suc (length y)) xs)"
  by (induction xs arbitrary: x) simp_all

lemma member_length: "plain k \<Longrightarrow> plain v \<Longrightarrow> length (member_text (k, v)) = length k + length v + 5"
  by (simp add: member_text_def json_string_def plain_text)

lemma plain_marshal_length:
  assumes "\<forall>(k, v) \<in> set labels. plain k \<and> plain v" "labels \<noteq> []"
  shows "length (marshal_map labels) = 1 + label_weight labels"
proof -
  let ?s = "sort_key fst labels"
  have step: "sum_list (map (\<lambda>l. Suc (length (member_text l))) xs) = label_weight xs" if "\<forall>(k, v) \<in> set xs. plain k \<and> plain v" for xs
    using that by (induction xs) (auto simp: label_weight_def member_length)
  have "label_weight ?s = label_weight labels"
    unfolding label_weight_def using mset_sort [of fst labels] by (metis (no_types) mset_map sum_mset_sum_list)
  moreover have plain: "\<forall>(k, v) \<in> set ?s. plain k \<and> plain v" using assms(1) by simp
  moreover obtain x xs where "?s = x # xs" using assms(2) by (cases ?s) (auto dest: arg_cong [of _ _ length])
  ultimately show ?thesis using step [OF plain] by (simp add: marshal_map_def join_length comp_def)
qed

section \<open>Properties\<close>

text \<open>
  (C38) The label snapshot is exact. Whatever \<^verbatim>\<open>Encode\<close> writes for the labels of a Pod, the membership controller decodes to
  the same labels, and it fits the 128 KiB limit; no label is ever lost by truncation. For labels that need no escaping (as
  every valid Kubernetes label) an encoding exists iff there are at most 4096 labels and the sum of their sizes, with
  quotes, colon and comma, fits.
\<close>

theorem label_snapshot_exact:
  assumes "distinct (map fst labels)" and "\<forall>(k, v) \<in> set labels. valid_utf8 k \<and> valid_utf8 v"
  shows "(labels_Encode labels = Inr s \<longrightarrow> decodePodLabels s = map_of labels \<and> length s \<le> 131072) \<and>
    ((\<forall>(k, v) \<in> set labels. \<forall>c \<in> set (k @ v). octet c < 0x80 \<and> html_safe c) \<longrightarrow>
      (\<exists>t. labels_Encode labels = Inr t) = (length labels \<le> 4096 \<and> sum_list (map (\<lambda>(k, v). length k + length v + 6) labels) \<le> 131071))"
proof (intro conjI impI)
  assume "labels_Encode labels = Inr s"
  then consider "labels = []" "s = []" | "s = marshal_map labels" "int (length s) \<le> MaxBytes"
    by (auto simp: labels_Encode_def Let_def split: if_splits sum.splits)
  then show "decodePodLabels s = map_of labels" "length s \<le> 131072"
    using unmarshal_marshal [OF assms] by (cases; simp add: decodePodLabels_def MaxBytes_def marshal_map_def)+
next
  assume "\<forall>(k, v) \<in> set labels. \<forall>c \<in> set (k @ v). octet c < 0x80 \<and> html_safe c"
  then have plain: "\<forall>(k, v) \<in> set labels. plain k \<and> plain v" by (auto simp: plain_def)
  show "(\<exists>t. labels_Encode labels = Inr t) = (length labels \<le> 4096 \<and> sum_list (map (\<lambda>(k, v). length k + length v + 6) labels) \<le> 131071)"
  proof (cases "labels = []")
    case False
    then have "labels_Encode labels = (if 4096 < length labels then Inl TooManyLabels else case label_bytes labels 1 of Inl e \<Rightarrow> Inl e
        | Inr _ \<Rightarrow> if 131072 < 1 + int (label_weight labels) then Inl TooManyEncoded else Inr (marshal_map labels))"
      using plain_marshal_length [OF plain] by (auto simp: labels_Encode_def MaxLabels_def MaxBytes_def Let_def split: sum.splits)
    then show ?thesis using label_bytes_fits [of labels 1] False
      unfolding label_weight_def [symmetric] by (auto simp: MaxBytes_def split: sum.splits)
  qed (simp add: labels_Encode_def MaxLabels_def)
qed

theorem label_snapshot_exact_witness:
  "\<exists>t. labels_Encode [(''app'', ''web'')] = Inr t \<and> decodePodLabels t ''app'' = Some ''web'' \<and> length t \<le> 131072"
proof -
  have plain: "valid_utf8 ''app''" "valid_utf8 ''web''" by code_simp+
  have "\<forall>c \<in> set (''app'' @ ''web''). octet c < 0x80 \<and> html_safe c" by code_simp
  then obtain t where t: "labels_Encode [(''app'', ''web'')] = Inr t"
    using label_snapshot_exact [of "[(''app'', ''web'')]" undefined] plain by auto
  then show ?thesis using label_snapshot_exact [of "[(''app'', ''web'')]" t] plain by auto
qed

end
