(* ===== verification/CoreObjects.thy ===== *)
theory CoreObjects
  imports ApiTypes
begin

text \<open>The fields the controllers read of Kubernetes' own Pods and DaemonSets.\<close>

record OwnerReference =
  or_APIVersion :: string
  or_Kind :: string
  or_Name :: string
  or_UID :: string
  or_Controller :: "bool option"
  or_BlockOwnerDeletion :: "bool option"

record Pod =
  pod_meta :: ObjectMeta
  pod_Owners :: "OwnerReference list"
  pod_NodeName :: string
  pod_Phase :: string
  pod_Conditions :: "(string \<times> string) list"

record DaemonSet =
  ds_UID :: string
  ds_Selector :: LabelSelector
  ds_DesiredNumberScheduled :: int

end
