(* ===== verification/PortMembership.thy ===== *)
theory PortMembership
  imports SgController PodLabels CoreObjects
begin

text \<open>
  Which groups a Port is in: \<^verbatim>\<open>PortMembershipReconciler\<close> of \<^verbatim>\<open>internal/controller/sdn/securitygroup_controller.go\<close>. It matches
  the selectors of the VPC's groups with the labels of the live Pod, or with the snapshot when there is none, and writes
  the numbers and UIDs into the Port's status, which the agent turns into the membership bitmap.
\<close>

section \<open>The reconciler\<close>

definition LabelPodNamespace :: string where "LabelPodNamespace = ''sdn.cozystack.io/pod-namespace''"
definition LabelPodName :: string where "LabelPodName = ''sdn.cozystack.io/pod-name''"
definition AnnotationPodLabels :: string where "AnnotationPodLabels = ''sdn.cozystack.io/pod-labels''"
definition membershipWorkLimit :: nat where "membershipWorkLimit = 65536"

text \<open>Lists by an index of the cache take the value of the index.\<close>

record 'w member_api =
  ma_ctx :: "('w, unit) api_call"
  ma_port :: "object_key \<Rightarrow> ('w, Port) api_call"
  ma_pod :: "object_key \<Rightarrow> ('w, Pod) api_call"
  ma_groups :: "string \<Rightarrow> ('w, SecurityGroup list) api_call"
  ma_vpc_ports :: "string \<Rightarrow> ('w, Port list) api_call"
  ma_pod_ports :: "string \<Rightarrow> ('w, Port list) api_call"
  ma_update_status :: "Port \<Rightarrow> ('w, unit) api_call"

definition membershipVPCKeys :: "machinery \<Rightarrow> string \<Rightarrow> string \<Rightarrow> string list" where
  "membershipVPCKeys k namespace name =
     (if \<not> NamespaceName k namespace \<or> \<not> ObjectName k name then [] else [namespace @ ''/'' @ name])"

definition port_vpc_keys :: "machinery \<Rightarrow> Port \<Rightarrow> string list" where
  "port_vpc_keys k port = membershipVPCKeys k (vr_Namespace (pts_VPCRef (port_Spec port))) (vr_Name (pts_VPCRef (port_Spec port)))"

definition sg_vpc_keys :: "machinery \<Rightarrow> SecurityGroup \<Rightarrow> string list" where
  "sg_vpc_keys k g = membershipVPCKeys k (om_Namespace (sgo_meta g)) (lvr_Name (sgs_VPCRef (sgo_Spec g)))"

definition membershipPodKeys :: "ObjectMeta \<Rightarrow> string list" where
  "membershipPodKeys m =
     (let ns = label m LabelPodNamespace; name = label m LabelPodName
      in if ns = [] \<or> name = [] then [] else [ns @ ''/'' @ name])"

fun values_work :: "(string \<times> string \<times> string list) list \<Rightarrow> nat \<Rightarrow> nat option" where
  "values_work [] work = Some work"
| "values_work ((_, _, vs) # es) work =
     (let work = work + length vs in if membershipWorkLimit < work then None else values_work es work)"

definition selector_work :: "SecurityGroup \<Rightarrow> nat \<Rightarrow> nat option" where
  "selector_work g work =
     (if om_Deleting (sgo_meta g) then Some work
      else let s = sgs_PodSelector (sgo_Spec g); work = work + (length (ls_MatchLabels s) + length (ls_MatchExpressions s))
      in if membershipWorkLimit < work then None else values_work (ls_MatchExpressions s) work)"

fun input_work :: "('w, unit) api_call \<Rightarrow> SecurityGroup list \<Rightarrow> nat \<Rightarrow> ('w, unit) api_call" where
  "input_work ctx [] work = ctx"
| "input_work ctx (g # gs) work = andThen ctx (\<lambda>_.
     case selector_work g work of None \<Rightarrow> fail MembershipBudget | Some work \<Rightarrow> input_work ctx gs work)"

definition membershipInputWork :: "('w, unit) api_call \<Rightarrow> SecurityGroup list \<Rightarrow> ('w, unit) api_call" where
  "membershipInputWork ctx groups =
     (if membershipWorkLimit < length groups then fail MembershipBudget else input_work ctx groups (length groups))"

definition podLabelsFor :: "'w member_api \<Rightarrow> Port \<Rightarrow> ('w, string \<rightharpoonup> string) api_call" where
  "podLabelsFor api port =
     (let ns = label (port_meta port) LabelPodNamespace; name = label (port_meta port) LabelPodName; uid = label (port_meta port) LabelPodUID;
          snapshot = decodePodLabels (annotation (port_meta port) AnnotationPodLabels)
      in if ns \<noteq> [] \<and> name \<noteq> [] \<and> uid \<noteq> []
         then handle (ma_pod api (ns, name)) (\<lambda>r. case r of
             Inr pod \<Rightarrow> if \<not> om_Deleting (pod_meta pod) \<and> om_UID (pod_meta pod) = uid then give (om_Labels (pod_meta pod)) else give snapshot
           | Inl _ \<Rightarrow> give snapshot)
         else give snapshot)"

text \<open>The groups to evaluate, or None when the input is refused (\<^verbatim>\<open>inputErr\<close>) and membership is guarded.\<close>

definition member_groups :: "machinery \<Rightarrow> 'w member_api \<Rightarrow> Port \<Rightarrow> ('w, SecurityGroup list option) api_call" where
  "member_groups k api port = (case port_vpc_keys k port of
     [] \<Rightarrow> give None
   | vk # _ \<Rightarrow> andThen (ma_groups api vk) (\<lambda>groups.
       handle (membershipInputWork (ma_ctx api) groups) (\<lambda>r. case r of Inl _ \<Rightarrow> give None | Inr _ \<Rightarrow> give (Some groups))))"

definition same_vpc :: "Port \<Rightarrow> SecurityGroup \<Rightarrow> bool" where
  "same_vpc port g \<longleftrightarrow> lvr_Name (sgs_VPCRef (sgo_Spec g)) = vr_Name (pts_VPCRef (port_Spec port))"

definition select_group :: "sg_index \<Rightarrow> Port \<Rightarrow> SecurityGroup \<Rightarrow> u64 \<times> SecurityGroupMembership list \<Rightarrow> u64 \<times> SecurityGroupMembership list" where
  "select_group idx port g = (\<lambda>(selected, refs).
     let n = sgst_ID (sgo_Status g); uid = om_UID (sgo_meta g)
     in if n \<le> 0 \<or> MaxSecurityGroupsPerVPC \<le> n \<or> uid = [] \<or> index_get idx (pts_VPCRef (port_Spec port)) n \<noteq> uid
        then (selected OR 1, refs)
        else (selected OR push_bit (nat n) 1, refs @ [\<lparr> sgm_ID = n, sgm_UID = uid \<rparr>]))"

fun select_groups :: "machinery \<Rightarrow> ('w, unit) api_call \<Rightarrow> sg_index \<Rightarrow> Port \<Rightarrow> (string \<rightharpoonup> string) \<Rightarrow> SecurityGroup list \<Rightarrow>
    u64 \<times> SecurityGroupMembership list \<Rightarrow> ('w, (u64 \<times> SecurityGroupMembership list) option) api_call" where
  "select_groups k ctx idx port labels [] acc = give (Some acc)"
| "select_groups k ctx idx port labels (g # gs) acc = andThen ctx (\<lambda>_.
     if \<not> same_vpc port g \<or> om_Deleting (sgo_meta g) then select_groups k ctx idx port labels gs acc
     else case LabelSelectorAsSelector k (sgs_PodSelector (sgo_Spec g)) of
       None \<Rightarrow> give None
     | Some matches \<Rightarrow> select_groups k ctx idx port labels gs (if matches labels then select_group idx port g acc else acc))"

definition membership :: "machinery \<Rightarrow> 'w member_api \<Rightarrow> Port \<Rightarrow> (string \<rightharpoonup> string) \<Rightarrow> SecurityGroup list option \<Rightarrow> ('w, u64 \<times> SecurityGroupMembership list) api_call" where
  "membership k api port labels groups = andThen (ma_ctx api) (\<lambda>_. case groups of
     None \<Rightarrow> give (1, [])
   | Some gs \<Rightarrow> andThen (select_groups k (ma_ctx api) (NewIndex k (filter (same_vpc port) gs)) port labels gs (0, []))
       (\<lambda>r. case r of None \<Rightarrow> give (1, []) | Some acc \<Rightarrow> give acc))"

definition member_status :: "Port \<Rightarrow> u64 \<times> SecurityGroupMembership list \<Rightarrow> PortStatus" where
  "member_status port = (\<lambda>(selected, refs).
     \<lparr> ptst_Groups = filter (\<lambda>n. selected AND push_bit (nat n) 1 \<noteq> 0) [0..MaxSecurityGroupsPerVPC - 1],
       ptst_GroupRefs = sort_key sgm_ID refs, ptst_GroupPodUID = label (port_meta port) LabelPodUID \<rparr>)"

definition port_Reconcile :: "machinery \<Rightarrow> 'w member_api \<Rightarrow> object_key \<Rightarrow> ('w, ctrl_result) api_call" where
  "port_Reconcile k api req = handle (ma_port api req) (\<lambda>r. case r of
     Inl e \<Rightarrow> if e = NotFound then give Done else fail e
   | Inr port \<Rightarrow>
       if om_Deleting (port_meta port) then give Done
       else andThen (podLabelsFor api port) (\<lambda>labels. andThen (member_groups k api port) (\<lambda>groups.
         andThen (membership k api port labels groups) (\<lambda>acc.
           let status = member_status port acc
           in if port_Status port = status then give Done
              else handle (ma_update_status api (port \<lparr> port_Status := status \<rparr>)) (\<lambda>u. case u of
                  Inl e \<Rightarrow> if e = WriteConflict then give Requeue else fail e
                | Inr _ \<Rightarrow> give Done)))))"

section \<open>Triggers\<close>

text \<open>The Ports to reconcile when a group or a Pod changes; a failed list enqueues nothing.\<close>

definition mapSGToPorts :: "machinery \<Rightarrow> 'w member_api \<Rightarrow> SecurityGroup \<Rightarrow> ('w, object_key list) api_call" where
  "mapSGToPorts k api sg = (case sg_vpc_keys k sg of
     [] \<Rightarrow> give []
   | vk # _ \<Rightarrow> handle (ma_vpc_ports api vk) (\<lambda>r. case r of
       Inl _ \<Rightarrow> give []
     | Inr ports \<Rightarrow> give (map (\<lambda>p. ([], om_Name (port_meta p)))
         (filter (\<lambda>p. vr_Namespace (pts_VPCRef (port_Spec p)) = om_Namespace (sgo_meta sg) \<and>
           vr_Name (pts_VPCRef (port_Spec p)) = lvr_Name (sgs_VPCRef (sgo_Spec sg))) ports))))"

definition mapPodToPorts :: "'w member_api \<Rightarrow> Pod \<Rightarrow> ('w, object_key list) api_call" where
  "mapPodToPorts api pod = handle (ma_pod_ports api (om_Namespace (pod_meta pod) @ ''/'' @ om_Name (pod_meta pod))) (\<lambda>r. case r of
     Inl _ \<Rightarrow> give []
   | Inr ports \<Rightarrow> give (map (\<lambda>p. ([], om_Name (port_meta p))) ports))"

end
