(* ===== verification/MembershipExact.thy ===== *)
theory MembershipExact
  imports PortMembership SgPolicy
begin

text \<open>
  From labels to the wire: the status that the membership controller writes and the bitmap that the agent computes from it
  give a Port exactly the groups whose selectors match the labels of its Pod.
\<close>

section \<open>The selected groups\<close>

definition live_group :: "Port \<Rightarrow> SecurityGroup \<Rightarrow> bool" where
  "live_group port g \<longleftrightarrow> same_vpc port g \<and> \<not> om_Deleting (sgo_meta g)"

definition picks :: "machinery \<Rightarrow> (string \<rightharpoonup> string) \<Rightarrow> SecurityGroup \<Rightarrow> bool" where
  "picks k labels g \<longleftrightarrow> (\<exists>m. LabelSelectorAsSelector k (sgs_PodSelector (sgo_Spec g)) = Some m \<and> m labels)"

definition resolved :: "sg_index \<Rightarrow> Port \<Rightarrow> SecurityGroup \<Rightarrow> bool" where
  "resolved idx port g \<longleftrightarrow> 0 < sgst_ID (sgo_Status g) \<and> sgst_ID (sgo_Status g) < 63 \<and> om_UID (sgo_meta g) \<noteq> [] \<and>
     index_get idx (pts_VPCRef (port_Spec port)) (sgst_ID (sgo_Status g)) = om_UID (sgo_meta g)"

definition group_ref :: "SecurityGroup \<Rightarrow> SecurityGroupMembership" where
  "group_ref g = \<lparr> sgm_ID = sgst_ID (sgo_Status g), sgm_UID = om_UID (sgo_meta g) \<rparr>"

definition selection :: "machinery \<Rightarrow> sg_index \<Rightarrow> Port \<Rightarrow> (string \<rightharpoonup> string) \<Rightarrow> SecurityGroup list \<Rightarrow> u64 \<times> SecurityGroupMembership list" where
  "selection k idx port labels gs = fold (select_group idx port) (filter (\<lambda>g. live_group port g \<and> picks k labels g) gs) (0, [])"

lemma select_group_resolved:
  "select_group idx port g (sel, refs) =
     (if resolved idx port g then (sel OR push_bit (nat (sgst_ID (sgo_Status g))) 1, refs @ [group_ref g]) else (sel OR 1, refs))"
  by (auto simp: select_group_def resolved_def group_ref_def Let_def MaxSecurityGroupsPerVPC_def)

lemma fold_select_refs: "snd (fold (select_group idx port) gs (sel, refs)) = refs @ map group_ref (filter (resolved idx port) gs)"
  by (induction gs arbitrary: sel refs) (simp_all add: select_group_resolved)

lemma fold_select_bits:
  "bit (fst (fold (select_group idx port) gs (sel, refs))) i \<longleftrightarrow> bit sel i \<or>
     (\<exists>g \<in> set gs. if resolved idx port g then i = nat (sgst_ID (sgo_Status g)) else i = 0)"
proof (induction gs arbitrary: sel refs)
  case (Cons g gs)
  have "nat (sgst_ID (sgo_Status g)) < 64" if "resolved idx port g" using that by (auto simp: resolved_def)
  then show ?case using Cons by (auto simp: select_group_resolved bit_simps)
qed simp

text \<open>The loop over the groups computes the selection, unless a selector is malformed.\<close>

definition bad_selector :: "machinery \<Rightarrow> Port \<Rightarrow> SecurityGroup \<Rightarrow> bool" where
  "bad_selector k port g \<longleftrightarrow> live_group port g \<and> LabelSelectorAsSelector k (sgs_PodSelector (sgo_Spec g)) = None"

lemma select_groups_result:
  assumes "select_groups k ctx idx port labels gs acc w = (Inr r, w')"
  shows "r = (if \<exists>g \<in> set gs. bad_selector k port g then None
    else Some (fold (select_group idx port) (filter (\<lambda>g. live_group port g \<and> picks k labels g) gs) acc))"
  using assms
proof (induction gs arbitrary: acc w)
  case (Cons g gs)
  obtain v where v: "ctx w = (Inr (), v)" using Cons.prems by (auto simp: call_ok)
  consider (other) "\<not> live_group port g" | (bad) "bad_selector k port g"
    | (good) m where "live_group port g" "LabelSelectorAsSelector k (sgs_PodSelector (sgo_Spec g)) = Some m"
    by (cases "LabelSelectorAsSelector k (sgs_PodSelector (sgo_Spec g))") (auto simp: bad_selector_def)
  then show ?case
  proof cases
    case other
    then have "select_groups k ctx idx port labels gs acc v = (Inr r, w')"
      using Cons.prems v by (simp add: andThen_def live_group_def)
    from Cons.IH [OF this] show ?thesis using other by (simp add: bad_selector_def)
  next
    case bad
    then show ?thesis using Cons.prems v by (auto simp: andThen_def bad_selector_def live_group_def call_ok)
  next
    case good
    then have "select_groups k ctx idx port labels gs (if m labels then select_group idx port g acc else acc) v = (Inr r, w')"
      using Cons.prems v by (simp add: andThen_def live_group_def)
    from Cons.IH [OF this] show ?thesis using good by (simp add: bad_selector_def picks_def)
  qed
qed (simp add: call_ok)

section \<open>One snapshot\<close>

lemma key_namespace:
  assumes "port_vpc_keys k port = [vk]" "vk \<in> set (sg_vpc_keys k g)" "same_vpc port g"
  shows "sg_LocalRef g = pts_VPCRef (port_Spec port) \<and> NamespaceName k (om_Namespace (sgo_meta g)) \<and> ObjectName k (lvr_Name (sgs_VPCRef (sgo_Spec g)))"
  using assms by (auto simp: port_vpc_keys_def sg_vpc_keys_def membershipVPCKeys_def same_vpc_def sg_LocalRef_def split: if_splits)

lemma wire_groups_mset: "mset gs = mset hs \<Longrightarrow> mset (wire_groups k gs ref n) = mset (wire_groups k hs ref n)"
  by (simp add: wire_groups_def)

lemma wire_groups_single: "mset gs = mset hs \<Longrightarrow> wire_groups k gs ref n = [g] \<Longrightarrow> wire_groups k hs ref n = [g]"
  using wire_groups_mset [of gs hs k ref n] by (metis mset_single_iff_right)

text \<open>A controller and an agent that see the same groups, in any order.\<close>

definition same_groups :: "machinery \<Rightarrow> Port \<Rightarrow> SecurityGroup list \<Rightarrow> SecurityGroup list \<Rightarrow> bool" where
  "same_groups k port gs snap \<longleftrightarrow>
     (\<exists>vk. port_vpc_keys k port = [vk] \<and> mset gs = mset (filter (\<lambda>g. vk \<in> set (sg_vpc_keys k g)) snap))"

abbreviation port_index :: "machinery \<Rightarrow> Port \<Rightarrow> SecurityGroup list \<Rightarrow> sg_index" where
  "port_index k port gs \<equiv> NewIndex k (filter (same_vpc port) gs)"

abbreviation port_vpc :: "Port \<Rightarrow> VPCRef" where
  "port_vpc port \<equiv> pts_VPCRef (port_Spec port)"

lemma listed_current:
  assumes "same_groups k port gs snap" "g \<in> set gs" "live_group port g" "0 < sgst_ID (sgo_Status g)" "sgst_ID (sgo_Status g) < 63"
  shows "g \<in> set snap \<and> sg_current k g \<and> sg_LocalRef g = port_vpc port"
proof -
  obtain vk where vk: "port_vpc_keys k port = [vk]" "mset gs = mset (filter (\<lambda>g. vk \<in> set (sg_vpc_keys k g)) snap)"
    using assms(1) by (auto simp: same_groups_def)
  then have "g \<in> set snap" "vk \<in> set (sg_vpc_keys k g)" using assms(2) mset_eq_setD [OF vk(2)] by auto
  then show ?thesis using key_namespace [OF vk(1), of g] assms(3-5)
    by (auto simp: sg_current_def live_group_def MaxSecurityGroupsPerVPC_def)
qed

text \<open>Both indexes name the same groups of the VPC.\<close>

lemma same_wire:
  assumes "same_groups k port gs snap"
  shows "wire_groups k (filter (same_vpc port) gs) (port_vpc port) n = [g] \<longleftrightarrow> wire_groups k snap (port_vpc port) n = [g]"
proof -
  obtain vk where vk: "port_vpc_keys k port = [vk]" "mset gs = mset (filter (\<lambda>g. vk \<in> set (sg_vpc_keys k g)) snap)"
    using assms by (auto simp: same_groups_def)
  have "vk \<in> set (sg_vpc_keys k g) \<and> same_vpc port g" if "sg_current k g" "sg_LocalRef g = port_vpc port" for g
    using that(1) vk(1) unfolding port_vpc_keys_def that(2) [symmetric]
    by (auto simp: sg_vpc_keys_def membershipVPCKeys_def sg_current_def sg_LocalRef_def same_vpc_def that(2) [symmetric])
  then have "wire_groups k snap (port_vpc port) n =
      wire_groups k (filter (same_vpc port) (filter (\<lambda>g. vk \<in> set (sg_vpc_keys k g)) snap)) (port_vpc port) n"
    unfolding wire_groups_def filter_filter by (intro filter_cong) auto
  then have "mset (wire_groups k (filter (same_vpc port) gs) (port_vpc port) n) = mset (wire_groups k snap (port_vpc port) n)"
    using wire_groups_mset [of "filter (same_vpc port) gs" "filter (same_vpc port) (filter (\<lambda>g. vk \<in> set (sg_vpc_keys k g)) snap)"] vk(2)
    by (metis mset_filter)
  then show ?thesis by (metis mset.simps mset_single_iff_right)
qed

lemma index_agrees:
  assumes "same_groups k port gs snap" "uid \<noteq> []"
  shows "index_get (port_index k port gs) (port_vpc port) n = uid \<longleftrightarrow> index_get (NewIndex k snap) (port_vpc port) n = uid"
  unfolding index_get_proves [OF assms(2)] same_wire [OF assms(1)] ..

text \<open>A group resolves iff it is the only current group of its VPC with its number, and it has a UID.\<close>

lemma resolved_unique:
  assumes "same_groups k port gs snap" "g \<in> set gs" "live_group port g"
  shows "resolved (port_index k port gs) port g \<longleftrightarrow> 0 < sgst_ID (sgo_Status g) \<and> sgst_ID (sgo_Status g) < 63 \<and> om_UID (sgo_meta g) \<noteq> [] \<and>
    wire_groups k snap (port_vpc port) (sgst_ID (sgo_Status g)) = [g]"
proof (cases "0 < sgst_ID (sgo_Status g) \<and> sgst_ID (sgo_Status g) < 63 \<and> om_UID (sgo_meta g) \<noteq> []")
  case True
  let ?n = "sgst_ID (sgo_Status g)"
  have mem: "g \<in> set (wire_groups k snap (port_vpc port) ?n)" using listed_current [OF assms] True by (simp add: wire_groups_def)
  have "resolved (port_index k port gs) port g \<longleftrightarrow> index_get (port_index k port gs) (port_vpc port) ?n = om_UID (sgo_meta g)"
    using True by (simp add: resolved_def)
  also have "\<dots> \<longleftrightarrow> (\<exists>h. wire_groups k snap (port_vpc port) ?n = [h] \<and> om_UID (sgo_meta h) = om_UID (sgo_meta g))"
    using index_get_proves [of "om_UID (sgo_meta g)"] True same_wire [OF assms(1)] by simp
  also have "\<dots> \<longleftrightarrow> wire_groups k snap (port_vpc port) ?n = [g]" using mem by auto
  finally show ?thesis using True by simp
qed (auto simp: resolved_def)

section \<open>The bitmap of the written status\<close>

abbreviation chosen :: "machinery \<Rightarrow> Port \<Rightarrow> (string \<rightharpoonup> string) \<Rightarrow> SecurityGroup list \<Rightarrow> SecurityGroup list" where
  "chosen k port labels gs \<equiv> filter (\<lambda>g. live_group port g \<and> picks k labels g) gs"

lemma refs_at:
  assumes "same_groups k port gs snap" "g \<in> set (chosen k port labels gs)" "resolved (port_index k port gs) port g"
  shows "port_refs (map group_ref (filter (resolved (port_index k port gs) port) (chosen k port labels gs))) (sgst_ID (sgo_Status g)) = [group_ref g]"
proof -
  let ?n = "sgst_ID (sgo_Status g)" and ?r = "resolved (port_index k port gs) port"
  let ?Q = "\<lambda>h. live_group port h \<and> picks k labels h \<and> ?r h \<and> sgst_ID (sgo_Status h) = ?n"
  let ?W = "\<lambda>h. same_vpc port h \<and> sg_current k h \<and> sg_LocalRef h = port_vpc port \<and> sgst_ID (sgo_Status h) = ?n"
  have one: "filter ?W gs = [g]"
  proof -
    have g: "g \<in> set gs" "live_group port g" using assms(2) by simp_all
    then have "wire_groups k (filter (same_vpc port) gs) (port_vpc port) ?n = [g]"
      using resolved_unique [OF assms(1) g] assms(3) same_wire [OF assms(1), of ?n g] by blast
    then show ?thesis unfolding wire_groups_def filter_filter .
  qed
  have "?W h" if "h \<in> set gs" "?Q h" for h
    using listed_current [OF assms(1) that(1)] that(2) unfolding resolved_def live_group_def by blast
  then have "filter ?Q gs = filter ?Q (filter ?W gs)" unfolding filter_filter by (intro filter_cong refl) blast
  also have "\<dots> = [g]" unfolding one using assms(2,3) by simp
  finally have "filter ?Q gs = [g]" .
  moreover have "filter (\<lambda>h. sgst_ID (sgo_Status h) = ?n) (filter ?r (chosen k port labels gs)) = filter ?Q gs"
    unfolding filter_filter by (rule filter_cong [OF refl]) blast
  ultimately show ?thesis unfolding port_refs_def filter_map by (simp add: comp_def group_ref_def del: filter_filter)
qed

lemma distinct_ids: "(\<And>n. length (filter (\<lambda>r. f r = n) xs) \<le> 1) \<Longrightarrow> distinct (map f xs)"
proof (induction xs)
  case (Cons x xs)
  have "length (filter (\<lambda>r. f r = n) xs) \<le> 1" for n using Cons.prems [of n] by (auto split: if_splits)
  moreover have "f x \<notin> f ` set xs" using Cons.prems [of "f x"] by (auto simp: filter_empty_conv)
  ultimately show ?case using Cons.IH by simp
qed simp

lemma refs_few:
  assumes "same_groups k port gs snap"
  shows "length (filter (resolved (port_index k port gs) port) (chosen k port labels gs)) < 63"
proof -
  let ?xs = "filter (resolved (port_index k port gs) port) (chosen k port labels gs)" and ?f = "\<lambda>g. sgst_ID (sgo_Status g)"
  have "length (filter (\<lambda>g. ?f g = n) ?xs) \<le> 1" for n
  proof (cases "\<exists>g \<in> set ?xs. ?f g = n")
    case True
    then obtain g where g: "g \<in> set ?xs" "?f g = n" by blast
    have "length (port_refs (map group_ref ?xs) n) = 1" using refs_at [OF assms, of g labels] g by auto
    then show ?thesis by (simp add: port_refs_def filter_map comp_def group_ref_def)
  next
    case False
    then have "filter (\<lambda>g. ?f g = n) ?xs = []" by (simp add: filter_empty_conv)
    then show ?thesis by simp
  qed
  then have "distinct (map ?f ?xs)" by (rule distinct_ids)
  moreover have "set (map ?f ?xs) \<subseteq> {1..62}" by (auto simp: resolved_def)
  ultimately have "length (map ?f ?xs) \<le> card {1..62::int}"
    using card_mono [of "{1..62::int}" "set (map ?f ?xs)"] distinct_card [of "map ?f ?xs"] by (simp only: finite_atLeastAtMost_int)
  then show ?thesis by simp
qed

lemma selection_bits:
  assumes "same_groups k port gs snap"
  shows "bit (fst (selection k (port_index k port gs) port labels gs)) i \<longleftrightarrow>
    (\<exists>g \<in> set (chosen k port labels gs). if resolved (port_index k port gs) port g then i = nat (sgst_ID (sgo_Status g)) else i = 0)"
  unfolding selection_def fold_select_bits by simp

lemma selection_refs:
  "snd (selection k idx port labels gs) = map group_ref (filter (resolved idx port) (chosen k port labels gs))"
  unfolding selection_def fold_select_refs by simp

lemma selection_group:
  assumes "same_groups k port gs snap" "bit (fst (selection k (port_index k port gs) port labels gs)) (Suc j)"
  shows "Suc j < 63 \<and> (\<exists>g \<in> set (chosen k port labels gs). resolved (port_index k port gs) port g \<and> sgst_ID (sgo_Status g) = int (Suc j))"
proof -
  obtain g where g: "g \<in> set (chosen k port labels gs)" "resolved (port_index k port gs) port g" "Suc j = nat (sgst_ID (sgo_Status g))"
    using assms(2) unfolding selection_bits [OF assms(1)] by (metis nat.distinct(1))
  then have "sgst_ID (sgo_Status g) = int (Suc j)" "sgst_ID (sgo_Status g) < 63" by (auto simp: resolved_def)
  then show ?thesis using g by auto
qed

lemma selection_proved:
  assumes "same_groups k port gs snap" "bit (fst (selection k (port_index k port gs) port labels gs)) (Suc j)"
  shows "bit (fst (fold (prove_ref (NewIndex k snap) (port_vpc port)) (sort_key sgm_ID (snd (selection k (port_index k port gs) port labels gs))) (0, 0))) (Suc j)"
proof -
  let ?idx = "port_index k port gs"
  obtain g where g: "g \<in> set (chosen k port labels gs)" "resolved ?idx port g" "sgst_ID (sgo_Status g) = int (Suc j)" and j: "Suc j < 63"
    using selection_group [OF assms] by blast
  have "port_refs (sort_key sgm_ID (snd (selection k ?idx port labels gs))) (int (Suc j)) = [group_ref g]"
    using refs_at [OF assms(1) g(1,2)] g(3) unfolding selection_refs by (simp add: port_refs_def sort_key_stable)
  moreover have "sgm_UID (group_ref g) \<noteq> []" "index_get (NewIndex k snap) (port_vpc port) (int (Suc j)) = sgm_UID (group_ref g)"
    using g(2,3) index_agrees [OF assms(1), of "om_UID (sgo_meta g)" "int (Suc j)"] by (auto simp: resolved_def group_ref_def)
  ultimately show ?thesis unfolding prove_refs [THEN conjunct2] using j by blast
qed

text \<open>The agent's bitmap of the status that the controller writes is the set that the controller selected.\<close>

lemma Bitmap_selection:
  fixes k port gs labels
  defines "acc \<equiv> selection k (port_index k port gs) port labels gs"
  assumes "same_groups k port gs snap"
  shows "index_Bitmap (NewIndex k snap) (port \<lparr> port_Status := member_status port acc \<rparr>) = fst acc"
proof -
  define sel where "sel = fst acc"
  define ids where "ids = ptst_Groups (member_status port acc)"
  define P where "P = (\<lambda>n. 0 < n \<and> n < 63 \<and>
    bit (fst (fold (prove_ref (NewIndex k snap) (port_vpc port)) (sort_key sgm_ID (snd acc)) (0, 0))) (nat n))"
  have ids: "n \<in> set ids \<longleftrightarrow> 0 \<le> n \<and> n < 63 \<and> bit sel (nat n)" for n
    by (auto simp: ids_def member_status_def sel_def MaxSecurityGroupsPerVPC_def and_exp_eq_0_iff_not_bit split: prod.splits)
  have high: "i < 63" if "bit sel i" for i
    using that selection_group [OF assms(2)] unfolding sel_def acc_def by (cases i) auto
  have P: "P n" if "n \<in> set ids" "0 < n" for n
    using that ids selection_proved [OF assms(2), of labels "nat n - 1"] by (auto simp: P_def sel_def acc_def)
  have "bit (group_union P ids) i \<longleftrightarrow> bit sel i" for i
  proof (cases i)
    case 0
    have "bit (group_union P ids) 0 \<longleftrightarrow> (\<exists>n \<in> set ids. \<not> P n)" unfolding bit_group_union by (auto simp: P_def)
    also have "\<dots> \<longleftrightarrow> 0 \<in> set ids" using P ids by (metis P_def less_irrefl order_le_less)
    finally show ?thesis using 0 ids by simp
  next
    case (Suc j)
    have "bit (group_union P ids) (Suc j) \<longleftrightarrow> int (Suc j) \<in> set ids \<and> P (int (Suc j))" by (rule bit_group_union_Suc) (simp add: P_def)
    then show ?thesis using Suc ids [of "int (Suc j)"] high [of i] P [of "int (Suc j)"] by (auto simp del: of_nat_Suc)
  qed
  then have union: "group_union P ids = sel" by (simp add: bit_eq_iff)
  have short: "length ids \<le> 63" unfolding ids_def member_status_def
    by (auto simp: MaxSecurityGroupsPerVPC_def split: prod.splits intro: order.trans [OF length_filter_le])
  have refs: "length (snd acc) < 63" unfolding acc_def selection_refs using refs_few [OF assms(2)] by simp
  have fields: "ptst_GroupRefs (member_status port acc) = sort_key sgm_ID (snd acc)"
    "ptst_GroupPodUID (member_status port acc) = label (port_meta port) LabelPodUID"
    by (simp_all add: member_status_def split: prod.splits)
  have "ids = [] \<Longrightarrow> sel = 0" using union by (simp add: group_union_def)
  then show ?thesis using Bitmap_unfold [of "NewIndex k snap" "port \<lparr> port_Status := member_status port acc \<rparr>"] short refs union
    by (simp add: fields ids_def [symmetric] P_def [symmetric] sel_def [symmetric])
qed

section \<open>The input budget\<close>

definition group_work :: "SecurityGroup \<Rightarrow> nat" where
  "group_work g = (if om_Deleting (sgo_meta g) then 0 else let s = sgs_PodSelector (sgo_Spec g) in
     length (ls_MatchLabels s) + length (ls_MatchExpressions s) + sum_list (map (\<lambda>(_, _, vs). length vs) (ls_MatchExpressions s)))"

definition total_work :: "SecurityGroup list \<Rightarrow> nat" where
  "total_work gs = length gs + sum_list (map group_work gs)"

lemma values_work_result:
  "work \<le> membershipWorkLimit \<Longrightarrow> values_work es work =
     (let all = work + sum_list (map (\<lambda>(_, _, vs). length vs) es) in if membershipWorkLimit < all then None else Some all)"
  by (induction es work rule: values_work.induct) (auto simp: Let_def add_ac)

lemma selector_work_result:
  "work \<le> membershipWorkLimit \<Longrightarrow>
    selector_work g work = (if membershipWorkLimit < work + group_work g then None else Some (work + group_work g))"
  by (auto simp: selector_work_def group_work_def Let_def values_work_result)

lemma input_work_result:
  assumes "work \<le> membershipWorkLimit" "input_work ctx gs work w = (r, w')"
  shows "case r of Inr _ \<Rightarrow> work + sum_list (map group_work gs) \<le> membershipWorkLimit
    | Inl e \<Rightarrow> membershipWorkLimit < work + sum_list (map group_work gs) \<or> (\<exists>v. ctx v = (Inl e, w'))"
  using assms
proof (induction gs arbitrary: work w)
  case Nil
  then show ?case by (cases r) auto
next
  case (Cons g gs)
  obtain u v where u: "ctx w = (u, v)" by force
  consider (ctx) e where "u = Inl e" | (over) x where "u = Inr x" "membershipWorkLimit < work + group_work g"
    | (fits) x where "u = Inr x" "work + group_work g \<le> membershipWorkLimit"
    by (cases u; cases "membershipWorkLimit < work + group_work g") auto
  then show ?case
  proof cases
    case ctx
    then show ?thesis using Cons.prems(2) u by (auto simp: andThen_def)
  next
    case over
    then show ?thesis using Cons.prems u by (auto simp: andThen_def selector_work_result fail_def split: sum.splits)
  next
    case fits
    then have "input_work ctx gs (work + group_work g) v = (r, w')"
      using Cons.prems u by (simp add: andThen_def selector_work_result)
    from Cons.IH [OF fits(2) this] show ?thesis by (simp add: add_ac split: sum.splits)
  qed
qed

lemma membershipInputWork_result:
  assumes "membershipInputWork ctx gs w = (r, w')"
  shows "case r of Inr _ \<Rightarrow> total_work gs \<le> membershipWorkLimit
    | Inl e \<Rightarrow> membershipWorkLimit < total_work gs \<or> (\<exists>v. ctx v = (Inl e, w'))"
  using assms input_work_result [of "length gs" ctx gs w r w'] unfolding total_work_def
  by (cases "membershipWorkLimit < length gs") (auto simp: membershipInputWork_def fail_def)

lemma total_work_mset: "mset gs = mset hs \<Longrightarrow> total_work gs = total_work hs"
  unfolding total_work_def by (metis mset_map size_mset sum_mset_sum_list)

end
