(* ===== verification/MembershipServer.thy ===== *)
theory MembershipServer
  imports MembershipExact
begin

text \<open>
  The membership controller against its cache: what a reconciliation leaves in the status of a Port.
\<close>

section \<open>The contract of the cache\<close>

record cluster =
  cl_ports :: "Port list"
  cl_pods :: "object_key \<rightharpoonup> Pod"
  cl_groups :: "SecurityGroup list"

definition port_key :: "Port \<Rightarrow> object_key" where
  "port_key p = (om_Namespace (port_meta p), om_Name (port_meta p))"

text \<open>
  Reads come from the cache, which tells an object that is there from one that is not, and whose indexed lists hold the
  objects with the index value in any order. A finished context stays finished. Only the status write changes a Port.
\<close>

locale member_server = interference "\<lambda>w w'. view w' = view w"
  for view :: "'w \<Rightarrow> cluster" +
  fixes k :: machinery and api :: "'w member_api"
  assumes reads: "quiet (ma_ctx api)" "quiet (ma_port api req)" "quiet (ma_pod api req)" "quiet (ma_groups api vk)"
    and ctx_stays: "ma_ctx api u = (Inl e, v) \<Longrightarrow> ma_ctx api v \<noteq> (Inr (), w)"
    and get_port: "ma_port api req w = (r, w') \<Longrightarrow> (case r of Inr p \<Rightarrow> p \<in> set (cl_ports (view w)) \<and> port_key p = req
      | Inl e \<Rightarrow> e = NotFound \<longrightarrow> req \<notin> port_key ` set (cl_ports (view w)))"
    and get_pod: "fst (ma_pod api req w) = (case cl_pods (view w) req of Some p \<Rightarrow> Inr p | None \<Rightarrow> Inl NotFound)"
    and list_groups: "ma_groups api vk w = (Inr gs, w') \<Longrightarrow> mset gs = mset (filter (\<lambda>g. vk \<in> set (sg_vpc_keys k g)) (cl_groups (view w)))"
    and update_status: "ma_update_status api p w = (Inr (), w') \<Longrightarrow> view w' = view w \<lparr> cl_ports :=
      map (\<lambda>q. if port_key q = port_key p then q \<lparr> port_Status := port_Status p \<rparr> else q) (cl_ports (view w)) \<rparr>"
begin

lemma input_quiet: "quiet (membershipInputWork (ma_ctx api) gs)"
proof -
  have "quiet (input_work (ma_ctx api) gs work)" for work
  proof (induction gs arbitrary: work)
    case (Cons g gs)
    show ?case unfolding input_work.simps
      by (rule quiet_andThen [OF reads(1)]) (simp add: Cons.IH split: option.split)
  qed (simp add: reads(1))
  then show ?thesis by (simp add: membershipInputWork_def)
qed

lemma select_quiet: "quiet (select_groups k (ma_ctx api) idx port labels gs acc)"
proof (induction gs arbitrary: acc)
  case (Cons g gs)
  show ?case unfolding select_groups.simps
    by (rule quiet_andThen [OF reads(1)]) (simp add: Cons.IH split: option.split)
qed simp

end

text \<open>The labels that decide: those of the Port's own live Pod, or the snapshot.\<close>

definition pod_labels :: "(object_key \<rightharpoonup> Pod) \<Rightarrow> Port \<Rightarrow> (string \<rightharpoonup> string)" where
  "pod_labels pods port =
     (let ns = label (port_meta port) LabelPodNamespace; name = label (port_meta port) LabelPodName; uid = label (port_meta port) LabelPodUID
      in case pods (ns, name) of
        Some pod \<Rightarrow> if ns \<noteq> [] \<and> name \<noteq> [] \<and> uid \<noteq> [] \<and> \<not> om_Deleting (pod_meta pod) \<and> om_UID (pod_meta pod) = uid
          then om_Labels (pod_meta pod) else decodePodLabels (annotation (port_meta port) AnnotationPodLabels)
      | None \<Rightarrow> decodePodLabels (annotation (port_meta port) AnnotationPodLabels))"

text \<open>When the groups of the VPC can be evaluated; otherwise the Port is guarded.\<close>

definition vpc_groups :: "machinery \<Rightarrow> Port \<Rightarrow> SecurityGroup list \<Rightarrow> SecurityGroup list" where
  "vpc_groups k port snap = filter (\<lambda>g. set (port_vpc_keys k port) \<inter> set (sg_vpc_keys k g) \<noteq> {}) snap"

definition evaluable :: "machinery \<Rightarrow> Port \<Rightarrow> SecurityGroup list \<Rightarrow> bool" where
  "evaluable k port snap \<longleftrightarrow> port_vpc_keys k port \<noteq> [] \<and> total_work (vpc_groups k port snap) \<le> membershipWorkLimit \<and>
     (\<forall>g \<in> set (vpc_groups k port snap). \<not> bad_selector k port g)"

context member_server
begin

lemma podLabelsFor_result:
  assumes "podLabelsFor api port w = (r, w')"
  shows "view w' = view w \<and> r = Inr (pod_labels (cl_pods (view w)) port)"
proof -
  define ns name uid where d: "ns = label (port_meta port) LabelPodNamespace" "name = label (port_meta port) LabelPodName"
    "uid = label (port_meta port) LabelPodUID"
  note defs = podLabelsFor_def [of api port] pod_labels_def [of _ port] Let_def d [symmetric] handle_def give_def
  show ?thesis
  proof (cases "ns \<noteq> [] \<and> name \<noteq> [] \<and> uid \<noteq> []")
    case True
    obtain q v where q: "ma_pod api (ns, name) w = (q, v)" by force
    then have view: "view v = view w" using quietD [OF reads(3) q] by simp
    show ?thesis
    proof (cases "cl_pods (view w) (ns, name)")
      case None
      then have "q = Inl NotFound" using get_pod [of "(ns, name)" w] q by simp
      then show ?thesis using assms True q None view by (simp add: defs)
    next
      case (Some pod)
      then have "q = Inr pod" using get_pod [of "(ns, name)" w] q by simp
      then show ?thesis using assms True q Some view by (auto simp: defs split: if_splits)
    qed
  next
    case False
    then show ?thesis using assms by (cases "cl_pods (view w) (ns, name)") (auto simp: defs)
  qed
qed

lemma member_groups_list:
  assumes "port_vpc_keys k port = [vk]" "member_groups k api port w = (Inr gs, w')"
  obtains hs v r where "ma_groups api vk w = (Inr hs, v)" "membershipInputWork (ma_ctx api) hs v = (r, w')"
    "gs = (case r of Inl _ \<Rightarrow> None | Inr _ \<Rightarrow> Some hs)"
proof -
  define F where "F hs = handle (membershipInputWork (ma_ctx api) hs) (\<lambda>r. case r of Inl _ \<Rightarrow> give None | Inr _ \<Rightarrow> give (Some hs))" for hs
  have "andThen (ma_groups api vk) F w = (Inr gs, w')" using assms(2) unfolding member_groups_def assms(1) list.case F_def .
  then obtain hs v where l: "ma_groups api vk w = (Inr hs, v)" "F hs v = (Inr gs, w')" unfolding andThen_ok by (elim exE conjE)
  obtain r u where r: "membershipInputWork (ma_ctx api) hs v = (r, u)" by force
  have "u = w' \<and> gs = (case r of Inl _ \<Rightarrow> None | Inr _ \<Rightarrow> Some hs)"
    using l(2) r by (cases r) (simp_all add: F_def handle_def give_def)
  then show thesis using that [OF l(1)] r by simp
qed

lemma member_groups_result:
  assumes "member_groups k api port w = (Inr gs, w')" "ma_ctx api w' = (Inr (), w'')"
  shows "view w' = view w \<and> (case gs of
      None \<Rightarrow> port_vpc_keys k port = [] \<or> membershipWorkLimit < total_work (vpc_groups k port (cl_groups (view w)))
    | Some gs \<Rightarrow> same_groups k port gs (cl_groups (view w)) \<and> total_work (vpc_groups k port (cl_groups (view w))) \<le> membershipWorkLimit)"
proof (cases "port_vpc_keys k port")
  case Nil
  then show ?thesis using assms(1) by (auto simp: member_groups_def call_ok)
next
  case (Cons vk vks)
  then have vk: "port_vpc_keys k port = [vk]" by (auto simp: port_vpc_keys_def membershipVPCKeys_def split: if_splits)
  obtain hs v r where l: "ma_groups api vk w = (Inr hs, v)" "membershipInputWork (ma_ctx api) hs v = (r, w')"
    "gs = (case r of Inl _ \<Rightarrow> None | Inr _ \<Rightarrow> Some hs)"
    using member_groups_list [OF vk assms(1)] .
  have hs: "mset hs = mset (filter (\<lambda>g. vk \<in> set (sg_vpc_keys k g)) (cl_groups (view w)))" using list_groups [OF l(1)] .
  then have "mset hs = mset (vpc_groups k port (cl_groups (view w)))" by (simp add: vpc_groups_def vk)
  then have work: "total_work hs = total_work (vpc_groups k port (cl_groups (view w)))" by (rule total_work_mset)
  have "view w' = view w" using quietD [OF reads(4) l(1)] quietD [OF input_quiet l(2)] by simp
  moreover have "membershipWorkLimit < total_work hs" if "r = Inl e" for e
    using membershipInputWork_result [OF l(2)] ctx_stays assms(2) that by auto
  moreover have "same_groups k port hs (cl_groups (view w))" unfolding same_groups_def using vk hs by blast
  ultimately show ?thesis using membershipInputWork_result [OF l(2)] l(3) work by (cases r) simp_all
qed

lemma membership_result:
  assumes "membership k api port labels groups w = (Inr acc, w')"
  shows "(\<exists>v. ma_ctx api w = (Inr (), v)) \<and> view w' = view w \<and> acc = (case groups of None \<Rightarrow> (1, [])
    | Some gs \<Rightarrow> if \<exists>g \<in> set gs. bad_selector k port g then (1, []) else selection k (port_index k port gs) port labels gs)"
proof -
  obtain v where v: "ma_ctx api w = (Inr (), v)" using assms unfolding membership_def andThen_ok by auto
  then have view: "view v = view w" using quietD [OF reads(1)] by blast
  show ?thesis
  proof (cases groups)
    case None
    then show ?thesis using assms v view by (auto simp: membership_def andThen_def give_def)
  next
    case (Some gs)
    obtain r u where r: "select_groups k (ma_ctx api) (port_index k port gs) port labels gs (0, []) v = (Inr r, u)"
      "(case r of None \<Rightarrow> give (1, []) | Some acc \<Rightarrow> give acc) u = (Inr acc, w')"
      using assms v Some by (auto simp: membership_def call_ok)
    have "view u = view w" using quietD [OF select_quiet r(1)] view by simp
    then show ?thesis using v r(2) Some select_groups_result [OF r(1)]
      by (auto simp: give_def selection_def split: option.splits if_splits)
  qed
qed

text \<open>What a finished reconciliation of a live Port has written.\<close>

definition written :: "Port \<Rightarrow> cluster \<Rightarrow> u64 \<times> SecurityGroupMembership list \<Rightarrow> bool" where
  "written p c acc \<longleftrightarrow> (if evaluable k p (cl_groups c)
     then \<exists>gs. same_groups k p gs (cl_groups c) \<and> acc = selection k (port_index k p gs) p (pod_labels (cl_pods c) p) gs else acc = (1, []))"

lemma membership_written:
  assumes "podLabelsFor api p w = (Inr labels, w1)" "member_groups k api p w1 = (Inr groups, w2)"
    "membership k api p labels groups w2 = (Inr acc, w3)"
  shows "view w3 = view w \<and> written p (view w) acc"
proof -
  note labels = podLabelsFor_result [OF assms(1)] and m = membership_result [OF assms(3)]
  obtain v where v: "ma_ctx api w2 = (Inr (), v)" using m by blast
  note g = member_groups_result [OF assms(2) v]
  show ?thesis
  proof (cases groups)
    case None
    then show ?thesis using labels m g by (auto simp: written_def evaluable_def)
  next
    case (Some gs)
    then have same: "same_groups k p gs (cl_groups (view w))" using labels g by simp
    then obtain vk where vk: "port_vpc_keys k p = [vk]" "mset gs = mset (filter (\<lambda>g. vk \<in> set (sg_vpc_keys k g)) (cl_groups (view w)))"
      by (auto simp: same_groups_def)
    have "set gs = set (vpc_groups k p (cl_groups (view w)))" using mset_eq_setD [OF vk(2)] by (simp add: vpc_groups_def vk(1))
    then have "evaluable k p (cl_groups (view w)) \<longleftrightarrow> \<not> (\<exists>g \<in> set gs. bad_selector k p g)"
      using Some labels g vk(1) by (auto simp: evaluable_def)
    then show ?thesis using Some labels m g same by (auto simp: written_def)
  qed
qed

lemma Reconcile_writes:
  assumes "port_Reconcile k api req w = (Inr r, w')" "r \<noteq> Requeue" "distinct (map port_key (cl_ports (view w)))"
    "p \<in> set (cl_ports (view w))" "port_key p = req" "\<not> om_Deleting (port_meta p)"
  shows "\<exists>acc. written p (view w) acc \<and> view w' = view w \<lparr> cl_ports :=
    map (\<lambda>q. if port_key q = req then q \<lparr> port_Status := member_status p acc \<rparr> else q) (cl_ports (view w)) \<rparr>"
proof -
  obtain x w0 where x: "ma_port api req w = (x, w0)" by force
  have only: "q = p" if "q \<in> set (cl_ports (view w))" "port_key q = req" for q
    using that assms(3-5) by (auto simp: distinct_map inj_on_def)
  have "x = Inr p"
  proof (cases x)
    case (Inl e)
    then show ?thesis using get_port [OF x] assms(1,4,5) x by (auto simp: port_Reconcile_def handle_def give_def fail_def split: if_splits)
  next
    case (Inr q)
    then show ?thesis using get_port [OF x] only by auto
  qed
  then obtain labels w1 groups w2 acc w3 where steps: "podLabelsFor api p w0 = (Inr labels, w1)" "member_groups k api p w1 = (Inr groups, w2)"
    "membership k api p labels groups w2 = (Inr acc, w3)"
    "(if port_Status p = member_status p acc then give Done
      else handle (ma_update_status api (p \<lparr> port_Status := member_status p acc \<rparr>)) (\<lambda>u. case u of
          Inl e \<Rightarrow> if e = WriteConflict then give Requeue else fail e | Inr _ \<Rightarrow> give Done)) w3 = (Inr r, w')"
    using assms(1,6) x unfolding port_Reconcile_def by (auto simp: handle_def [of "ma_port api req"] andThen_ok Let_def)
  have view: "view w3 = view w" "written p (view w) acc"
    using membership_written [OF steps(1-3)] quietD [OF reads(2) x] by auto
  let ?new = "map (\<lambda>q. if port_key q = req then q \<lparr> port_Status := member_status p acc \<rparr> else q) (cl_ports (view w))"
  have "view w' = view w \<lparr> cl_ports := ?new \<rparr>"
  proof (cases "port_Status p = member_status p acc")
    case True
    then have "p \<lparr> port_Status := member_status p acc \<rparr> = p" by (metis Port.surjective Port.update_convs(3))
    then have "?new = cl_ports (view w)" using only by (intro map_idI) auto
    then show ?thesis using True steps(4) view(1) by (simp add: give_def)
  next
    case False
    obtain u w4 where u: "ma_update_status api (p \<lparr> port_Status := member_status p acc \<rparr>) w3 = (u, w4)" by force
    then have "u = Inr ()" "w4 = w'" using steps(4) False assms(2) by (auto simp: handle_def give_def fail_def split: sum.splits if_splits)
    moreover have "port_key (p \<lparr> port_Status := member_status p acc \<rparr>) = req" using assms(5) by (simp add: port_key_def)
    ultimately show ?thesis using update_status [of "p \<lparr> port_Status := member_status p acc \<rparr>" w3 w'] u view(1) by simp
  qed
  then show ?thesis using view(2) by blast
qed

end

section \<open>The bits\<close>

lemma guarded_bitmap: "index_Bitmap idx (p \<lparr> port_Status := member_status p (1, []) \<rparr>) = 1"
proof -
  have "[0..62::int] = 0 # [1..62]" by (subst upto.simps) simp
  moreover have "filter (\<lambda>n. bit (1 :: u64) (nat n)) [1..62] = []" by (auto simp: filter_empty_conv bit_1_iff)
  ultimately have ids: "ptst_Groups (member_status p (1, [])) = [0]"
    unfolding member_status_def MaxSecurityGroupsPerVPC_def by (simp add: and_exp_eq_0_iff_not_bit bit_1_iff del: upto.simps)
  have rest: "ptst_GroupRefs (member_status p (1, [])) = []" "ptst_GroupPodUID (member_status p (1, [])) = label (port_meta p) LabelPodUID"
    by (simp_all add: member_status_def)
  show ?thesis using Bitmap_unfold [of idx "p \<lparr> port_Status := member_status p (1, []) \<rparr>"] by (simp add: ids rest group_union_def)
qed

lemma vpc_live:
  assumes "same_groups k port gs snap" "port_vpc_keys k port \<noteq> []"
  shows "g \<in> set gs \<and> live_group port g \<longleftrightarrow> g \<in> set snap \<and> sg_LocalRef g = port_vpc port \<and> \<not> om_Deleting (sgo_meta g)"
proof -
  obtain vk where vk: "port_vpc_keys k port = [vk]" "mset gs = mset (filter (\<lambda>g. vk \<in> set (sg_vpc_keys k g)) snap)"
    using assms(1) by (auto simp: same_groups_def)
  have mem: "g \<in> set gs \<longleftrightarrow> g \<in> set snap \<and> vk \<in> set (sg_vpc_keys k g)" using mset_eq_setD [OF vk(2)] by auto
  have fields: "vr_Namespace (port_vpc port) = om_Namespace (sgo_meta g)" "vr_Name (port_vpc port) = lvr_Name (sgs_VPCRef (sgo_Spec g))"
    if "sg_LocalRef g = port_vpc port" using that [symmetric] by (simp_all add: sg_LocalRef_def)
  have "vk \<in> set (sg_vpc_keys k g) \<and> same_vpc port g" if ref: "sg_LocalRef g = port_vpc port"
    using vk(1) unfolding port_vpc_keys_def sg_vpc_keys_def same_vpc_def fields [OF ref] by simp
  then show ?thesis unfolding live_group_def mem using key_namespace [OF vk(1), of g] by blast
qed

text \<open>The groups that a Port's bitmap shows when the controller and the agent saw the same objects.\<close>

definition member_of :: "machinery \<Rightarrow> SecurityGroup list \<Rightarrow> Port \<Rightarrow> (string \<rightharpoonup> string) \<Rightarrow> int \<Rightarrow> bool" where
  "member_of k snap port labels n \<longleftrightarrow> 0 < n \<and> n < 63 \<and>
     (\<exists>g. wire_groups k snap (port_vpc port) n = [g] \<and> om_UID (sgo_meta g) \<noteq> [] \<and> picks k labels g)"

definition selected_group :: "machinery \<Rightarrow> SecurityGroup list \<Rightarrow> Port \<Rightarrow> (string \<rightharpoonup> string) \<Rightarrow> SecurityGroup \<Rightarrow> bool" where
  "selected_group k snap port labels g \<longleftrightarrow> g \<in> set snap \<and> sg_LocalRef g = port_vpc port \<and> \<not> om_Deleting (sgo_meta g) \<and> picks k labels g"

definition unresolved :: "machinery \<Rightarrow> SecurityGroup list \<Rightarrow> Port \<Rightarrow> SecurityGroup \<Rightarrow> bool" where
  "unresolved k snap port g \<longleftrightarrow> \<not> (sgst_ID (sgo_Status g) \<in> {1..62} \<and> om_UID (sgo_meta g) \<noteq> [] \<and>
     wire_groups k snap (port_vpc port) (sgst_ID (sgo_Status g)) = [g])"

lemma chosen_selected:
  assumes "same_groups k port gs snap" "port_vpc_keys k port \<noteq> []"
  shows "g \<in> set (chosen k port labels gs) \<longleftrightarrow> selected_group k snap port labels g"
  unfolding selected_group_def set_filter mem_Collect_eq using vpc_live [OF assms, of g] by blast

lemma chosen_resolved:
  assumes "same_groups k port gs snap" "g \<in> set (chosen k port labels gs)"
  shows "resolved (port_index k port gs) port g \<longleftrightarrow> \<not> unresolved k snap port g"
proof -
  have "g \<in> set gs" "live_group port g" using assms(2) by simp_all
  from resolved_unique [OF assms(1) this] show ?thesis unfolding unresolved_def by auto
qed

lemma selection_zero:
  assumes "same_groups k port gs snap" "port_vpc_keys k port \<noteq> []"
  shows "bit (fst (selection k (port_index k port gs) port labels gs)) 0 \<longleftrightarrow> (\<exists>g. selected_group k snap port labels g \<and> unresolved k snap port g)"
proof
  assume "bit (fst (selection k (port_index k port gs) port labels gs)) 0"
  then obtain g where g: "g \<in> set (chosen k port labels gs)" "if resolved (port_index k port gs) port g then 0 = nat (sgst_ID (sgo_Status g)) else 0 = (0::nat)"
    unfolding selection_bits [OF assms(1)] by blast
  then have "\<not> resolved (port_index k port gs) port g" by (auto simp: resolved_def)
  then show "\<exists>g. selected_group k snap port labels g \<and> unresolved k snap port g"
    using chosen_selected [OF assms] chosen_resolved [OF assms(1) g(1)] g(1) by blast
next
  assume "\<exists>g. selected_group k snap port labels g \<and> unresolved k snap port g"
  then obtain g where g: "g \<in> set (chosen k port labels gs)" "unresolved k snap port g" using chosen_selected [OF assms] by blast
  then show "bit (fst (selection k (port_index k port gs) port labels gs)) 0"
    unfolding selection_bits [OF assms(1)] using chosen_resolved [OF assms(1) g(1)] by (intro bexI [OF _ g(1)]) simp
qed

lemma selection_member:
  assumes "same_groups k port gs snap" "port_vpc_keys k port \<noteq> []"
  shows "bit (fst (selection k (port_index k port gs) port labels gs)) (Suc j) \<longleftrightarrow> member_of k snap port labels (int (Suc j))"
proof
  assume "bit (fst (selection k (port_index k port gs) port labels gs)) (Suc j)"
  from selection_group [OF assms(1) this] obtain g where
    g: "g \<in> set (chosen k port labels gs)" "resolved (port_index k port gs) port g" "sgst_ID (sgo_Status g) = int (Suc j)" by blast
  then have "\<not> unresolved k snap port g" "picks k labels g" using chosen_resolved [OF assms(1) g(1)] by simp_all
  then show "member_of k snap port labels (int (Suc j))" using g(3) by (auto simp: unresolved_def member_of_def)
next
  assume "member_of k snap port labels (int (Suc j))"
  then obtain g where g: "wire_groups k snap (port_vpc port) (int (Suc j)) = [g]" "om_UID (sgo_meta g) \<noteq> []" "picks k labels g" "int (Suc j) < 63"
    unfolding member_of_def by blast
  have "g \<in> set (wire_groups k snap (port_vpc port) (int (Suc j)))" unfolding g(1) by simp
  then have sel: "selected_group k snap port labels g" and n: "sgst_ID (sgo_Status g) = int (Suc j)"
    using g(3) by (simp_all add: wire_groups_def selected_group_def sg_current_def)
  then have chosen: "g \<in> set (chosen k port labels gs)" using chosen_selected [OF assms] by blast
  have "\<not> unresolved k snap port g" unfolding unresolved_def n using g(1,2,4) by simp
  then have "resolved (port_index k port gs) port g" using chosen_resolved [OF assms(1) chosen] by blast
  moreover have "Suc j = nat (sgst_ID (sgo_Status g))" using n by simp
  ultimately show "bit (fst (selection k (port_index k port gs) port labels gs)) (Suc j)"
    unfolding selection_bits [OF assms(1)] by (intro bexI [OF _ chosen]) simp
qed

end
