(* ===== verification/MembershipReference.thy ===== *)
theory MembershipReference
  imports MembershipServer
begin

text \<open>
  A cache that holds the objects of a cluster, as an instance of the contract of the membership controller, and the
  property from labels to the membership bitmap.
\<close>

definition found :: "'a option \<Rightarrow> ('w, 'a) api_call" where
  "found x = (case x of Some a \<Rightarrow> give a | None \<Rightarrow> fail NotFound)"

definition member_reference :: "machinery \<Rightarrow> cluster member_api" where
  "member_reference k = \<lparr> ma_ctx = give (),
     ma_port = (\<lambda>req c. found (find (\<lambda>p. port_key p = req) (cl_ports c)) c),
     ma_pod = (\<lambda>req c. found (cl_pods c req) c),
     ma_groups = (\<lambda>vk c. give (filter (\<lambda>g. vk \<in> set (sg_vpc_keys k g)) (cl_groups c)) c),
     ma_vpc_ports = (\<lambda>vk c. give (filter (\<lambda>p. vk \<in> set (port_vpc_keys k p)) (cl_ports c)) c),
     ma_pod_ports = (\<lambda>pk c. give (filter (\<lambda>p. pk \<in> set (membershipPodKeys (port_meta p))) (cl_ports c)) c),
     ma_update_status = (\<lambda>p c. (Inr (), c \<lparr> cl_ports :=
       map (\<lambda>q. if port_key q = port_key p then q \<lparr> port_Status := port_Status p \<rparr> else q) (cl_ports c) \<rparr>)) \<rparr>"

lemmas reference_defs = member_reference_def found_def give_def fail_def

lemma find_none: "find P xs = None \<longleftrightarrow> (\<forall>x \<in> set xs. \<not> P x)"
  by (auto simp: find_None_iff)

interpretation same: interference "\<lambda>w w' :: cluster. w' = w"
  by unfold_locales simp_all

interpretation cache: member_server "\<lambda>c. c" k "member_reference k" for k :: machinery
proof (unfold_locales, goal_cases)
  case (6 req w r w')
  then show ?case by (cases "find (\<lambda>p. port_key p = req) (cl_ports w)")
      (auto simp: reference_defs find_none find_Some_iff)
qed (auto simp: reference_defs same.quiet_def split: option.splits)

text \<open>Over this cache a reconciliation always finishes.\<close>

lemma input_runs: "\<exists>r. membershipInputWork (give ()) gs w = (r, w)"
proof -
  have "\<exists>r. input_work (give ()) gs work w = (r, w)" for work
    by (induction gs arbitrary: work) (auto simp: give_def fail_def andThen_def split: option.splits)
  then show ?thesis by (simp add: membershipInputWork_def fail_def)
qed

lemma select_runs: "\<exists>r. select_groups k (give ()) idx port labels gs acc w = (Inr r, w)"
  by (induction gs arbitrary: acc) (auto simp: give_def andThen_def split: option.splits)

lemma reference_runs: "\<exists>c'. port_Reconcile k (member_reference k) req c = (Inr Done, c')"
proof (cases "find (\<lambda>p. port_key p = req) (cl_ports c)")
  case None
  then show ?thesis by (simp add: port_Reconcile_def handle_def reference_defs)
next
  case (Some p)
  let ?api = "member_reference k"
  obtain labels where labels: "podLabelsFor ?api p c = (Inr labels, c)"
    using cache.podLabelsFor_result [of k p c] by (cases "podLabelsFor ?api p c") auto
  have ctx: "ma_ctx ?api = give ()" by (simp add: member_reference_def)
  have "\<exists>gs. member_groups k ?api p c = (Inr gs, c)"
  proof (cases "port_vpc_keys k p")
    case (Cons vk vks)
    obtain r where "membershipInputWork (give ()) (filter (\<lambda>g. vk \<in> set (sg_vpc_keys k g)) (cl_groups c)) c = (r, c)"
      using input_runs [of "filter (\<lambda>g. vk \<in> set (sg_vpc_keys k g)) (cl_groups c)" c] by (elim exE)
    then show ?thesis using Cons by (cases r) (simp_all add: member_groups_def handle_def andThen_def reference_defs)
  qed (simp add: member_groups_def give_def)
  then obtain gs where gs: "member_groups k ?api p c = (Inr gs, c)" ..
  have "\<exists>acc. membership k ?api p labels gs c = (Inr acc, c)"
  proof (cases gs)
    case (Some hs)
    obtain r where "select_groups k (give ()) (port_index k p hs) p labels hs (0, []) c = (Inr r, c)"
      using select_runs [of k "port_index k p hs" p labels hs "(0, [])" c] by (elim exE)
    then show ?thesis using Some by (cases r) (simp_all add: membership_def ctx andThen_def give_def)
  qed (simp add: membership_def ctx andThen_def give_def)
  then obtain acc where acc: "membership k ?api p labels gs c = (Inr acc, c)" ..
  have port: "ma_port ?api req c = (Inr p, c)" using Some by (simp add: reference_defs)
  obtain c' where upd: "ma_update_status ?api (p \<lparr> port_Status := member_status p acc \<rparr>) c = (Inr (), c')" by (simp add: member_reference_def)
  show ?thesis using labels gs acc port upd by (simp add: port_Reconcile_def handle_def andThen_def Let_def give_def)
qed

section \<open>Properties\<close>

lemma evaluable_mset: "mset gs = mset hs \<Longrightarrow> evaluable k port gs = evaluable k port hs"
proof -
  assume gs: "mset gs = mset hs"
  then have "mset (vpc_groups k port gs) = mset (vpc_groups k port hs)" by (simp add: vpc_groups_def)
  then show ?thesis unfolding evaluable_def using total_work_mset mset_eq_setD by metis
qed

text \<open>
  (C8) Membership follows labels, from the controller to the wire. After a finished reconciliation of a live Port, the
  bitmap that an agent computes from the stored Port and the stored groups, in whatever order it lists them, has the bit of
  group \<open>n\<close> iff the only current group of the VPC with number \<open>n\<close> has a UID and selects the labels of the Port's own live
  Pod (or of the label snapshot when there is no such Pod). Bit zero, which matches no rule, is set iff some live group
  that selects the Pod has no unique number yet, so the Port stays guarded. When the groups cannot be evaluated (an invalid
  VPC reference, a malformed selector, or more than 65536 units of selector work) the bitmap is the guard alone.
\<close>

theorem membership_follows_labels:
  assumes "member_server view k api" and "port_Reconcile k api req w = (Inr r, w')" and "r \<noteq> Requeue"
    and "distinct (map port_key (cl_ports (view w)))" and "p \<in> set (cl_ports (view w))" and "port_key p = req"
    and "\<not> om_Deleting (port_meta p)" and "mset snap = mset (cl_groups (view w'))"
  shows "cl_groups (view w') = cl_groups (view w) \<and>
    (\<exists>p'. p' \<in> set (cl_ports (view w')) \<and> port_meta p' = port_meta p \<and> port_Spec p' = port_Spec p \<and>
      (if evaluable k p snap then
        (\<forall>j. bit (index_Bitmap (NewIndex k snap) p') (Suc j) \<longleftrightarrow> member_of k snap p (pod_labels (cl_pods (view w)) p) (int (Suc j))) \<and>
        (bit (index_Bitmap (NewIndex k snap) p') 0 \<longleftrightarrow>
          (\<exists>g. selected_group k snap p (pod_labels (cl_pods (view w)) p) g \<and> unresolved k snap p g))
       else index_Bitmap (NewIndex k snap) p' = 1))"
proof -
  obtain acc where acc: "member_server.written k p (view w) acc" and view: "view w' = view w \<lparr> cl_ports :=
      map (\<lambda>q. if port_key q = req then q \<lparr> port_Status := member_status p acc \<rparr> else q) (cl_ports (view w)) \<rparr>"
    using member_server.Reconcile_writes [OF assms(1-7)] by blast
  have groups: "cl_groups (view w') = cl_groups (view w)" using view by simp
  let ?p = "p \<lparr> port_Status := member_status p acc \<rparr>" and ?labels = "pod_labels (cl_pods (view w)) p"
  have stored: "?p \<in> set (cl_ports (view w'))" using view assms(5,6) by auto
  have ev: "evaluable k p snap = evaluable k p (cl_groups (view w))" using evaluable_mset assms(8) groups by metis
  note written = acc [unfolded member_server.written_def [OF assms(1)]]
  show ?thesis
  proof (cases "evaluable k p snap")
    case True
    then obtain gs where gs: "same_groups k p gs (cl_groups (view w))" "acc = selection k (port_index k p gs) p ?labels gs"
      using written ev by auto
    have same: "same_groups k p gs snap" using gs(1) assms(8) groups by (auto simp: same_groups_def)
    have keys: "port_vpc_keys k p \<noteq> []" using True by (simp add: evaluable_def)
    have "index_Bitmap (NewIndex k snap) ?p = fst acc" unfolding gs(2) by (rule Bitmap_selection [OF same])
    then show ?thesis using True stored groups selection_member [OF same keys] selection_zero [OF same keys] gs(2)
      by (intro conjI exI [of _ ?p]) simp_all
  next
    case False
    then have "acc = (1, [])" using written ev by simp
    then show ?thesis using False stored groups guarded_bitmap [of "NewIndex k snap" p] by (intro conjI exI [of _ ?p]) simp_all
  qed
qed

text \<open>A Pod with label \<^verbatim>\<open>app=web\<close> among two groups, of which one selects that label.\<close>

definition match_labels :: machinery where
  "match_labels = any_names \<lparr> LabelSelectorAsSelector := \<lambda>s. Some (\<lambda>l. \<forall>(k, v) \<in> set (ls_MatchLabels s). l k = Some v) \<rparr>"

definition app_group :: "string \<Rightarrow> int \<Rightarrow> SecurityGroup" where
  "app_group name n = (sg_example name n []) \<lparr> sgo_Spec := (sgo_Spec (sg_example name n [])) \<lparr> sgs_PodSelector :=
     \<lparr> ls_MatchLabels = [(''app'', name)], ls_MatchExpressions = [] \<rparr> \<rparr> \<rparr>"

definition web_meta :: ObjectMeta where
  "web_meta = (sgo_meta (sg_example ''v100.10-0-0-5'' 0 [])) \<lparr> om_Namespace := [],
     om_Labels := [LabelPodNamespace \<mapsto> ''shop'', LabelPodName \<mapsto> ''web-0'', LabelPodUID \<mapsto> ''u1''] \<rparr>"

definition web_port :: Port where
  "web_port = \<lparr> port_meta = web_meta,
     port_Spec = \<lparr> pts_VPCRef = \<lparr> vr_Namespace = ''shop'', vr_Name = ''prod'' \<rparr>, pts_IP = ''10.0.0.5'', pts_MAC = [], pts_Node = [],
       pts_NodeIP = [], pts_PodNamespace = ''shop'', pts_PodName = ''web-0'', pts_Gateway = False, pts_Forwarding = False, pts_Primary = True \<rparr>,
     port_Status = \<lparr> ptst_Groups = [], ptst_GroupRefs = [], ptst_GroupPodUID = [] \<rparr> \<rparr>"

definition web_pod :: Pod where
  "web_pod = \<lparr> pod_meta = (sgo_meta (sg_example ''web-0'' 0 [])) \<lparr> om_UID := ''u1'', om_Labels := [''app'' \<mapsto> ''web''] \<rparr>,
     pod_Owners = [], pod_NodeName = [], pod_Phase = ''Running'', pod_Conditions = [] \<rparr>"

definition member_demo :: cluster where
  "member_demo = \<lparr> cl_ports = [web_port], cl_pods = [(''shop'', ''web-0'') \<mapsto> web_pod], cl_groups = [app_group ''web'' 1, app_group ''db'' 2] \<rparr>"

lemmas member_demo_defs = member_demo_def web_port_def web_pod_def web_meta_def app_group_def sg_example_def match_labels_def any_names_def

lemma member_demo_labels: "pod_labels (cl_pods member_demo) web_port = [''app'' \<mapsto> ''web'']"
  by (simp add: pod_labels_def member_demo_defs label_def LabelPodNamespace_def LabelPodName_def LabelPodUID_def)

lemma member_demo_keys: "port_vpc_keys match_labels web_port = [''shop/prod'']" "sg_vpc_keys match_labels (app_group name n) = [''shop/prod'']"
  by (simp_all add: port_vpc_keys_def sg_vpc_keys_def membershipVPCKeys_def member_demo_defs NamespaceName_def ObjectName_def)

lemma member_demo_evaluable: "evaluable match_labels web_port (cl_groups member_demo)"
  by (simp add: evaluable_def vpc_groups_def member_demo_keys member_demo_def total_work_def membershipWorkLimit_def)
    (simp add: group_work_def bad_selector_def member_demo_defs)

lemma member_demo_wire: "n \<in> {1, 2} \<Longrightarrow> wire_groups match_labels (cl_groups member_demo) (port_vpc web_port) n = [app_group (if n = 1 then ''web'' else ''db'') n]"
  by (auto simp: wire_groups_def member_demo_def sg_current_def) (simp_all add: member_demo_defs sg_LocalRef_def NamespaceName_def ObjectName_def MaxSecurityGroupsPerVPC_def)

lemma member_demo_member: "n \<in> {1, 2} \<Longrightarrow> member_of match_labels (cl_groups member_demo) web_port [''app'' \<mapsto> ''web''] n \<longleftrightarrow> n = 1"
  by (auto simp: member_of_def member_demo_wire) (simp_all add: picks_def member_demo_defs)

theorem membership_follows_labels_witness:
  "\<exists>c' p'. port_Reconcile match_labels (member_reference match_labels) (port_key web_port) member_demo = (Inr Done, c') \<and> p' \<in> set (cl_ports c') \<and>
    bit (index_Bitmap (NewIndex match_labels (cl_groups member_demo)) p') 1 \<and> \<not> bit (index_Bitmap (NewIndex match_labels (cl_groups member_demo)) p') 2"
proof -
  obtain c' where run: "port_Reconcile match_labels (member_reference match_labels) (port_key web_port) member_demo = (Inr Done, c')"
    using reference_runs by blast
  have port: "distinct (map port_key (cl_ports member_demo))" "web_port \<in> set (cl_ports member_demo)" "\<not> om_Deleting (port_meta web_port)"
    by (simp_all add: member_demo_def) (simp add: member_demo_defs)
  note cache = cache.member_server_axioms [of match_labels]
  have groups: "cl_groups c' = cl_groups member_demo" using membership_follows_labels [OF cache run _ port(1,2) refl port(3) refl] by simp
  obtain p' where "p' \<in> set (cl_ports c')"
    "\<And>j. bit (index_Bitmap (NewIndex match_labels (cl_groups member_demo)) p') (Suc j) \<longleftrightarrow>
      member_of match_labels (cl_groups member_demo) web_port [''app'' \<mapsto> ''web''] (int (Suc j))"
    using membership_follows_labels [OF cache run _ port(1,2) refl port(3) refl] member_demo_evaluable unfolding groups member_demo_labels by auto
  then show ?thesis using run member_demo_member [of 1] member_demo_member [of 2]
    by (intro exI [of _ c'] exI [of _ p']) (simp add: numeral_2_eq_2)
qed

end
