(* ===== verification/BoundaryDigest.thy ===== *)
theory BoundaryDigest
  imports Json Claims "HOL-Library.Multiset"
begin

text \<open>
  \<^verbatim>\<open>pkg/boundaryidentity/primary.go\<close>: the digest by which agents and the VPC controller agree on the primary Ports of a VPC.
  SHA-256 is an argument.
\<close>

record PrimaryPort =
  pp_UID :: string
  pp_IP :: string

definition primary_cmp :: "PrimaryPort \<Rightarrow> PrimaryPort \<Rightarrow> int" where
  "primary_cmp a b =
     (if pp_UID a < pp_UID b then -1 else if pp_UID b < pp_UID a then 1
      else if pp_IP a < pp_IP b then -1 else if pp_IP b < pp_IP a then 1 else 0)"

definition primary_text :: "PrimaryPort \<Rightarrow> string" where
  "primary_text p = ''{'' @ json_string ''UID'' @ '':'' @ json_string (pp_UID p) @ '','' @ json_string ''IP'' @ '':'' @ json_string (pp_IP p) @ ''}''"

definition marshal_primary :: "PrimaryPort list \<Rightarrow> string" where
  "marshal_primary ports = ''['' @ join_with (CHR '','') (map primary_text ports) @ '']''"

definition Digest :: "(string \<Rightarrow> u8 list) \<Rightarrow> PrimaryPort list \<Rightarrow> string" where
  "Digest sha ports = hex_encode (sha (marshal_primary (sort_cmp primary_cmp ports)))"

section \<open>Sorting\<close>

lemma primary_cmp_total: "\<not> primary_cmp a b \<le> 0 \<Longrightarrow> primary_cmp b a \<le> 0"
  by (auto simp: primary_cmp_def split: if_splits)

lemma primary_cmp_le: "primary_cmp a b \<le> 0 \<longleftrightarrow> pp_UID a < pp_UID b \<or> pp_UID a = pp_UID b \<and> pp_IP a \<le> pp_IP b"
  by (auto simp: primary_cmp_def not_less)

lemma primary_cmp_trans: "primary_cmp a b \<le> 0 \<Longrightarrow> primary_cmp b c \<le> 0 \<Longrightarrow> primary_cmp a c \<le> 0"
  unfolding primary_cmp_le by (metis less_trans order_trans)

lemma primary_cmp_antisym: "primary_cmp a b \<le> 0 \<Longrightarrow> primary_cmp b a \<le> 0 \<Longrightarrow> a = b"
  unfolding primary_cmp_le by (cases a; cases b) (auto dest: less_asym)

lemma mset_sort_cmp [simp]: "mset (sort_cmp cmp xs) = mset xs"
proof -
  have "mset (insert_cmp cmp x ys) = add_mset x (mset ys)" for x ys by (induction ys) auto
  then show ?thesis unfolding sort_cmp_def by (induction xs) auto
qed

lemma sorted_mset_unique:
  assumes "\<And>a b. R a b \<Longrightarrow> R b a \<Longrightarrow> a = b" "sorted_wrt R xs" "sorted_wrt R ys" "mset xs = mset ys"
  shows "xs = ys"
  using assms(2-4)
proof (induction xs arbitrary: ys)
  case (Cons x xs)
  then obtain y ys' where ys: "ys = y # ys'" by (cases ys) auto
  have "x = y"
  proof (rule ccontr)
    assume ne: "x \<noteq> y"
    have "set (x # xs) = set ys" using Cons.prems(3) by (rule mset_eq_setD)
    then have "y \<in> set xs" "x \<in> set ys'" using ne ys by auto
    then have "R x y" "R y x" using Cons.prems(1,2) ys by auto
    then show False using ne assms(1) by blast
  qed
  then show ?case using Cons ys by simp
qed simp

lemma sort_primary_unique: "mset ps = mset qs \<Longrightarrow> sort_cmp primary_cmp ps = sort_cmp primary_cmp qs"
  by (rule sorted_mset_unique [of "\<lambda>a b. primary_cmp a b \<le> 0"])
    (auto intro: primary_cmp_antisym sorted_sort_cmp primary_cmp_total primary_cmp_trans)

section \<open>The text names the Ports\<close>

definition valid_primary :: "PrimaryPort \<Rightarrow> bool" where
  "valid_primary p \<longleftrightarrow> valid_utf8 (pp_UID p) \<and> valid_utf8 (pp_IP p)"

lemma json_string_cancel:
  assumes "valid_utf8 a" "valid_utf8 b" "json_string a @ u = json_string b @ v"
  shows "a = b \<and> u = v"
proof -
  have eq: "json_text a @ chr 0x22 # u = json_text b @ chr 0x22 # v" using assms(3) unfolding json_string_def by simp
  show ?thesis using json_chars_text [OF assms(1), of u] unfolding eq json_chars_text [OF assms(2)] by simp
qed

lemma primary_text_cancel:
  assumes "valid_primary p" "valid_primary q" "primary_text p @ u = primary_text q @ v"
  shows "p = q \<and> u = v"
proof -
  have "json_string (pp_UID p) @ '','' @ json_string ''IP'' @ '':'' @ json_string (pp_IP p) @ ''}'' @ u =
      json_string (pp_UID q) @ '','' @ json_string ''IP'' @ '':'' @ json_string (pp_IP q) @ ''}'' @ v"
    using assms(3) by (simp add: primary_text_def)
  then have uid: "pp_UID p = pp_UID q" "json_string (pp_IP p) @ ''}'' @ u = json_string (pp_IP q) @ ''}'' @ v"
    using json_string_cancel [of "pp_UID p" "pp_UID q"] assms(1,2) by (auto simp: valid_primary_def)
  then have "pp_IP p = pp_IP q" "u = v" using json_string_cancel [of "pp_IP p" "pp_IP q"] assms(1,2) by (auto simp: valid_primary_def)
  then show ?thesis using uid(1) by (simp add: PrimaryPort.equality)
qed

definition ports_text :: "PrimaryPort list \<Rightarrow> string" where
  "ports_text ps = join_with (CHR '','') (map primary_text ps) @ '']''"

lemma ports_text_Cons: "ports_text (p # ps) = primary_text p @ (if ps = [] then '']'' else CHR '','' # ports_text ps)"
  by (cases ps) (simp_all add: ports_text_def)

lemma ports_text_start: "\<exists>r. ports_text (p # ps) = CHR ''{'' # r"
  unfolding ports_text_Cons by (simp add: primary_text_def)

lemma ports_text_Nil: "ports_text [] \<noteq> ports_text (p # ps)"
proof -
  obtain r where "ports_text (p # ps) = CHR ''{'' # r" using ports_text_start by blast
  moreover have "ports_text [] = '']''" by (simp add: ports_text_def)
  ultimately show ?thesis by simp
qed

lemma ports_text_inj:
  "\<forall>p \<in> set ps. valid_primary p \<Longrightarrow> \<forall>q \<in> set qs. valid_primary q \<Longrightarrow> ports_text ps = ports_text qs \<Longrightarrow> ps = qs"
proof (induction ps arbitrary: qs)
  case Nil
  show ?case
  proof (cases qs)
    case (Cons q qs')
    then show ?thesis using Nil.prems(3) ports_text_Nil [of q qs'] by metis
  qed simp
next
  case (Cons p ps)
  show ?case
  proof (cases qs)
    case Nil
    then show ?thesis using Cons.prems(3) ports_text_Nil [of p ps] by metis
  next
    case qs: (Cons q qs')
    have valid: "valid_primary p" "valid_primary q" using Cons.prems(1,2) qs by simp_all
    have eq: "p = q \<and> (if ps = [] then '']'' else CHR '','' # ports_text ps) = (if qs' = [] then '']'' else CHR '','' # ports_text qs')"
      by (rule primary_text_cancel [OF valid]) (use Cons.prems(3) in \<open>simp only: qs ports_text_Cons\<close>)
    have "ps = qs'"
    proof (cases "ps = [] \<or> qs' = []")
      case True
      then show ?thesis using conjunct2 [OF eq] by (cases ps; cases qs') simp_all
    next
      case False
      then have "ports_text ps = ports_text qs'" using conjunct2 [OF eq] by simp
      then show ?thesis using Cons.IH [of qs'] Cons.prems(1,2) qs by simp
    qed
    then show ?thesis using eq qs by simp
  qed
qed

lemma marshal_primary_inj:
  "\<forall>p \<in> set ps. valid_primary p \<Longrightarrow> \<forall>q \<in> set qs. valid_primary q \<Longrightarrow> marshal_primary ps = marshal_primary qs \<Longrightarrow> ps = qs"
  by (rule ports_text_inj) (simp_all add: marshal_primary_def ports_text_def)

lemma Digest_exact:
  assumes "\<forall>p \<in> set ps. valid_primary p" "\<forall>q \<in> set qs. valid_primary q"
    "sha (marshal_primary (sort_cmp primary_cmp ps)) = sha (marshal_primary (sort_cmp primary_cmp qs)) \<Longrightarrow>
      marshal_primary (sort_cmp primary_cmp ps) = marshal_primary (sort_cmp primary_cmp qs)"
  shows "Digest sha ps = Digest sha qs \<longleftrightarrow> mset ps = mset qs"
proof
  assume "Digest sha ps = Digest sha qs"
  then have "marshal_primary (sort_cmp primary_cmp ps) = marshal_primary (sort_cmp primary_cmp qs)"
    unfolding Digest_def by (rule assms(3) [OF hex_encode_inj])
  then have "sort_cmp primary_cmp ps = sort_cmp primary_cmp qs"
    by (rule marshal_primary_inj [rotated 2]) (use assms(1,2) in simp_all)
  from arg_cong [OF this, of mset] show "mset ps = mset qs" by simp
next
  assume "mset ps = mset qs"
  from sort_primary_unique [OF this] show "Digest sha ps = Digest sha qs" by (simp add: Digest_def)
qed

end
