(* ===== verification/VpcController.thy ===== *)
theory VpcController
  imports VniAllocator BoundaryDigest CoreObjects SgController
begin

text \<open>
  \<^verbatim>\<open>VPCReconciler\<close> of \<^verbatim>\<open>internal/controller/sdn/vpc_controller.go\<close>: it numbers a VPC and reports whether the agents of all nodes
  have applied its boundary. \<^verbatim>\<open>meta.SetStatusCondition\<close> and SHA-256 are arguments.
\<close>

section \<open>Acknowledgements\<close>

record 'w vpc_api =
  vc_vni :: "'w vni_api"
  vc_get :: "object_key \<Rightarrow> ('w, VPC) api_call"
  vc_daemonset :: "('w, DaemonSet) api_call"
  vc_agent_pods :: "((string \<rightharpoonup> string) \<Rightarrow> bool) \<Rightarrow> ('w, Pod list) api_call"
  vc_update_status :: "VPC \<Rightarrow> ('w, unit) api_call"

type_synonym set_condition = "Condition list \<Rightarrow> Condition \<Rightarrow> Condition list"

definition collect_primary :: "VPC \<Rightarrow> Port \<Rightarrow> PrimaryPort list \<Rightarrow> PrimaryPort list" where
  "collect_primary vpc port ids =
     (if pts_Primary (port_Spec port) \<and> pts_VPCRef (port_Spec port) = \<lparr> vr_Namespace = om_Namespace (vpc_meta vpc), vr_Name = om_Name (vpc_meta vpc) \<rparr>
      then ids @ [\<lparr> pp_UID = om_UID (port_meta port), pp_IP = pts_IP (port_Spec port) \<rparr>] else ids)"

definition current_agent :: "DaemonSet \<Rightarrow> Pod \<Rightarrow> bool" where
  "current_agent ds pod \<longleftrightarrow> \<not> (om_Deleting (pod_meta pod) \<or>
     \<not> (\<exists>ref \<in> set (pod_Owners pod). or_UID ref = ds_UID ds \<and> or_Kind ref = ''DaemonSet'' \<and> or_Controller ref = Some True))"

definition agent_ready :: "Pod \<Rightarrow> bool" where
  "agent_ready pod \<longleftrightarrow> \<not> (pod_NodeName pod = [] \<or> pod_Phase pod \<noteq> ''Running'' \<or> (''Ready'', ''True'') \<notin> set (pod_Conditions pod))"

definition acknowledges :: "VPC \<Rightarrow> VPCBoundary \<Rightarrow> string \<Rightarrow> Pod \<Rightarrow> VPCBoundaryNode \<Rightarrow> bool" where
  "acknowledges vpc b digest pod ack \<longleftrightarrow> bn_Node ack = pod_NodeName pod \<and> bn_AgentUID ack = om_UID (pod_meta pod) \<and>
     bn_Revision ack = b_Revision b \<and> bn_ObservedGeneration ack = om_Generation (vpc_meta vpc) \<and> bn_PrimaryPortsDigest ack = digest"

record agent_scan =
  as_policy :: bool
  as_transport :: bool
  as_nodes :: "string set"
  as_agents :: "string \<rightharpoonup> string"

definition scan_pod :: "DaemonSet \<Rightarrow> VPC \<Rightarrow> VPCBoundary \<Rightarrow> string \<Rightarrow> Pod \<Rightarrow> agent_scan \<Rightarrow> agent_scan" where
  "scan_pod ds vpc b digest pod s =
     (if \<not> current_agent ds pod then s
      else let s = s \<lparr> as_agents := (as_agents s)(pod_NodeName pod \<mapsto> om_UID (pod_meta pod)) \<rparr>
      in if \<not> agent_ready pod then s \<lparr> as_policy := False, as_transport := False \<rparr>
         else let s = s \<lparr> as_nodes := insert (pod_NodeName pod) (as_nodes s) \<rparr>
         in case find (acknowledges vpc b digest pod) (vst_BoundaryNodes (vpc_Status vpc)) of
              None \<Rightarrow> s \<lparr> as_policy := False, as_transport := False \<rparr>
            | Some ack \<Rightarrow> if \<not> bn_TransportReady ack then s \<lparr> as_transport := False \<rparr> else s)"

definition scan_pods :: "DaemonSet \<Rightarrow> VPC \<Rightarrow> VPCBoundary \<Rightarrow> string \<Rightarrow> Pod list \<Rightarrow> agent_scan" where
  "scan_pods ds vpc b digest pods =
     fold (scan_pod ds vpc b digest) pods \<lparr> as_policy = True, as_transport = True, as_nodes = {}, as_agents = Map.empty \<rparr>"

text \<open>An acknowledgement stays when it is of the agent that its node has now; a node without an agent compares as the empty UID.\<close>

definition keep_ack :: "agent_scan \<Rightarrow> VPCBoundaryNode \<Rightarrow> bool" where
  "keep_ack s ack \<longleftrightarrow> (case as_agents s (bn_Node ack) of Some uid \<Rightarrow> uid | None \<Rightarrow> []) = bn_AgentUID ack"

text \<open>The two verdicts and the acknowledgements that remain.\<close>

type_synonym verdict = "bool \<times> bool \<times> VPCBoundaryNode list"

definition agents_verdict :: "DaemonSet \<Rightarrow> VPC \<Rightarrow> VPCBoundary \<Rightarrow> string \<Rightarrow> Pod list \<Rightarrow> verdict" where
  "agents_verdict ds vpc b digest pods =
     (let s = scan_pods ds vpc b digest pods; acks = filter (keep_ack s) (vst_BoundaryNodes (vpc_Status vpc))
      in if int (card (as_nodes s)) \<noteq> ds_DesiredNumberScheduled ds then (False, False, acks)
         else (as_policy s, as_transport s, acks))"

definition agents_applied :: "machinery \<Rightarrow> (string \<Rightarrow> u8 list) \<Rightarrow> 'w vpc_api \<Rightarrow> VPC \<Rightarrow> VPCBoundary \<Rightarrow> DaemonSet \<Rightarrow> ('w, verdict) api_call" where
  "agents_applied k sha api vpc b ds =
     andThen (WalkClaims (va_ctx (vc_vni api)) (va_ports (vc_vni api)) (collect_primary vpc) []) (\<lambda>ids.
       case LabelSelectorAsSelector k (ds_Selector ds) of
         None \<Rightarrow> fail SelectorInvalid
       | Some selector \<Rightarrow> andThen (vc_agent_pods api selector) (\<lambda>pods. give (agents_verdict ds vpc b (Digest sha ids) pods)))"

definition boundaryApplied :: "machinery \<Rightarrow> (string \<Rightarrow> u8 list) \<Rightarrow> string \<Rightarrow> 'w vpc_api \<Rightarrow> VPC \<Rightarrow> VPCBoundary \<Rightarrow> ('w, verdict) api_call" where
  "boundaryApplied k sha agentNamespace api vpc b =
     (let pending = (False, False, vst_BoundaryNodes (vpc_Status vpc))
      in if agentNamespace = [] then give pending
      else handle (vc_daemonset api) (\<lambda>r. case r of
        Inl e \<Rightarrow> if e = NotFound then give pending else fail e
      | Inr ds \<Rightarrow> if ds_DesiredNumberScheduled ds < 1 then give pending else agents_applied k sha api vpc b ds))"

section \<open>The reconciler\<close>

definition next_vni :: "'w vpc_api \<Rightarrow> VPC \<Rightarrow> ('w, int) api_call" where
  "next_vni api vpc =
     (if \<not> ValidVNI (vst_VNI (vpc_Status vpc)) then allocateVNI (vc_vni api)
      else andThen (lostVNIToDuplicate (vc_vni api) vpc) (\<lambda>lost.
        if lost then allocateVNI (vc_vni api) else give (vst_VNI (vpc_Status vpc))))"

definition boundary_condition :: "VPC \<Rightarrow> string \<Rightarrow> bool \<Rightarrow> Condition" where
  "boundary_condition vpc kind ready =
     (let reason = if ready then ''AllAgentsApplied'' else ''AgentsPending''
      in \<lparr> cond_Type = kind, cond_Status = if ready then ''True'' else ''False'',
           cond_ObservedGeneration = om_Generation (vpc_meta vpc), cond_Reason = reason, cond_Message = reason \<rparr>)"

definition boundary_report :: "set_condition \<Rightarrow> VPC \<Rightarrow> verdict \<Rightarrow> VPCStatus \<Rightarrow> VPCStatus" where
  "boundary_report setc vpc = (\<lambda>(policy, transport, acks) st. st \<lparr> vst_BoundaryNodes := acks,
     vst_Conditions := setc (setc (vst_Conditions st) (boundary_condition vpc ''BoundaryReady'' policy))
       (boundary_condition vpc ''BoundaryTransportReady'' transport) \<rparr>)"

definition next_status :: "machinery \<Rightarrow> (string \<Rightarrow> u8 list) \<Rightarrow> set_condition \<Rightarrow> string \<Rightarrow> 'w vpc_api \<Rightarrow> VPC \<Rightarrow> ('w, VPCStatus) api_call" where
  "next_status k sha setc agentNamespace api vpc = andThen (next_vni api vpc) (\<lambda>vni.
     let st = (vpc_Status vpc) \<lparr> vst_VNI := vni, vst_Phase := ''Ready'' \<rparr>
     in case vs_Boundary (vpc_Spec vpc) of
       None \<Rightarrow> give st
     | Some b \<Rightarrow> andThen (boundaryApplied k sha agentNamespace api vpc b) (\<lambda>r. give (boundary_report setc vpc r st)))"

definition vpc_Reconcile :: "machinery \<Rightarrow> (string \<Rightarrow> u8 list) \<Rightarrow> set_condition \<Rightarrow> string \<Rightarrow> 'w vpc_api \<Rightarrow> object_key \<Rightarrow> ('w, ctrl_result) api_call" where
  "vpc_Reconcile k sha setc agentNamespace api req = handle (vc_get api req) (\<lambda>r. case r of
     Inl e \<Rightarrow> if e = NotFound then give Done else fail e
   | Inr vpc \<Rightarrow>
       if om_Deleting (vpc_meta vpc) then give Done
       else andThen (next_status k sha setc agentNamespace api vpc) (\<lambda>st.
         let result = (if vs_Boundary (vpc_Spec vpc) \<noteq> None then RequeueAfter 5 else Done)
         in if vpc_Status vpc = st then give result
            else handle (vc_update_status api (vpc \<lparr> vpc_Status := st \<rparr>)) (\<lambda>u. case u of
                Inl e \<Rightarrow> if e = WriteConflict then give Requeue else fail e
              | Inr _ \<Rightarrow> give result)))"

end
