(* ===== verification/BoundaryReady.thy ===== *)
theory BoundaryReady
  imports VpcController VniReference
begin

text \<open>
  What the report \<^verbatim>\<open>BoundaryReady\<close> means: every agent that the cluster schedules has acknowledged this revision of the boundary
  for the primary Ports that the VPC has.
\<close>

section \<open>The scan over the agents\<close>

definition primary_ports :: "VPC \<Rightarrow> Port list \<Rightarrow> PrimaryPort list" where
  "primary_ports vpc ports = map (\<lambda>p. \<lparr> pp_UID = om_UID (port_meta p), pp_IP = pts_IP (port_Spec p) \<rparr>)
     (filter (\<lambda>p. pts_Primary (port_Spec p) \<and> pts_VPCRef (port_Spec p) = \<lparr> vr_Namespace = om_Namespace (vpc_meta vpc), vr_Name = om_Name (vpc_meta vpc) \<rparr>) ports)"

lemma fold_collect_primary: "fold (collect_primary vpc) ports ids = ids @ primary_ports vpc ports"
  by (induction ports arbitrary: ids) (simp_all add: collect_primary_def primary_ports_def)

definition acknowledged :: "VPC \<Rightarrow> VPCBoundary \<Rightarrow> string \<Rightarrow> Pod \<Rightarrow> bool" where
  "acknowledged vpc b digest pod \<longleftrightarrow> (\<exists>ack \<in> set (vst_BoundaryNodes (vpc_Status vpc)). acknowledges vpc b digest pod ack)"

lemma find_ack: "find (acknowledges vpc b digest pod) (vst_BoundaryNodes (vpc_Status vpc)) = None \<longleftrightarrow> \<not> acknowledged vpc b digest pod"
  by (auto simp: acknowledged_def find_None_iff)

lemma fold_scan_pods:
  "as_policy (fold (scan_pod ds vpc b digest) pods s) \<longleftrightarrow>
     as_policy s \<and> (\<forall>pod \<in> set pods. \<not> current_agent ds pod \<or> agent_ready pod \<and> acknowledged vpc b digest pod)"
  "as_nodes (fold (scan_pod ds vpc b digest) pods s) =
     as_nodes s \<union> pod_NodeName ` {pod \<in> set pods. current_agent ds pod \<and> agent_ready pod}"
proof -
  have policy: "as_policy (scan_pod ds vpc b digest pod s) \<longleftrightarrow> as_policy s \<and> (\<not> current_agent ds pod \<or> agent_ready pod \<and> acknowledged vpc b digest pod)"
    for pod s using find_ack [of vpc b digest pod] unfolding scan_pod_def Let_def by (auto split: option.split)
  have nodes: "as_nodes (scan_pod ds vpc b digest pod s) = (if current_agent ds pod \<and> agent_ready pod then insert (pod_NodeName pod) (as_nodes s) else as_nodes s)"
    for pod s unfolding scan_pod_def Let_def by (auto split: option.split)
  show "as_policy (fold (scan_pod ds vpc b digest) pods s) \<longleftrightarrow>
     as_policy s \<and> (\<forall>pod \<in> set pods. \<not> current_agent ds pod \<or> agent_ready pod \<and> acknowledged vpc b digest pod)"
    by (induction pods arbitrary: s) (auto simp: policy)
  show "as_nodes (fold (scan_pod ds vpc b digest) pods s) =
     as_nodes s \<union> pod_NodeName ` {pod \<in> set pods. current_agent ds pod \<and> agent_ready pod}"
    by (induction pods arbitrary: s) (auto simp: nodes)
qed

text \<open>The evidence behind a positive verdict.\<close>

definition all_applied :: "DaemonSet \<Rightarrow> Pod list \<Rightarrow> VPC \<Rightarrow> VPCBoundary \<Rightarrow> string \<Rightarrow> bool" where
  "all_applied ds pods vpc b digest \<longleftrightarrow> 0 < ds_DesiredNumberScheduled ds \<and>
     int (card (pod_NodeName ` {pod \<in> set pods. current_agent ds pod})) = ds_DesiredNumberScheduled ds \<and>
     (\<forall>pod \<in> set pods. \<not> current_agent ds pod \<or> agent_ready pod \<and> acknowledged vpc b digest pod)"

lemma scan_pods_applied:
  assumes "as_policy (scan_pods ds vpc b digest pods)" "int (card (as_nodes (scan_pods ds vpc b digest pods))) = ds_DesiredNumberScheduled ds"
    "1 \<le> ds_DesiredNumberScheduled ds"
  shows "all_applied ds pods vpc b digest"
proof -
  have each: "\<forall>pod \<in> set pods. \<not> current_agent ds pod \<or> agent_ready pod \<and> acknowledged vpc b digest pod"
    using assms(1) unfolding scan_pods_def fold_scan_pods(1) by simp
  then have "{pod \<in> set pods. current_agent ds pod \<and> agent_ready pod} = {pod \<in> set pods. current_agent ds pod}" by blast
  then have "as_nodes (scan_pods ds vpc b digest pods) = pod_NodeName ` {pod \<in> set pods. current_agent ds pod}"
    unfolding scan_pods_def fold_scan_pods(2) by simp
  then show ?thesis using assms(2,3) each by (simp add: all_applied_def)
qed

definition boundary_evidence :: "(string \<Rightarrow> u8 list) \<Rightarrow> 'w vpc_api \<Rightarrow> ('w \<Rightarrow> Port list) \<Rightarrow> VPC \<Rightarrow> VPCBoundary \<Rightarrow> bool" where
  "boundary_evidence sha api ports vpc b \<longleftrightarrow> (\<exists>ds pods x u u' selector v v'. vc_daemonset api u = (Inr ds, u') \<and>
     vc_agent_pods api selector v = (Inr pods, v') \<and> all_applied ds pods vpc b (Digest sha (primary_ports vpc (ports x))))"

lemma boundaryApplied_evidence:
  assumes "paged_list env (va_ctx (vc_vni api)) (va_ports (vc_vni api)) ports rest"
    and "boundaryApplied k sha ns api vpc b w = (Inr (True, transport, acks), w')"
  shows "boundary_evidence sha api ports vpc b"
proof -
  obtain ds u where ds: "vc_daemonset api w = (Inr ds, u)" "1 \<le> ds_DesiredNumberScheduled ds"
    and run: "agents_applied k sha api vpc b ds u = (Inr (True, transport, acks), w')"
    using assms(2) by (auto simp: boundaryApplied_def Let_def handle_def give_def fail_def split: if_splits prod.splits sum.splits)
  obtain ids v where walk: "WalkClaims (va_ctx (vc_vni api)) (va_ports (vc_vni api)) (collect_primary vpc) [] u = (Inr ids, v)"
    and tail: "(case LabelSelectorAsSelector k (ds_Selector ds) of None \<Rightarrow> fail SelectorInvalid
      | Some selector \<Rightarrow> andThen (vc_agent_pods api selector) (\<lambda>pods. give (agents_verdict ds vpc b (Digest sha ids) pods))) v = (Inr (True, transport, acks), w')"
    using run unfolding agents_applied_def andThen_ok by (elim exE conjE)
  obtain selector pods v' where pods: "vc_agent_pods api selector v = (Inr pods, v')"
    and verdict: "agents_verdict ds vpc b (Digest sha ids) pods = (True, transport, acks)"
    using tail by (cases "LabelSelectorAsSelector k (ds_Selector ds)") (auto simp: call_ok)
  obtain x where "ids = primary_ports vpc (ports x)"
    using paged_list.WalkClaims_snapshot [OF assms(1) walk] by (auto simp: fold_collect_primary)
  moreover have "all_applied ds pods vpc b (Digest sha ids)"
    by (rule scan_pods_applied) (use verdict ds(2) in \<open>auto simp: agents_verdict_def Let_def split: if_splits\<close>)
  ultimately show ?thesis unfolding boundary_evidence_def using ds(1) pods by blast
qed

section \<open>Conditions and the store\<close>

definition condition_status :: "string \<Rightarrow> Condition list \<Rightarrow> string option" where
  "condition_status kind cs = map_option cond_Status (find (\<lambda>c. cond_Type c = kind) cs)"

text \<open>\<^verbatim>\<open>meta.SetStatusCondition\<close> sets the condition of that type and leaves the others.\<close>

locale condition_list =
  fixes setc :: set_condition
  assumes set_own: "condition_status (cond_Type c) (setc cs c) = Some (cond_Status c)"
    and set_other: "kind \<noteq> cond_Type c \<Longrightarrow> condition_status kind (setc cs c) = condition_status kind cs"
begin

lemma report_ready:
  "condition_status ''BoundaryReady'' (vst_Conditions (boundary_report setc vpc (policy, transport, acks) st)) = Some (if policy then ''True'' else ''False'')"
  using set_own [of "boundary_condition vpc ''BoundaryReady'' policy" "vst_Conditions st"]
    set_other [of "''BoundaryReady''" "boundary_condition vpc ''BoundaryTransportReady'' transport"]
  by (simp add: boundary_report_def boundary_condition_def Let_def)

end

text \<open>A read returns the stored VPC, and a successful status write stores what it was given.\<close>

locale vpc_store =
  fixes api :: "'w vpc_api" and stored :: "'w \<Rightarrow> object_key \<Rightarrow> VPC option"
  assumes get_stored: "vc_get api req w = (Inr vpc, u) \<Longrightarrow> stored u req = Some vpc"
    and update_stored: "vc_get api req w = (Inr vpc, u) \<Longrightarrow> vc_update_status api (vpc \<lparr> vpc_Status := st \<rparr>) v = (Inr (), v') \<Longrightarrow>
      stored v' req = Some (vpc \<lparr> vpc_Status := st \<rparr>)"
begin

lemma Reconcile_stores:
  assumes "vpc_Reconcile k sha setc ns api req w = (Inr (RequeueAfter n), w')"
  shows "\<exists>vpc u st v b. vc_get api req w = (Inr vpc, u) \<and> vs_Boundary (vpc_Spec vpc) = Some b \<and> next_status k sha setc ns api vpc u = (Inr st, v) \<and>
    (stored u req = Some (vpc \<lparr> vpc_Status := st \<rparr>) \<or> stored w' req = Some (vpc \<lparr> vpc_Status := st \<rparr>))"
proof -
  obtain r u where r: "vc_get api req w = (r, u)" by force
  obtain vpc where vpc: "r = Inr vpc" "\<not> om_Deleting (vpc_meta vpc)"
    using assms r by (cases r) (auto simp: vpc_Reconcile_def handle_def give_def fail_def split: if_splits)
  obtain st v where st: "next_status k sha setc ns api vpc u = (Inr st, v)"
    and tail: "(let result = (if vs_Boundary (vpc_Spec vpc) \<noteq> None then RequeueAfter 5 else Done)
         in if vpc_Status vpc = st then give result
            else handle (vc_update_status api (vpc \<lparr> vpc_Status := st \<rparr>)) (\<lambda>u. case u of
                Inl e \<Rightarrow> if e = WriteConflict then give Requeue else fail e
              | Inr _ \<Rightarrow> give result)) v = (Inr (RequeueAfter n), w')"
    using assms r vpc unfolding vpc_Reconcile_def by (auto simp: handle_def [of "vc_get api req"] andThen_ok)
  have b: "\<exists>b. vs_Boundary (vpc_Spec vpc) = Some b"
    using tail by (auto simp: Let_def handle_def give_def fail_def split: if_splits prod.splits sum.splits)
  have "stored u req = Some (vpc \<lparr> vpc_Status := st \<rparr>) \<or> stored w' req = Some (vpc \<lparr> vpc_Status := st \<rparr>)"
  proof (cases "vpc_Status vpc = st")
    case True
    then have "vpc \<lparr> vpc_Status := st \<rparr> = vpc" by (metis VPC.surjective VPC.update_convs(3))
    then show ?thesis using get_stored r vpc(1) by simp
  next
    case False
    obtain x y where x: "vc_update_status api (vpc \<lparr> vpc_Status := st \<rparr>) v = (x, y)" by force
    have "x = Inr () \<and> y = w'" using tail False x b
      by (auto simp: Let_def handle_def give_def fail_def split: sum.splits if_splits)
    then show ?thesis using update_stored r vpc(1) x by blast
  qed
  then show ?thesis using r vpc(1) b st by blast
qed

end

lemma next_status_evidence:
  assumes "condition_list setc" "paged_list env (va_ctx (vc_vni api)) (va_ports (vc_vni api)) ports rest"
    "next_status k sha setc ns api vpc u = (Inr st, v)" "vs_Boundary (vpc_Spec vpc) = Some b"
    "condition_status ''BoundaryReady'' (vst_Conditions st) = Some ''True''"
  shows "boundary_evidence sha api ports vpc b"
proof -
  obtain vni x policy transport acks y where
    run: "boundaryApplied k sha ns api vpc b x = (Inr (policy, transport, acks), y)"
    and st: "st = boundary_report setc vpc (policy, transport, acks) ((vpc_Status vpc) \<lparr> vst_VNI := vni, vst_Phase := ''Ready'' \<rparr>)"
    using assms(3,4) unfolding next_status_def by (auto simp: Let_def andThen_ok give_def)
  have policy using assms(5) condition_list.report_ready [OF assms(1)] unfolding st by (simp split: if_splits)
  then show ?thesis using boundaryApplied_evidence [OF assms(2)] run by simp
qed

end
