(* ===== verification/BoundaryReference.thy ===== *)
theory BoundaryReference
  imports BoundaryReady VpcRegistry SgPolicy
begin

text \<open>
  An API server for the VPC controller on top of the server of the number allocator, and the meaning of a reported
  boundary.
\<close>

section \<open>The server\<close>

definition vpc_object_key :: "VPC \<Rightarrow> object_key" where
  "vpc_object_key v = (om_Namespace (vpc_meta v), om_Name (vpc_meta v))"

lemma vpc_object_key_status [simp]: "vpc_object_key (v \<lparr> vpc_Status := st \<rparr>) = vpc_object_key v"
  unfolding vpc_object_key_def by simp

definition vpc_at :: "vni_world \<Rightarrow> object_key \<Rightarrow> VPC option" where
  "vpc_at w req = find (\<lambda>v. vpc_object_key v = req) (nw_vpcs w)"

definition vpc_reference :: "DaemonSet \<Rightarrow> Pod list \<Rightarrow> vni_world vpc_api" where
  "vpc_reference ds pods = \<lparr> vc_vni = vni_reference,
     vc_get = (\<lambda>req w. (case vpc_at w req of Some v \<Rightarrow> Inr v | None \<Rightarrow> Inl NotFound, w)),
     vc_daemonset = give ds,
     vc_agent_pods = (\<lambda>selector. give (filter (\<lambda>p. selector (om_Labels (pod_meta p))) pods)),
     vc_update_status = (\<lambda>v w. (Inr (), w \<lparr> nw_vpcs := v # filter (\<lambda>u. vpc_object_key u \<noteq> vpc_object_key v) (nw_vpcs w) \<rparr>)) \<rparr>"

interpretation vpcs: vpc_store "vpc_reference ds pods" vpc_at for ds :: DaemonSet and pods :: "Pod list"
proof
  fix req w vpc u
  assume get: "vc_get (vpc_reference ds pods) req w = (Inr vpc, u)"
  then show "vpc_at u req = Some vpc" by (auto simp: vpc_reference_def split: option.splits)
  then have "vpc_object_key vpc = req" by (auto simp: vpc_at_def find_Some_iff)
  then have "vpc_object_key (vpc \<lparr> vpc_Status := st \<rparr>) = req" for st by (simp add: vpc_key_def)
  then show "vpc_at v' req = Some (vpc \<lparr> vpc_Status := st \<rparr>)"
    if "vc_update_status (vpc_reference ds pods) (vpc \<lparr> vpc_Status := st \<rparr>) v = (Inr (), v')" for st v v'
    using that by (auto simp: vpc_reference_def vpc_at_def)
qed

text \<open>Conditions as a list with one entry per type.\<close>

fun put_condition :: set_condition where
  "put_condition [] c = [c]"
| "put_condition (d # ds) c = (if cond_Type d = cond_Type c then c # ds else d # put_condition ds c)"

interpretation conditions: condition_list put_condition
proof
  show "condition_status (cond_Type c) (put_condition cs c) = Some (cond_Status c)" for c cs
    by (induction cs c rule: put_condition.induct) (auto simp: condition_status_def)
  show "condition_status kind (put_condition cs c) = condition_status kind cs" if "kind \<noteq> cond_Type c" for kind cs c
    using that by (induction cs c rule: put_condition.induct) (auto simp: condition_status_def)
qed

section \<open>Properties\<close>


text \<open>One agent on one node that has acknowledged revision 1, and a VPC without primary Ports whose status says so already.\<close>

definition zero_sha :: "string \<Rightarrow> u8 list" where
  "zero_sha s = replicate 32 0"

definition agent_set :: DaemonSet where
  "agent_set = \<lparr> ds_UID = ''ds'', ds_Selector = \<lparr> ls_MatchLabels = [], ls_MatchExpressions = [] \<rparr>, ds_DesiredNumberScheduled = 1 \<rparr>"

definition agent_pod :: Pod where
  "agent_pod = \<lparr> pod_meta = meta_example \<lparr> om_UID := ''a1'' \<rparr>,
     pod_Owners = [\<lparr> or_APIVersion = ''apps/v1'', or_Kind = ''DaemonSet'', or_Name = ''cozyplane-agent'', or_UID = ''ds'', or_Controller = Some True,
       or_BlockOwnerDeletion = None \<rparr>],
     pod_NodeName = ''n1'', pod_Phase = ''Running'', pod_Conditions = [(''Ready'', ''True'')] \<rparr>"

definition agent_ack :: VPCBoundaryNode where
  "agent_ack = \<lparr> bn_Node = ''n1'', bn_AgentUID = ''a1'', bn_Revision = 1, bn_ObservedGeneration = 0, bn_PrimaryPortsDigest = Digest zero_sha [],
     bn_TransportReady = True \<rparr>"

definition ready_vpc :: VPC where
  "ready_vpc = (vpc_example (Some (boundary_example 1))) \<lparr> vpc_Status := \<lparr> vst_VNI = 100, vst_Phase = ''Ready'',
     vst_Conditions = [boundary_condition (vpc_example None) ''BoundaryReady'' True, boundary_condition (vpc_example None) ''BoundaryTransportReady'' True],
     vst_BoundaryNodes = [agent_ack] \<rparr> \<rparr>"

definition ready_world :: vni_world where
  "ready_world = \<lparr> nw_script = [], nw_lease = None, nw_issued = [], nw_vpcs = [ready_vpc], nw_ports = [], nw_vips = [] \<rparr>"

lemma quiet_world: "nw_script w = [] \<Longrightarrow> foreign w = w"
  by (simp add: foreign_def)

lemma one_page_walk:
  assumes "nw_script w = []" "length (items w) \<le> ClaimPageSize"
  shows "WalkClaims (va_ctx vni_reference) (one_page items) visit s w = (Inr (fold visit (items w) s), w)"
proof -
  have pages: "maxClaimPages = Suc 511" by (simp add: maxClaimPages_def MaxClaimScan_def ClaimPageSize_def)
  have ctx: "va_ctx vni_reference w = (Inr (), w)" using quiet_world [OF assms(1)] by (simp add: vni_reference_def)
  have items: "visit_items (va_ctx vni_reference) visit xs s w = (Inr (fold visit xs s), w)" for xs s
    by (induction xs arbitrary: s) (auto simp: andThen_def ctx give_def)
  have page: "one_page items ClaimPageSize [] w = (Inr (items w, []), w)" using assms quiet_world by (simp add: one_page_def Let_def)
  show ?thesis unfolding WalkClaims_def pages walk_pages.simps
    using assms(2) by (simp add: andThen_def ctx items page [unfolded ClaimPageSize_def] give_def MaxClaimScan_def ClaimPageSize_def)
qed

lemma reference_lists: "va_vpcs vni_reference = one_page nw_vpcs" "va_ports vni_reference = one_page nw_ports"
  by (simp_all add: vni_reference_def)

lemma ready_pages: "nw_script ready_world = []" "nw_vpcs ready_world = [ready_vpc]" "nw_ports ready_world = []"
  "length (nw_vpcs ready_world) \<le> ClaimPageSize" "length (nw_ports ready_world) \<le> ClaimPageSize"
  by (simp_all add: ready_world_def ClaimPageSize_def)

lemma ready_fields:
  "vpc_object_key ready_vpc = (''tenant'', ''net'')" "\<not> om_Deleting (vpc_meta ready_vpc)" "om_Generation (vpc_meta ready_vpc) = 0"
  "vs_Boundary (vpc_Spec ready_vpc) = Some (boundary_example 1)" "vst_VNI (vpc_Status ready_vpc) = 100" "vst_BoundaryNodes (vpc_Status ready_vpc) = [agent_ack]"
  by (simp_all add: ready_vpc_def vpc_example_def meta_example_def vpc_object_key_def)

lemma ready_number: "next_vni (vpc_reference agent_set [agent_pod]) ready_vpc ready_world = (Inr 100, ready_world)"
proof -
  have "lostVNIToDuplicate vni_reference ready_vpc ready_world = (Inr False, ready_world)"
    unfolding lostVNIToDuplicate_def reference_lists one_page_walk [of ready_world nw_vpcs, OF ready_pages(1,4)] by (simp add: ready_pages(2))
  then show ?thesis by (simp add: next_vni_def ready_fields ValidVNI_def FirstVNI_def LastVNI_def andThen_def give_def vpc_reference_def)
qed

lemma ready_verdict: "agents_verdict agent_set ready_vpc (boundary_example 1) (Digest zero_sha []) [agent_pod] = (True, True, [agent_ack])"
proof -
  have agent: "current_agent agent_set agent_pod" "agent_ready agent_pod" by (simp_all add: current_agent_def agent_ready_def agent_pod_def agent_set_def meta_example_def)
  have ack: "acknowledges ready_vpc (boundary_example 1) (Digest zero_sha []) agent_pod agent_ack"
    by (simp add: acknowledges_def agent_ack_def agent_pod_def boundary_example_def ready_fields)
  show ?thesis using agent ack
    by (simp add: agents_verdict_def scan_pods_def scan_pod_def Let_def ready_fields keep_ack_def agent_set_def)
      (simp add: agent_ack_def agent_pod_def)
qed

lemma ready_applied: "boundaryApplied any_names zero_sha ''kube-system'' (vpc_reference agent_set [agent_pod]) ready_vpc (boundary_example 1) ready_world =
   (Inr (True, True, [agent_ack]), ready_world)"
proof -
  have "WalkClaims (va_ctx vni_reference) (va_ports vni_reference) (collect_primary ready_vpc) [] ready_world = (Inr [], ready_world)"
    unfolding reference_lists one_page_walk [of ready_world nw_ports, OF ready_pages(1,5)] by (simp add: ready_pages(3))
  then have "agents_applied any_names zero_sha (vpc_reference agent_set [agent_pod]) ready_vpc (boundary_example 1) agent_set ready_world =
      (Inr (True, True, [agent_ack]), ready_world)"
    using ready_verdict by (simp add: agents_applied_def andThen_def vpc_reference_def any_names_def give_def)
  moreover have "vc_daemonset (vpc_reference agent_set [agent_pod]) ready_world = (Inr agent_set, ready_world)" by (simp add: vpc_reference_def give_def)
  moreover have "\<not> ds_DesiredNumberScheduled agent_set < 1" by (simp add: agent_set_def)
  ultimately show ?thesis by (simp add: boundaryApplied_def handle_def Let_def)
qed

lemma ready_status: "next_status any_names zero_sha put_condition ''kube-system'' (vpc_reference agent_set [agent_pod]) ready_vpc ready_world =
   (Inr (vpc_Status ready_vpc), ready_world)"
proof -
  have "boundary_report put_condition ready_vpc (True, True, [agent_ack]) ((vpc_Status ready_vpc) \<lparr> vst_VNI := 100, vst_Phase := ''Ready'' \<rparr>) = vpc_Status ready_vpc"
    by (simp add: boundary_report_def ready_vpc_def boundary_condition_def vpc_example_def Let_def)
  then show ?thesis using ready_number ready_applied by (simp add: next_status_def andThen_def ready_fields give_def)
qed


end
