(* ===== verification/Spec2Isabelle.thy ===== *)
theory Spec2Isabelle
  imports Cidr NpReference SgLimits HfBootstrap HfPolicy VpcRegistry ClaimReference VniReference SgNumbering MembershipReference BoundaryReference
begin

text \<open>
  A verification of cozyplane, a multi-tenant container network for Kubernetes. This theory collects the library; the
  paths below are relative to src/.

  \<^bold>\<open>The program.\<close> Users write API objects. The extension API server validates and stores them (pkg/registry/sdn).
  Controllers (internal/controller/sdn) give networks and groups their numbers and report their state. The agent of each
  node (cmd/agent) compiles policies into rows. The datapath package (datapath) writes the rows into kernel maps, and the
  packet programs (bpf/overlay.c) decide every packet from these maps.

  \<^bold>\<open>Go, Kubernetes and the kernel.\<close> \<^verbatim>\<open>Prelude\<close> has the machine integers and shared lemmas, \<^verbatim>\<open>GoStd\<close> the string, number and
  sorting functions of Go's library, \<^verbatim>\<open>Netip\<close> the packages net/netip and net, \<^verbatim>\<open>Json\<close> the JSON codec of maps of strings.
  \<^verbatim>\<open>KernelMap\<close> models a kernel map as operations on an arbitrary kernel state, any of which may fail; the locale \<^verbatim>\<open>ebpf_map\<close> has
  the laws the code relies on and an association list is the reference kernel. \<^verbatim>\<open>Lpm\<close> and \<^verbatim>\<open>CidrTable\<close> are the contract of
  longest-prefix tries and of tables keyed by a CIDR. \<^verbatim>\<open>ApiTypes\<close> and \<^verbatim>\<open>CoreObjects\<close> are the API objects, \<^verbatim>\<open>ApiStrategy\<close> the way the
  API server drives a strategy: the inductive \<^verbatim>\<open>history\<close> of any requests to it, and the locale \<^verbatim>\<open>resource_strategy\<close>. \<^verbatim>\<open>ClaimWalk\<close> has
  the calls of a controller to the API server, which fail or succeed and between which others write (locale \<^verbatim>\<open>interference\<close>).

  \<^bold>\<open>NetworkPolicy.\<close> \<^verbatim>\<open>NpCompile\<close> is compileNetworkPolicies with its identities, peers, ports, ipBlocks and budgets and the body
  of resync (cmd/agent/networkpolicy.go, policy_limits.go). \<^verbatim>\<open>NpPorts\<close> and \<^verbatim>\<open>NpDatapath\<close> are ApplyNetworkPolicy and the packet
  decisions np_ingress and np_egress. \<^verbatim>\<open>NpRows\<close> gives the rows of a compilation as sets, \<^verbatim>\<open>NpPolicy\<close> the meaning of the objects for
  a packet, \<^verbatim>\<open>NpIdentity\<close> that identities are exact, \<^verbatim>\<open>NpEnforced\<close> that rows and objects agree. \<^verbatim>\<open>NpReference\<close> composes them: after an
  error-free resync the packet program decides as the objects say; ipBlocks admit no more than the API says; two theorems show
  where the code differs from its documentation.

  \<^bold>\<open>Security groups.\<close> \<^verbatim>\<open>SgRegistry\<close> is admission, \<^verbatim>\<open>SgController\<close> and \<^verbatim>\<open>SgNumbering\<close> the numbering controller and its convergence,
  \<^verbatim>\<open>PodLabels\<close>, \<^verbatim>\<open>PortMembership\<close>, \<^verbatim>\<open>MembershipExact\<close>, \<^verbatim>\<open>MembershipServer\<close> and \<^verbatim>\<open>MembershipReference\<close> the way from pod labels to the
  membership bitmap, \<^verbatim>\<open>SgCompile\<close> and \<^verbatim>\<open>SgMembership\<close> the agent's compilation (cmd/agent/main.go, securitygroup_members.go,
  internal/sgidentity), \<^verbatim>\<open>SgUnion\<close>, \<^verbatim>\<open>SgDatapath\<close> and \<^verbatim>\<open>SgApply\<close> the writer and the four packet decisions, \<^verbatim>\<open>SgPolicy\<close> the composition
  from objects to packets, \<^verbatim>\<open>SgLimits\<close> that admitted groups compile without loss.

  \<^bold>\<open>Host firewall.\<close> \<^verbatim>\<open>HfRegistry\<close>, \<^verbatim>\<open>HfCompile\<close>, \<^verbatim>\<open>HfDatapath\<close>, \<^verbatim>\<open>HfApply\<close> and \<^verbatim>\<open>HfPolicy\<close> likewise for HostFirewall (datapath/hostfirewall.go,
  cmd/agent/hostfirewall.go); \<^verbatim>\<open>HfBootstrap\<close> is the seeding and arming of the modes at start-up. \<^verbatim>\<open>Packet\<close> is the parsing of frames
  the programs share.

  \<^bold>\<open>Address claims.\<close> \<^verbatim>\<open>Claims\<close> has the names of claims and both parsers, \<^verbatim>\<open>ClaimRegistry\<close> admission of Port and ServiceVIP, \<^verbatim>\<open>ClaimStore\<close>
  the storage with its transaction (pkg/registry/sdn/claim). \<^verbatim>\<open>ClaimSafety\<close> specifies atomic claim steps on a store that remembers its
  revisions, as etcd does, and proves that an address has one holder in every reachable store; \<^verbatim>\<open>ClaimRefine\<close> proves that Create
  refines these steps among any writers (locale \<^verbatim>\<open>etcd_claims\<close>), \<^verbatim>\<open>ClaimReference\<close> interprets the locale and bounds the requests.

  \<^bold>\<open>Networks.\<close> \<^verbatim>\<open>VpcRegistry\<close> is admission of VPC, \<^verbatim>\<open>VniAllocator\<close> and \<^verbatim>\<open>VniReference\<close> the allocation of network numbers, \<^verbatim>\<open>BoundaryDigest\<close>,
  \<^verbatim>\<open>VpcController\<close>, \<^verbatim>\<open>BoundaryReady\<close> and \<^verbatim>\<open>BoundaryReference\<close> the reconciler of VPC and the meaning of its BoundaryReady condition.
  \<^verbatim>\<open>Counters\<close> is the life of the per-VPC counters. \<^verbatim>\<open>Prefix_Space\<close>, \<^verbatim>\<open>Cidr\<close> and \<^verbatim>\<open>DpAddr\<close> are prefixes, the overlap test and address keys.

  \<^bold>\<open>Conventions.\<close> A struct is a record with its fields under a short prefix; an error is the left value of a sum or an option;
  a call that changes the kernel, the store or the cluster takes and returns it. API integers are int, where the code bounds
  them; u8 to u128 are words that wrap. A Go map is a partial function, or a list of its entries where the code ranges over it,
  and the order of a range is a parameter (\<^verbatim>\<open>range_order\<close>). Warnings and logs carry their constructor, not their text.

  \<^bold>\<open>What is assumed.\<close> Code outside the repository is a parameter: the kernel maps and tries, etcd, the API server and its caches,
  the authorizer, the name validators, label selectors and SetStatusCondition of the Kubernetes libraries, SHA-256. Laws about it are
  the assumptions of a locale or hypotheses of a theorem, each met by a reference instance that the witness uses.

  \<^bold>\<open>Bounds.\<close> The loops of the code are bounded by its own limits and are total functions: 8 attempts of at most 65537 requests of a claim
  Create, 512 pages of a claim scan, 2^20 operations and 65536 rows of a compilation. No fuel is used besides these limits.

  \<^bold>\<open>Not modelled.\<close> Generated clients and conversions; registration, informer and server wiring of the Kubernetes libraries; the
  strategies and reconcilers of the other kinds (floating addresses, bindings, peerings, gateways, VPNs, ServiceVIPs, Port garbage
  collection), which no property here rests on; the CNI plugin, the gateway, VPN and responder processes and the attachment, route and
  service parts of the datapath, which are netlink, process and socket side effects; the forwarding, translation and event parts of
  bpf/overlay.c and the VPN filters, which need the kernel's helpers; the kube-proxy replacement and the charts. Timing, the
  interleaving of goroutines inside one process and the texts of messages are not modelled either.
\<close>

end
